(* ===== verification/Prelude.thy ===== *)
theory Prelude
  imports Main "HOL-Library.Word"
begin

text \<open>
  What the components share: the result of a piece of C code, the C string operations, the
  character classes, and a few lemmas on lists.

  A C function that may end the program, or whose behaviour may be undefined, returns an
  \<open>outcome\<close>: \<open>Ok a\<close> when it returns \<open>a\<close>; \<open>Exit e\<close> when it calls \<open>error (EXIT_FAILURE, \<dots>)\<close>
  or \<open>exit\<close>, with \<open>e\<close> saying which message or status; \<open>Undef\<close> when it dereferences NULL, writes
  outside a buffer or fails an \<open>assert\<close>; \<open>Diverge\<close> when it never returns.
\<close>

named_theorems wf_intros
named_theorems outcome_simps

datatype ('e, 'a) outcome = Ok 'a | Exit 'e | Undef | Diverge

fun obind :: "('e, 'a) outcome \<Rightarrow> ('a \<Rightarrow> ('e, 'b) outcome) \<Rightarrow> ('e, 'b) outcome" where
  "obind (Ok a) f = f a"
| "obind (Exit e) f = Exit e"
| "obind Undef f = Undef"
| "obind Diverge f = Diverge"

lemma obind_eq_Ok: "obind m f = Ok b \<longleftrightarrow> (\<exists>a. m = Ok a \<and> f a = Ok b)"
  by (cases m) auto

lemma obind_eq_Exit:
  "obind m f = Exit e \<longleftrightarrow> m = Exit e \<or> (\<exists>a. m = Ok a \<and> f a = Exit e)"
  by (cases m) auto

lemma obind_eq_Undef: "obind m f = Undef \<longleftrightarrow> m = Undef \<or> (\<exists>a. m = Ok a \<and> f a = Undef)"
  by (cases m) auto

lemma obind_eq_Diverge:
  "obind m f = Diverge \<longleftrightarrow> m = Diverge \<or> (\<exists>a. m = Ok a \<and> f a = Diverge)"
  by (cases m) auto

lemma obind_assoc: "obind (obind m f) g = obind m (\<lambda>a. obind (f a) g)"
  by (cases m) auto

lemma obind_cong [fundef_cong]:
  "m = m' \<Longrightarrow> (\<And>a. m' = Ok a \<Longrightarrow> f a = f' a) \<Longrightarrow> obind m f = obind m' f'"
  by (cases m') auto

lemmas obind_eqs [outcome_simps] = obind_eq_Ok obind_eq_Exit obind_eq_Undef obind_eq_Diverge

text \<open>A list of steps, each from the state the previous one left.\<close>

fun ofold :: "('x \<Rightarrow> 's \<Rightarrow> ('e, 's) outcome) \<Rightarrow> 'x list \<Rightarrow> 's \<Rightarrow> ('e, 's) outcome" where
  "ofold f [] s = Ok s"
| "ofold f (x # xs) s = obind (f x s) (ofold f xs)"

lemma ofold_append: "ofold f (xs @ ys) s = obind (ofold f xs s) (ofold f ys)"
proof (induction xs arbitrary: s)
  case (Cons x xs)
  then have "ofold f (xs @ ys) = (\<lambda>s. obind (ofold f xs s) (ofold f ys))" by (intro ext)
  then show ?case by (simp add: obind_assoc)
qed simp

end
