(* ===== verification/FindDefs.thy ===== *)
theory FindDefs
  imports Prelude "HOL-Library.Monad_Syntax"
begin

text \<open>
  The data of \<open>find\<close> (\<open>find/defs.h\<close>): the kinds of predicates, their precedences and costs, the
  predicate node and the two ways the nodes are linked. The command line is a list of nodes
  linked by \<open>pred_next\<close>, which is a HOL list here; the expression is a tree linked by
  \<open>pred_left\<close> and \<open>pred_right\<close>, which is a \<open>ptree\<close>, with \<open>Null\<close> for the null pointer. No node
  is shared between two places of a tree, so the tree needs no addresses.

  The argument union (\<open>args\<close>) holds NULL or a value of the type \<open>'a\<close>: only the predicates' own
  functions look into it. The C type \<open>float\<close> of \<open>est_success_rate\<close> is the type \<open>'f\<close>, with its
  operations in a record \<open>'f flt\<close>: nothing that is proved depends on how they round.
\<close>

subsection \<open>Enumerations\<close>

datatype predicate_type =
  NO_TYPE | PRIMARY_TYPE | UNI_OP | BI_OP | OPEN_PAREN | CLOSE_PAREN

datatype predicate_precedence =
  NO_PREC | COMMA_PREC | OR_PREC | AND_PREC | NEGATE_PREC | MAX_PREC

datatype EvaluationCost =
  NeedsNothing | NeedsInodeNumber | NeedsType | NeedsStatInfo | NeedsLinkName
| NeedsAccessInfo | NeedsSyncDiskHit | NeedsEventualExec | NeedsImmediateExec
| NeedsUserInteraction | NeedsUnknown

text \<open>C compares the enumerators by their numbers.\<close>

fun prec_num :: "predicate_precedence \<Rightarrow> nat" where
  "prec_num NO_PREC = 0"
| "prec_num COMMA_PREC = 1"
| "prec_num OR_PREC = 2"
| "prec_num AND_PREC = 3"
| "prec_num NEGATE_PREC = 4"
| "prec_num MAX_PREC = 5"

fun cost_num :: "EvaluationCost \<Rightarrow> nat" where
  "cost_num NeedsNothing = 0"
| "cost_num NeedsInodeNumber = 1"
| "cost_num NeedsType = 2"
| "cost_num NeedsStatInfo = 3"
| "cost_num NeedsLinkName = 4"
| "cost_num NeedsAccessInfo = 5"
| "cost_num NeedsSyncDiskHit = 6"
| "cost_num NeedsEventualExec = 7"
| "cost_num NeedsImmediateExec = 8"
| "cost_num NeedsUserInteraction = 9"
| "cost_num NeedsUnknown = 10"

lemma prec_num_inject: "prec_num a = prec_num b \<longleftrightarrow> a = b"
  by (cases a; cases b) simp_all

lemma cost_num_inject: "cost_num a = cost_num b \<longleftrightarrow> a = b"
  by (cases a; cases b) simp_all

instantiation predicate_precedence :: linorder
begin

definition less_eq_predicate_precedence ::
  "predicate_precedence \<Rightarrow> predicate_precedence \<Rightarrow> bool" where
  "less_eq_predicate_precedence a b \<longleftrightarrow> prec_num a \<le> prec_num b"

definition less_predicate_precedence ::
  "predicate_precedence \<Rightarrow> predicate_precedence \<Rightarrow> bool" where
  "less_predicate_precedence a b \<longleftrightarrow> prec_num a < prec_num b"

instance
  by standard
    (auto simp: less_eq_predicate_precedence_def less_predicate_precedence_def
      prec_num_inject [symmetric])

end

instantiation EvaluationCost :: linorder
begin

definition less_eq_EvaluationCost :: "EvaluationCost \<Rightarrow> EvaluationCost \<Rightarrow> bool" where
  "less_eq_EvaluationCost a b \<longleftrightarrow> cost_num a \<le> cost_num b"

definition less_EvaluationCost :: "EvaluationCost \<Rightarrow> EvaluationCost \<Rightarrow> bool" where
  "less_EvaluationCost a b \<longleftrightarrow> cost_num a < cost_num b"

instance
  by standard
    (auto simp: less_eq_EvaluationCost_def less_EvaluationCost_def cost_num_inject [symmetric])

end

lemmas prec_less_simps = less_predicate_precedence_def less_eq_predicate_precedence_def
lemmas cost_less_simps = less_EvaluationCost_def less_eq_EvaluationCost_def

text \<open>All the costs, in the order of the enumeration: the indices of \<open>cbo_list\<close> in \<open>opt_expr\<close>.\<close>

definition all_costs :: "EvaluationCost list" where
  "all_costs = [NeedsNothing, NeedsInodeNumber, NeedsType, NeedsStatInfo, NeedsLinkName,
    NeedsAccessInfo, NeedsSyncDiskHit, NeedsEventualExec, NeedsImmediateExec,
    NeedsUserInteraction, NeedsUnknown]"

lemma set_all_costs [simp]: "c \<in> set all_costs"
  by (cases c) (simp_all add: all_costs_def)

lemma distinct_all_costs: "distinct all_costs"
  by (simp add: all_costs_def)

text \<open>
  The functions a predicate node may point to (\<open>PRED_FUNC\<close>): the code only compares these
  pointers for equality and calls them.
\<close>

datatype (plugins only: code size) pred_func =
  Pred_amin | Pred_and | Pred_anewer | Pred_atime | Pred_closeparen | Pred_cmin
| Pred_cnewer | Pred_comma | Pred_context | Pred_ctime | Pred_delete | Pred_empty
| Pred_exec | Pred_execdir | Pred_executable | Pred_false | Pred_fprint | Pred_fprint0
| Pred_fprintf | Pred_fstype | Pred_gid | Pred_group | Pred_ilname | Pred_iname
| Pred_inum | Pred_ipath | Pred_links | Pred_lname | Pred_ls | Pred_fls | Pred_mmin
| Pred_mtime | Pred_name | Pred_negate | Pred_newer | Pred_newerXY | Pred_nogroup
| Pred_nouser | Pred_ok | Pred_okdir | Pred_openparen | Pred_or | Pred_path | Pred_perm
| Pred_print | Pred_print0 | Pred_prune | Pred_quit | Pred_readable | Pred_regex
| Pred_samefile | Pred_size | Pred_true | Pred_type | Pred_uid | Pred_used | Pred_user
| Pred_writable | Pred_xtype


subsection \<open>Predicate nodes\<close>

text \<open>
  The fields of \<open>struct predicate\<close>, less the links and the performance counters. Two things
  other than \<open>args\<close> itself are read from the union by the code modelled here: \<open>exec_multiple\<close>
  is \<open>args.exec_vec.multiple\<close>.
\<close>

record ('a, 'f) predicate =
  pred_func :: pred_func
  p_name :: string
  p_type :: predicate_type
  p_prec :: predicate_precedence
  side_effects :: bool
  no_default_print :: bool
  need_stat :: bool
  need_type :: bool
  need_inum :: bool
  p_cost :: EvaluationCost
  est_success_rate :: 'f
  literal_control_chars :: bool
  artificial :: bool
  arg_text :: "string option"
  args :: "'a option"
  exec_multiple :: bool

datatype ('a, 'f) ptree =
  Null
| Node "('a, 'f) predicate" (pred_left: "('a, 'f) ptree") (pred_right: "('a, 'f) ptree")

text \<open>The float operations the code uses.\<close>

record 'f flt =
  f_zero :: 'f
  f_one :: 'f
  f_mul :: "'f \<Rightarrow> 'f \<Rightarrow> 'f"
  f_add :: "'f \<Rightarrow> 'f \<Rightarrow> 'f"
  f_sub :: "'f \<Rightarrow> 'f \<Rightarrow> 'f"
  f_less :: "'f \<Rightarrow> 'f \<Rightarrow> bool"
  f_eq :: "'f \<Rightarrow> 'f \<Rightarrow> bool"

text \<open>Exact arithmetic in units of one hundredth, for evaluating the definitions on examples.\<close>

definition pct :: "int flt" where
  "pct = \<lparr>f_zero = 0, f_one = 100, f_mul = (\<lambda>a b. a * b div 100), f_add = (+), f_sub = (-),
     f_less = (<), f_eq = (=)\<rparr>"

lemma pct_simps [simp]:
  "f_zero pct = 0" "f_one pct = 100" "f_mul pct a b = a * b div 100" "f_add pct a b = a + b"
  "f_sub pct a b = a - b" "f_less pct a b \<longleftrightarrow> a < b" "f_eq pct a b \<longleftrightarrow> a = b"
  by (simp_all add: pct_def)

text \<open>The switches of \<open>struct options\<close> that the expression code reads.\<close>

record options =
  optimisation_level :: nat
  opt_literal_control_chars :: bool
  explicit_depth :: bool

subsection \<open>Trees and their left spines\<close>

text \<open>
  \<open>opt_expr\<close> handles the chain of nodes reached from a root by \<open>pred_left\<close> as a list of
  nodes, each with the subtree to its right.
\<close>

type_synonym ('a, 'f) spine = "(('a, 'f) predicate \<times> ('a, 'f) ptree) list"

fun spine_of :: "('a, 'f) ptree \<Rightarrow> ('a, 'f) spine" where
  "spine_of Null = []"
| "spine_of (Node p l r) = (p, r) # spine_of l"

fun link_spine :: "('a, 'f) spine \<Rightarrow> ('a, 'f) ptree \<Rightarrow> ('a, 'f) ptree" where
  "link_spine [] t = t"
| "link_spine ((p, r) # xs) t = Node p (link_spine xs t) r"

lemma link_spine_append: "link_spine (xs @ ys) t = link_spine xs (link_spine ys t)"
  by (induction xs) auto

lemma spine_of_link: "spine_of (link_spine xs t) = xs @ spine_of t"
  by (induction xs) auto

lemma link_spine_of: "link_spine (spine_of t) Null = t"
  by (induction t) auto

text \<open>The primary predicates of a tree, in the order in which they stand on the command line.\<close>

fun primaries :: "('a, 'f) ptree \<Rightarrow> ('a, 'f) predicate list" where
  "primaries Null = []"
| "primaries (Node p l r) =
     primaries l @ (if p_type p = BI_OP \<or> p_type p = UNI_OP then [] else [p]) @ primaries r"

fun nodes :: "('a, 'f) ptree \<Rightarrow> nat" where
  "nodes Null = 0"
| "nodes (Node p l r) = Suc (nodes l + nodes r)"

text \<open>The functions that stand for operators and parentheses, not for tests or actions.\<close>

fun is_operator_func :: "pred_func \<Rightarrow> bool" where
  "is_operator_func Pred_and \<longleftrightarrow> True"
| "is_operator_func Pred_or \<longleftrightarrow> True"
| "is_operator_func Pred_comma \<longleftrightarrow> True"
| "is_operator_func Pred_negate \<longleftrightarrow> True"
| "is_operator_func Pred_openparen \<longleftrightarrow> True"
| "is_operator_func Pred_closeparen \<longleftrightarrow> True"
| "is_operator_func _ \<longleftrightarrow> False"

text \<open>
  What the parsers of the operators store in a node (\<open>parse_and\<close>, \<open>parse_or\<close>, \<open>parse_comma\<close>,
  \<open>parse_negate\<close>, \<open>parse_openparen\<close>, \<open>parse_closeparen\<close>), and what \<open>insert_primary\<close> stores.
\<close>

fun biop_func :: "predicate_precedence \<Rightarrow> pred_func option" where
  "biop_func COMMA_PREC = Some Pred_comma"
| "biop_func OR_PREC = Some Pred_or"
| "biop_func AND_PREC = Some Pred_and"
| "biop_func _ = None"

definition needs_nothing :: "('a, 'f) predicate \<Rightarrow> bool" where
  "needs_nothing p \<longleftrightarrow> \<not> need_stat p \<and> \<not> need_type p \<and> \<not> need_inum p"

fun wf_pred :: "('a, 'f) predicate \<Rightarrow> bool" where
  "wf_pred p \<longleftrightarrow> (case p_type p of
     NO_TYPE \<Rightarrow> False
   | PRIMARY_TYPE \<Rightarrow> p_prec p = NO_PREC \<and> \<not> is_operator_func (pred_func p)
   | UNI_OP \<Rightarrow> p_prec p = NEGATE_PREC \<and> pred_func p = Pred_negate \<and> needs_nothing p
   | BI_OP \<Rightarrow> biop_func (p_prec p) = Some (pred_func p) \<and> needs_nothing p
   | OPEN_PAREN \<Rightarrow> p_prec p = NO_PREC \<and> pred_func p = Pred_openparen
   | CLOSE_PAREN \<Rightarrow> p_prec p = NO_PREC \<and> pred_func p = Pred_closeparen)"

end
