(* ===== verification/FindState.thy ===== *)
theory FindState
  imports FindDefs
begin

text \<open>
  What \<open>find\<close> knows about the file it is looking at: the \<open>stat\<close> buffer and the fields of
  \<open>struct state\<close> (\<open>find/defs.h\<close>), and the functions of \<open>find/util.c\<close> that fill them in. The system
  calls and the library are fields of a record \<open>find_env\<close>.
\<close>

unbundle bit_operations_syntax

subsection \<open>Files\<close>

type_synonym mode = "32 word"

definition S_IFMT :: mode where "S_IFMT = 0xF000"
definition S_IFIFO :: mode where "S_IFIFO = 0x1000"
definition S_IFCHR :: mode where "S_IFCHR = 0x2000"
definition S_IFDIR :: mode where "S_IFDIR = 0x4000"
definition S_IFBLK :: mode where "S_IFBLK = 0x6000"
definition S_IFREG :: mode where "S_IFREG = 0x8000"
definition S_IFLNK :: mode where "S_IFLNK = 0xA000"
definition S_IFSOCK :: mode where "S_IFSOCK = 0xC000"

text \<open>\<open>MODE_ALL\<close> of \<open>find/defs.h\<close>: the set-id bits, the sticky bit and \<open>MODE_RWX\<close>.\<close>

definition MODE_ALL :: mode where "MODE_ALL = 0x0FFF"

definition S_ISDIR :: "mode \<Rightarrow> bool" where "S_ISDIR m \<longleftrightarrow> m AND S_IFMT = S_IFDIR"
definition S_ISREG :: "mode \<Rightarrow> bool" where "S_ISREG m \<longleftrightarrow> m AND S_IFMT = S_IFREG"
definition S_ISLNK :: "mode \<Rightarrow> bool" where "S_ISLNK m \<longleftrightarrow> m AND S_IFMT = S_IFLNK"

record timespec =
  tv_sec :: int
  tv_nsec :: int

record fstat =
  st_mode :: mode
  st_ino :: nat
  st_dev :: nat
  st_nlink :: nat
  st_uid :: nat
  st_gid :: nat
  st_size :: int
  stat_atime :: timespec
  stat_mtime :: timespec
  stat_ctime :: timespec
  stat_birthtime :: timespec

datatype (plugins only: code size) errno =
  ENOENT | ENOTDIR | EACCES | EIO | ELOOP | ENAMETOOLONG | EOVERFLOW | EISDIR | Other_errno nat

subsection \<open>Actions\<close>

text \<open>
  What evaluating an expression does to the rest of the system, in order. \<open>Command\<close> is the start of
  the command of an \<open>-exec\<close> with its pathname; \<open>Collect\<close> is a pathname put on the command line
  that \<open>bc_push_arg\<close> builds for \<open>-exec ... +\<close>. \<open>Formatted\<close> is the output of \<open>-ls\<close>, \<open>-fls\<close>,
  \<open>-printf\<close> and \<open>-fprintf\<close>, with the pathname and the parts of the \<open>stat\<close> buffer it is made from.
  \<open>Complete\<close> runs the command that was collected for an \<open>-execdir ... +\<close>, if there is one.
\<close>

datatype (plugins only: code size) 'x find_action =
  Unlink string bool
| Command 'x string string
| Collect 'x string string
| Prompt string string
| Print_line 'x string
| Print_nul 'x string
| Formatted 'x string "fstat option" "mode option" "nat option"
| Complete 'x
| Cleanup

subsection \<open>The surroundings\<close>

datatype (plugins only: code size) SymlinkOption =
  SYMLINK_NEVER_DEREF | SYMLINK_ALWAYS_DEREF | SYMLINK_DEREF_ARGSONLY

datatype (plugins only: code size) access = R_OK | W_OK | X_OK

text \<open>
  The options, the file under consideration and what the system answers. Calls whose answer an
  earlier action may change get the list of the actions so far. \<open>fstatat\<close> does not: the model
  covers expressions whose actions do not change the \<open>stat\<close> data of the file at hand.
  \<open>fstatat e name nofollow\<close> is \<open>fstatat (state.cwd_dir_fd, name, ..., AT_SYMLINK_NOFOLLOW)\<close> when
  the flag is set. \<open>open_dir\<close> gives the names \<open>readdir\<close> returns and whether \<open>closedir\<close> succeeds.
  \<open>base_name_of\<close> is \<open>base_name\<close> followed by \<open>strip_trailing_slashes\<close>, both of gnulib.
\<close>

record 'x find_env =
  pathname :: string
  rel_pathname :: string
  curdepth :: nat
  do_dir_first :: bool
  ignore_readdir_race :: bool
  symlink_handling :: SymlinkOption
  fstatat :: "string \<Rightarrow> bool \<Rightarrow> errno + fstat"
  unlinkat :: "'x find_action list \<Rightarrow> string \<Rightarrow> bool \<Rightarrow> errno option"
  faccessat :: "'x find_action list \<Rightarrow> string \<Rightarrow> access \<Rightarrow> bool"
  readlinkat :: "'x find_action list \<Rightarrow> string \<Rightarrow> string option"
  open_dir :: "'x find_action list \<Rightarrow> string \<Rightarrow> errno + string list \<times> bool"
  getfilecon :: "'x find_action list \<Rightarrow> string \<Rightarrow> string option"
  command_ok :: "'x find_action list \<Rightarrow> bool"
  yesno :: "'x find_action list \<Rightarrow> bool"
  fnmatch :: "string \<Rightarrow> string \<Rightarrow> bool \<Rightarrow> bool"
  re_match :: "int \<Rightarrow> string \<Rightarrow> string \<Rightarrow> int"
  base_name :: "string \<Rightarrow> string"
  base_name_of :: "string \<Rightarrow> string"
  filesystem_type :: "fstat \<Rightarrow> string \<Rightarrow> string"
  getpwuid :: "nat \<Rightarrow> string option"
  getgrgid :: "nat \<Rightarrow> string option"

subsection \<open>The state\<close>

datatype (plugins only: code size) run_status = Running | Exited int | Aborted

text \<open>
  The fields of \<open>struct state\<close> that the predicates use, the \<open>stat\<close> buffer that \<open>apply_predicate\<close>
  passes along, and three fields of the model: the pathnames that diagnostics were printed for, the
  actions so far, and whether the process still runs. \<open>-quit\<close> exits and a failing assertion
  aborts; after that nothing changes any more.
\<close>

record 'x find_state =
  have_stat :: bool
  have_type :: bool
  ftype :: mode
  stat_buf :: fstat
  stop_at_current_level :: bool
  exit_status :: int
  execdirs_outstanding :: bool
  already_issued_stat_error_msg :: bool
  messages :: "string list"
  actions :: "'x find_action list"
  status :: run_status

definition act :: "'x find_action \<Rightarrow> 'x find_state \<Rightarrow> 'x find_state" where
  "act a s = s\<lparr>actions := actions s @ [a]\<rparr>"

definition abort :: "'x find_state \<Rightarrow> bool \<times> 'x find_state" where
  "abort s = (False, s\<lparr>status := Aborted\<rparr>)"

definition error_severity :: "int \<Rightarrow> 'x find_state \<Rightarrow> 'x find_state" where
  "error_severity level s = (if exit_status s < level then s\<lparr>exit_status := level\<rparr> else s)"

definition error_msg :: "string \<Rightarrow> 'x find_state \<Rightarrow> 'x find_state" where
  "error_msg name s = s\<lparr>messages := messages s @ [name]\<rparr>"

definition report_file_err :: "bool \<Rightarrow> string \<Rightarrow> 'x find_state \<Rightarrow> 'x find_state" where
  "report_file_err is_target_file name s =
     (let s = (if \<not> is_target_file \<or> \<not> already_issued_stat_error_msg s
               then error_severity 1 (error_msg name s) else s)
      in if is_target_file then s\<lparr>already_issued_stat_error_msg := True\<rparr> else s)"

definition nonfatal_target_file_error :: "string \<Rightarrow> 'x find_state \<Rightarrow> 'x find_state" where
  "nonfatal_target_file_error name s = report_file_err True name s"

subsection \<open>Calling stat\<close>

definition fallback_stat :: "'x find_env \<Rightarrow> string \<Rightarrow> errno \<Rightarrow> errno + fstat" where
  "fallback_stat e name err =
     (if err = ENOENT \<or> err = ENOTDIR then fstatat e name True else Inl err)"

definition optionl_stat :: "'x find_env \<Rightarrow> string \<Rightarrow> errno + fstat" where
  "optionl_stat e name =
     (case fstatat e name False of Inr st \<Rightarrow> Inr st | Inl err \<Rightarrow> fallback_stat e name err)"

definition optionh_stat :: "'x find_env \<Rightarrow> string \<Rightarrow> errno + fstat" where
  "optionh_stat e name =
     (if curdepth e = 0 then
        (case fstatat e name False of Inr st \<Rightarrow> Inr st | Inl err \<Rightarrow> fallback_stat e name err)
      else fstatat e name True)"

definition optionp_stat :: "'x find_env \<Rightarrow> string \<Rightarrow> errno + fstat" where
  "optionp_stat e name = fstatat e name True"

text \<open>\<open>options.xstat\<close>, which \<open>set_follow_state\<close> of \<open>find/parser.c\<close> sets.\<close>

fun xstat :: "'x find_env \<Rightarrow> string \<Rightarrow> errno + fstat" where
  "xstat e name =
     (case symlink_handling e of
        SYMLINK_ALWAYS_DEREF \<Rightarrow> optionl_stat e name
      | SYMLINK_NEVER_DEREF \<Rightarrow> optionp_stat e name
      | SYMLINK_DEREF_ARGSONLY \<Rightarrow> optionh_stat e name)"

fun following_links :: "'x find_env \<Rightarrow> bool" where
  "following_links e =
     (case symlink_handling e of
        SYMLINK_ALWAYS_DEREF \<Rightarrow> True
      | SYMLINK_DEREF_ARGSONLY \<Rightarrow> curdepth e = 0
      | SYMLINK_NEVER_DEREF \<Rightarrow> False)"

declare xstat.simps [simp del] following_links.simps [simp del]

text \<open>True is the result 0. A buffer that \<open>stat\<close> fails to fill keeps its contents.\<close>

definition get_statinfo :: "'x find_env \<Rightarrow> 'x find_state \<Rightarrow> bool \<times> 'x find_state" where
  "get_statinfo e s =
     (if have_stat s then (True, s\<lparr>have_stat := True, have_type := True, ftype := st_mode (stat_buf s)\<rparr>)
      else
        (case xstat e (rel_pathname e) of
           Inr st \<Rightarrow>
             (let s = s\<lparr>stat_buf := st\<rparr>;
                  s = (if st_mode st = 0 then error_severity 1 (error_msg (rel_pathname e) s) else s)
              in (True, s\<lparr>have_stat := True, have_type := True, ftype := st_mode st\<rparr>))
         | Inl err \<Rightarrow>
             (False,
              if \<not> ignore_readdir_race e \<or> err \<noteq> ENOENT
              then nonfatal_target_file_error (pathname e) s else s)))"

definition info_todo :: "('a, 'f) predicate \<Rightarrow> 'x find_state \<Rightarrow> bool" where
  "info_todo p s \<longleftrightarrow>
     (if need_stat p then True
      else if need_type p \<and> \<not> have_type s then True
      else if need_inum p then
        (if st_ino (stat_buf s) = 0 then True
         else \<not> have_type s \<or> S_ISDIR (st_mode (stat_buf s)))
      else False)"

definition get_info :: "'x find_env \<Rightarrow> ('a, 'f) predicate \<Rightarrow> 'x find_state \<Rightarrow> bool \<times> 'x find_state"
where
  "get_info e p s =
     (if status s \<noteq> Running then (True, s)
      else if info_todo p s then
        (let (ok, s) = get_statinfo e s in
         if \<not> ok then (False, s)
         else if need_type p \<and> \<not> have_type s then abort s
         else if need_inum p \<and> st_ino (stat_buf s) = 0 then abort s
         else (True, s))
      else (True, s))"

text \<open>
  \<open>digest_mode\<close>: take over the type that the directory entry gave, or ask for it. The result
  says whether it succeeded.
\<close>

definition digest_mode :: "'x find_env \<Rightarrow> mode \<Rightarrow> bool \<Rightarrow> 'x find_state \<Rightarrow> bool \<times> mode \<times> 'x find_state"
where
  "digest_mode e m leaf s =
     (if m \<noteq> 0 then
        (if S_ISLNK m \<and> following_links e then
           (let (ok, s) = get_statinfo e s in
            if \<not> ok then (False, m, s)
            else (True, st_mode (stat_buf s), s\<lparr>ftype := st_mode (stat_buf s), have_type := True\<rparr>))
         else (True, m, s\<lparr>have_type := True, ftype := m, stat_buf := (stat_buf s)\<lparr>st_mode := m\<rparr>\<rparr>))
      else if leaf then (True, m, s\<lparr>have_stat := False, have_type := False, ftype := 0\<rparr>)
      else
        (let (ok, s) = get_statinfo e s in
         if \<not> ok then (False, m, s)
         else (True, st_mode (stat_buf s), s\<lparr>ftype := st_mode (stat_buf s), have_type := True\<rparr>)))"

end
