(* ===== verification/FindPred.thy ===== *)
theory FindPred
  imports FindState "HOL-Library.Signed_Division"
begin

text \<open>
  The functions of the primaries (\<open>find/pred.c\<close>), one definition each, and the call of the function
  a predicate node points to. Each takes the surroundings, the argument stored in the node and the
  state, and gives the truth value and the state after it.
\<close>

subsection \<open>Arguments\<close>

datatype (plugins only: code size) comparison_type = COMP_GT | COMP_LT | COMP_EQ
datatype (plugins only: code size) permissions_type = PERM_AT_LEAST | PERM_ANY | PERM_EXACT
datatype (plugins only: code size) xval =
  XVAL_ATIME | XVAL_BIRTHTIME | XVAL_CTIME | XVAL_MTIME | XVAL_TIME

text \<open>
  A piece of a format of \<open>-printf\<close>: its kind, the text and the characters of the directive.
\<close>

datatype (plugins only: code size) SegmentKind = KIND_PLAIN | KIND_STOP | KIND_FORMAT

datatype (plugins only: code size) segment = Segment SegmentKind string "char option" "char option"

text \<open>
  The union \<open>args\<close>. A function that finds another member than its own reads an object of the wrong
  type; it aborts here. \<open>Exec_vec\<close> has the program name and the words of the command, \<open>Printf_vec\<close> an
  output stream, \<open>Format_vec\<close> a stream and a format, \<open>Regex\<close> the syntax and the expression.
\<close>

datatype (plugins only: code size) find_args =
  Str string
| Regex int string
| Numinfo comparison_type nat
| Size comparison_type int nat
| Uid nat
| Gid nat
| Reftime xval comparison_type timespec
| Perm permissions_type mode mode
| Samefileid nat nat
| Type_arg mode
| Scontext string
| Exec_vec string "string list"
| Printf_vec nat
| Format_vec nat "segment list"

type_synonym 'f find_pred = "(find_args, 'f) predicate"
type_synonym env = "find_args find_env"
type_synonym fstate = "find_args find_state"
type_synonym pred_run = "fstate \<Rightarrow> bool \<times> fstate"

subsection \<open>Times\<close>

text \<open>
  Differences of times are in nanoseconds and exact here; the code computes seconds as a double.
  Its comparisons with 0 and with a window of at most a day come out the same, as a double holds
  differences of that size to far less than a nanosecond.
\<close>

definition ts_difference :: "timespec \<Rightarrow> timespec \<Rightarrow> int" where
  "ts_difference ts1 ts2 = (tv_sec ts1 - tv_sec ts2) * 1000000000 + (tv_nsec ts1 - tv_nsec ts2)"

definition compare_ts :: "timespec \<Rightarrow> timespec \<Rightarrow> int" where
  "compare_ts ts1 ts2 =
     (if tv_sec ts1 = tv_sec ts2 \<and> tv_nsec ts1 = tv_nsec ts2 then 0
      else if ts_difference ts1 ts2 < 0 then - 1 else 1)"

fun pred_timewindow :: "timespec \<Rightarrow> find_args option \<Rightarrow> int \<Rightarrow> pred_run" where
  "pred_timewindow ts (Some (Reftime xv COMP_GT ref)) window s = (compare_ts ts ref > 0, s)"
| "pred_timewindow ts (Some (Reftime xv COMP_LT ref)) window s = (compare_ts ts ref < 0, s)"
| "pred_timewindow ts (Some (Reftime xv COMP_EQ ref)) window s =
     (let delta = ts_difference ts ref in (0 < delta \<and> delta \<le> window * 1000000000, s))"
| "pred_timewindow ts _ window s = abort s"

definition DAYSECS :: int where "DAYSECS = 86400"

definition pred_amin :: "find_args option \<Rightarrow> pred_run" where
  "pred_amin a s = pred_timewindow (stat_atime (stat_buf s)) a 60 s"

definition pred_atime :: "find_args option \<Rightarrow> pred_run" where
  "pred_atime a s = pred_timewindow (stat_atime (stat_buf s)) a DAYSECS s"

definition pred_cmin :: "find_args option \<Rightarrow> pred_run" where
  "pred_cmin a s = pred_timewindow (stat_ctime (stat_buf s)) a 60 s"

definition pred_ctime :: "find_args option \<Rightarrow> pred_run" where
  "pred_ctime a s = pred_timewindow (stat_ctime (stat_buf s)) a DAYSECS s"

definition pred_mmin :: "find_args option \<Rightarrow> pred_run" where
  "pred_mmin a s = pred_timewindow (stat_mtime (stat_buf s)) a 60 s"

definition pred_mtime :: "find_args option \<Rightarrow> pred_run" where
  "pred_mtime a s = pred_timewindow (stat_mtime (stat_buf s)) a DAYSECS s"

fun newer_than :: "timespec \<Rightarrow> find_args option \<Rightarrow> pred_run" where
  "newer_than ts (Some (Reftime xv COMP_GT ref)) s = (compare_ts ts ref > 0, s)"
| "newer_than ts _ s = abort s"

definition pred_anewer :: "find_args option \<Rightarrow> pred_run" where
  "pred_anewer a s = newer_than (stat_atime (stat_buf s)) a s"

definition pred_cnewer :: "find_args option \<Rightarrow> pred_run" where
  "pred_cnewer a s = newer_than (stat_ctime (stat_buf s)) a s"

definition pred_newer :: "find_args option \<Rightarrow> pred_run" where
  "pred_newer a s = newer_than (stat_mtime (stat_buf s)) a s"

text \<open>
  In the case of \<open>XVAL_BIRTHTIME\<close> the \<open>if\<close> on the sign of \<open>tv_nsec\<close> ends in a semicolon, so the
  warning and \<open>return false\<close> after it run whatever the birth time is.
\<close>

fun pred_newerXY :: "env \<Rightarrow> find_args option \<Rightarrow> pred_run" where
  "pred_newerXY e (Some (Reftime XVAL_TIME COMP_GT ref)) s = abort s"
| "pred_newerXY e (Some (Reftime XVAL_ATIME COMP_GT ref)) s =
     (compare_ts (stat_atime (stat_buf s)) ref > 0, s)"
| "pred_newerXY e (Some (Reftime XVAL_BIRTHTIME COMP_GT ref)) s =
     (False, error_msg (pathname e) s)"
| "pred_newerXY e (Some (Reftime XVAL_CTIME COMP_GT ref)) s =
     (compare_ts (stat_ctime (stat_buf s)) ref > 0, s)"
| "pred_newerXY e (Some (Reftime XVAL_MTIME COMP_GT ref)) s =
     (compare_ts (stat_mtime (stat_buf s)) ref > 0, s)"
| "pred_newerXY e _ s = abort s"

definition pred_used :: "find_args option \<Rightarrow> pred_run" where
  "pred_used a s =
     (let at = stat_atime (stat_buf s); ct = stat_ctime (stat_buf s);
          delta = \<lparr>tv_sec = tv_sec at - tv_sec ct, tv_nsec = tv_nsec at - tv_nsec ct\<rparr>;
          delta = (if tv_nsec delta < 0
                   then \<lparr>tv_sec = tv_sec delta - 1, tv_nsec = tv_nsec delta + 1000000000\<rparr> else delta)
      in pred_timewindow delta a DAYSECS s)"

subsection \<open>Numbers\<close>

text \<open>
  The \<open>switch\<close> on the kind of comparison, which \<open>pred_gid\<close>, \<open>pred_inum\<close>, \<open>pred_links\<close> and
  \<open>pred_uid\<close> write out each. All operands are unsigned.
\<close>

fun compares :: "comparison_type \<Rightarrow> nat \<Rightarrow> nat \<Rightarrow> bool" where
  "compares COMP_GT v l = (v > l)"
| "compares COMP_LT v l = (v < l)"
| "compares COMP_EQ v l = (v = l)"

fun pred_gid :: "find_args option \<Rightarrow> pred_run" where
  "pred_gid (Some (Numinfo kind l)) s = (compares kind (st_gid (stat_buf s)) l, s)"
| "pred_gid _ s = abort s"

fun pred_uid :: "find_args option \<Rightarrow> pred_run" where
  "pred_uid (Some (Numinfo kind l)) s = (compares kind (st_uid (stat_buf s)) l, s)"
| "pred_uid _ s = abort s"

fun pred_links :: "find_args option \<Rightarrow> pred_run" where
  "pred_links (Some (Numinfo kind l)) s = (compares kind (st_nlink (stat_buf s)) l, s)"
| "pred_links _ s = abort s"

fun pred_inum :: "find_args option \<Rightarrow> pred_run" where
  "pred_inum (Some (Numinfo kind l)) s =
     (if st_ino (stat_buf s) = 0 then abort s else (compares kind (st_ino (stat_buf s)) l, s))"
| "pred_inum _ s = abort s"

fun pred_user :: "find_args option \<Rightarrow> pred_run" where
  "pred_user (Some (Uid u)) s = (u = st_uid (stat_buf s), s)"
| "pred_user _ s = abort s"

fun pred_group :: "find_args option \<Rightarrow> pred_run" where
  "pred_group (Some (Gid g)) s = (g = st_gid (stat_buf s), s)"
| "pred_group _ s = abort s"

definition pred_nouser :: "env \<Rightarrow> pred_run" where
  "pred_nouser e s = (getpwuid e (st_uid (stat_buf s)) = None, s)"

definition pred_nogroup :: "env \<Rightarrow> pred_run" where
  "pred_nogroup e s = (getgrgid e (st_gid (stat_buf s)) = None, s)"

text \<open>\<open>f_val\<close>: the size in blocks, rounded up, as an \<open>uintmax_t\<close>.\<close>

definition size_blocks :: "int \<Rightarrow> int \<Rightarrow> nat" where
  "size_blocks sz blocksize =
     nat ((sz sdiv blocksize + (if sz smod blocksize \<noteq> 0 then 1 else 0)) mod 2 ^ 64)"

fun pred_size :: "find_args option \<Rightarrow> pred_run" where
  "pred_size (Some (Size kind blocksize n)) s =
     (if blocksize = 0 then abort s
      else (compares kind (size_blocks (st_size (stat_buf s)) blocksize) n, s))"
| "pred_size _ s = abort s"

subsection \<open>Names\<close>

definition pred_name_common :: "env \<Rightarrow> string \<Rightarrow> bool \<Rightarrow> bool" where
  "pred_name_common e str casefold = fnmatch e str (base_name_of e (pathname e)) casefold"

fun pred_name :: "env \<Rightarrow> find_args option \<Rightarrow> pred_run" where
  "pred_name e (Some (Str str)) s = (pred_name_common e str False, s)"
| "pred_name e _ s = abort s"

fun pred_iname :: "env \<Rightarrow> find_args option \<Rightarrow> pred_run" where
  "pred_iname e (Some (Str str)) s = (pred_name_common e str True, s)"
| "pred_iname e _ s = abort s"

fun pred_path :: "env \<Rightarrow> find_args option \<Rightarrow> pred_run" where
  "pred_path e (Some (Str str)) s = (fnmatch e str (pathname e) False, s)"
| "pred_path e _ s = abort s"

fun pred_ipath :: "env \<Rightarrow> find_args option \<Rightarrow> pred_run" where
  "pred_ipath e (Some (Str str)) s = (fnmatch e str (pathname e) True, s)"
| "pred_ipath e _ s = abort s"

fun pred_regex :: "env \<Rightarrow> find_args option \<Rightarrow> pred_run" where
  "pred_regex e (Some (Regex syntax r)) s = (re_match e syntax r (pathname e) = int (length (pathname e)), s)"
| "pred_regex e _ s = abort s"

fun match_lname :: "env \<Rightarrow> find_args option \<Rightarrow> bool \<Rightarrow> pred_run" where
  "match_lname e (Some (Str str)) ignore_case s =
     (if S_ISLNK (st_mode (stat_buf s)) then
        (case readlinkat e (actions s) (rel_pathname e) of
           Some linkname \<Rightarrow> (fnmatch e str linkname ignore_case, s)
         | None \<Rightarrow> (False, (nonfatal_target_file_error (pathname e) s)\<lparr>exit_status := 1\<rparr>))
      else (False, s))"
| "match_lname e _ ignore_case s = abort s"

definition pred_lname :: "env \<Rightarrow> find_args option \<Rightarrow> pred_run" where
  "pred_lname e a s = match_lname e a False s"

definition pred_ilname :: "env \<Rightarrow> find_args option \<Rightarrow> pred_run" where
  "pred_ilname e a s = match_lname e a True s"

fun pred_fstype :: "env \<Rightarrow> find_args option \<Rightarrow> pred_run" where
  "pred_fstype e (Some (Str str)) s = (filesystem_type e (stat_buf s) (pathname e) = str, s)"
| "pred_fstype e _ s = abort s"

fun pred_context :: "env \<Rightarrow> find_args option \<Rightarrow> pred_run" where
  "pred_context e (Some (Scontext c)) s =
     (case getfilecon e (actions s) (rel_pathname e) of
        None \<Rightarrow> (False, error_msg (pathname e) s)
      | Some scontext \<Rightarrow> (fnmatch e c scontext False, s))"
| "pred_context e _ s = abort s"

subsection \<open>Types, permissions and contents\<close>

fun pred_perm :: "find_args option \<Rightarrow> pred_run" where
  "pred_perm (Some (Perm kind val0 val1)) s =
     (let mode = st_mode (stat_buf s);
          perm_val = (if S_ISDIR mode then val1 else val0)
      in (case kind of
            PERM_AT_LEAST \<Rightarrow> (mode AND perm_val = perm_val, s)
          | PERM_ANY \<Rightarrow> (if perm_val = 0 then (True, s) else (mode AND perm_val \<noteq> 0, s))
          | PERM_EXACT \<Rightarrow> (mode AND MODE_ALL = perm_val, s)))"
| "pred_perm _ s = abort s"

text \<open>\<open>pred_type\<close> is called with the buffer of the file, and by \<open>pred_xtype\<close> with another.\<close>

fun pred_type_with :: "fstat \<Rightarrow> find_args option \<Rightarrow> pred_run" where
  "pred_type_with buf (Some (Type_arg type)) s =
     (if \<not> have_type s then abort s
      else if ftype s = 0 then (False, s)
      else (let mode = (if have_stat s then st_mode buf else ftype s)
            in (mode AND S_IFMT = type, s)))"
| "pred_type_with buf _ s = abort s"

definition pred_type :: "find_args option \<Rightarrow> pred_run" where
  "pred_type a s = pred_type_with (stat_buf s) a s"

definition pred_xtype :: "env \<Rightarrow> find_args option \<Rightarrow> pred_run" where
  "pred_xtype e a s =
     (let ystat = (if following_links e then optionp_stat else optionl_stat) in
      case ystat e (rel_pathname e) of
        Inl err \<Rightarrow>
          if following_links e \<and> err = ENOENT then pred_type_with (stat_buf s) a s
          else (False, (error_msg (pathname e) s)\<lparr>exit_status := 1\<rparr>)
      | Inr sbuf \<Rightarrow> pred_type_with sbuf a s)"

definition pred_samefile :: "env \<Rightarrow> find_args option \<Rightarrow> pred_run" where
  "pred_samefile e a s =
     (case a of
        Some (Samefileid ino dev) \<Rightarrow>
          if st_ino (stat_buf s) \<noteq> 0 \<and> st_ino (stat_buf s) \<noteq> ino then (False, s)
          else (let (ok, s) = get_statinfo e s in
                if ok then (st_ino (stat_buf s) = ino \<and> st_dev (stat_buf s) = dev, s) else (False, s))
      | _ \<Rightarrow> abort s)"

definition pred_empty :: "env \<Rightarrow> pred_run" where
  "pred_empty e s =
     (if S_ISDIR (st_mode (stat_buf s)) then
        (case open_dir e (actions s) (rel_pathname e) of
           Inl err \<Rightarrow> (False, (error_msg (pathname e) s)\<lparr>exit_status := 1\<rparr>)
         | Inr (names, closed) \<Rightarrow>
             if closed then (list_all (\<lambda>n. n = ''.'' \<or> n = ''..'') names, s)
             else (False, (error_msg (pathname e) s)\<lparr>exit_status := 1\<rparr>))
      else if S_ISREG (st_mode (stat_buf s)) then (st_size (stat_buf s) = 0, s)
      else (False, s))"

definition pred_executable :: "env \<Rightarrow> pred_run" where
  "pred_executable e s = (faccessat e (actions s) (rel_pathname e) X_OK, s)"

definition pred_readable :: "env \<Rightarrow> pred_run" where
  "pred_readable e s = (faccessat e (actions s) (rel_pathname e) R_OK, s)"

definition pred_writable :: "env \<Rightarrow> pred_run" where
  "pred_writable e s = (faccessat e (actions s) (rel_pathname e) W_OK, s)"

definition pred_true :: "pred_run" where "pred_true s = (True, s)"
definition pred_false :: "pred_run" where "pred_false s = (False, s)"
definition pred_openparen :: "pred_run" where "pred_openparen s = (True, s)"
definition pred_closeparen :: "pred_run" where "pred_closeparen s = (True, s)"

subsection \<open>Actions\<close>

definition perform_delete :: "env \<Rightarrow> bool \<Rightarrow> fstate \<Rightarrow> errno option" where
  "perform_delete e flags s = unlinkat e (actions s) (rel_pathname e) flags"

text \<open>The action records the removal that succeeded; a failed \<open>unlinkat\<close> changes nothing.\<close>

definition pred_delete :: "env \<Rightarrow> pred_run" where
  "pred_delete e s =
     (if rel_pathname e \<noteq> ''.'' then
        (let flags = (have_stat s \<and> S_ISDIR (st_mode (stat_buf s)));
             failed = (\<lambda>s. (False, (error_msg (pathname e) s)\<lparr>exit_status := 1\<rparr>))
         in case perform_delete e flags s of
              None \<Rightarrow> (True, act (Unlink (rel_pathname e) flags) s)
            | Some err \<Rightarrow>
                if err = EISDIR \<and> \<not> flags then
                  (case perform_delete e True s of
                     None \<Rightarrow> (True, act (Unlink (rel_pathname e) True) s)
                   | Some _ \<Rightarrow> failed s)
                else failed s)
      else (True, s))"

definition is_exec_in_local_dir :: "pred_func \<Rightarrow> bool" where
  "is_exec_in_local_dir f \<longleftrightarrow> f = Pred_execdir \<or> f = Pred_okdir"

text \<open>
  \<open>impl_pred_exec\<close>: the target and the prefix the command gets. \<open>command_ok\<close> says whether the
  command that was just started exits with status 0. That \<open>wd_for_exec\<close> could be opened is assumed.
\<close>

definition impl_pred_exec :: "env \<Rightarrow> 'f find_pred \<Rightarrow> pred_run" where
  "impl_pred_exec e p s =
     (case args p of
        Some (Exec_vec program words) \<Rightarrow>
          (let local = is_exec_in_local_dir (pred_func p);
               target = (if local then base_name e (rel_pathname e) else pathname e);
               prefix = (if \<not> local then []
                         else if target \<noteq> [] \<and> hd target = CHR ''/'' then [] else ''./'')
           in if exec_multiple p then
                (True, (act (Collect (Exec_vec program words) prefix target) s)
                  \<lparr>execdirs_outstanding := True\<rparr>)
              else
                (let s = act (Command (Exec_vec program words) prefix target) s
                 in (command_ok e (actions s), s)))
      | _ \<Rightarrow> abort s)"

definition is_ok :: "env \<Rightarrow> string \<Rightarrow> string \<Rightarrow> fstate \<Rightarrow> bool \<times> fstate" where
  "is_ok e program arg s = (let s = act (Prompt program arg) s in (yesno e (actions s), s))"

definition pred_ok :: "env \<Rightarrow> 'f find_pred \<Rightarrow> pred_run" where
  "pred_ok e p s =
     (case args p of
        Some (Exec_vec program words) \<Rightarrow>
          (let (ok, s) = is_ok e program (pathname e) s
           in if ok then impl_pred_exec e p s else (False, s))
      | _ \<Rightarrow> abort s)"

definition pred_print :: "env \<Rightarrow> find_args option \<Rightarrow> pred_run" where
  "pred_print e a s =
     (case a of Some (Printf_vec f) \<Rightarrow> (True, act (Print_line (Printf_vec f) (pathname e)) s)
      | _ \<Rightarrow> abort s)"

definition pred_fprint :: "env \<Rightarrow> find_args option \<Rightarrow> pred_run" where
  "pred_fprint e a s =
     (case a of Some (Printf_vec f) \<Rightarrow> (True, act (Print_line (Printf_vec f) (pathname e)) s)
      | _ \<Rightarrow> abort s)"

definition pred_fprint0 :: "env \<Rightarrow> find_args option \<Rightarrow> pred_run" where
  "pred_fprint0 e a s =
     (case a of Some (Printf_vec f) \<Rightarrow> (True, act (Print_nul (Printf_vec f) (pathname e)) s)
      | _ \<Rightarrow> abort s)"

text \<open>
  \<open>-ls\<close>, \<open>-fls\<close>, \<open>-printf\<close> and \<open>-fprintf\<close>: the action has what the output is made from. The text of
  \<open>-printf\<close> (\<open>do_fprintf\<close>) is made from that in the theory \<open>FindPrintf\<close>; that of \<open>-ls\<close> is not modelled.
\<close>

definition formatted_as :: "find_args \<Rightarrow> env \<Rightarrow> 'f find_pred \<Rightarrow> pred_run" where
  "formatted_as out e p s =
     (True, act (Formatted out (pathname e)
        (if need_stat p then Some (stat_buf s) else None)
        (if need_type p then Some (st_mode (stat_buf s) AND S_IFMT) else None)
        (if need_inum p then Some (st_ino (stat_buf s)) else None)) s)"

text \<open>The errors of \<open>do_fprintf\<close>, given the actions before: a link or a context that cannot be read.\<close>

definition printf_error :: "env \<Rightarrow> find_args find_action list \<Rightarrow> segment \<Rightarrow> fstate \<Rightarrow> fstate" where
  "printf_error e h seg s =
     (case seg of Segment kind text format_char aux \<Rightarrow>
        if kind \<noteq> KIND_FORMAT \<or> aux \<noteq> None then s
        else if format_char = Some (CHR ''l'') then
          (if S_ISLNK (st_mode (stat_buf s)) \<and> readlinkat e h (rel_pathname e) = None
           then (nonfatal_target_file_error (pathname e) s)\<lparr>exit_status := 1\<rparr> else s)
        else if format_char = Some (CHR ''Y'') then
          (if S_ISLNK (st_mode (stat_buf s)) then
             (case (if following_links e then optionp_stat e (rel_pathname e) else optionl_stat e (rel_pathname e)) of
                Inr st \<Rightarrow> s
              | Inl err \<Rightarrow> if err = ENOENT \<or> err = ELOOP then s else error_msg (pathname e) s)
           else s)
        else if format_char = Some (CHR ''Z'') then
          (if getfilecon e h (rel_pathname e) = None then (error_msg (pathname e) s)\<lparr>exit_status := 1\<rparr> else s)
        else s)"

definition formatted :: "env \<Rightarrow> 'f find_pred \<Rightarrow> pred_run" where
  "formatted e p s =
     (case args p of
        Some (Printf_vec f) \<Rightarrow> formatted_as (Printf_vec f) e p s
      | Some (Format_vec f segments) \<Rightarrow>
          (let (ok, s') = formatted_as (Format_vec f segments) e p s
           in (ok, fold (printf_error e (actions s)) segments s'))
      | _ \<Rightarrow> abort s)"

definition pred_prune :: "env \<Rightarrow> pred_run" where
  "pred_prune e s =
     (if do_dir_first e then
        if \<not> have_stat s then abort s
        else (True, if S_ISDIR (st_mode (stat_buf s)) then s\<lparr>stop_at_current_level := True\<rparr> else s)
      else (True, s))"

definition pred_quit :: "pred_run" where
  "pred_quit s = (let s = act Cleanup s in (False, s\<lparr>status := Exited (exit_status s)\<rparr>))"

subsection \<open>Words of the command line\<close>

text \<open>Start points end where the expression begins; \<open>leading\<close> says that none was seen of it.\<close>

definition looks_like_expression :: "string \<Rightarrow> bool \<Rightarrow> bool" where
  "looks_like_expression arg leading \<longleftrightarrow>
     (case arg of
        [] \<Rightarrow> False
      | c # rest \<Rightarrow>
          if c = CHR ''-'' then rest \<noteq> []
          else if c = CHR '')'' \<or> c = CHR '','' then (if rest \<noteq> [] then False else \<not> leading)
          else if c = CHR ''!'' \<or> c = CHR ''('' then rest = []
          else False)"

subsection \<open>The call through the function pointer\<close>

text \<open>The operators are run by \<open>apply_predicate\<close> itself.\<close>

fun prim :: "env \<Rightarrow> 'f find_pred \<Rightarrow> pred_run" where
  "prim e p s =
     (if status s \<noteq> Running then (False, s) else
      case pred_func p of
        Pred_amin \<Rightarrow> pred_amin (args p) s
      | Pred_anewer \<Rightarrow> pred_anewer (args p) s
      | Pred_atime \<Rightarrow> pred_atime (args p) s
      | Pred_cmin \<Rightarrow> pred_cmin (args p) s
      | Pred_cnewer \<Rightarrow> pred_cnewer (args p) s
      | Pred_context \<Rightarrow> pred_context e (args p) s
      | Pred_ctime \<Rightarrow> pred_ctime (args p) s
      | Pred_delete \<Rightarrow> pred_delete e s
      | Pred_empty \<Rightarrow> pred_empty e s
      | Pred_exec \<Rightarrow> impl_pred_exec e p s
      | Pred_execdir \<Rightarrow> impl_pred_exec e p s
      | Pred_executable \<Rightarrow> pred_executable e s
      | Pred_false \<Rightarrow> pred_false s
      | Pred_fprint \<Rightarrow> pred_fprint e (args p) s
      | Pred_fprint0 \<Rightarrow> pred_fprint0 e (args p) s
      | Pred_fprintf \<Rightarrow> formatted e p s
      | Pred_fls \<Rightarrow> formatted e p s
      | Pred_ls \<Rightarrow> formatted e p s
      | Pred_fstype \<Rightarrow> pred_fstype e (args p) s
      | Pred_gid \<Rightarrow> pred_gid (args p) s
      | Pred_group \<Rightarrow> pred_group (args p) s
      | Pred_ilname \<Rightarrow> pred_ilname e (args p) s
      | Pred_iname \<Rightarrow> pred_iname e (args p) s
      | Pred_inum \<Rightarrow> pred_inum (args p) s
      | Pred_ipath \<Rightarrow> pred_ipath e (args p) s
      | Pred_links \<Rightarrow> pred_links (args p) s
      | Pred_lname \<Rightarrow> pred_lname e (args p) s
      | Pred_mmin \<Rightarrow> pred_mmin (args p) s
      | Pred_mtime \<Rightarrow> pred_mtime (args p) s
      | Pred_name \<Rightarrow> pred_name e (args p) s
      | Pred_newer \<Rightarrow> pred_newer (args p) s
      | Pred_newerXY \<Rightarrow> pred_newerXY e (args p) s
      | Pred_nogroup \<Rightarrow> pred_nogroup e s
      | Pred_nouser \<Rightarrow> pred_nouser e s
      | Pred_ok \<Rightarrow> pred_ok e p s
      | Pred_okdir \<Rightarrow> pred_ok e p s
      | Pred_openparen \<Rightarrow> pred_openparen s
      | Pred_closeparen \<Rightarrow> pred_closeparen s
      | Pred_path \<Rightarrow> pred_path e (args p) s
      | Pred_perm \<Rightarrow> pred_perm (args p) s
      | Pred_print \<Rightarrow> pred_print e (args p) s
      | Pred_print0 \<Rightarrow> pred_fprint0 e (args p) s
      | Pred_prune \<Rightarrow> pred_prune e s
      | Pred_quit \<Rightarrow> pred_quit s
      | Pred_readable \<Rightarrow> pred_readable e s
      | Pred_regex \<Rightarrow> pred_regex e (args p) s
      | Pred_samefile \<Rightarrow> pred_samefile e (args p) s
      | Pred_size \<Rightarrow> pred_size (args p) s
      | Pred_true \<Rightarrow> pred_true s
      | Pred_type \<Rightarrow> pred_type (args p) s
      | Pred_uid \<Rightarrow> pred_uid (args p) s
      | Pred_used \<Rightarrow> pred_used (args p) s
      | Pred_user \<Rightarrow> pred_user (args p) s
      | Pred_writable \<Rightarrow> pred_writable e s
      | Pred_xtype \<Rightarrow> pred_xtype e (args p) s
      | Pred_and \<Rightarrow> (False, s) | Pred_or \<Rightarrow> (False, s)
      | Pred_comma \<Rightarrow> (False, s) | Pred_negate \<Rightarrow> (False, s))"

declare prim.simps [simp del]

end
