(* ===== verification/FindParse.thy ===== *)
theory FindParse
  imports FindDefs
begin

text \<open>
  The operator-precedence parser of \<open>find/tree.c\<close>: \<open>get_expr\<close> and \<open>scan_rest\<close> turn the list of
  predicates the user gave into a tree. \<open>input\<close> is the list that \<open>*input\<close> points to, and the
  updated \<open>*input\<close> is returned with the tree. Errors the user sees are \<open>Exit\<close>.
\<close>

datatype expr_error =
  Invalid_expression
| Nothing_before string
| Expected_between string
| Expected_after string
| Too_many_close
| Expected_close string
| Empty_parens
| Missing_close
| Too_many_close_at_end
| Extra_predicate string
| Delete_with_prune

type_synonym ('a, 'f) parse_result =
  "(expr_error, ('a, 'f) ptree \<times> ('a, 'f) predicate list) outcome"

text \<open>
  In the case of a close parenthesis \<open>prev_pred\<close> is dereferenced, and it is NULL in the call from
  \<open>build_expression_tree\<close>.
\<close>

definition close_paren_error ::
  "('a, 'f) predicate option \<Rightarrow> ('a, 'f) predicate \<Rightarrow> ('a, 'f) parse_result" where
  "close_paren_error prev_pred this_pred =
     (case prev_pred of
        None \<Rightarrow> Undef
      | Some pp \<Rightarrow>
          if (p_type pp = UNI_OP \<or> p_type pp = BI_OP) \<and> \<not> artificial this_pred
          then Exit (Expected_between (p_name pp))
          else if artificial this_pred then Exit (Expected_after (p_name pp))
          else Exit Too_many_close)"

text \<open>
  \<open>get_operand\<close> is the \<open>switch\<close> of \<open>get_expr\<close>, which takes one operand off the list; \<open>get_expr\<close> goes
  on with the operator that follows it. \<open>scan_loop\<close> is the \<open>while\<close> loop of \<open>scan_rest\<close>.
\<close>

function (sequential)
  get_operand :: "('a, 'f) predicate list \<Rightarrow> ('a, 'f) predicate option \<Rightarrow> ('a, 'f) parse_result"
  and get_expr :: "('a, 'f) predicate list \<Rightarrow> predicate_precedence \<Rightarrow>
    ('a, 'f) predicate option \<Rightarrow> ('a, 'f) parse_result"
  and scan_rest :: "('a, 'f) predicate list \<Rightarrow> ('a, 'f) ptree \<Rightarrow> predicate_precedence \<Rightarrow>
    ('a, 'f) parse_result"
  and scan_loop :: "('a, 'f) predicate list \<Rightarrow> ('a, 'f) ptree \<Rightarrow> predicate_precedence \<Rightarrow>
    ('a, 'f) parse_result"
where
  "get_operand [] prev_pred = Exit Invalid_expression"
| "get_operand (this # rest) prev_pred =
     (case p_type this of
        NO_TYPE \<Rightarrow> Exit Invalid_expression
      | BI_OP \<Rightarrow> Exit (Nothing_before (p_name this))
      | CLOSE_PAREN \<Rightarrow> close_paren_error prev_pred this
      | PRIMARY_TYPE \<Rightarrow> Ok (Node this Null Null, rest)
      | UNI_OP \<Rightarrow>
          obind (get_expr rest NEGATE_PREC (Some this))
            (\<lambda>(right, inp). Ok (Node this Null right, inp))
      | OPEN_PAREN \<Rightarrow>
          (if rest = [] \<or> artificial (hd rest) then Exit (Expected_close (p_name this))
           else if p_type (hd rest) = CLOSE_PAREN then Exit Empty_parens
           else obind (get_expr rest NO_PREC (Some this))
             (\<lambda>(tr, inp).
                if inp = [] \<or> p_type (hd inp) \<noteq> CLOSE_PAREN then Exit Missing_close
                else Ok (tr, tl inp))))"
| "get_expr input prev_prec prev_pred =
     obind (get_operand input prev_pred)
       (\<lambda>(tr, inp).
          if inp = [] then Ok (tr, inp)
          else if prec_num prev_prec < prec_num (p_prec (hd inp))
          then obind (scan_rest inp tr prev_prec)
            (\<lambda>(tr', inp'). if tr' = Null then Exit Invalid_expression else Ok (tr', inp'))
          else Ok (tr, inp))"
| "scan_rest input head prev_prec =
     (if input = [] \<or> p_type (hd input) = CLOSE_PAREN then Ok (Null, input)
      else scan_loop input head prev_prec)"
| "scan_loop [] tree prev_prec = Ok (tree, [])"
| "scan_loop (x # xs) tree prev_prec =
     (if prec_num prev_prec < prec_num (p_prec x) then
        (case p_type x of
           BI_OP \<Rightarrow>
             obind (get_expr xs (p_prec x) (Some x))
               (\<lambda>(right, inp). scan_loop inp (Node x tree right) prev_prec)
         | CLOSE_PAREN \<Rightarrow> Ok (tree, x # xs)
         | _ \<Rightarrow> Exit Invalid_expression)
      else Ok (tree, x # xs))"
  by pat_completeness auto

lemma shorter_partial:
  "get_operand_get_expr_scan_rest_scan_loop_dom (Inl (Inl (input, pp))) \<Longrightarrow>
     get_operand input pp = Ok (t, rest) \<Longrightarrow> length rest < length input"
  "get_operand_get_expr_scan_rest_scan_loop_dom (Inl (Inr (input, pr, pp))) \<Longrightarrow>
     get_expr input pr pp = Ok (t, rest) \<Longrightarrow> length rest < length input"
  "get_operand_get_expr_scan_rest_scan_loop_dom (Inr (Inl (input, tr, pr))) \<Longrightarrow>
     scan_rest input tr pr = Ok (t, rest) \<Longrightarrow> length rest \<le> length input"
  "get_operand_get_expr_scan_rest_scan_loop_dom (Inr (Inr (input, tr, pr))) \<Longrightarrow>
     scan_loop input tr pr = Ok (t, rest) \<Longrightarrow> length rest \<le> length input"
proof (induction arbitrary: t rest and t rest and t rest and t rest
    rule: get_operand_get_expr_scan_rest_scan_loop.pinduct)
qed (auto simp: get_operand.psimps get_expr.psimps scan_rest.psimps scan_loop.psimps obind_eq_Ok
    close_paren_error_def split: if_splits predicate_type.splits option.splits; fastforce)+

termination get_operand
proof (relation "measure (\<lambda>x. case x of
      Inl (Inl (input, pp)) \<Rightarrow> 3 * length input
    | Inl (Inr (input, pr, pp)) \<Rightarrow> 3 * length input + 1
    | Inr (Inl (input, tr, pr)) \<Rightarrow> 3 * length input + 2
    | Inr (Inr (input, tr, pr)) \<Rightarrow> 3 * length input + 1)")
qed (auto dest: shorter_partial)


lemma shorter:
  "get_operand input pp = Ok (t, rest) \<Longrightarrow> length rest < length input"
  "get_expr input pr pp = Ok (t, rest) \<Longrightarrow> length rest < length input"
  "scan_rest input tr pr = Ok (t, rest) \<Longrightarrow> length rest \<le> length input"
  "scan_loop input tr pr = Ok (t, rest) \<Longrightarrow> length rest \<le> length input"
proof (induction input pp and input pr pp and input tr pr and input tr pr
    arbitrary: t rest and t rest and t rest and t rest
    rule: get_operand_get_expr_scan_rest_scan_loop.induct)
qed (auto simp: get_expr.simps scan_rest.simps obind_eq_Ok close_paren_error_def
    split: if_splits predicate_type.splits option.splits; fastforce)+

declare get_expr.simps [simp del] scan_rest.simps [simp del]

lemmas parse_induct = get_operand_get_expr_scan_rest_scan_loop.induct

subsection \<open>Well-formed trees\<close>

text \<open>
  In the tree of a parsed expression a primary is a leaf, a negation has its operand on the
  right, and a binary operator has a right operand and, before \<open>opt_expr\<close> adds nodes that have
  none, a left operand.
\<close>

fun wf_tree :: "('a, 'f) ptree \<Rightarrow> bool" where
  "wf_tree Null \<longleftrightarrow> False"
| "wf_tree (Node p l r) \<longleftrightarrow> wf_pred p \<and>
     (if p_type p = PRIMARY_TYPE then l = Null \<and> r = Null
      else if p_type p = UNI_OP then l = Null \<and> wf_tree r
      else p_type p = BI_OP \<and> (l = Null \<or> wf_tree l) \<and> wf_tree r)"

fun complete_tree :: "('a, 'f) ptree \<Rightarrow> bool" where
  "complete_tree Null \<longleftrightarrow> False"
| "complete_tree (Node p l r) \<longleftrightarrow> wf_pred p \<and>
     (if p_type p = PRIMARY_TYPE then l = Null \<and> r = Null
      else if p_type p = UNI_OP then l = Null \<and> complete_tree r
      else p_type p = BI_OP \<and> complete_tree l \<and> complete_tree r)"

lemma complete_wf_tree: "complete_tree t \<Longrightarrow> wf_tree t"
  by (induction t) (auto split: if_splits)

declare wf_pred.simps [simp del]

lemma wf_pred_prec:
  "wf_pred p \<Longrightarrow> p_type p = CLOSE_PAREN \<or> p_type p = OPEN_PAREN \<or> p_type p = PRIMARY_TYPE \<Longrightarrow>
     p_prec p = NO_PREC"
  "wf_pred p \<Longrightarrow> p_type p = UNI_OP \<Longrightarrow> p_prec p = NEGATE_PREC"
  by (auto simp: wf_pred.simps)

lemma wf_pred_biop:
  assumes "wf_pred p" and "p_type p = BI_OP"
  shows "prec_num (p_prec p) \<in> {1, 2, 3}" and "biop_func (p_prec p) = Some (pred_func p)"
  using assms by (auto simp: wf_pred.simps split: predicate_precedence.splits)
    (cases "p_prec p"; simp)+

theorem parse_complete_aux:
  "get_operand input pp = Ok (t, rest) \<Longrightarrow> \<forall>p\<in>set input. wf_pred p \<Longrightarrow>
     complete_tree t \<and> set rest \<subseteq> set input"
  "get_expr input pr pp = Ok (t, rest) \<Longrightarrow> \<forall>p\<in>set input. wf_pred p \<Longrightarrow>
     complete_tree t \<and> set rest \<subseteq> set input"
  "scan_rest input tr pr = Ok (t, rest) \<Longrightarrow> \<forall>p\<in>set input. wf_pred p \<Longrightarrow> complete_tree tr \<Longrightarrow>
     (t = Null \<or> complete_tree t) \<and> set rest \<subseteq> set input"
  "scan_loop input tr pr = Ok (t, rest) \<Longrightarrow> \<forall>p\<in>set input. wf_pred p \<Longrightarrow> complete_tree tr \<Longrightarrow>
     complete_tree t \<and> set rest \<subseteq> set input"
proof (induction input pp and input pr pp and input tr pr and input tr pr
    arbitrary: t rest and t rest and t rest and t rest rule: parse_induct)
  case (2 this rest prev_pred)
  then show ?case
    by (auto simp: obind_eq_Ok close_paren_error_def dest: list.set_sel(2)
      split: if_splits predicate_type.splits option.splits) (blast dest: list.set_sel(2))+
next
  case (3 input prev_prec prev_pred)
  then show ?case
    by (fastforce simp: get_expr.simps [of input] obind_eq_Ok split: if_splits)
next
  case (4 input head prev_prec)
  then show ?case
    by (auto simp: scan_rest.simps [of input] split: if_splits)
next
  case (6 x xs tree prev_prec)
  then show ?case
    by (fastforce simp: obind_eq_Ok split: if_splits predicate_type.splits)
qed auto


lemma get_expr_complete:
  "get_expr input pr pp = Ok (t, rest) \<Longrightarrow> \<forall>p\<in>set input. wf_pred p \<Longrightarrow> complete_tree t"
  by (blast dest: parse_complete_aux(2))

subsection \<open>Nothing is lost\<close>

fun flatten :: "('a, 'f) ptree \<Rightarrow> ('a, 'f) predicate list" where
  "flatten Null = []"
| "flatten (Node p l r) = flatten l @ [p] @ flatten r"

abbreviation not_paren :: "('a, 'f) predicate \<Rightarrow> bool" where
  "not_paren p \<equiv> p_type p \<noteq> OPEN_PAREN \<and> p_type p \<noteq> CLOSE_PAREN"

lemma parse_keeps_aux:
  "get_operand input pp = Ok (t, rest) \<Longrightarrow>
     filter not_paren input = flatten t @ filter not_paren rest"
  "get_expr input pr pp = Ok (t, rest) \<Longrightarrow>
     filter not_paren input = flatten t @ filter not_paren rest"
  "scan_rest input tr pr = Ok (t, rest) \<Longrightarrow> t \<noteq> Null \<Longrightarrow>
     flatten tr @ filter not_paren input = flatten t @ filter not_paren rest"
  "scan_loop input tr pr = Ok (t, rest) \<Longrightarrow>
     flatten tr @ filter not_paren input = flatten t @ filter not_paren rest"
proof (induction input pp and input pr pp and input tr pr and input tr pr
    arbitrary: t rest and t rest and t rest and t rest rule: parse_induct)
  case (2 this rest prev_pred)
  have "filter not_paren (tl xs) = filter not_paren xs"
    if "xs \<noteq> []" "p_type (hd xs) = CLOSE_PAREN" for xs :: "('a, 'b) predicate list"
    using that by (cases xs) auto
  with 2 show ?case
    by (auto simp: obind_eq_Ok close_paren_error_def
      split: if_splits predicate_type.splits option.splits)
next
  case (3 input prev_prec prev_pred)
  then show ?case
    by (fastforce simp: get_expr.simps [of input] obind_eq_Ok split: if_splits)
next
  case (4 input head prev_prec)
  then show ?case
    by (auto simp: scan_rest.simps [of input] split: if_splits)
next
  case (6 x xs tree prev_prec)
  then show ?case
    by (fastforce simp: obind_eq_Ok split: if_splits predicate_type.splits)
qed auto

subsection \<open>The only way to dereference NULL\<close>

lemma parse_defined_aux:
  "get_operand input pp \<noteq> Diverge \<and>
     (pp \<noteq> None \<longrightarrow> get_operand input pp \<noteq> Undef)"
  "get_expr input pr pp \<noteq> Diverge \<and> (pp \<noteq> None \<longrightarrow> get_expr input pr pp \<noteq> Undef)"
  "scan_rest input tr pr \<noteq> Diverge \<and> scan_rest input tr pr \<noteq> Undef"
  "scan_loop input tr pr \<noteq> Diverge \<and> scan_loop input tr pr \<noteq> Undef"
proof (induction input pp and input pr pp and input tr pr and input tr pr
    rule: parse_induct)
  case (2 this rest prev_pred)
  then show ?case
    by (auto simp: obind_eqs close_paren_error_def
      split: if_splits predicate_type.splits option.splits)
next
  case (3 input prev_prec prev_pred)
  then show ?case
    by (fastforce simp: get_expr.simps [of input] obind_eqs split: if_splits)
next
  case (4 input head prev_prec)
  then show ?case
    by (auto simp: scan_rest.simps [of input] split: if_splits)
next
  case (6 x xs tree prev_prec)
  then show ?case
    by (fastforce simp: obind_eqs split: if_splits predicate_type.splits)
qed auto

lemma get_operand_Undef:
  "get_operand input None = Undef \<longleftrightarrow> input \<noteq> [] \<and> p_type (hd input) = CLOSE_PAREN"
  by (cases input)
    (auto simp: obind_eqs close_paren_error_def parse_defined_aux
      split: predicate_type.splits if_splits)

lemma get_expr_Undef:
  "get_expr input pr None = Undef \<longleftrightarrow> input \<noteq> [] \<and> p_type (hd input) = CLOSE_PAREN"
proof -
  have "get_expr input pr None = Undef \<longleftrightarrow> get_operand input None = Undef"
    by (auto simp: get_expr.simps [of input] obind_eqs parse_defined_aux split: if_splits)
  then show ?thesis by (simp add: get_operand_Undef)
qed

subsection \<open>Rendering a tree with as few parentheses as the grammar needs\<close>

text \<open>
  \<open>render op cp k t\<close> writes \<open>t\<close> where only operators of a precedence above \<open>k\<close> may stand
  outside parentheses. The binary operators associate to the left.
\<close>

fun render :: "('a, 'f) predicate \<Rightarrow> ('a, 'f) predicate \<Rightarrow> nat \<Rightarrow> ('a, 'f) ptree \<Rightarrow>
    ('a, 'f) predicate list" where
  "render op cp k Null = []"
| "render op cp k (Node p l r) =
     (if p_type p = PRIMARY_TYPE then [p]
      else if p_type p = UNI_OP then p # render op cp 4 r
      else let body = render op cp (prec_num (p_prec p) - 1) l @
                        p # render op cp (prec_num (p_prec p)) r
           in if prec_num (p_prec p) \<le> k then op # body @ [cp] else body)"

definition stops :: "nat \<Rightarrow> ('a, 'f) predicate list \<Rightarrow> bool" where
  "stops k rest \<longleftrightarrow> (rest = [] \<or>
     ((p_type (hd rest) = BI_OP \<or> p_type (hd rest) = CLOSE_PAREN) \<and> wf_pred (hd rest) \<and>
      prec_num (p_prec (hd rest)) \<le> k))"

lemma stops_scan_loop: "stops k rest \<Longrightarrow> k \<le> prec_num pr \<Longrightarrow> scan_loop rest t pr = Ok (t, rest)"
  by (cases rest) (auto simp: stops_def)

lemma scan_loop_not_Null: "scan_loop xs t pr = Ok (t', xs') \<Longrightarrow> t \<noteq> Null \<Longrightarrow> t' \<noteq> Null"
proof (induction xs arbitrary: t rule: length_induct)
  case (1 xs)
  show ?case
  proof (cases "\<exists>x ys. xs = x # ys \<and> prec_num pr < prec_num (p_prec x) \<and> p_type x = BI_OP")
    case True
    then obtain x ys r inp where "xs = x # ys" "get_expr ys (p_prec x) (Some x) = Ok (r, inp)"
      and *: "scan_loop inp (Node x t r) pr = Ok (t', xs')"
      using "1.prems" by (auto simp: obind_eq_Ok)
    then have "length inp < length xs"
      by (auto dest: shorter(2))
    with * "1.IH" show ?thesis by blast
  next
    case False
    with "1.prems" show ?thesis
      by (cases xs) (auto split: if_splits predicate_type.splits)
  qed
qed


lemma get_expr_as_loop:
  assumes "get_operand input pp = Ok (tr, inp)" and "tr \<noteq> Null"
    and "inp = [] \<or> wf_pred (hd inp)"
  shows "get_expr input pr pp = scan_loop inp tr pr"
proof (cases "inp = [] \<or> \<not> prec_num pr < prec_num (p_prec (hd inp))")
  case True
  with assms(1) show ?thesis by (cases inp) (auto simp: get_expr.simps)
next
  case False
  with assms(3) have "p_type (hd inp) \<noteq> CLOSE_PAREN"
    by (auto dest: wf_pred_prec)
  with False have "scan_rest inp tr pr = scan_loop inp tr pr"
    by (simp add: scan_rest.simps)
  with False assms(1,2) show ?thesis
    by (cases "scan_loop inp tr pr") (auto simp: get_expr.simps dest: scan_loop_not_Null)
qed

definition user_parens :: "('a, 'f) predicate \<Rightarrow> ('a, 'f) predicate \<Rightarrow> bool" where
  "user_parens op cp \<longleftrightarrow> wf_pred op \<and> p_type op = OPEN_PAREN \<and> \<not> artificial op \<and>
     wf_pred cp \<and> p_type cp = CLOSE_PAREN"

lemma complete_tree_type:
  "complete_tree (Node p l r) \<Longrightarrow> p_type p = PRIMARY_TYPE \<or> p_type p = UNI_OP \<or> p_type p = BI_OP"
  by (auto split: if_splits)

lemma render_hd:
  assumes "user_parens op cp" and "complete_tree t" and "\<forall>p\<in>set (flatten t). \<not> artificial p"
  shows "render op cp k t \<noteq> [] \<and> \<not> artificial (hd (render op cp k t)) \<and>
    p_type (hd (render op cp k t)) \<noteq> CLOSE_PAREN"
  using assms(2,3)
proof (induction t arbitrary: k)
  case (Node p l r)
  then show ?case using complete_tree_type [OF Node.prems(1)] assms(1)
    by (auto simp: Let_def user_parens_def split: if_splits)
qed simp

lemma render_parse:
  assumes "user_parens op cp" and "complete_tree t" and "\<forall>p\<in>set (flatten t). \<not> artificial p"
    and "prec_num q \<le> k" and "stops (Suc k) rest"
  shows "get_expr (render op cp k t @ rest) q pp = scan_loop rest t q"
  using assms(2-5)
proof (induction t arbitrary: k q pp rest)
  case (Node p l r)
  have rest: "rest = [] \<or> wf_pred (hd rest)" and le4: "stops 4 rest"
    using Node.prems(4) by (auto simp: stops_def dest: wf_pred_biop(1) wf_pred_prec)
  consider "p_type p = PRIMARY_TYPE" | "p_type p = UNI_OP" | "p_type p = BI_OP"
    using complete_tree_type [OF Node.prems(1)] by blast
  then show ?case
  proof cases
    case 1
    with Node.prems have "l = Null" "r = Null" by auto
    with 1 rest show ?thesis by (simp add: get_expr_as_loop)
  next
    case 2
    with Node.prems have l: "l = Null" and r: "complete_tree r" by auto
    have "stops (Suc 4) rest" using le4 by (auto simp: stops_def)
    then have "get_expr (render op cp 4 r @ rest) NEGATE_PREC (Some p) =
        scan_loop rest r NEGATE_PREC"
      using Node.IH(2) [of NEGATE_PREC 4 rest "Some p"] r Node.prems(2) by simp
    also have "\<dots> = Ok (r, rest)" using le4 by (simp add: stops_scan_loop)
    finally show ?thesis using 2 l rest by (simp add: get_expr_as_loop)
  next
    case 3
    define m where "m = prec_num (p_prec p)"
    have wf: "complete_tree l" "complete_tree r" "wf_pred p"
      and m: "1 \<le> m" "m \<le> 3" using 3 Node.prems wf_pred_biop(1) [of p] by (auto simp: m_def)
    let ?body = "render op cp (m - 1) l @ p # render op cp m r"
    have body: "get_expr (?body @ rest') q' pp' = scan_loop rest' (Node p l r) q'"
      if "prec_num q' < m" "stops m rest'" for rest' q' pp'
    proof -
      have "stops m (p # render op cp m r @ rest')"
        using 3 wf by (simp add: stops_def m_def)
      then have "get_expr (?body @ rest') q' pp' =
          scan_loop (p # render op cp m r @ rest') l q'"
        using Node.IH(1) [of q' "m - 1"] that wf m Node.prems(2) by auto
      also have "get_expr (render op cp m r @ rest') (p_prec p) (Some p) =
          scan_loop rest' r (p_prec p)"
        using Node.IH(2) [of "p_prec p" m rest'] that wf Node.prems(2)
        by (auto simp: m_def stops_def)
      then have "scan_loop (p # render op cp m r @ rest') l q' = scan_loop rest' (Node p l r) q'"
        using that 3 by (simp add: m_def stops_scan_loop)
      finally show ?thesis .
    qed
    show ?thesis
    proof (cases "m \<le> k")
      case False
      then show ?thesis using 3 body [of q rest] Node.prems(3,4)
        by (auto simp: m_def Let_def stops_def)
    next
      case True
      have "stops m (cp # rest)" using assms(1) by (auto simp: stops_def user_parens_def dest: wf_pred_prec)
      then have "get_expr (?body @ cp # rest) NO_PREC (Some op) =
          scan_loop (cp # rest) (Node p l r) NO_PREC"
        using body m by auto
      also have "\<dots> = Ok (Node p l r, cp # rest)"
        using assms(1) by (auto simp: user_parens_def dest: wf_pred_prec)
      finally have "get_operand (op # ?body @ cp # rest) pp = Ok (Node p l r, rest)"
        using assms(1) render_hd [OF assms(1) wf(1), of "m - 1"] Node.prems(2)
        by (auto simp: user_parens_def)
      then have "get_expr (op # ?body @ cp # rest) q pp = scan_loop rest (Node p l r) q"
        using rest by (simp add: get_expr_as_loop)
      then show ?thesis using True 3 by (simp add: m_def Let_def)
    qed
  qed
qed simp

end
