(* ===== verification/FindOpt.thy ===== *)
theory FindOpt
  imports FindParse
begin

text \<open>
  The optimiser of \<open>find/tree.c\<close>: costs and success rates, \<open>opt_expr\<close>, which reorders the
  operands of a chain of operators, and \<open>do_arm_swaps\<close>. The functions work on trees by value:
  each returns the tree the pointers lead to afterwards. \<open>None\<close> stands for a failed \<open>assert\<close>, for a
  dereference of NULL, and for the internal error ``oops -- invalid expression type''.
\<close>

subsection \<open>Costs\<close>

definition costlookup :: "(pred_func \<times> EvaluationCost) list" where
  "costlookup =
    [(Pred_amin, NeedsStatInfo), (Pred_and, NeedsNothing), (Pred_anewer, NeedsStatInfo),
     (Pred_atime, NeedsStatInfo), (Pred_closeparen, NeedsNothing), (Pred_cmin, NeedsStatInfo),
     (Pred_cnewer, NeedsStatInfo), (Pred_comma, NeedsNothing), (Pred_context, NeedsAccessInfo),
     (Pred_ctime, NeedsStatInfo), (Pred_delete, NeedsSyncDiskHit), (Pred_empty, NeedsStatInfo),
     (Pred_exec, NeedsEventualExec), (Pred_execdir, NeedsEventualExec),
     (Pred_executable, NeedsAccessInfo), (Pred_false, NeedsNothing), (Pred_fprint, NeedsNothing),
     (Pred_fprint0, NeedsNothing), (Pred_fprintf, NeedsNothing), (Pred_fstype, NeedsStatInfo),
     (Pred_gid, NeedsStatInfo), (Pred_group, NeedsStatInfo), (Pred_ilname, NeedsLinkName),
     (Pred_iname, NeedsNothing), (Pred_inum, NeedsInodeNumber), (Pred_ipath, NeedsNothing),
     (Pred_links, NeedsStatInfo), (Pred_lname, NeedsLinkName), (Pred_ls, NeedsStatInfo),
     (Pred_fls, NeedsStatInfo), (Pred_mmin, NeedsStatInfo), (Pred_mtime, NeedsStatInfo),
     (Pred_name, NeedsNothing), (Pred_negate, NeedsNothing), (Pred_newer, NeedsStatInfo),
     (Pred_newerXY, NeedsStatInfo), (Pred_nogroup, NeedsStatInfo), (Pred_nouser, NeedsStatInfo),
     (Pred_ok, NeedsUserInteraction), (Pred_okdir, NeedsUserInteraction),
     (Pred_openparen, NeedsNothing), (Pred_or, NeedsNothing), (Pred_path, NeedsNothing),
     (Pred_perm, NeedsStatInfo), (Pred_print, NeedsNothing), (Pred_print0, NeedsNothing),
     (Pred_prune, NeedsNothing), (Pred_quit, NeedsNothing), (Pred_readable, NeedsAccessInfo),
     (Pred_regex, NeedsNothing), (Pred_samefile, NeedsStatInfo), (Pred_size, NeedsStatInfo),
     (Pred_true, NeedsNothing), (Pred_type, NeedsType), (Pred_uid, NeedsStatInfo),
     (Pred_used, NeedsStatInfo), (Pred_user, NeedsStatInfo), (Pred_writable, NeedsAccessInfo),
     (Pred_xtype, NeedsType)]"

text \<open>
  The table is sorted by function address and searched with \<open>bsearch\<close>; its keys are distinct, so
  the search finds the one entry there is, whatever the addresses are.
\<close>

definition get_pred_cost :: "('a, 'f) predicate \<Rightarrow> EvaluationCost" where
  "get_pred_cost p =
     (let data_requirement_cost =
            (if need_stat p then NeedsStatInfo
             else if need_inum p then NeedsInodeNumber
             else if need_type p then NeedsType
             else NeedsNothing);
          inherent_cost =
            (if pred_func p = Pred_exec \<or> pred_func p = Pred_execdir then
               (if exec_multiple p then NeedsEventualExec else NeedsImmediateExec)
             else if pred_func p = Pred_fprintf then p_cost p
             else (case map_of costlookup (pred_func p) of
                     Some c \<Rightarrow> c
                   | None \<Rightarrow> NeedsUnknown))
      in if data_requirement_cost < inherent_cost then inherent_cost else data_requirement_cost)"

fun estimate_costs :: "('a, 'f) ptree \<Rightarrow> ('a, 'f) ptree" where
  "estimate_costs Null = Null"
| "estimate_costs (Node p l r) =
     Node (p\<lparr>p_cost := get_pred_cost p\<rparr>) (estimate_costs l) (estimate_costs r)"

text \<open>Returns true if the specified predicate is reorderable.\<close>

definition predicate_is_cost_free :: "options \<Rightarrow> ('a, 'f) predicate \<Rightarrow> bool" where
  "predicate_is_cost_free opt p \<longleftrightarrow>
     (if pred_func p \<in> {Pred_name, Pred_path, Pred_iname, Pred_ipath} then True
      else if 0 < optimisation_level opt then
        (if pred_func p \<in> {Pred_and, Pred_negate, Pred_comma, Pred_or} then False
         else p_cost p = NeedsNothing)
      else False)"

subsection \<open>Success rates\<close>

definition constrain_rate :: "'f flt \<Rightarrow> 'f \<Rightarrow> 'f" where
  "constrain_rate F rate =
     (if f_less F (f_one F) rate then f_one F
      else if f_less F rate (f_zero F) then f_zero F
      else rate)"

fun getrate :: "'f flt \<Rightarrow> ('a, 'f) ptree \<Rightarrow> 'f" where
  "getrate F Null = f_one F"
| "getrate F (Node p l r) = est_success_rate p"

fun calculate_derived_rates :: "'f flt \<Rightarrow> ('a, 'f) ptree \<Rightarrow> ('a, 'f) ptree option" where
  "calculate_derived_rates F Null = None"
| "calculate_derived_rates F (Node p l r) =
     do {
       r' \<leftarrow> (if r = Null then Some Null else calculate_derived_rates F r);
       l' \<leftarrow> (if l = Null then Some Null else calculate_derived_rates F l);
       case p_type p of
         NO_TYPE \<Rightarrow> if r' = Null \<and> l' = Null then Some (Node p l' r') else None
       | PRIMARY_TYPE \<Rightarrow> if r' = Null \<and> l' = Null then Some (Node p l' r') else None
       | UNI_OP \<Rightarrow>
           if pred_func p = Pred_negate \<and> l' = Null \<and> r' \<noteq> Null
           then Some (Node (p\<lparr>est_success_rate := f_sub F (f_one F) (getrate F r')\<rparr>) l' r')
           else None
       | BI_OP \<Rightarrow>
           (let upd = (\<lambda>rate. Some (Node (p\<lparr>est_success_rate := constrain_rate F rate\<rparr>) l' r'))
            in if pred_func p = Pred_and then upd (f_mul F (getrate F r') (getrate F l'))
               else if pred_func p = Pred_comma then upd (f_one F)
               else if pred_func p = Pred_or then upd (f_add F (getrate F r') (getrate F l'))
               else None)
       | OPEN_PAREN \<Rightarrow> None
       | CLOSE_PAREN \<Rightarrow> None
     }"

subsection \<open>Sorting one list of predicates\<close>

text \<open>
  The lists of \<open>struct predlist\<close> are chains of operator nodes linked by \<open>pred_left\<close>; a list is a
  spine, its head first, and the tail pointer is its last element.
\<close>

definition pred_cost_compare ::
  "'f flt \<Rightarrow> ('a, 'f) predicate \<Rightarrow> ('a, 'f) predicate \<Rightarrow> bool \<Rightarrow> int" where
  "pred_cost_compare F p1 p2 wantfailure =
     (if p_cost p1 = p_cost p2 then
        (if f_eq F (est_success_rate p1) (est_success_rate p2) then 0
         else if wantfailure then
           (if f_less F (est_success_rate p1) (est_success_rate p2) then - 1 else 1)
         else (if f_less F (est_success_rate p1) (est_success_rate p2) then 1 else - 1))
      else (if p_cost p1 < p_cost p2 then - 1 else 1))"

text \<open>
  The inner loop of \<open>predlist_merge_sort\<close>: find the first element that compares greater or equal
  and put the new one behind it. \<open>Some None\<close> is a loop that ran off the end of the list.
\<close>

fun insert_after :: "'f flt \<Rightarrow> ('a, 'f) predicate \<times> ('a, 'f) ptree \<Rightarrow> ('a, 'f) spine \<Rightarrow>
    ('a, 'f) spine option option" where
  "insert_after F q [] = Some None"
| "insert_after F q ((p, r) # xs) =
     (case (r, snd q) of
        (Node rp _ _, Node rq _ _) \<Rightarrow>
          let wantfailure = (p_prec p \<noteq> OR_PREC) in
          if 0 \<le> pred_cost_compare F rp rq wantfailure then Some (Some ((p, r) # q # xs))
          else map_option (map_option ((#) (p, r))) (insert_after F q xs)
      | _ \<Rightarrow> None)"

fun sort_loop :: "'f flt \<Rightarrow> ('a, 'f) spine \<Rightarrow> ('a, 'f) spine \<Rightarrow> ('a, 'f) spine option" where
  "sort_loop F [] new_list = Some new_list"
| "sort_loop F (q # xs) new_list =
     (case insert_after F q new_list of
        None \<Rightarrow> None
      | Some None \<Rightarrow> sort_loop F xs (q # new_list)
      | Some (Some new_list') \<Rightarrow> sort_loop F xs new_list')"

definition merge_pred :: "('a, 'f) spine \<Rightarrow> ('a, 'f) ptree \<Rightarrow> ('a, 'f) ptree" where
  "merge_pred beg_list last_p = link_spine beg_list last_p"

definition predlist_merge_sort ::
  "'f flt \<Rightarrow> ('a, 'f) spine \<Rightarrow> ('a, 'f) ptree \<Rightarrow> ('a, 'f) ptree option" where
  "predlist_merge_sort F lst last_p =
     (if lst = [] then Some last_p
      else do {
        t \<leftarrow> calculate_derived_rates F (link_spine lst Null);
        new_list \<leftarrow> sort_loop F (spine_of t) [];
        t' \<leftarrow> calculate_derived_rates F (link_spine new_list Null);
        Some (merge_pred (spine_of t') last_p)
      })"


subsection \<open>Linking in new parents\<close>

text \<open>
  The node that \<open>set_new_parent\<close> allocates. The fields it leaves uninitialised
  (\<open>literal_control_chars\<close>, \<open>artificial\<close>, \<open>exec_multiple\<close>) are never read afterwards; they are
  \<open>False\<close> here. For a precedence that is none of the three binary operators' the function pointer
  stays uninitialised: \<open>None\<close>.
\<close>

definition new_parent_node ::
  "'f flt \<Rightarrow> predicate_precedence \<Rightarrow> pred_func \<Rightarrow> string \<Rightarrow> 'f \<Rightarrow> ('a, 'f) predicate" where
  "new_parent_node F high_prec fn name rate =
     \<lparr>pred_func = fn, p_name = name, p_type = BI_OP, p_prec = high_prec,
      side_effects = False, no_default_print = False,
      need_stat = False, need_type = False, need_inum = False,
      p_cost = NeedsNothing, est_success_rate = rate,
      literal_control_chars = False, artificial = False, arg_text = None,
      args = None, exec_multiple = False\<rparr>"

fun new_parent :: "'f flt \<Rightarrow> predicate_precedence \<Rightarrow> 'f \<Rightarrow> ('a, 'f) predicate option" where
  "new_parent F COMMA_PREC rate =
     Some (new_parent_node F COMMA_PREC Pred_comma '','' (f_one F))"
| "new_parent F OR_PREC rate =
     Some (new_parent_node F OR_PREC Pred_or ''-o'' (constrain_rate F rate))"
| "new_parent F AND_PREC rate =
     Some (new_parent_node F AND_PREC Pred_and ''-a'' (constrain_rate F rate))"
| "new_parent F _ rate = None"

text \<open>The result is what \<open>*prevp\<close> points to: the new node, with \<open>curr\<close> pushed down to its right.\<close>

definition set_new_parent ::
  "'f flt \<Rightarrow> ('a, 'f) ptree \<Rightarrow> predicate_precedence \<Rightarrow> ('a, 'f) ptree option" where
  "set_new_parent F cur high_prec =
     map_option (\<lambda>q. Node q Null cur) (new_parent F high_prec (getrate F cur))"

text \<open>
  The first loop of \<open>opt_expr\<close>: walk down the left links; \<open>prev_prec\<close> is the precedence of the
  node above. A leftmost node that is no operator gets one above it.
\<close>

fun normalize_left :: "'f flt \<Rightarrow> predicate_precedence \<Rightarrow> ('a, 'f) ptree \<Rightarrow> ('a, 'f) ptree option"
where
  "normalize_left F prev_prec Null = Some Null"
| "normalize_left F prev_prec (Node p l r) =
     (if l = Null then
        (if p_type p \<noteq> BI_OP then set_new_parent F (Node p l r) prev_prec
         else Some (Node p l r))
      else map_option (\<lambda>l'. Node p l' r) (normalize_left F (p_prec p) l))"

subsection \<open>The main loop of opt_expr\<close>

record ('a, 'f) opt_lists =
  name_list :: "('a, 'f) spine"
  regex_list :: "('a, 'f) spine"
  cbo_list :: "EvaluationCost \<Rightarrow> ('a, 'f) spine"

definition empty_lists :: "('a, 'f) opt_lists" where
  "empty_lists = \<lparr>name_list = [], regex_list = [], cbo_list = (\<lambda>_. [])\<rparr>"

fun merge_each :: "'f flt \<Rightarrow> ('a, 'f) spine list \<Rightarrow> ('a, 'f) ptree \<Rightarrow> ('a, 'f) ptree option" where
  "merge_each F [] last_p = Some last_p"
| "merge_each F (l # ls) last_p =
     do { last_p' \<leftarrow> predlist_merge_sort F l last_p; merge_each F ls last_p' }"

definition merge_lists ::
  "'f flt \<Rightarrow> ('a, 'f) opt_lists \<Rightarrow> ('a, 'f) ptree \<Rightarrow> ('a, 'f) ptree option" where
  "merge_lists F ls last_p =
     merge_each F (name_list ls # regex_list ls # map (cbo_list ls) all_costs) last_p"

text \<open>\<open>predlist_insert\<close> puts \<open>curr\<close> at the head of a list; what \<open>*pprev\<close> becomes is the caller's.\<close>

definition predlist_insert :: "('a, 'f) spine \<Rightarrow> ('a, 'f) predicate \<times> ('a, 'f) ptree \<Rightarrow>
    ('a, 'f) spine" where
  "predlist_insert lst cur = cur # lst"

text \<open>
  What the \<open>switch\<close> does with \<open>curr\<close>, whose right operand is \<open>right\<close>: it moves \<open>curr\<close> to a list,
  or leaves it, with a new right operand and the flag \<open>curr->pred_right->side_effects\<close>.
  \<open>optimise\<close> is the recursive call. In \<open>curr->pred_right->side_effects = opt_expr (&curr->pred_right)\<close>
  C leaves open whether the pointer on the left is read before the call or after it; it is read
  after it here, which is what the code needs.
\<close>

datatype ('a, 'f) opt_action =
  Moved "('a, 'f) opt_lists"
| Kept "('a, 'f) ptree" bool

definition wants_reorder :: "options \<Rightarrow> ('a, 'f) predicate \<Rightarrow> bool" where
  "wants_reorder opt p \<longleftrightarrow>
     1 < optimisation_level opt \<and> (p_cost p = NeedsType \<or> p_cost p = NeedsInodeNumber) \<and>
       \<not> need_stat p \<or> 2 < optimisation_level opt"

fun opt_step :: "options \<Rightarrow> (('a, 'f) ptree \<Rightarrow> (('a, 'f) ptree \<times> bool) option) \<Rightarrow>
    predicate_precedence \<Rightarrow> ('a, 'f) opt_lists \<Rightarrow> ('a, 'f) predicate \<Rightarrow> ('a, 'f) ptree \<Rightarrow>
    ('a, 'f) opt_action option" where
  "opt_step opt optimise biop_prec ls p Null = None"
| "opt_step opt optimise biop_prec ls p (Node rp rl rr) =
     (let right = Node rp rl rr in
      if p_type rp = NO_TYPE \<or> p_type rp = PRIMARY_TYPE then
        Some
         (if biop_prec = COMMA_PREC \<or> side_effects rp then Kept right (side_effects rp)
          else if predicate_is_cost_free opt rp then
            Moved (ls\<lparr>name_list := predlist_insert (name_list ls) (p, right)\<rparr>)
          else if pred_func rp = Pred_regex then
            Moved (ls\<lparr>regex_list := predlist_insert (regex_list ls) (p, right)\<rparr>)
          else if wants_reorder opt rp then
            Moved (ls\<lparr>cbo_list := (cbo_list ls)
              (p_cost rp := predlist_insert (cbo_list ls (p_cost rp)) (p, right))\<rparr>)
          else Kept right (side_effects rp))
      else if p_type rp = UNI_OP then
        do {
          (rr', b) \<leftarrow> optimise rr;
          Some (Kept (Node (rp\<lparr>side_effects := b\<rparr>) rl rr') b)
        }
      else if p_type rp = BI_OP then
        do {
          (right', b) \<leftarrow> optimise right;
          (case right' of
             Null \<Rightarrow> None
           | Node q ql qr \<Rightarrow> Some (Kept (Node (q\<lparr>side_effects := b\<rparr>) ql qr) b))
        }
      else None)"

text \<open>
  The \<open>while\<close> loop: the tree is what \<open>*prevp\<close> points to, and the result is what it points to when
  the loop is done, with the value of \<open>has_side_effects\<close> for the nodes from there on.
\<close>

fun opt_loop :: "'f flt \<Rightarrow> options \<Rightarrow> (('a, 'f) ptree \<Rightarrow> (('a, 'f) ptree \<times> bool) option) \<Rightarrow>
    predicate_precedence \<Rightarrow> ('a, 'f) opt_lists \<Rightarrow> ('a, 'f) ptree \<Rightarrow>
    (('a, 'f) ptree \<times> bool) option" where
  "opt_loop F opt optimise biop_prec ls Null =
     do { t \<leftarrow> merge_lists F ls Null; Some (t, False) }"
| "opt_loop F opt optimise biop_prec ls (Node p l r) =
     (let wrap = (p_type p = BI_OP \<and> p_prec p \<noteq> biop_prec) in
      do {
        q \<leftarrow> (if wrap then new_parent F biop_prec (est_success_rate p) else Some p);
        action \<leftarrow> opt_step opt optimise biop_prec ls q (if wrap then Node p l r else r);
        (case action of
           Moved ls' \<Rightarrow> opt_loop F opt optimise biop_prec ls' (if wrap then Null else l)
         | Kept right b \<Rightarrow>
             do {
               (rest, b') \<leftarrow> opt_loop F opt optimise biop_prec (if b then empty_lists else ls)
                 (if wrap then Null else l);
               t \<leftarrow> (if b then merge_lists F ls (Node q rest right)
                    else Some (Node q rest right));
               Some (t, b \<or> b')
             })
      })"

text \<open>
  The recursion of \<open>opt_expr\<close> on operands is bounded by fuel; \<open>nodes t\<close> plus one is enough, as
  each operand has fewer nodes than the tree it is found in.
\<close>

fun opt_expr_fuel :: "'f flt \<Rightarrow> options \<Rightarrow> nat \<Rightarrow> ('a, 'f) ptree \<Rightarrow>
    (('a, 'f) ptree \<times> bool) option" where
  "opt_expr_fuel F opt 0 t = None"
| "opt_expr_fuel F opt (Suc n) Null = Some (Null, False)"
| "opt_expr_fuel F opt (Suc n) (Node p l r) =
     do {
       t \<leftarrow> normalize_left F AND_PREC (Node p l r);
       (case t of
          Null \<Rightarrow> None
        | Node q _ _ \<Rightarrow>
            opt_loop F opt (opt_expr_fuel F opt n)
              (if p_type q = BI_OP then p_prec q else NO_PREC) empty_lists t)
     }"

definition opt_expr :: "'f flt \<Rightarrow> options \<Rightarrow> ('a, 'f) ptree \<Rightarrow> (('a, 'f) ptree \<times> bool) option" where
  "opt_expr F opt t = opt_expr_fuel F opt (Suc (nodes t)) t"

end
