(* ===== verification/FindSwap.thy ===== *)
theory FindSwap
  imports FindOpt
begin

text \<open>
  The last pass of \<open>find/tree.c\<close> over the tree, which exchanges neighbouring operands
  (\<open>do_arm_swaps\<close>), the assertion that the tree is in normal form, and the end of
  \<open>build_expression_tree\<close>, which runs the parser and the passes one after the other.
\<close>

subsection \<open>Arm swaps\<close>

fun subtree_has_side_effects :: "('a, 'f) ptree \<Rightarrow> bool" where
  "subtree_has_side_effects Null \<longleftrightarrow> False"
| "subtree_has_side_effects (Node p l r) \<longleftrightarrow>
     side_effects p \<or> subtree_has_side_effects l \<or> subtree_has_side_effects r"

fun worst_cost :: "('a, 'f) ptree \<Rightarrow> nat" where
  "worst_cost Null = 0"
| "worst_cost (Node p l r) =
     (let cost_l = worst_cost l;
          cost_r = worst_cost r;
          worst = (if cost_r < cost_l then cost_l else cost_r)
      in if worst < cost_num (p_cost p) then cost_num (p_cost p) else worst)"

fun perform_arm_swap :: "('a, 'f) ptree \<Rightarrow> ('a, 'f) ptree" where
  "perform_arm_swap (Node p (Node q ll lr) r) = Node p (Node q ll r) lr"
| "perform_arm_swap t = t"

text \<open>
  Whether the arms of \<open>p\<close>, the right operand \<open>pl\<close> of its left child and its own right operand \<open>pr\<close>,
  are to be exchanged; the conditions come in the order of the code's reasons against it.
\<close>

definition want_swap :: "'f flt \<Rightarrow> ('a, 'f) predicate \<Rightarrow> ('a, 'f) ptree \<Rightarrow> ('a, 'f) ptree \<Rightarrow> bool"
where
  "want_swap F p pl pr \<longleftrightarrow>
     (if subtree_has_side_effects pl then False
      else if subtree_has_side_effects pr then False
      else if worst_cost pl < worst_cost pr then False
      else if worst_cost pl = worst_cost pr then
        (let succ_rate_l = getrate F pl; succ_rate_r = getrate F pr in
         if pred_func p = Pred_or then f_less F succ_rate_r succ_rate_l
         else if pred_func p = Pred_and then f_less F succ_rate_l succ_rate_r
         else False)
      else True)"

fun consider_arm_swap :: "'f flt \<Rightarrow> ('a, 'f) ptree \<Rightarrow> ('a, 'f) ptree \<times> bool" where
  "consider_arm_swap F (Node p (Node q ll lr) r) =
     (let t = Node p (Node q ll lr) r in
      if p_type p \<noteq> BI_OP then (t, False)
      else if r = Null then (t, False)
      else if lr = Null then (t, False)
      else if want_swap F p lr r then (perform_arm_swap t, True)
      else (t, False))"
| "consider_arm_swap F t = (t, False)"

text \<open>
  \<open>do_arm_swaps\<close> repeats until nothing was swapped, so it returns false whenever it returns.
  Each repetition and each step down spends fuel; \<open>None\<close> is out of fuel.
\<close>

fun do_arm_swaps :: "'f flt \<Rightarrow> nat \<Rightarrow> ('a, 'f) ptree \<Rightarrow> (('a, 'f) ptree \<times> bool) option" where
  "do_arm_swaps F 0 t = None"
| "do_arm_swaps F (Suc n) Null = Some (Null, False)"
| "do_arm_swaps F (Suc n) (Node p l r) =
     (case consider_arm_swap F (Node p l r) of
        (t', True) \<Rightarrow> do_arm_swaps F n t'
      | (t', False) \<Rightarrow>
          do {
            (l', swapped_l) \<leftarrow> do_arm_swaps F n l;
            if swapped_l then do_arm_swaps F n (Node p l' r)
            else do {
              (r', swapped_r) \<leftarrow> do_arm_swaps F n r;
              if swapped_r then do_arm_swaps F n (Node p l' r')
              else Some (Node p l' r', False)
            }
          })"

subsection \<open>The normal form\<close>

text \<open>\<open>check_normalization\<close> asserts this.\<close>

fun check_normalization :: "('a, 'f) ptree \<Rightarrow> bool \<Rightarrow> bool" where
  "check_normalization Null at_root \<longleftrightarrow> False"
| "check_normalization (Node p l r) at_root \<longleftrightarrow>
     (at_root \<longrightarrow> p_type p = BI_OP) \<and>
     (case l of Null \<Rightarrow> True | Node q _ _ \<Rightarrow> p_type q = BI_OP \<and> check_normalization l False) \<and>
     (r = Null \<or> check_normalization r False)"

subsection \<open>The end of build_expression_tree\<close>

text \<open>\<open>default_prints\<close> and \<open>check_option_combinations\<close> walk the list of the user's predicates.\<close>

fun default_prints :: "('a, 'f) predicate list \<Rightarrow> bool" where
  "default_prints [] \<longleftrightarrow> True"
| "default_prints (p # ps) \<longleftrightarrow> (if no_default_print p then False else default_prints ps)"

definition check_option_combinations :: "options \<Rightarrow> ('a, 'f) predicate list \<Rightarrow> bool" where
  "check_option_combinations opt ps \<longleftrightarrow>
     (let seen_delete = list_ex (\<lambda>p. pred_func p = Pred_delete) ps;
          seen_prune = list_ex (\<lambda>p. pred_func p = Pred_prune) ps
      in \<not> (seen_prune \<and> seen_delete \<and> \<not> explicit_depth opt))"

text \<open>What is done with the list of predicates once it is complete.\<close>

definition finish_tree :: "'f flt \<Rightarrow> options \<Rightarrow> ('a, 'f) predicate list \<Rightarrow>
    (expr_error, ('a, 'f) ptree) outcome" where
  "finish_tree F opt predicates =
     (if \<not> check_option_combinations opt predicates then Exit Delete_with_prune
      else obind (get_expr predicates NO_PREC None)
       (\<lambda>(eval_tree, cur_pred).
          case calculate_derived_rates F eval_tree of
            None \<Rightarrow> Undef
          | Some t1 \<Rightarrow>
              if cur_pred \<noteq> [] then
                Exit (if pred_func (hd cur_pred) = Pred_closeparen then Too_many_close_at_end
                      else Extra_predicate (p_name (hd cur_pred)))
              else
                (case do {
                   (t2, _) \<leftarrow> opt_expr F opt (estimate_costs t1);
                   _ \<leftarrow> (if check_normalization t2 True then Some () else None);
                   (t3, _) \<leftarrow> do_arm_swaps F (2 * nodes t2 + 1) t2;
                   _ \<leftarrow> (if check_normalization t3 True then Some () else None);
                   Some t3
                 } of
                   None \<Rightarrow> Undef
                 | Some t \<Rightarrow> Ok t)))"

end
