(* ===== verification/FindNormal.thy ===== *)
theory FindNormal
  imports FindSwap "HOL-Library.Multiset"
begin

text \<open>
  What the passes do to the shape of the tree: \<open>opt_expr\<close> never fails an assertion, never
  dereferences NULL and never runs out of fuel on the tree of a parsed expression; its result is
  in normal form, has the same primaries, and its flag says whether one of them has side effects.
\<close>

subsection \<open>Bookkeeping fields\<close>

text \<open>Trees that differ only in the success rate and the side effect flag of operator nodes.\<close>

definition same_node :: "('a, 'f) predicate \<Rightarrow> ('a, 'f) predicate \<Rightarrow> bool" where
  "same_node p q \<longleftrightarrow> q = p \<or>
     ((p_type p = BI_OP \<or> p_type p = UNI_OP) \<and>
      (\<exists>x b. q = p\<lparr>est_success_rate := x, side_effects := b\<rparr>))"

fun same_tree :: "('a, 'f) ptree \<Rightarrow> ('a, 'f) ptree \<Rightarrow> bool" where
  "same_tree Null u \<longleftrightarrow> u = Null"
| "same_tree (Node p l r) u \<longleftrightarrow>
     (\<exists>q l' r'. u = Node q l' r' \<and> same_node p q \<and> same_tree l l' \<and> same_tree r r')"

lemma same_node_refl [simp]: "same_node p p"
  by (simp add: same_node_def)

lemma same_tree_refl [simp]: "same_tree t t"
  by (induction t) auto

lemma same_node_fields:
  assumes "same_node p q"
  shows "p_type q = p_type p" "p_prec q = p_prec p" "pred_func q = pred_func p"
    "needs_nothing q \<longleftrightarrow> needs_nothing p" "wf_pred q \<longleftrightarrow> wf_pred p"
    "p_type p \<noteq> BI_OP \<Longrightarrow> p_type p \<noteq> UNI_OP \<Longrightarrow> q = p"
  using assms by (auto simp: same_node_def needs_nothing_def wf_pred.simps split: predicate_type.splits)

lemma same_tree_Null: "same_tree t u \<Longrightarrow> u = Null \<longleftrightarrow> t = Null"
  by (cases t) auto

text \<open>
  The normal form: every chain of \<open>pred_left\<close> links consists of binary operators of one
  precedence, down to one that has no left operand.
\<close>

fun root_is :: "predicate_precedence \<Rightarrow> ('a, 'f) ptree \<Rightarrow> bool" where
  "root_is m Null \<longleftrightarrow> False"
| "root_is m (Node p l r) \<longleftrightarrow> p_type p = BI_OP \<and> p_prec p = m"

fun normal :: "('a, 'f) ptree \<Rightarrow> bool" where
  "normal Null \<longleftrightarrow> False"
| "normal (Node p l r) \<longleftrightarrow> wf_pred p \<and>
     (if p_type p = PRIMARY_TYPE then l = Null \<and> r = Null
      else if p_type p = UNI_OP then l = Null \<and> normal r
      else p_type p = BI_OP \<and> (l = Null \<or> normal l \<and> root_is (p_prec p) l) \<and> normal r)"

definition has_effects :: "('a, 'f) ptree \<Rightarrow> bool" where
  "has_effects t \<longleftrightarrow> (\<exists>p\<in>set (primaries t). side_effects p)"

lemma has_effects_simps [simp]:
  "has_effects Null \<longleftrightarrow> False"
  "has_effects (Node p l r) \<longleftrightarrow> has_effects l \<or> has_effects r \<or>
     (p_type p \<noteq> BI_OP \<and> p_type p \<noteq> UNI_OP \<and> side_effects p)"
  by (auto simp: has_effects_def)

lemma has_effects_mset: "mset (primaries t) = mset (primaries u) \<Longrightarrow> has_effects t \<longleftrightarrow> has_effects u"
  by (metis has_effects_def mset_eq_setD)

lemma normal_wf_tree: "normal t \<Longrightarrow> wf_tree t"
  by (induction t) (auto split: if_splits)

lemma normal_check: "normal t \<Longrightarrow> check_normalization t False"
proof (induction t)
  case (Node p l r)
  then show ?case by (cases l) (auto split: if_splits)
qed simp

lemma same_tree_facts:
  assumes "same_tree t u"
  shows "wf_tree u \<longleftrightarrow> wf_tree t" "normal u \<longleftrightarrow> normal t" "primaries u = primaries t"
    "nodes u = nodes t" "root_is m u \<longleftrightarrow> root_is m t" "has_effects u \<longleftrightarrow> has_effects t"
proof -
  have root: "root_is m u \<longleftrightarrow> root_is m t" if "same_tree t u" for m and t u :: "('a, 'b) ptree"
    using that by (cases t) (auto simp: same_node_def)
  from assms have "(wf_tree u \<longleftrightarrow> wf_tree t) \<and> (normal u \<longleftrightarrow> normal t) \<and>
      primaries u = primaries t \<and> nodes u = nodes t"
  proof (induction t arbitrary: u)
    case (Node p l r)
    then obtain q l' r' where u: "u = Node q l' r'" and q: "same_node p q"
      and lr: "same_tree l l'" "same_tree r r'" by auto
    show ?case
      using Node.IH(1) [OF lr(1)] Node.IH(2) [OF lr(2)] same_node_fields [OF q]
        same_tree_Null [OF lr(1)] same_tree_Null [OF lr(2)] root [OF lr(1)]
      by (simp add: u)
  qed auto
  then show "wf_tree u \<longleftrightarrow> wf_tree t" "normal u \<longleftrightarrow> normal t" "primaries u = primaries t"
    "nodes u = nodes t" "has_effects u \<longleftrightarrow> has_effects t"
    by (auto simp: has_effects_def)
  show "root_is m u \<longleftrightarrow> root_is m t" using root [OF assms] .
qed

subsection \<open>Derived rates\<close>

lemma biop_func_Some:
  "biop_func m = Some f \<Longrightarrow> f = Pred_and \<and> m = AND_PREC \<or> f = Pred_or \<and> m = OR_PREC \<or>
     f = Pred_comma \<and> m = COMMA_PREC"
  by (cases m) auto

lemma calculate_derived_rates_ok:
  "wf_tree t \<Longrightarrow> \<exists>u. calculate_derived_rates F t = Some u \<and> same_tree t u"
proof (induction t)
  case (Node p l r)
  have "\<exists>l'. (if l = Null then Some Null else calculate_derived_rates F l) = Some l' \<and> same_tree l l'"
    using Node by (auto split: if_splits)
  then obtain l' where l: "(if l = Null then Some Null else calculate_derived_rates F l) = Some l'"
    "same_tree l l'" by blast
  have "\<exists>r'. (if r = Null then Some Null else calculate_derived_rates F r) = Some r' \<and> same_tree r r'"
    using Node by (auto split: if_splits)
  then obtain r' where r: "(if r = Null then Some Null else calculate_derived_rates F r) = Some r'"
    "same_tree r r'" by blast
  have upd: "same_node p (p\<lparr>est_success_rate := x\<rparr>)" if "p_type p = BI_OP \<or> p_type p = UNI_OP" for x
    using that by (auto simp: same_node_def intro!: exI [of _ x] exI [of _ "side_effects p"])
  show ?case
  proof (cases "p_type p")
    case UNI_OP
    then show ?thesis using Node.prems l r upd same_tree_Null [OF l(2)] same_tree_Null [OF r(2)]
      by (auto simp: wf_pred.simps)
  next
    case BI_OP
    then have "pred_func p \<in> {Pred_and, Pred_or, Pred_comma}"
      using Node.prems by (auto simp: wf_pred.simps dest: biop_func_Some)
    then show ?thesis using BI_OP l r upd by (auto simp: Let_def)
  qed (use Node.prems l r in \<open>auto split: if_splits\<close>)
qed simp


subsection \<open>The lists of movable predicates\<close>

fun movable :: "predicate_precedence \<Rightarrow> ('a, 'f) predicate \<times> ('a, 'f) ptree \<Rightarrow> bool" where
  "movable m (p, r) \<longleftrightarrow> p_type p = BI_OP \<and> p_prec p = m \<and> wf_pred p \<and>
     (case r of Null \<Rightarrow> False
      | Node rp rl rr \<Rightarrow> rl = Null \<and> rr = Null \<and> p_type rp = PRIMARY_TYPE \<and> wf_pred rp \<and>
          \<not> side_effects rp)"

abbreviation movables :: "predicate_precedence \<Rightarrow> ('a, 'f) spine \<Rightarrow> bool" where
  "movables m xs \<equiv> (\<forall>x\<in>set xs. movable m x)"

lemma movable_right: "movable m (p, r) \<Longrightarrow> \<exists>rp. r = Node rp Null Null \<and> p_type rp = PRIMARY_TYPE"
  by (cases r) auto

lemma movable_normal: "movable m (p, r) \<Longrightarrow> normal r \<and> wf_tree r \<and> \<not> has_effects r"
  by (cases r) auto

lemma link_movables_wf:
  "movables m xs \<Longrightarrow> t = Null \<or> wf_tree t \<Longrightarrow> xs \<noteq> [] \<or> t \<noteq> Null \<Longrightarrow> wf_tree (link_spine xs t)"
proof (induction xs)
  case (Cons x xs)
  obtain p r where x: "x = (p, r)" by (cases x)
  then have "wf_tree r" using Cons.prems(1) movable_normal [of m p r] by auto
  then show ?case using Cons x by (cases xs) auto
qed auto

lemma link_movables_normal:
  "movables m xs \<Longrightarrow> t = Null \<or> normal t \<and> root_is m t \<Longrightarrow>
     link_spine xs t = Null \<or> normal (link_spine xs t) \<and> root_is m (link_spine xs t)"
proof (induction xs)
  case (Cons x xs)
  obtain p r where x: "x = (p, r)" by (cases x)
  then have "normal r" using Cons.prems(1) movable_normal [of m p r] by auto
  then show ?case using Cons x by auto
qed auto

lemma insert_after_ok:
  assumes "movables m xs" and "movable m q"
  shows "insert_after F q xs = Some None \<or>
    (\<exists>ys. insert_after F q xs = Some (Some ys) \<and> mset ys = add_mset q (mset xs))"
  using assms(1)
proof (induction xs)
  case (Cons x xs)
  obtain p r where x: "x = (p, r)" by (cases x)
  obtain rp rq where "r = Node rp Null Null" "snd q = Node rq Null Null"
    using Cons.prems assms(2) movable_right x by (metis list.set_intros(1) prod.collapse)
  then show ?case using Cons x by (auto simp: Let_def)
qed simp

lemma sort_loop_ok:
  assumes "movables m xs" and "movables m new"
  shows "\<exists>ys. sort_loop F xs new = Some ys \<and> mset ys = mset xs + mset new"
  using assms
proof (induction xs arbitrary: new)
  case (Cons q xs)
  have q: "movable m q" using Cons.prems(1) by simp
  from insert_after_ok [OF Cons.prems(2) q, of F] show ?case
  proof (elim disjE exE conjE)
    assume "insert_after F q new = Some None"
    then show ?thesis using Cons.IH [of "q # new"] Cons.prems q by auto
  next
    fix ys
    assume "insert_after F q new = Some (Some ys)" and ys: "mset ys = add_mset q (mset new)"
    moreover have "movables m ys" using Cons.prems q ys by (metis insert_iff set_mset_add_mset_insert set_mset_mset)
    ultimately show ?thesis using Cons.IH [of ys] Cons.prems by auto
  qed
qed simp

lemma same_tree_link:
  "same_tree (link_spine xs Null) u \<Longrightarrow> movables m xs \<Longrightarrow>
     movables m (spine_of u) \<and> map snd (spine_of u) = map snd xs"
proof (induction xs arbitrary: u)
  case (Cons x xs)
  obtain p r where x: "x = (p, r)" by (cases x)
  then obtain q l' r' where u: "u = Node q l' r'" and q: "same_node p q"
    "same_tree (link_spine xs Null) l'" "same_tree r r'"
    using Cons.prems(1) by auto
  moreover obtain rp where "r = Node rp Null Null" "p_type rp = PRIMARY_TYPE"
    using Cons.prems(2) x movable_right by (metis list.set_intros(1))
  ultimately have "r' = r" by (auto simp: same_node_def)
  then show ?case using Cons x u q same_node_fields [OF q(1)] by auto
qed simp

lemma predlist_merge_sort_ok:
  assumes "movables m xs"
  shows "\<exists>ys. predlist_merge_sort F xs t = Some (link_spine ys t) \<and> movables m ys \<and>
    mset (map snd ys) = mset (map snd xs)"
proof (cases "xs = []")
  case False
  from assms False obtain u where u: "calculate_derived_rates F (link_spine xs Null) = Some u"
    "same_tree (link_spine xs Null) u"
    using calculate_derived_rates_ok link_movables_wf by blast
  note u' = same_tree_link [OF u(2) assms]
  then obtain ys where ys: "sort_loop F (spine_of u) [] = Some ys" "mset ys = mset (spine_of u)"
    using sort_loop_ok [where m = m and xs = "spine_of u" and new = "[]" and F = F] by auto
  then have mv: "movables m ys" "ys \<noteq> []"
    using u' False by (metis set_mset_mset, metis Nil_is_map_conv mset_zero_iff)
  then obtain v where v: "calculate_derived_rates F (link_spine ys Null) = Some v"
    "same_tree (link_spine ys Null) v"
    using calculate_derived_rates_ok link_movables_wf by blast
  note v' = same_tree_link [OF v(2) mv(1)]
  have "mset (map snd (spine_of v)) = mset (map snd xs)"
    using v' u' ys(2) by (metis mset_map)
  moreover have "predlist_merge_sort F xs t = Some (link_spine (spine_of v) t)"
    using False u v ys by (simp add: predlist_merge_sort_def merge_pred_def)
  ultimately show ?thesis using v' by blast
qed (simp add: predlist_merge_sort_def)

lemma merge_each_ok:
  assumes "\<forall>xs\<in>set ls. movables m xs"
  shows "\<exists>ys. merge_each F ls t = Some (link_spine ys t) \<and> movables m ys \<and>
    mset (map snd ys) = mset (map snd (concat ls))"
  using assms
proof (induction ls arbitrary: t)
  case (Cons l ls)
  obtain ys where ys: "predlist_merge_sort F l t = Some (link_spine ys t)" "movables m ys"
    "mset (map snd ys) = mset (map snd l)"
    using Cons.prems predlist_merge_sort_ok by (metis list.set_intros(1))
  obtain zs where zs: "merge_each F ls (link_spine ys t) = Some (link_spine zs (link_spine ys t))"
    "movables m zs" "mset (map snd zs) = mset (map snd (concat ls))"
    using Cons by (metis list.set_intros(2))
  have "\<forall>x\<in>set (zs @ ys). movable m x" using ys zs by auto
  then show ?case using ys zs
    by (auto simp: link_spine_append intro!: exI [of _ "zs @ ys"])
qed (auto intro: exI [of _ "[]"])

definition all_lists :: "('a, 'f) opt_lists \<Rightarrow> ('a, 'f) spine" where
  "all_lists ls = name_list ls @ regex_list ls @ concat (map (cbo_list ls) all_costs)"

lemma merge_lists_ok:
  assumes "movables m (all_lists ls)"
  shows "\<exists>ys. merge_lists F ls t = Some (link_spine ys t) \<and> movables m ys \<and>
    mset (map snd ys) = mset (map snd (all_lists ls))"
  unfolding merge_lists_def
  using merge_each_ok [of "name_list ls # regex_list ls # map (cbo_list ls) all_costs" m F t] assms
  by (auto simp: all_lists_def)


subsection \<open>One step of the main loop\<close>

text \<open>
  \<open>rec_ok n f\<close>: what is needed of the recursive call, on trees of fewer than \<open>n\<close> nodes.
\<close>

definition opt_result :: "('a, 'f) ptree \<Rightarrow> ('a, 'f) ptree \<Rightarrow> bool \<Rightarrow> bool" where
  "opt_result t u b \<longleftrightarrow> normal u \<and> (\<exists>m. root_is m u) \<and>
     mset (primaries u) = mset (primaries t) \<and> (b \<longleftrightarrow> has_effects t)"

definition rec_ok :: "nat \<Rightarrow> (('a, 'f) ptree \<Rightarrow> (('a, 'f) ptree \<times> bool) option) \<Rightarrow> bool" where
  "rec_ok n f \<longleftrightarrow> (\<forall>t. wf_tree t \<longrightarrow> nodes t < n \<longrightarrow> (\<exists>u b. f t = Some (u, b) \<and> opt_result t u b))"

lemma rec_okE:
  assumes "rec_ok n f" and "wf_tree t" and "nodes t < n"
  obtains u b where "f t = Some (u, b)" and "opt_result t u b"
  using assms unfolding rec_ok_def by blast

fun right_small :: "nat \<Rightarrow> ('a, 'f) ptree \<Rightarrow> bool" where
  "right_small n Null \<longleftrightarrow> True"
| "right_small n (Node p l r) \<longleftrightarrow>
     (if p_type p = BI_OP then nodes (Node p l r) < n
      else if p_type p = UNI_OP then nodes r < n else True)"

definition lists_ok :: "predicate_precedence \<Rightarrow> ('a, 'f) opt_lists \<Rightarrow> bool" where
  "lists_ok m ls \<longleftrightarrow> movables m (all_lists ls) \<and> (m = COMMA_PREC \<longrightarrow> all_lists ls = [])"

definition prims :: "('a, 'f) spine \<Rightarrow> ('a, 'f) predicate multiset" where
  "prims xs = \<Sum>\<^sub># (image_mset (mset \<circ> primaries) (mset (map snd xs)))"

lemma prims_simps [simp]:
  "prims [] = {#}"
  "prims (x # xs) = mset (primaries (snd x)) + prims xs"
  by (simp_all add: prims_def)

lemma lists_ok_empty [simp]: "lists_ok m empty_lists" "all_lists empty_lists = []"
  by (simp_all add: lists_ok_def all_lists_def empty_lists_def)

lemma mset_concat_upd:
  assumes "c \<in> set cs" and "distinct cs"
  shows "mset (concat (map (f(c := x # f c)) cs)) = add_mset x (mset (concat (map f cs)))"
  using assms
proof (induction cs)
  case (Cons d cs)
  show ?case
  proof (cases "d = c")
    case True
    then have "map (f(c := x # f c)) cs = map f cs" using Cons.prems by auto
    then show ?thesis using True by (simp del: fun_upd_apply map_eq_conv add: fun_upd_same)
  qed (use Cons in auto)
qed simp

lemma movable_set_mset: "movables m xs \<longleftrightarrow> (\<forall>x\<in>#mset xs. movable m x)"
  by simp

lemma opt_step_ok:
  assumes rec: "rec_ok n f" and right: "wf_tree r" "right_small n r"
    and p: "p_type p = BI_OP" "p_prec p = m" "wf_pred p" and ls: "lists_ok m ls"
  shows "(\<exists>ls'. opt_step opt f m ls p r = Some (Moved ls') \<and> lists_ok m ls' \<and> movable m (p, r) \<and>
      m \<noteq> COMMA_PREC \<and> mset (all_lists ls') = add_mset (p, r) (mset (all_lists ls))) \<or>
    (\<exists>r' b. opt_step opt f m ls p r = Some (Kept r' b) \<and> normal r' \<and> (b \<longleftrightarrow> has_effects r) \<and>
      mset (primaries r') = mset (primaries r))"
proof -
  obtain rp rl rr where r: "r = Node rp rl rr" using right(1) by (cases r) auto
  consider (prim) "p_type rp = PRIMARY_TYPE" "rl = Null" "rr = Null" "wf_pred rp"
    | (uni) "p_type rp = UNI_OP" "rl = Null" "wf_tree rr" "nodes rr < n" "wf_pred rp"
    | (bi) "p_type rp = BI_OP" "nodes r < n"
    using right r by (auto split: if_splits)
  then show ?thesis
  proof cases
    case prim
    show ?thesis
    proof (cases "m = COMMA_PREC \<or> side_effects rp")
      case True
      then show ?thesis using prim r by auto
    next
      case False
      then have mv: "movable m (p, r)" using prim r p by simp
      have "mset (all_lists ls') = add_mset (p, r) (mset (all_lists ls)) \<Longrightarrow> lists_ok m ls'"
        for ls' using False ls mv unfolding lists_ok_def movable_set_mset by auto
      moreover have "mset (all_lists (ls\<lparr>name_list := (p, r) # name_list ls\<rparr>)) =
          add_mset (p, r) (mset (all_lists ls))"
        and "mset (all_lists (ls\<lparr>regex_list := (p, r) # regex_list ls\<rparr>)) =
          add_mset (p, r) (mset (all_lists ls))"
        and "mset (all_lists (ls\<lparr>cbo_list := (cbo_list ls)(c := (p, r) # cbo_list ls c)\<rparr>)) =
          add_mset (p, r) (mset (all_lists ls))" for c
        using mset_concat_upd [of c all_costs "cbo_list ls" "(p, r)"]
        by (simp_all add: all_lists_def distinct_all_costs)
      ultimately show ?thesis using False prim r mv
        by (auto simp: Let_def predlist_insert_def)
    qed
  next
    case uni
    from rec uni(3,4) obtain u b where "f rr = Some (u, b)" "opt_result rr u b"
      by (rule rec_okE)
    moreover have "wf_pred (rp\<lparr>side_effects := b\<rparr>)" using uni by (simp add: wf_pred.simps needs_nothing_def)
    ultimately show ?thesis using uni r by (simp add: opt_result_def)
  next
    case bi
    from rec right(1) bi(2) obtain u b where f: "f r = Some (u, b)" and res: "opt_result r u b"
      by (rule rec_okE)
    then obtain q ql qr where u: "u = Node q ql qr" "normal u" by (cases u) (auto simp: opt_result_def)
    then have "same_tree u (Node (q\<lparr>side_effects := b\<rparr>) ql qr)"
      using res by (auto simp: opt_result_def same_node_def intro!: exI [of _ "est_success_rate q"])
    from same_tree_facts [OF this] show ?thesis using bi r f u res by (auto simp: opt_result_def)
  qed
qed


subsection \<open>The main loop\<close>

fun spine_ok :: "nat \<Rightarrow> ('a, 'f) ptree \<Rightarrow> bool" where
  "spine_ok n Null \<longleftrightarrow> True"
| "spine_ok n (Node p l r) \<longleftrightarrow> p_type p = BI_OP \<and> wf_pred p \<and> wf_tree r \<and> right_small n r \<and>
     (l \<noteq> Null \<longrightarrow> nodes l < n) \<and> spine_ok n l"

lemma spine_ok_wf: "spine_ok n t \<Longrightarrow> t \<noteq> Null \<Longrightarrow> wf_tree t"
  by (induction t) auto

definition three_ops :: "predicate_precedence \<Rightarrow> bool" where
  "three_ops m \<longleftrightarrow> m = COMMA_PREC \<or> m = OR_PREC \<or> m = AND_PREC"

lemma wf_pred_three_ops: "wf_pred p \<Longrightarrow> p_type p = BI_OP \<Longrightarrow> three_ops (p_prec p)"
  using biop_func_Some [of "p_prec p"] by (auto simp: wf_pred.simps three_ops_def)

lemma new_parent_ok:
  "three_ops m \<Longrightarrow> \<exists>q. new_parent F m x = Some q \<and> p_type q = BI_OP \<and> p_prec q = m \<and> wf_pred q \<and>
     \<not> side_effects q"
  by (auto simp: three_ops_def new_parent_node_def wf_pred.simps needs_nothing_def)

definition loop_result :: "predicate_precedence \<Rightarrow> ('a, 'f) opt_lists \<Rightarrow> ('a, 'f) ptree \<Rightarrow>
    ('a, 'f) ptree \<Rightarrow> bool \<Rightarrow> bool" where
  "loop_result m ls t u b \<longleftrightarrow> (u = Null \<or> normal u \<and> root_is m u) \<and>
     mset (primaries u) = prims (all_lists ls) + mset (primaries t) \<and> (b \<longleftrightarrow> has_effects t) \<and>
     (t \<noteq> Null \<longrightarrow> u \<noteq> Null)"

lemma primaries_link:
  "movables m xs \<Longrightarrow> mset (primaries (link_spine xs t)) = prims xs + mset (primaries t)"
proof (induction xs)
  case (Cons x xs)
  then show ?case by (cases x) (auto simp: ac_simps)
qed simp

lemma prims_cong: "mset (map snd xs) = mset (map snd ys) \<Longrightarrow> prims xs = prims ys"
  by (simp add: prims_def)

lemma merge_lists_result:
  assumes "lists_ok m ls" and "u = Null \<or> normal u \<and> root_is m u"
  shows "\<exists>v. merge_lists F ls u = Some v \<and> (v = Null \<or> normal v \<and> root_is m v) \<and>
    mset (primaries v) = prims (all_lists ls) + mset (primaries u) \<and> (u \<noteq> Null \<longrightarrow> v \<noteq> Null)"
proof -
  obtain ys where ys: "merge_lists F ls u = Some (link_spine ys u)" "movables m ys"
    "mset (map snd ys) = mset (map snd (all_lists ls))"
    using assms(1) merge_lists_ok unfolding lists_ok_def by blast
  then show ?thesis
    using link_movables_normal [OF ys(2) assms(2)] primaries_link [OF ys(2), of u]
      prims_cong [OF ys(3)] by (cases ys) auto
qed

lemma opt_loop_ok:
  assumes rec: "rec_ok n f" and m: "three_ops m"
  shows "spine_ok n t \<Longrightarrow> t = Null \<or> root_is m t \<or> nodes t < n \<Longrightarrow> lists_ok m ls \<Longrightarrow>
    \<exists>u b. opt_loop F opt f m ls t = Some (u, b) \<and> loop_result m ls t u b"
proof (induction t arbitrary: ls)
  case Null
  then show ?case
    using merge_lists_result [of m ls Null F] by (auto simp: loop_result_def)
next
  case (Node p l r)
  define wrap where "wrap \<longleftrightarrow> p_prec p \<noteq> m"
  define l0 where "l0 = (if wrap then Null else l)"
  define r0 where "r0 = (if wrap then Node p l r else r)"
  have "\<exists>q. (if wrap then new_parent F m (est_success_rate p) else Some p) = Some q \<and>
      p_type q = BI_OP \<and> p_prec q = m \<and> wf_pred q"
    using new_parent_ok [OF m, of F "est_success_rate p"] Node.prems(1)
    by (cases wrap) (auto simp: wrap_def)
  then obtain q where q: "(if wrap then new_parent F m (est_success_rate p) else Some p) = Some q"
    "p_type q = BI_OP" "p_prec q = m" "wf_pred q" by blast
  have r0: "wf_tree r0" "right_small n r0"
    using Node.prems(1,2) spine_ok_wf [of n "Node p l r"] by (auto simp: r0_def wrap_def)
  have l0: "\<exists>u b. opt_loop F opt f m ls' l0 = Some (u, b) \<and> loop_result m ls' l0 u b"
    if "lists_ok m ls'" for ls'
  proof (cases wrap)
    case True
    then show ?thesis using merge_lists_result [OF that, of Null F]
      by (auto simp: l0_def loop_result_def)
  next
    case False
    have "l = Null \<or> root_is m l \<or> nodes l < n" using Node.prems(1) by auto
    then show ?thesis using Node.IH(1) [of ls'] Node.prems(1) that False by (auto simp: l0_def)
  qed
  have eff: "has_effects (Node p l r) \<longleftrightarrow> has_effects l0 \<or> has_effects r0"
    and prm: "mset (primaries (Node p l r)) = mset (primaries l0) + mset (primaries r0)"
    using Node.prems(1) by (auto simp: l0_def r0_def)
  have loop: "opt_loop F opt f m ls (Node p l r) =
      do {
        action \<leftarrow> opt_step opt f m ls q r0;
        (case action of
           Moved ls' \<Rightarrow> opt_loop F opt f m ls' l0
         | Kept right b \<Rightarrow>
             do {
               (rest, b') \<leftarrow> opt_loop F opt f m (if b then empty_lists else ls) l0;
               t \<leftarrow> (if b then merge_lists F ls (Node q rest right)
                    else Some (Node q rest right));
               Some (t, b \<or> b')
             })
      }"
    using q Node.prems(1) by (auto simp: wrap_def l0_def r0_def)
  from opt_step_ok [OF rec r0 q(2-4) Node.prems(3), of opt] show ?case
  proof (elim disjE exE conjE)
    fix ls'
    assume step: "opt_step opt f m ls q r0 = Some (Moved ls')" and ls': "lists_ok m ls'"
      and mv: "movable m (q, r0)"
      and ms: "mset (all_lists ls') = add_mset (q, r0) (mset (all_lists ls))"
    obtain u b where u: "opt_loop F opt f m ls' l0 = Some (u, b)" "loop_result m ls' l0 u b"
      using l0 [OF ls'] by blast
    have "prims (all_lists ls') = mset (primaries r0) + prims (all_lists ls)"
      using ms by (simp add: prims_def)
    moreover have "u \<noteq> Null"
    proof
      assume "u = Null"
      with u(2) have "prims (all_lists ls') = {#}" by (simp add: loop_result_def)
      with calculation show False using movable_right [OF mv] by auto
    qed
    moreover have "opt_loop F opt f m ls (Node p l r) = Some (u, b)"
      using loop step u(1) by simp
    moreover have "b \<longleftrightarrow> has_effects (Node p l r)"
      unfolding eff using u(2) movable_normal [OF mv] by (simp add: loop_result_def)
    ultimately show ?thesis using u(2) prm unfolding loop_result_def by auto
  next
    fix r' b
    assume step: "opt_step opt f m ls q r0 = Some (Kept r' b)" and r': "normal r'"
      "b \<longleftrightarrow> has_effects r0" "mset (primaries r') = mset (primaries r0)"
    define ls' where "ls' = (if b then empty_lists else ls)"
    have "lists_ok m ls'" using Node.prems(3) by (simp add: ls'_def)
    then obtain u b' where u: "opt_loop F opt f m ls' l0 = Some (u, b')" "loop_result m ls' l0 u b'"
      using l0 by blast
    have nq: "Node q u r' = Null \<or> normal (Node q u r') \<and> root_is m (Node q u r')"
      using q r' u(2) by (auto simp: loop_result_def)
    have "\<exists>v. (if b then merge_lists F ls (Node q u r') else Some (Node q u r')) = Some v \<and>
      (v = Null \<or> normal v \<and> root_is m v) \<and> v \<noteq> Null \<and>
      mset (primaries v) = (if b then prims (all_lists ls) else {#}) + mset (primaries (Node q u r'))"
      using merge_lists_result [OF Node.prems(3) nq, of F] nq by (cases b) auto
    then obtain v where v: "(if b then merge_lists F ls (Node q u r') else Some (Node q u r')) = Some v"
      "v = Null \<or> normal v \<and> root_is m v" "v \<noteq> Null"
      "mset (primaries v) = (if b then prims (all_lists ls) else {#}) + mset (primaries (Node q u r'))"
      by blast
    have "opt_loop F opt f m ls (Node p l r) = Some (v, b \<or> b')"
      using loop step u(1) v(1) by (simp add: ls'_def)
    moreover have "mset (primaries v) = prims (all_lists ls) + mset (primaries (Node p l r))"
      using v(4) u(2) r'(3) prm q(2) by (simp add: loop_result_def ls'_def)
    moreover have "(b \<or> b') \<longleftrightarrow> has_effects (Node p l r)"
      unfolding eff using r'(2) u(2) by (auto simp: loop_result_def)
    ultimately show ?thesis using v(2,3) unfolding loop_result_def by blast
  qed
qed

lemma right_small_mono: "right_small n r \<Longrightarrow> n \<le> k \<Longrightarrow> right_small k r"
  by (cases r) (auto split: if_splits)

lemma spine_ok_mono: "spine_ok n t \<Longrightarrow> n \<le> k \<Longrightarrow> spine_ok k t"
  by (induction t) (auto intro: right_small_mono)

lemma normalize_left_ok:
  "wf_tree t \<Longrightarrow> three_ops pr \<Longrightarrow>
    \<exists>u. normalize_left F pr t = Some u \<and> u \<noteq> Null \<and> nodes u \<le> Suc (nodes t) \<and>
      spine_ok (nodes t) u \<and> primaries u = primaries t"
proof (induction t arbitrary: pr)
  case (Node p l r)
  show ?case
  proof (cases "l = Null")
    case True
    show ?thesis
    proof (cases "p_type p = BI_OP")
      case False
      obtain q :: "('a, 'b) predicate" where
        q: "new_parent F pr (est_success_rate p) = Some q" "p_type q = BI_OP" "wf_pred q"
        using new_parent_ok [OF Node.prems(2), of F "est_success_rate p"] by auto
      have "normalize_left F pr (Node p l r) = Some (Node q Null (Node p l r))"
        using True False q(1) by (simp add: set_new_parent_def)
      moreover have "right_small (nodes (Node p l r)) (Node p l r)" using False by simp
      ultimately show ?thesis using q(2,3) Node.prems(1) False by (simp split: if_splits)
    next
      case bi: True
      then have "right_small (nodes (Node p l r)) r" by (cases r) auto
      then show ?thesis using True bi Node.prems(1) by auto
    qed
  next
    case False
    then have wf: "p_type p = BI_OP" "wf_pred p" "wf_tree l" "wf_tree r"
      using Node.prems(1) by (auto split: if_splits)
    then obtain u where u: "normalize_left F (p_prec p) l = Some u" "u \<noteq> Null"
      "nodes u \<le> Suc (nodes l)" "spine_ok (nodes l) u" "primaries u = primaries l"
      using Node.IH(1) wf_pred_three_ops by blast
    have "right_small (nodes (Node p l r)) r" and "0 < nodes r" using wf(4) by (cases r; auto)+
    then show ?thesis using False wf u spine_ok_mono [OF u(4), of "nodes (Node p l r)"] by auto
  qed
qed simp

lemma opt_expr_fuel_ok: "rec_ok n (opt_expr_fuel F opt n)"
proof (induction n)
  case (Suc n)
  show ?case unfolding rec_ok_def
  proof (intro allI impI)
    fix t :: "('a, 'b) ptree"
    assume t: "wf_tree t" "nodes t < Suc n"
    then obtain p l r where node: "t = Node p l r" by (cases t) auto
    obtain u where u: "normalize_left F AND_PREC t = Some u" "u \<noteq> Null" "spine_ok (nodes t) u"
      "primaries u = primaries t"
      using normalize_left_ok [OF t(1), of AND_PREC F] by (auto simp: three_ops_def)
    then obtain q l' r' where q: "u = Node q l' r'" by (cases u) auto
    have "spine_ok n u" using spine_ok_mono [OF u(3), of n] t(2) by simp
    moreover have "root_is (p_prec q) u" and "three_ops (p_prec q)"
      using calculation q wf_pred_three_ops by auto
    ultimately obtain v b where v: "opt_loop F opt (opt_expr_fuel F opt n) (p_prec q) empty_lists u
          = Some (v, b)" "loop_result (p_prec q) empty_lists u v b"
      using opt_loop_ok [OF Suc.IH, of "p_prec q" u empty_lists F opt] by auto
    have "has_effects u \<longleftrightarrow> has_effects t" using u(4) by (simp add: has_effects_def)
    then have "opt_result t v b"
      using v(2) u(2,4) by (auto simp: loop_result_def opt_result_def)
    moreover have "opt_expr_fuel F opt (Suc n) t = Some (v, b)"
      using u(1) v(1) node q \<open>root_is (p_prec q) u\<close> by simp
    ultimately show "\<exists>u b. opt_expr_fuel F opt (Suc n) t = Some (u, b) \<and> opt_result t u b"
      by blast
  qed
qed (simp add: rec_ok_def)

lemma opt_expr_ok: "wf_tree t \<Longrightarrow> \<exists>u b. opt_expr F opt t = Some (u, b) \<and> opt_result t u b"
  unfolding opt_expr_def using opt_expr_fuel_ok [of "Suc (nodes t)" F opt]
  by (rule rec_okE) auto

end
