(* ===== verification/FindEval.thy ===== *)
theory FindEval
  imports FindNormal
begin

text \<open>
  Evaluation of a predicate tree (\<open>apply_predicate\<close> of \<open>find/util.c\<close>; \<open>pred_and\<close>, \<open>pred_or\<close>,
  \<open>pred_comma\<close>, \<open>pred_negate\<close> of \<open>find/pred.c\<close>) and the proof that the optimiser does not change
  it. The type \<open>'s\<close> is the state an evaluation works on: the current file with its \<open>stat\<close> buffer,
  \<open>struct state\<close> and what has been output. \<open>get_info\<close> is the call that fetches the \<open>stat\<close>
  information, with true for the C result 0, and \<open>prim\<close> runs the function of a primary.
\<close>

fun apply_predicate :: "(('a, 'f) predicate \<Rightarrow> 's \<Rightarrow> bool \<times> 's) \<Rightarrow>
    (('a, 'f) predicate \<Rightarrow> 's \<Rightarrow> bool \<times> 's) \<Rightarrow> ('a, 'f) ptree \<Rightarrow> 's \<Rightarrow> bool \<times> 's" where
  "apply_predicate get_info prim Null s = (False, s)"
| "apply_predicate get_info prim (Node p l r) s =
     (let (ok, s) = (if needs_nothing p then (True, s) else get_info p s) in
      if \<not> ok then (False, s)
      else if pred_func p = Pred_and then
        (if l = Null then apply_predicate get_info prim r s
         else let (b, s) = apply_predicate get_info prim l s in
              if b then apply_predicate get_info prim r s else (False, s))
      else if pred_func p = Pred_or then
        (if l = Null then apply_predicate get_info prim r s
         else let (b, s) = apply_predicate get_info prim l s in
              if \<not> b then apply_predicate get_info prim r s else (True, s))
      else if pred_func p = Pred_comma then
        (if l = Null then apply_predicate get_info prim r s
         else let (b, s) = apply_predicate get_info prim l s in
              apply_predicate get_info prim r s)
      else if pred_func p = Pred_negate then
        (let (b, s) = apply_predicate get_info prim r s in (\<not> b, s))
      else prim p s)"

text \<open>
  The equation for \<open>Null\<close> is never used: the calls from \<open>pred_and\<close>, \<open>pred_or\<close> and \<open>pred_comma\<close> test
  the left operand, and the theorems are about trees whose operators have a right operand.
\<close>

declare apply_predicate.simps(2) [simp del]

text \<open>A call of \<open>apply_predicate\<close> on the node of a primary.\<close>

definition apply_primary :: "(('a, 'f) predicate \<Rightarrow> 's \<Rightarrow> bool \<times> 's) \<Rightarrow>
    (('a, 'f) predicate \<Rightarrow> 's \<Rightarrow> bool \<times> 's) \<Rightarrow> ('a, 'f) predicate \<Rightarrow> 's \<Rightarrow> bool \<times> 's" where
  "apply_primary get_info prim p s =
     (let (ok, s) = (if needs_nothing p then (True, s) else get_info p s) in
      if ok then prim p s else (False, s))"

text \<open>
  What the optimiser relies on. \<open>obs s\<close> is the part of a state that a reordering must keep,
  \<open>good s\<close> holds of the states that occur and \<open>valid p\<close> of the primaries that the parsers make: the
  value and the visible effects of a primary depend on nothing but \<open>obs\<close>, and a primary whose
  \<open>side_effects\<close> flag is off leaves \<open>obs\<close> alone, although it may fetch and cache information.
\<close>

locale predicate_effects =
  fixes get_info :: "('a, 'f) predicate \<Rightarrow> 's \<Rightarrow> bool \<times> 's"
    and prim :: "('a, 'f) predicate \<Rightarrow> 's \<Rightarrow> bool \<times> 's"
    and obs :: "'s \<Rightarrow> 'o"
    and good :: "'s \<Rightarrow> bool"
    and valid :: "('a, 'f) predicate \<Rightarrow> bool"
  assumes primary_obs: "valid p \<Longrightarrow> good s \<Longrightarrow> good s' \<Longrightarrow> obs s = obs s' \<Longrightarrow>
      fst (apply_primary get_info prim p s) = fst (apply_primary get_info prim p s') \<and>
      obs (snd (apply_primary get_info prim p s)) = obs (snd (apply_primary get_info prim p s'))"
    and primary_good: "valid p \<Longrightarrow> good s \<Longrightarrow> good (snd (apply_primary get_info prim p s))"
    and primary_quiet: "valid p \<Longrightarrow> \<not> side_effects p \<Longrightarrow> good s \<Longrightarrow>
      obs (snd (apply_primary get_info prim p s)) = obs s"
    and get_info_cost: "get_info (p\<lparr>p_cost := c\<rparr>) = get_info p"
    and prim_cost: "prim (p\<lparr>p_cost := c\<rparr>) = prim p"
    and valid_cost: "valid (p\<lparr>p_cost := c\<rparr>) \<longleftrightarrow> valid p"
begin

abbreviation run :: "('a, 'f) ptree \<Rightarrow> 's \<Rightarrow> bool \<times> 's" where
  "run \<equiv> apply_predicate get_info prim"

abbreviation run_primary :: "('a, 'f) predicate \<Rightarrow> 's \<Rightarrow> bool \<times> 's" where
  "run_primary \<equiv> apply_primary get_info prim"

text \<open>Two evaluations do the same: from states that look alike, the same truth value and effects.\<close>

definition same_run :: "('s \<Rightarrow> bool \<times> 's) \<Rightarrow> ('s \<Rightarrow> bool \<times> 's) \<Rightarrow> bool" where
  "same_run f g \<longleftrightarrow> (\<forall>s s'. good s \<longrightarrow> good s' \<longrightarrow> obs s = obs s' \<longrightarrow>
     fst (f s) = fst (g s') \<and> obs (snd (f s)) = obs (snd (g s')) \<and>
     good (snd (f s)) \<and> good (snd (g s')))"

definition quiet :: "('s \<Rightarrow> bool \<times> 's) \<Rightarrow> bool" where
  "quiet f \<longleftrightarrow> (\<forall>s. good s \<longrightarrow> obs (snd (f s)) = obs s)"

lemma same_runD:
  assumes "same_run f g" and "good s" and "good s'" and "obs s = obs s'"
  shows "fst (f s) = fst (g s')" "obs (snd (f s)) = obs (snd (g s'))" "good (snd (f s))"
    "good (snd (g s'))"
  using assms unfolding same_run_def by blast+

lemma same_run_sym: "same_run f g \<Longrightarrow> same_run g f"
  unfolding same_run_def by metis

lemma same_run_trans:
  assumes "same_run f g" and "same_run g h"
  shows "same_run f h"
  unfolding same_run_def
proof (intro allI impI)
  fix s s' assume s: "good s" "good s'" "obs s = obs s'"
  from same_runD [OF assms(1) s(1,1) refl] same_runD [OF assms(2) s]
  show "fst (f s) = fst (h s') \<and> obs (snd (f s)) = obs (snd (h s')) \<and>
     good (snd (f s)) \<and> good (snd (h s'))" by simp
qed

definition and_then :: "('s \<Rightarrow> bool \<times> 's) \<Rightarrow> ('s \<Rightarrow> bool \<times> 's) \<Rightarrow> 's \<Rightarrow> bool \<times> 's" where
  "and_then f g = (\<lambda>s. let (b, s) = f s in if b then g s else (False, s))"

definition or_else :: "('s \<Rightarrow> bool \<times> 's) \<Rightarrow> ('s \<Rightarrow> bool \<times> 's) \<Rightarrow> 's \<Rightarrow> bool \<times> 's" where
  "or_else f g = (\<lambda>s. let (b, s) = f s in if \<not> b then g s else (True, s))"

definition then_do :: "('s \<Rightarrow> bool \<times> 's) \<Rightarrow> ('s \<Rightarrow> bool \<times> 's) \<Rightarrow> 's \<Rightarrow> bool \<times> 's" where
  "then_do f g = (\<lambda>s. g (snd (f s)))"

definition opposite :: "('s \<Rightarrow> bool \<times> 's) \<Rightarrow> 's \<Rightarrow> bool \<times> 's" where
  "opposite f = (\<lambda>s. let (b, s) = f s in (\<not> b, s))"

definition combine :: "predicate_precedence \<Rightarrow> ('s \<Rightarrow> bool \<times> 's) \<Rightarrow> ('s \<Rightarrow> bool \<times> 's) \<Rightarrow>
    's \<Rightarrow> bool \<times> 's" where
  "combine m = (if m = AND_PREC then and_then else if m = OR_PREC then or_else else then_do)"

lemmas combine_defs = combine_def and_then_def or_else_def then_do_def opposite_def

lemma combine_same:
  "same_run f f' \<Longrightarrow> same_run g g' \<Longrightarrow> same_run (combine m f g) (combine m f' g')"
  unfolding same_run_def combine_defs by (auto simp: Let_def split_beta)

lemma opposite_same: "same_run f f' \<Longrightarrow> same_run (opposite f) (opposite f')"
  unfolding same_run_def opposite_def by (auto simp: Let_def split_beta)

lemma combine_quiet: "quiet f \<Longrightarrow> quiet g \<Longrightarrow> same_run f f \<Longrightarrow> quiet (combine m f g)"
  using same_runD(3) [of f f]
  by (simp add: quiet_def combine_defs Let_def split_beta)

text \<open>Quiet operands of a conjunction or a disjunction may be exchanged.\<close>

lemma combine_commute:
  assumes m: "m = AND_PREC \<or> m = OR_PREC" and q: "quiet g" "quiet h"
    and self: "same_run f f" "same_run g g" "same_run h h"
  shows "same_run (combine m (combine m f g) h) (combine m (combine m f h) g)"
    and "same_run (combine m g h) (combine m h g)"
proof -
  have stays: "good (snd (g x))" "good (snd (h x))" if "good x" for x
    using that same_runD(3) [OF self(2)] same_runD(3) [OF self(3)] by blast+
  have gh: "fst (g s) = fst (g t)" "fst (h s) = fst (h t)" if "good s" "good t" "obs s = obs t" for s t
    using that same_runD(1) [OF self(2)] same_runD(1) [OF self(3)] by blast+
  have quiet: "obs (snd (g x)) = obs x" "obs (snd (h x)) = obs x"
    "fst (g (snd (h x))) = fst (g x)" "fst (h (snd (g x))) = fst (h x)" if "good x" for x
    using that q gh(1) [of "snd (h x)" x] gh(2) [of "snd (g x)" x] stays by (auto simp: quiet_def)
  show "same_run (combine m (combine m f g) h) (combine m (combine m f h) g)"
    unfolding same_run_def
  proof (intro allI impI)
    fix s s' assume s: "good s" "good s'" "obs s = obs s'"
    note f = same_runD [OF self(1) s]
    note same = f gh [OF f(3,4,2)] quiet [OF f(3)] quiet [OF f(4)] stays [OF f(3)] stays [OF f(4)]
      stays [OF stays(1), OF f(3)] stays [OF stays(2), OF f(3)] stays [OF stays(1), OF f(4)]
      stays [OF stays(2), OF f(4)] quiet [OF stays(1), OF f(3)] quiet [OF stays(2), OF f(3)]
      quiet [OF stays(1), OF f(4)] quiet [OF stays(2), OF f(4)]
    show "fst (combine m (combine m f g) h s) = fst (combine m (combine m f h) g s') \<and>
      obs (snd (combine m (combine m f g) h s)) = obs (snd (combine m (combine m f h) g s')) \<and>
      good (snd (combine m (combine m f g) h s)) \<and> good (snd (combine m (combine m f h) g s'))"
      using m by (elim disjE) (simp_all add: combine_defs split_beta same)
  qed
  show "same_run (combine m g h) (combine m h g)"
    unfolding same_run_def
  proof (intro allI impI)
    fix s s' assume s: "good s" "good s'" "obs s = obs s'"
    note same = s gh [OF s] quiet [OF s(1)] quiet [OF s(2)] stays [OF s(1)] stays [OF s(2)]
      quiet [OF stays(1), OF s(1)] quiet [OF stays(2), OF s(2)] stays [OF stays(1), OF s(1)]
      stays [OF stays(2), OF s(2)]
    show "fst (combine m g h s) = fst (combine m h g s') \<and>
      obs (snd (combine m g h s)) = obs (snd (combine m h g s')) \<and>
      good (snd (combine m g h s)) \<and> good (snd (combine m h g s'))"
      using m same by (auto simp: combine_defs split_beta)
  qed
qed

text \<open>The equations of \<open>run\<close> on well-formed nodes.\<close>

lemma run_binary:
  assumes "wf_pred p" and "p_type p = BI_OP"
  shows "run (Node p l r) = (if l = Null then run r else combine (p_prec p) (run l) (run r))"
proof -
  from assms have "needs_nothing p" and "biop_func (p_prec p) = Some (pred_func p)"
    by (auto simp: wf_pred.simps)
  then show ?thesis
    using biop_func_Some [of "p_prec p"]
    by (auto simp: apply_predicate.simps(2) combine_defs fun_eq_iff split_beta Let_def)
qed

lemma run_not:
  assumes "wf_pred p" and "p_type p = UNI_OP"
  shows "run (Node p l r) = opposite (run r)"
  using assms
  by (auto simp: wf_pred.simps apply_predicate.simps(2) opposite_def fun_eq_iff split_beta Let_def)

lemma run_leaf:
  assumes "wf_pred p" and "p_type p = PRIMARY_TYPE"
  shows "run (Node p l r) = run_primary p"
  using assms
  by (auto simp: wf_pred.simps apply_predicate.simps(2) apply_primary_def fun_eq_iff split_beta Let_def)

lemma run_primary_same: "valid p \<Longrightarrow> same_run (run_primary p) (run_primary p)"
  unfolding same_run_def using primary_obs primary_good by blast

lemma run_primary_quiet: "valid p \<Longrightarrow> \<not> side_effects p \<Longrightarrow> quiet (run_primary p)"
  by (simp add: quiet_def primary_quiet)

abbreviation valid_tree :: "('a, 'f) ptree \<Rightarrow> bool" where
  "valid_tree t \<equiv> (\<forall>p\<in>set (primaries t). valid p)"

abbreviation fit :: "('a, 'f) ptree \<Rightarrow> bool" where
  "fit t \<equiv> (t = Null \<or> wf_tree t) \<and> valid_tree t"

lemma run_same: "fit t \<Longrightarrow> same_run (run t) (run t)"
proof (induction t)
  case (Node p l r)
  then have wf: "wf_pred p" by simp
  then show ?case
    using Node combine_same opposite_same run_primary_same
    by (auto simp: run_binary run_not run_leaf split: if_splits)
qed (simp add: same_run_def)

lemma run_quiet:
  "wf_tree t \<Longrightarrow> valid_tree t \<Longrightarrow> \<not> has_effects t \<Longrightarrow> quiet (run t)"
proof (induction t)
  case (Node p l r)
  then have wf: "wf_pred p" by simp
  consider "p_type p = PRIMARY_TYPE" | "p_type p = UNI_OP" | "p_type p = BI_OP"
    using Node.prems(1) by (auto split: if_splits)
  then show ?case
  proof cases
    case 1
    then show ?thesis using Node.prems wf run_primary_quiet by (simp add: run_leaf)
  next
    case 2
    then have "quiet (run r)" using Node by auto
    then show ?thesis using 2 wf by (simp add: run_not quiet_def opposite_def split_beta Let_def)
  next
    case 3
    then have "wf_tree r" "l = Null \<or> wf_tree l" "valid_tree l" using Node.prems by auto
    then show ?thesis using Node 3 wf combine_quiet run_same [of l] by (auto simp: run_binary)
  qed
qed simp

text \<open>Rearranging the elements of a spine.\<close>

definition operand :: "predicate_precedence \<Rightarrow> ('a, 'f) predicate \<times> ('a, 'f) ptree \<Rightarrow> bool" where
  "operand m x \<longleftrightarrow> p_type (fst x) = BI_OP \<and> p_prec (fst x) = m \<and> wf_pred (fst x) \<and> wf_tree (snd x) \<and>
     valid_tree (snd x)"

definition quiet_operand :: "predicate_precedence \<Rightarrow> ('a, 'f) predicate \<times> ('a, 'f) ptree \<Rightarrow> bool"
where
  "quiet_operand m x \<longleftrightarrow> operand m x \<and> quiet (run (snd x))"

lemma run_operand:
  "operand m (p, r) \<Longrightarrow> run (Node p l r) = (if l = Null then run r else combine m (run l) (run r))"
  by (auto simp: operand_def run_binary)

lemma link_wf: "\<forall>x\<in>set xs. operand m x \<Longrightarrow> fit t \<Longrightarrow>
    fit (link_spine xs t)"
proof (induction xs)
  case (Cons x xs)
  then show ?case by (cases x) (auto simp: operand_def)
qed simp

lemma link_Null: "link_spine xs t = Null \<longleftrightarrow> xs = [] \<and> t = Null"
  by (cases xs) auto

lemma node_same:
  assumes "operand m (p, r)" "operand m (q, r')" "same_run (run r) (run r')"
    "same_run (run l) (run l')" "l = Null \<longleftrightarrow> l' = Null"
  shows "same_run (run (Node p l r)) (run (Node q l' r'))"
  using assms combine_same by (auto simp: run_operand)

lemma link_same:
  assumes "\<forall>x\<in>set xs. operand m x" "same_run (run t) (run u)" "t = Null \<longleftrightarrow> u = Null"
  shows "same_run (run (link_spine xs t)) (run (link_spine xs u))"
  using assms(1)
proof (induction xs)
  case Nil
  then show ?case using assms(2) by simp
next
  case (Cons x xs)
  obtain p r where x: "x = (p, r)" by (cases x)
  have op: "operand m (p, r)" and "same_run (run r) (run r)"
    using Cons.prems x run_same by (auto simp: operand_def)
  then show ?case using Cons x assms(3) by (auto intro!: node_same [OF op op] simp: link_Null)
qed

lemma swap_same:
  assumes m: "m = AND_PREC \<or> m = OR_PREC" and x: "quiet_operand m (p, r)" "quiet_operand m (q, r')"
    and t: "fit t"
  shows "same_run (run (Node p (Node q t r') r)) (run (Node q (Node p t r) r'))"
proof -
  have "same_run (run r) (run r)" "same_run (run r') (run r')" "same_run (run t) (run t)"
    using x t run_same by (auto simp: quiet_operand_def operand_def)
  with combine_commute [OF m, of "run r'" "run r" "run t"] x show ?thesis
    by (auto simp: quiet_operand_def run_operand)
qed

lemma move_same:
  assumes m: "m = AND_PREC \<or> m = OR_PREC" and xs: "\<forall>x\<in>set (x # xs). quiet_operand m x"
    and t: "fit t"
  shows "same_run (run (link_spine (xs @ [x]) t)) (run (link_spine (x # xs) t))"
  using xs
proof (induction xs)
  case Nil
  then show ?case using run_same [of "link_spine [x] t"] link_wf [of "[x]" m t] t
    by (auto simp: quiet_operand_def)
next
  case (Cons y ys)
  obtain p r q r' where x: "x = (p, r)" and y: "y = (q, r')" by (cases x; cases y)
  have all: "\<forall>z\<in>set (x # y # ys). operand m z" using Cons.prems by (simp add: quiet_operand_def)
  have wf: "fit (link_spine ys t)"
    using link_wf [of ys m t] all t by auto
  have "same_run (run (link_spine [y] (link_spine (ys @ [x]) t)))
      (run (link_spine [y] (link_spine (x # ys) t)))"
    using Cons all by (intro link_same [of "[y]" m]) (auto simp: link_Null)
  moreover have "same_run (run (Node q (Node p (link_spine ys t) r) r'))
      (run (Node p (Node q (link_spine ys t) r') r))"
    using swap_same [OF m _ _ wf] Cons.prems x y by simp
  ultimately show ?case using x y by (auto intro: same_run_trans)
qed

lemma permute_same:
  assumes "m = AND_PREC \<or> m = OR_PREC \<or> xs = []"
    and "\<forall>x\<in>set xs. quiet_operand m x" "\<forall>x\<in>set ys. quiet_operand m x"
    and "mset (map snd xs) = mset (map snd ys)" and t: "fit t"
  shows "same_run (run (link_spine xs t)) (run (link_spine ys t))"
  using assms(1-4)
proof (induction xs arbitrary: ys)
  case Nil
  then show ?case using run_same t by auto
next
  case (Cons x xs)
  then have m: "m = AND_PREC \<or> m = OR_PREC" by simp
  have "snd x \<in> set (map snd ys)"
    using Cons.prems(4) by (metis list.set_intros(1) list.simps(9) set_mset_mset)
  then obtain y where y: "y \<in> set ys" "snd y = snd x" by auto
  then obtain us vs where ys: "ys = us @ y # vs" by (meson split_list)
  have ops: "\<forall>z\<in>set (x # xs) \<union> set ys. operand m z" using Cons.prems by (auto simp: quiet_operand_def)
  have "mset (map snd xs) = mset (map snd (us @ vs))"
    using Cons.prems(4) y(2) ys by simp
  then have "same_run (run (link_spine xs t)) (run (link_spine (us @ vs) t))"
    using Cons m ys by auto
  moreover have "link_spine xs t = Null \<longleftrightarrow> link_spine (us @ vs) t = Null"
    using \<open>mset (map snd xs) = _\<close> by (auto simp: link_Null)
  moreover obtain p r q where pq: "x = (p, r)" "y = (q, r)" using y(2) by (cases x; cases y) auto
  moreover have "operand m (p, r)" "operand m (q, r)" "same_run (run r) (run r)"
    using bspec [OF ops, of x] bspec [OF ops, of y] y(1) pq run_same [of r]
    by (simp_all add: operand_def)
  ultimately have "same_run (run (link_spine (x # xs) t)) (run (link_spine (y # us @ vs) t))"
    by (simp add: node_same [of m])
  moreover have "same_run (run (link_spine (us @ [y]) (link_spine vs t)))
      (run (link_spine (y # us) (link_spine vs t)))"
  proof (rule move_same [OF m])
    show "\<forall>x\<in>set (y # us). quiet_operand m x" using Cons.prems(3) unfolding ys by simp
    have "\<forall>x\<in>set vs. operand m x" using ops unfolding ys by simp
    then show "fit (link_spine vs t)" using link_wf t by blast
  qed
  then have "same_run (run (link_spine (y # us @ vs) t)) (run (link_spine ys t))"
    unfolding ys by (cases y) (simp add: link_spine_append same_run_sym)
  ultimately show ?case by (metis same_run_trans)
qed

lemma movable_quiet:
  "movable m (p, r) \<Longrightarrow> valid_tree r \<Longrightarrow> quiet_operand m (p, r)"
  using movable_normal [of m p r] run_quiet [of r]
  by (auto simp: quiet_operand_def operand_def)

end

end
