(* ===== verification/FindSame.thy ===== *)
theory FindSame
  imports FindEval
begin

text \<open>
  The passes of \<open>find/tree.c\<close> do not change what an expression does: lemmas under the interface
  \<open>predicate_effects\<close> for the derived rates, the cost estimate and the optimiser \<open>opt_expr\<close>.
\<close>

lemma normal_primaries: "normal t \<Longrightarrow> primaries t \<noteq> []"
  by (induction t) (auto split: if_splits)

lemma prims_empty: "movables m xs \<Longrightarrow> prims xs = {#} \<longleftrightarrow> xs = []"
proof (cases xs)
  case (Cons x ys)
  assume "movables m xs"
  then have "movable m (fst x, snd x)" using Cons by simp
  from movable_right [OF this] Cons show ?thesis by auto
qed simp

lemma loop_result_Null:
  assumes "loop_result m ls t u b" and "lists_ok m ls"
  shows "u = Null \<longleftrightarrow> link_spine (all_lists ls) t = Null"
proof -
  have mv: "movables m (all_lists ls)" using assms(2) by (simp add: lists_ok_def)
  have eq: "mset (primaries u) = prims (all_lists ls) + mset (primaries t)"
    and t: "t \<noteq> Null \<longrightarrow> u \<noteq> Null" and u: "u = Null \<or> normal u"
    using assms(1) by (auto simp: loop_result_def)
  show ?thesis
  proof
    assume "u = Null"
    then have "t = Null" "prims (all_lists ls) = {#}" using t eq by auto
    then show "link_spine (all_lists ls) t = Null" using prims_empty [OF mv] by simp
  next
    assume "link_spine (all_lists ls) t = Null"
    then have "t = Null" "all_lists ls = []" by (cases "all_lists ls"; auto)+
    then have "primaries u = []" using eq by simp
    then show "u = Null" using u normal_primaries by blast
  qed
qed

context predicate_effects
begin

lemma run_same_tree: "same_tree t u \<Longrightarrow> wf_tree t \<or> t = Null \<Longrightarrow> run u = run t"
proof (induction t arbitrary: u)
  case (Node p l r)
  then obtain q l' r' where u: "u = Node q l' r'" and q: "same_node p q"
    and lr: "same_tree l l'" "same_tree r r'" by auto
  have wf: "wf_pred p" "wf_pred q" using Node.prems(2) same_node_fields(5) [OF q] by auto
  consider "p_type p = PRIMARY_TYPE" "l = Null" "r = Null"
    | "p_type p = UNI_OP" "wf_tree r" | "p_type p = BI_OP" "l = Null \<or> wf_tree l" "wf_tree r"
    using Node.prems(2) by (auto split: if_splits)
  then show ?case
  proof cases
    case 1
    then have "q = p" using same_node_fields(6) [OF q] by simp
    then show ?thesis using 1 lr u by simp
  next
    case 2
    then have "run r' = run r" using Node.IH(2) [OF lr(2)] by simp
    then show ?thesis using 2 wf u same_node_fields [OF q] by (simp add: run_not)
  next
    case 3
    then have "run r' = run r" and "run l' = run l" using Node.IH lr by blast+
    then show ?thesis using 3 wf u same_node_fields [OF q] same_tree_Null [OF lr(1)]
      by (simp add: run_binary)
  qed
qed simp

definition rec_same :: "nat \<Rightarrow> (('a, 'f) ptree \<Rightarrow> (('a, 'f) ptree \<times> bool) option) \<Rightarrow> bool" where
  "rec_same n f \<longleftrightarrow> (\<forall>t u b. wf_tree t \<longrightarrow> nodes t < n \<longrightarrow> valid_tree t \<longrightarrow> f t = Some (u, b) \<longrightarrow>
     same_run (run u) (run t))"

lemma rec_sameD: "rec_same n f \<Longrightarrow> wf_tree t \<Longrightarrow> nodes t < n \<Longrightarrow> valid_tree t \<Longrightarrow> f t = Some (u, b) \<Longrightarrow>
    same_run (run u) (run t)"
  unfolding rec_same_def by blast

lemma opt_step_same:
  assumes rec: "rec_ok n f" "rec_same n f" and right: "wf_tree r" "right_small n r" "valid_tree r"
    and kept: "opt_step opt f m ls p r = Some (Kept r' b)"
  shows "same_run (run r') (run r)"
proof -
  obtain rp rl rr where r: "r = Node rp rl rr" using right(1) by (cases r) auto
  consider (prim) "p_type rp = PRIMARY_TYPE"
    | (uni) "p_type rp = UNI_OP" "rl = Null" "wf_tree rr" "nodes rr < n" "wf_pred rp"
    | (bi) "p_type rp = BI_OP" "nodes r < n"
    using right r by (auto split: if_splits)
  then show ?thesis
  proof cases
    case prim
    then have "r' = r" using kept r by (auto simp: Let_def split: if_splits)
    then show ?thesis using run_same right(1,3) by simp
  next
    case uni
    from rec(1) uni(3,4) obtain u c where f: "f rr = Some (u, c)" by (rule rec_okE)
    then have r': "r' = Node (rp\<lparr>side_effects := c\<rparr>) rl u" using kept r uni by auto
    have "same_run (run u) (run rr)"
      using rec_sameD [OF rec(2) uni(3,4) _ f] right(3) r uni(1,2) by simp
    moreover have "wf_pred (rp\<lparr>side_effects := c\<rparr>)"
      using uni by (simp add: wf_pred.simps needs_nothing_def)
    ultimately show ?thesis using r r' uni by (simp add: run_not opposite_same)
  next
    case bi
    from rec(1) right(1) bi(2) obtain u c where f: "f r = Some (u, c)" and res: "opt_result r u c"
      by (rule rec_okE)
    then obtain q ql qr where u: "u = Node q ql qr" "normal u" by (cases u) (auto simp: opt_result_def)
    then have "same_tree u (Node (q\<lparr>side_effects := c\<rparr>) ql qr)"
      using res by (auto simp: opt_result_def same_node_def intro!: exI [of _ "est_success_rate q"])
    moreover have "r' = Node (q\<lparr>side_effects := c\<rparr>) ql qr" using kept r f u bi(1) by auto
    ultimately have "run r' = run u" using run_same_tree u normal_wf_tree by blast
    then show ?thesis using rec_sameD [OF rec(2) right(1) bi(2) right(3) f] by simp
  qed
qed

definition valid_lists :: "('a, 'f) opt_lists \<Rightarrow> bool" where
  "valid_lists ls \<longleftrightarrow> (\<forall>x\<in>set (all_lists ls). valid_tree (snd x))"

lemma loop_result_valid:
  assumes "loop_result m ls t u b" and "valid_lists ls" and "valid_tree t"
  shows "valid_tree u"
proof -
  have prims: "\<forall>p\<in>#prims xs. valid p" if "\<forall>x\<in>set xs. valid_tree (snd x)" for xs
    using that by (induction xs) auto
  have "set (primaries u) = set_mset (prims (all_lists ls)) \<union> set (primaries t)"
    using assms(1) unfolding loop_result_def by (metis set_mset_mset set_mset_union)
  then show ?thesis using prims [of "all_lists ls"] assms(2,3) unfolding valid_lists_def by blast
qed

lemma lists_quiet:
  "lists_ok m ls \<Longrightarrow> valid_lists ls \<Longrightarrow> x \<in> set (all_lists ls) \<Longrightarrow> quiet_operand m x"
  using movable_quiet [of m "fst x" "snd x"] by (auto simp: lists_ok_def valid_lists_def)

lemma lists_operand: "lists_ok m ls \<Longrightarrow> valid_lists ls \<Longrightarrow> \<forall>x\<in>set (all_lists ls). operand m x"
  using lists_quiet by (auto simp: quiet_operand_def)

lemma three_ops_lists: "three_ops m \<Longrightarrow> lists_ok m ls \<Longrightarrow>
    m = AND_PREC \<or> m = OR_PREC \<or> all_lists ls = []"
  by (auto simp: three_ops_def lists_ok_def)

lemma merge_lists_same:
  assumes m: "three_ops m" and ls: "lists_ok m ls" "valid_lists ls" and t: "fit t"
    and v: "merge_lists F ls t = Some v"
  shows "same_run (run (link_spine (all_lists ls) t)) (run v)"
proof -
  obtain ys where ys: "merge_lists F ls t = Some (link_spine ys t)" "movables m ys"
    "mset (map snd ys) = mset (map snd (all_lists ls))"
    using merge_lists_ok [of ls m F t] ls(1) unfolding lists_ok_def by blast
  from ys(3) have "snd ` set ys = snd ` set (all_lists ls)"
    by (metis list.set_map set_mset_mset)
  have valid: "quiet_operand m x" if "x \<in> set ys" for x
  proof -
    have "snd x \<in> snd ` set (all_lists ls)" using that \<open>snd ` set ys = _\<close> by blast
    then obtain z where "z \<in> set (all_lists ls)" "snd x = snd z" by blast
    then have "valid_tree (snd x)" using ls(2) by (simp add: valid_lists_def)
    then show ?thesis using that ys(2) movable_quiet [of m "fst x" "snd x"] by simp
  qed
  have "same_run (run (link_spine (all_lists ls) t)) (run (link_spine ys t))"
  proof (rule permute_same [where m = m])
    show "\<forall>x\<in>set (all_lists ls). quiet_operand m x" using lists_quiet [OF ls] by blast
    show "\<forall>x\<in>set ys. quiet_operand m x" using valid by blast
  qed (use three_ops_lists [OF m ls(1)] ys(3) t in simp_all)
  then show ?thesis using ys(1) v by simp
qed

lemma opt_loop_same:
  assumes rec: "rec_ok n f" "rec_same n f" and m: "three_ops m"
  shows "spine_ok n t \<Longrightarrow> t = Null \<or> root_is m t \<or> nodes t < n \<Longrightarrow> lists_ok m ls \<Longrightarrow>
    valid_lists ls \<Longrightarrow> valid_tree t \<Longrightarrow> opt_loop F opt f m ls t = Some (u, b) \<Longrightarrow>
    same_run (run (link_spine (all_lists ls) t)) (run u)"
proof (induction t arbitrary: ls u b)
  case Null
  then show ?case using merge_lists_same [OF m Null.prems(3,4), of Null F]
    by (auto split: bind_splits)
next
  case (Node p l r)
  define wrap where "wrap \<longleftrightarrow> p_prec p \<noteq> m"
  define l0 where "l0 = (if wrap then Null else l)"
  define r0 where "r0 = (if wrap then Node p l r else r)"
  have "\<exists>q. (if wrap then new_parent F m (est_success_rate p) else Some p) = Some q \<and>
      p_type q = BI_OP \<and> p_prec q = m \<and> wf_pred q"
    using new_parent_ok [OF m, of F "est_success_rate p"] Node.prems(1)
    by (cases wrap) (auto simp: wrap_def)
  then obtain q where q: "(if wrap then new_parent F m (est_success_rate p) else Some p) = Some q"
    "p_type q = BI_OP" "p_prec q = m" "wf_pred q" by blast
  have t: "wf_tree (Node p l r)" using spine_ok_wf [OF Node.prems(1)] by simp
  have r0: "wf_tree r0" "right_small n r0" "valid_tree r0"
    using Node.prems(1,2,5) t by (auto simp: r0_def wrap_def)
  have l0: "spine_ok n l0" "l0 = Null \<or> root_is m l0 \<or> nodes l0 < n" "valid_tree l0"
    using Node.prems(1,5) by (auto simp: l0_def)
  have l0_ok: "\<exists>u b. opt_loop F opt f m ls' l0 = Some (u, b) \<and> loop_result m ls' l0 u b"
    if "lists_ok m ls'" for ls'
    using opt_loop_ok [OF rec(1) m l0(1,2) that] .
  have l0_same: "same_run (run (link_spine (all_lists ls') l0)) (run u)"
    if "lists_ok m ls'" "valid_lists ls'" "opt_loop F opt f m ls' l0 = Some (u, b)" for ls' u b
  proof (cases wrap)
    case True
    then show ?thesis using that merge_lists_same [OF m that(1,2), of Null F]
      by (auto simp: l0_def split: bind_splits)
  next
    case False
    then have "l0 = l" by (simp add: l0_def)
    then show ?thesis using Node.IH(1) [OF _ _ that(1,2), of u b] l0 that(3) by simp
  qed
  have op: "operand m (q, r0)" using q r0 by (simp add: operand_def)
  have run0: "run (Node q l0 r0) = run (Node p l r)"
    using q t by (auto simp: l0_def r0_def run_binary)
  have all: "\<forall>x\<in>set (all_lists ls). quiet_operand m x" "\<forall>x\<in>set (all_lists ls). operand m x"
    using lists_quiet [OF Node.prems(3,4)] lists_operand [OF Node.prems(3,4)] by blast+
  have self: "same_run (run l0) (run l0)" "same_run (run r0) (run r0)"
    using run_same [of l0] run_same [of r0] r0(1,3) l0(1,3) spine_ok_wf [of n l0] by blast+
  have start: "same_run (run (link_spine (all_lists ls) (Node p l r)))
      (run (link_spine (all_lists ls) (Node q l0 r0)))"
  proof (rule link_same [OF all(2)])
    have "same_run (run (Node p l r)) (run (Node p l r))" using run_same t Node.prems(5) by blast
    then show "same_run (run (Node p l r)) (run (Node q l0 r0))" using run0 by simp
  qed simp
  have snoc: "link_spine (all_lists ls) (Node q l0 r0) = link_spine (all_lists ls @ [(q, r0)]) l0"
    by (simp add: link_spine_append)
  have l0_wf: "fit l0" using l0(1,3) spine_ok_wf by blast
  have loop: "opt_loop F opt f m ls (Node p l r) =
      do {
        action \<leftarrow> opt_step opt f m ls q r0;
        (case action of
           Moved ls' \<Rightarrow> opt_loop F opt f m ls' l0
         | Kept right b \<Rightarrow>
             do {
               (rest, b') \<leftarrow> opt_loop F opt f m (if b then empty_lists else ls) l0;
               t \<leftarrow> (if b then merge_lists F ls (Node q rest right)
                    else Some (Node q rest right));
               Some (t, b \<or> b')
             })
      }"
    using q Node.prems(1) by (auto simp: wrap_def l0_def r0_def)
  from opt_step_ok [OF rec(1) r0(1,2) q(2-4) Node.prems(3), of opt] show ?case
  proof (elim disjE exE conjE)
    fix ls'
    assume step: "opt_step opt f m ls q r0 = Some (Moved ls')" and ls': "lists_ok m ls'"
      and mv: "movable m (q, r0)" and nc: "m \<noteq> COMMA_PREC"
      and ms: "mset (all_lists ls') = add_mset (q, r0) (mset (all_lists ls))"
    have u: "opt_loop F opt f m ls' l0 = Some (u, b)" using Node.prems(6) loop step by simp
    have set: "set (all_lists ls') = insert (q, r0) (set (all_lists ls))"
      using ms by (metis set_mset_add_mset_insert set_mset_mset)
    have vls: "valid_lists ls'" using Node.prems(4) r0(3) set by (simp add: valid_lists_def)
    have "same_run (run (link_spine (all_lists ls @ [(q, r0)]) l0)) (run (link_spine (all_lists ls') l0))"
    proof (rule permute_same [where m = m])
      show "\<forall>x\<in>set (all_lists ls @ [(q, r0)]). quiet_operand m x"
        using all(1) movable_quiet [OF mv r0(3)] by simp
      show "\<forall>x\<in>set (all_lists ls'). quiet_operand m x"
        using lists_quiet [OF ls' vls] by blast
      show "m = AND_PREC \<or> m = OR_PREC \<or> all_lists ls @ [(q, r0)] = []"
        using m nc by (auto simp: three_ops_def)
    qed (use ms l0_wf in simp_all)
    then show ?thesis using same_run_trans [OF start [unfolded snoc]] l0_same [OF ls' vls u]
        same_run_trans by blast
  next
    fix r' c
    assume step: "opt_step opt f m ls q r0 = Some (Kept r' c)" and r': "normal r'"
      "c \<longleftrightarrow> has_effects r0" "mset (primaries r') = mset (primaries r0)"
    define ls' where "ls' = (if c then empty_lists else ls)"
    have ls': "lists_ok m ls'" "valid_lists ls'" using Node.prems(3,4)
      by (simp_all add: ls'_def valid_lists_def)
    obtain rest d where rest: "opt_loop F opt f m ls' l0 = Some (rest, d)" "loop_result m ls' l0 rest d"
      using l0_ok [OF ls'(1)] by blast
    have same_r: "same_run (run r0) (run r')"
      using opt_step_same [OF rec r0 step] same_run_sym by blast
    note same_l = l0_same [OF ls' rest(1)]
    note null = loop_result_Null [OF rest(2) ls'(1)]
    have valid_r': "valid_tree r'" using r0(3) mset_eq_setD [OF r'(3)] by simp
    have op': "operand m (q, r')" using q normal_wf_tree [OF r'(1)] valid_r' by (simp add: operand_def)
    show ?thesis
    proof (cases c)
      case True
      have v: "merge_lists F ls (Node q rest r') = Some u"
        using Node.prems(6) loop step rest(1) True by (auto simp: ls'_def split: bind_splits)
      have "same_run (run (Node q l0 r0)) (run (Node q rest r'))"
        using node_same [OF op op' same_r] same_l null True by (simp add: ls'_def)
      then have "same_run (run (link_spine (all_lists ls) (Node q l0 r0)))
          (run (link_spine (all_lists ls) (Node q rest r')))"
        using link_same [OF all(2)] by simp
      moreover have "wf_tree (Node q rest r')"
        using op' rest(2) normal_wf_tree by (auto simp: operand_def loop_result_def)
      moreover have "valid_tree (Node q rest r')"
        using loop_result_valid [OF rest(2) ls'(2) l0(3)] valid_r' q(2) by auto
      ultimately have "same_run (run (link_spine (all_lists ls) (Node q l0 r0))) (run u)"
        using merge_lists_same [OF m Node.prems(3,4) _ v] same_run_trans by blast
      then show ?thesis using start same_run_trans by blast
    next
      case False
      have u: "u = Node q rest r'" using Node.prems(6) loop step rest(1) False by (auto simp: ls'_def)
      have "same_run (run (link_spine (all_lists ls @ [(q, r0)]) l0))
          (run (link_spine ((q, r0) # all_lists ls) l0))"
      proof (cases "all_lists ls = []")
        case True
        then show ?thesis using run_same [of "Node q l0 r0"] op l0_wf q(2) by (auto simp: operand_def)
      next
        case ne: False
        have "quiet (run r0)" using run_quiet [OF r0(1,3)] r'(2) False by blast
        then have "quiet_operand m (q, r0)" using op by (simp add: quiet_operand_def)
        then show ?thesis using ne three_ops_lists [OF m Node.prems(3)] all(1) l0_wf
          by (intro move_same [where m = m]) auto
      qed
      moreover have "same_run (run (link_spine ((q, r0) # all_lists ls) l0)) (run u)"
        using node_same [OF op op' same_r] same_l null False u by (simp add: ls'_def)
      ultimately show ?thesis using start snoc same_run_trans by metis
    qed
  qed
qed

lemma normalize_left_same:
  "wf_tree t \<Longrightarrow> three_ops pr \<Longrightarrow> normalize_left F pr t = Some u \<Longrightarrow> run u = run t"
proof (induction t arbitrary: pr u)
  case (Node p l r)
  show ?case
  proof (cases "l = Null")
    case True
    obtain q :: "('a, 'f) predicate" where q: "new_parent F pr (est_success_rate p) = Some q"
      "p_type q = BI_OP" "wf_pred q"
      using new_parent_ok [OF Node.prems(2), of F "est_success_rate p"] by auto
    then show ?thesis using Node.prems(3) True
      by (auto simp: set_new_parent_def run_binary split: if_splits)
  next
    case False
    then have wf: "p_type p = BI_OP" "wf_pred p" "wf_tree l" "wf_tree r"
      using Node.prems(1) by (auto split: if_splits)
    then obtain v where v: "normalize_left F (p_prec p) l = Some v" "v \<noteq> Null"
      using normalize_left_ok [OF wf(3) wf_pred_three_ops [OF wf(2,1)]] by blast
    have "run v = run l" using Node.IH(1) [OF wf(3) wf_pred_three_ops [OF wf(2,1)] v(1)] .
    moreover have "u = Node p v r" using Node.prems(3) False v(1) by simp
    ultimately show ?thesis using wf v(2) False by (simp add: run_binary)
  qed
qed simp

lemma opt_expr_fuel_same: "rec_same n (opt_expr_fuel F opt n)"
proof (induction n)
  case (Suc n)
  show ?case unfolding rec_same_def
  proof (intro allI impI)
    fix t v b
    assume t: "wf_tree t" "nodes t < Suc n" "valid_tree t"
      and v: "opt_expr_fuel F opt (Suc n) t = Some (v, b)"
    then obtain p l r where node: "t = Node p l r" by (cases t) auto
    have and3: "three_ops AND_PREC" by (simp add: three_ops_def)
    obtain u where u: "normalize_left F AND_PREC t = Some u" "u \<noteq> Null" "spine_ok (nodes t) u"
      "primaries u = primaries t"
      using normalize_left_ok [OF t(1) and3, of F] by blast
    then obtain q l' r' where q: "u = Node q l' r'" by (cases u) auto
    have "spine_ok n u" using spine_ok_mono [OF u(3), of n] t(2) by simp
    moreover have "root_is (p_prec q) u" and "three_ops (p_prec q)"
      using calculation q wf_pred_three_ops by auto
    moreover have "opt_loop F opt (opt_expr_fuel F opt n) (p_prec q) empty_lists u = Some (v, b)"
      using v node u(1) q \<open>root_is (p_prec q) u\<close> by simp
    ultimately have "same_run (run (link_spine (all_lists empty_lists) u)) (run v)"
      using u(4) t(3) by (intro opt_loop_same [OF opt_expr_fuel_ok Suc.IH]) (auto simp: valid_lists_def)
    then have "same_run (run v) (run u)" by (simp add: same_run_sym)
    then show "same_run (run v) (run t)" using normalize_left_same [OF t(1) and3 u(1)] by simp
  qed
qed (simp add: rec_same_def)

lemma opt_expr_same:
  assumes "wf_tree t" and "valid_tree t" and "opt_expr F opt t = Some (u, b)"
  shows "same_run (run u) (run t)"
  using rec_sameD [OF opt_expr_fuel_same assms(1) _ assms(2) assms(3) [unfolded opt_expr_def]]
  by simp

lemma run_cost:
  assumes "l' = Null \<longleftrightarrow> l = Null" and "run l' = run l" and "run r' = run r"
  shows "run (Node (p\<lparr>p_cost := c\<rparr>) l' r') = run (Node p l r)"
proof -
  have "needs_nothing (p\<lparr>p_cost := c\<rparr>) \<longleftrightarrow> needs_nothing p"
    and "pred_func (p\<lparr>p_cost := c\<rparr>) = pred_func p" by (simp_all add: needs_nothing_def)
  then show ?thesis
    by (intro ext) (simp only: apply_predicate.simps(2) get_info_cost prim_cost assms)
qed

lemma estimate_costs_same: "run (estimate_costs t) = run t"
proof (induction t)
  case (Node p l r)
  have "estimate_costs l = Null \<longleftrightarrow> l = Null" by (cases l) auto
  then show ?case using run_cost Node by simp
qed simp

end

end
