(* ===== verification/FindFinish.thy ===== *)
theory FindFinish
  imports FindSame
begin

text \<open>
  The exchange of neighbouring operands (\<open>do_arm_swaps\<close>) and the whole of the tree building
  (\<open>build_expression_tree\<close>): the swaps end, keep the normal form and, below operators other than
  the comma, the meaning.
\<close>

subsection \<open>Exchanges of arms as a relation\<close>

inductive arm_swaps :: "('a, 'f) ptree \<Rightarrow> ('a, 'f) ptree \<Rightarrow> bool" where
  keep: "arm_swaps t t"
| exchange: "arm_swaps (Node p (Node q ll r) lr) u \<Longrightarrow> p_type p = BI_OP \<Longrightarrow> lr \<noteq> Null \<Longrightarrow> r \<noteq> Null \<Longrightarrow>
    \<not> subtree_has_side_effects lr \<Longrightarrow> \<not> subtree_has_side_effects r \<Longrightarrow>
    arm_swaps (Node p (Node q ll lr) r) u"
| inside: "arm_swaps l l' \<Longrightarrow> arm_swaps r r' \<Longrightarrow> arm_swaps (Node p l r) (Node p l' r')"

declare arm_swaps.keep [intro]

lemma effects_subtree: "has_effects t \<Longrightarrow> subtree_has_side_effects t"
  by (induction t) (auto split: if_splits)

lemma consider_arm_swap_cases:
  "consider_arm_swap F t = (t, False) \<or>
     (\<exists>p q ll lr r. t = Node p (Node q ll lr) r \<and> p_type p = BI_OP \<and> r \<noteq> Null \<and> lr \<noteq> Null \<and>
        want_swap F p lr r \<and> consider_arm_swap F t = (Node p (Node q ll r) lr, True))"
  by (cases "(F, t)" rule: consider_arm_swap.cases) (auto simp: Let_def)

lemma want_swap_effects:
  "want_swap F p a b \<Longrightarrow> \<not> subtree_has_side_effects a \<and> \<not> subtree_has_side_effects b"
  by (auto simp: want_swap_def split: if_splits)

definition less_asym :: "'f flt \<Rightarrow> bool" where
  "less_asym F \<longleftrightarrow> (\<forall>x y. f_less F x y \<longrightarrow> \<not> f_less F y x)"

lemma want_swap_asym: "less_asym F \<Longrightarrow> want_swap F p a b \<Longrightarrow> \<not> want_swap F p b a"
  by (auto simp: want_swap_def less_asym_def Let_def split: if_splits)

lemma do_arm_swaps_swaps:
  "do_arm_swaps F n t = Some (u, b) \<Longrightarrow> arm_swaps t u \<and> \<not> b"
proof (induction F n t arbitrary: u b rule: do_arm_swaps.induct)
  case (3 F n p l r)
  from consider_arm_swap_cases [of F "Node p l r"] show ?case
  proof (elim disjE exE conjE)
    assume c: "consider_arm_swap F (Node p l r) = (Node p l r, False)"
    then show ?thesis using 3 by (fastforce intro: arm_swaps.inside split: bind_splits if_splits)
  next
    fix p' q ll lr r'
    assume c: "Node p l r = Node p' (Node q ll lr) r'" "p_type p' = BI_OP" "r' \<noteq> Null" "lr \<noteq> Null"
      "want_swap F p' lr r'" "consider_arm_swap F (Node p l r) = (Node p' (Node q ll r') lr, True)"
    then have "do_arm_swaps F n (Node p' (Node q ll r') lr) = Some (u, b)" using "3.prems" by simp
    then show ?thesis using 3 c want_swap_effects [OF c(5)] by (auto intro: arm_swaps.exchange)
  qed
qed auto

lemma arm_swaps_normal:
  "arm_swaps t u \<Longrightarrow> (normal t \<longrightarrow> normal u) \<and> (u = Null \<longleftrightarrow> t = Null) \<and> (root_is m u \<longleftrightarrow> root_is m t) \<and>
     nodes u = nodes t"
proof (induction arbitrary: m rule: arm_swaps.induct)
  case (inside l l' r r' p)
  then show ?case by auto
qed (auto split: if_splits)

lemma arm_swaps_primaries: "arm_swaps t u \<Longrightarrow> mset (primaries u) = mset (primaries t)"
  by (induction rule: arm_swaps.induct) (auto simp: ac_simps)

subsection \<open>The swaps end\<close>

lemma do_arm_swaps_settled:
  assumes "consider_arm_swap F (Node p l r) = (Node p l r, False)"
    and "do_arm_swaps F n l = Some (l', False)" "do_arm_swaps F n r = Some (r', False)"
  shows "do_arm_swaps F (Suc n) (Node p l r) = Some (Node p l' r', False)"
  using assms by simp

lemma do_arm_swaps_ends:
  fixes t :: "('a, 'f) ptree"
  assumes F: "less_asym F"
  shows "2 * nodes t < n \<Longrightarrow> \<exists>u. do_arm_swaps F n t = Some (u, False)"
proof (induction "nodes t" arbitrary: t n rule: less_induct)
  case less
  have settled: "\<exists>u. do_arm_swaps F k (Node p l r) = Some (u, False)"
    if c: "consider_arm_swap F (Node p l r) = (Node p l r, False)" "nodes (Node p l r) = nodes t"
      "2 * nodes (Node p l r) \<le> k" for p and l r :: "('a, 'f) ptree" and k
  proof -
    obtain k' where k: "k = Suc k'" using c(3) by (cases k) auto
    have "nodes l < nodes t" "nodes r < nodes t" "2 * nodes l < k'" "2 * nodes r < k'"
      using c(2,3) k by auto
    then obtain l' r' where "do_arm_swaps F k' l = Some (l', False)" "do_arm_swaps F k' r = Some (r', False)"
      using less(1) [of l k'] less(1) [of r k'] by blast
    then show ?thesis using do_arm_swaps_settled [OF c(1)] k by blast
  qed
  obtain k where n: "n = Suc k" using less(2) by (cases n) auto
  from consider_arm_swap_cases [of F t] show ?case
  proof (elim disjE exE conjE)
    assume "consider_arm_swap F t = (t, False)"
    then show ?thesis using settled [of _ _ _ n] less(2) n by (cases t) auto
  next
    fix p q ll lr r
    assume c: "t = Node p (Node q ll lr) r" "want_swap F p lr r"
      "consider_arm_swap F t = (Node p (Node q ll r) lr, True)"
    have "consider_arm_swap F (Node p (Node q ll r) lr) = (Node p (Node q ll r) lr, False)"
      using want_swap_asym [OF F c(2)] by (auto simp: Let_def)
    then have "\<exists>u. do_arm_swaps F k (Node p (Node q ll r) lr) = Some (u, False)"
      using less(2) n c(1) by (intro settled) auto
    then show ?thesis using c n by simp
  qed
qed

subsection \<open>Exchanges below operators other than the comma\<close>

fun comma_free :: "('a, 'f) ptree \<Rightarrow> bool" where
  "comma_free Null \<longleftrightarrow> True"
| "comma_free (Node p l r) \<longleftrightarrow> (p_type p = BI_OP \<longrightarrow> p_prec p \<noteq> COMMA_PREC) \<and> comma_free l \<and> comma_free r"

lemma same_tree_comma_free: "same_tree t u \<Longrightarrow> comma_free u \<longleftrightarrow> comma_free t"
proof (induction t arbitrary: u)
  case (Node p l r)
  then obtain q l' r' where u: "u = Node q l' r'" "same_node p q" "same_tree l l'" "same_tree r r'"
    by auto
  then show ?case
    using Node.IH(1) [OF u(3)] Node.IH(2) [OF u(4)] same_node_fields(1,2) [OF u(2)] by simp
qed simp

lemma link_comma_free:
  "movables m xs \<Longrightarrow> m \<noteq> COMMA_PREC \<Longrightarrow> comma_free t \<Longrightarrow> comma_free (link_spine xs t)"
proof (induction xs)
  case (Cons x xs)
  obtain p r where x: "x = (p, r)" by (cases x)
  then obtain rp where "r = Node rp Null Null" "p_type rp = PRIMARY_TYPE"
    using Cons.prems(1) movable_right by (metis list.set_intros(1))
  then show ?case using Cons x by simp
qed simp

lemma merge_lists_comma_free:
  assumes "lists_ok m ls" and "m \<noteq> COMMA_PREC" and "comma_free t" and "merge_lists F ls t = Some v"
  shows "comma_free v"
proof -
  obtain ys where ys: "merge_lists F ls t = Some (link_spine ys t)" "movables m ys"
    using merge_lists_ok [of ls m F t] assms(1) unfolding lists_ok_def by blast
  then show ?thesis using link_comma_free [OF ys(2) assms(2,3)] assms(4) by simp
qed

definition rec_comma_free :: "nat \<Rightarrow> (('a, 'f) ptree \<Rightarrow> (('a, 'f) ptree \<times> bool) option) \<Rightarrow> bool" where
  "rec_comma_free n f \<longleftrightarrow> (\<forall>t u b. wf_tree t \<longrightarrow> nodes t < n \<longrightarrow> comma_free t \<longrightarrow> f t = Some (u, b) \<longrightarrow>
     comma_free u)"

lemma opt_step_comma_free:
  assumes rec: "rec_ok n f" "rec_comma_free n f" and right: "wf_tree r" "right_small n r" "comma_free r"
    and kept: "opt_step opt f m ls p r = Some (Kept r' b)"
  shows "comma_free r'"
proof -
  obtain rp rl rr where r: "r = Node rp rl rr" using right(1) by (cases r) auto
  consider (prim) "p_type rp = PRIMARY_TYPE"
    | (uni) "p_type rp = UNI_OP" "rl = Null" "wf_tree rr" "nodes rr < n"
    | (bi) "p_type rp = BI_OP" "nodes r < n"
    using right r by (auto split: if_splits)
  then show ?thesis
  proof cases
    case prim
    then have "r' = r" using kept r by (auto simp: Let_def split: if_splits)
    then show ?thesis using right(3) by simp
  next
    case uni
    from rec(1) uni(3,4) obtain u c where f: "f rr = Some (u, c)" by (rule rec_okE)
    then have "comma_free u" using rec(2) uni right(3) r unfolding rec_comma_free_def by simp
    then show ?thesis using kept r uni f by auto
  next
    case bi
    from rec(1) right(1) bi(2) obtain u c where f: "f r = Some (u, c)" and res: "opt_result r u c"
      by (rule rec_okE)
    then have "comma_free u" using rec(2) bi right unfolding rec_comma_free_def by blast
    then show ?thesis using kept r f bi(1) by (auto split: ptree.splits)
  qed
qed

lemma opt_loop_comma_free:
  assumes rec: "rec_ok n f" "rec_comma_free n f" and m: "three_ops m" "m \<noteq> COMMA_PREC"
  shows "spine_ok n t \<Longrightarrow> t = Null \<or> root_is m t \<or> nodes t < n \<Longrightarrow> lists_ok m ls \<Longrightarrow>
    comma_free t \<Longrightarrow> opt_loop F opt f m ls t = Some (u, b) \<Longrightarrow> comma_free u"
proof (induction t arbitrary: ls u b)
  case Null
  then show ?case using merge_lists_comma_free [OF Null.prems(3) m(2), of Null F u]
    by (auto split: bind_splits)
next
  case (Node p l r)
  define wrap where "wrap \<longleftrightarrow> p_prec p \<noteq> m"
  define l0 where "l0 = (if wrap then Null else l)"
  define r0 where "r0 = (if wrap then Node p l r else r)"
  have "\<exists>q. (if wrap then new_parent F m (est_success_rate p) else Some p) = Some q \<and>
      p_type q = BI_OP \<and> p_prec q = m \<and> wf_pred q"
    using new_parent_ok [OF m(1), of F "est_success_rate p"] Node.prems(1)
    by (cases wrap) (auto simp: wrap_def)
  then obtain q where q: "(if wrap then new_parent F m (est_success_rate p) else Some p) = Some q"
    "p_type q = BI_OP" "p_prec q = m" "wf_pred q" by blast
  have r0: "wf_tree r0" "right_small n r0" "comma_free r0"
    using Node.prems(1,2,4) spine_ok_wf [OF Node.prems(1)] by (auto simp: r0_def wrap_def)
  have l0_cf: "comma_free u" if "lists_ok m ls'" "opt_loop F opt f m ls' l0 = Some (u, b)" for ls' u b
  proof (cases wrap)
    case True
    then show ?thesis using that merge_lists_comma_free [OF that(1) m(2), of Null F u]
      by (auto simp: l0_def split: bind_splits)
  next
    case False
    then have "l0 = l" by (simp add: l0_def)
    then show ?thesis using Node.IH(1) [OF _ _ that(1)] Node.prems(1,4) that(2) by auto
  qed
  have loop: "opt_loop F opt f m ls (Node p l r) =
      do {
        action \<leftarrow> opt_step opt f m ls q r0;
        (case action of
           Moved ls' \<Rightarrow> opt_loop F opt f m ls' l0
         | Kept right b \<Rightarrow>
             do {
               (rest, b') \<leftarrow> opt_loop F opt f m (if b then empty_lists else ls) l0;
               t \<leftarrow> (if b then merge_lists F ls (Node q rest right)
                    else Some (Node q rest right));
               Some (t, b \<or> b')
             })
      }"
    using q Node.prems(1) by (auto simp: wrap_def l0_def r0_def)
  from opt_step_ok [OF rec(1) r0(1,2) q(2-4) Node.prems(3), of opt] show ?case
  proof (elim disjE exE conjE)
    fix ls' assume "opt_step opt f m ls q r0 = Some (Moved ls')" "lists_ok m ls'"
    moreover from this have "opt_loop F opt f m ls' l0 = Some (u, b)" using Node.prems(5) loop by simp
    ultimately show ?thesis using l0_cf by blast
  next
    fix r' c assume step: "opt_step opt f m ls q r0 = Some (Kept r' c)"
    obtain rest d where rest: "opt_loop F opt f m (if c then empty_lists else ls) l0 = Some (rest, d)"
      using Node.prems(5) loop step by (auto split: bind_splits)
    have "comma_free rest" using l0_cf [OF _ rest] Node.prems(3) by (cases c) auto
    then have cf: "comma_free (Node q rest r')"
      using opt_step_comma_free [OF rec r0 step] q(3) m(2) by simp
    have "(if c then merge_lists F ls (Node q rest r') else Some (Node q rest r')) = Some u"
      using Node.prems(5) loop step rest by (auto split: bind_splits if_splits)
    then show ?thesis using cf merge_lists_comma_free [OF Node.prems(3) m(2) cf] by (cases c) auto
  qed
qed

lemma normalize_left_comma_free:
  "comma_free t \<Longrightarrow> pr = AND_PREC \<or> pr = OR_PREC \<Longrightarrow> wf_tree t \<Longrightarrow> normalize_left F pr t = Some u \<Longrightarrow>
     comma_free u"
proof (induction t arbitrary: pr u)
  case (Node p l r)
  show ?case
  proof (cases "l = Null")
    case True
    have "three_ops pr" using Node.prems(2) by (auto simp: three_ops_def)
    then obtain q :: "('a, 'b) predicate" where
      "new_parent F pr (est_success_rate p) = Some q" "p_type q = BI_OP" "p_prec q = pr"
      using new_parent_ok [of pr F "est_success_rate p"] by blast
    then show ?thesis using True Node.prems by (auto simp: set_new_parent_def split: if_splits)
  next
    case False
    then have p: "p_type p = BI_OP" "wf_pred p" "wf_tree l" using Node.prems(3) by (auto split: if_splits)
    have prec: "p_prec p = AND_PREC \<or> p_prec p = OR_PREC"
      using wf_pred_three_ops [OF p(2,1)] Node.prems(1) p(1) by (auto simp: three_ops_def)
    obtain v where v: "normalize_left F (p_prec p) l = Some v" "u = Node p v r"
      using Node.prems(4) False by auto
    have "comma_free v" using Node.IH(1) [OF _ prec p(3) v(1)] Node.prems(1) by simp
    then show ?thesis using Node.prems(1) v(2) by simp
  qed
qed simp

lemma opt_expr_fuel_comma_free: "rec_comma_free n (opt_expr_fuel F opt n)"
proof (induction n)
  case (Suc n)
  show ?case unfolding rec_comma_free_def
  proof (intro allI impI)
    fix t v :: "('a, 'b) ptree" and b
    assume t: "wf_tree t" "nodes t < Suc n" "comma_free t"
      and v: "opt_expr_fuel F opt (Suc n) t = Some (v, b)"
    then obtain p l r where node: "t = Node p l r" by (cases t) auto
    have and3: "three_ops AND_PREC" by (simp add: three_ops_def)
    obtain u where u: "normalize_left F AND_PREC t = Some u" "u \<noteq> Null" "spine_ok (nodes t) u"
      using normalize_left_ok [OF t(1) and3, of F] by blast
    then obtain q l' r' where q: "u = Node q l' r'" by (cases u) auto
    have cf: "comma_free u" using normalize_left_comma_free [OF t(3) _ t(1) u(1)] by simp
    have s: "spine_ok n u" using spine_ok_mono [OF u(3), of n] t(2) by simp
    have root: "root_is (p_prec q) u" and ops: "three_ops (p_prec q)" "p_prec q \<noteq> COMMA_PREC"
      using s q cf wf_pred_three_ops by auto
    have "opt_loop F opt (opt_expr_fuel F opt n) (p_prec q) empty_lists u = Some (v, b)"
      using v node u(1) q root by simp
    then show "comma_free v"
      using opt_loop_comma_free [OF opt_expr_fuel_ok Suc.IH ops s _ lists_ok_empty(1) cf] root by blast
  qed
qed (simp add: rec_comma_free_def)

lemma opt_expr_comma_free:
  "wf_tree t \<Longrightarrow> comma_free t \<Longrightarrow> opt_expr F opt t = Some (u, b) \<Longrightarrow> comma_free u"
  using opt_expr_fuel_comma_free [of "Suc (nodes t)" F opt] unfolding opt_expr_def rec_comma_free_def
  by blast

lemma estimate_primaries: "primaries (estimate_costs t) = map (\<lambda>p. p\<lparr>p_cost := get_pred_cost p\<rparr>) (primaries t)"
  by (induction t) auto

lemma estimate_Null: "estimate_costs t = Null \<longleftrightarrow> t = Null"
  by (cases t) auto

lemma estimate_wf: "wf_tree (estimate_costs t) \<longleftrightarrow> wf_tree t"
  by (induction t) (auto simp: wf_pred.simps needs_nothing_def estimate_Null)

lemma estimate_comma_free: "comma_free (estimate_costs t) \<longleftrightarrow> comma_free t"
  by (induction t) auto

lemma estimate_valid:
  "(\<And>p c. valid (p\<lparr>p_cost := c\<rparr>) \<longleftrightarrow> valid p) \<Longrightarrow>
     (\<forall>p\<in>set (primaries (estimate_costs t)). valid p) \<longleftrightarrow> (\<forall>p\<in>set (primaries t). valid p)"
  by (auto simp: estimate_primaries)

context predicate_effects
begin

lemma relabel_same:
  assumes "m = AND_PREC \<or> m = OR_PREC" and "quiet_operand m (p, r)" "quiet_operand m (q, r')"
    and t: "fit t"
  shows "same_run (run (Node p (Node q t r') r)) (run (Node p (Node q t r) r'))"
proof -
  have op: "operand m (p, r)" "operand m (q, r')" "operand m (p, r')" "operand m (q, r)"
    and r: "same_run (run r) (run r)" "same_run (run r') (run r')" "same_run (run t) (run t)"
    using assms run_same by (auto simp: quiet_operand_def operand_def)
  have "same_run (run (Node p t r)) (run (Node q t r))"
    using node_same [OF op(1,4) r(1) r(3)] by simp
  then have "same_run (run (Node q (Node p t r) r')) (run (Node p (Node q t r) r'))"
    using node_same [OF op(2,3) r(2)] by simp
  with swap_same [OF assms] show ?thesis by (rule same_run_trans)
qed

lemma arm_swaps_same:
  "arm_swaps t u \<Longrightarrow> normal t \<or> t = Null \<Longrightarrow> valid_tree t \<Longrightarrow> comma_free t \<Longrightarrow>
    same_run (run u) (run t)"
proof (induction rule: arm_swaps.induct)
  case (keep t)
  then show ?case using run_same [of t] normal_wf_tree by blast
next
  case (exchange p q ll r lr u)
  from exchange.prems(1) have n: "normal (Node p (Node q ll lr) r)" by (elim disjE) (assumption, simp)
  then have q: "p_type q = BI_OP" using exchange.hyps(2) by simp
  have m: "p_prec q = p_prec p" "wf_pred p" "wf_pred q" "normal lr" "normal r"
    "ll = Null \<or> normal ll" using n q exchange.hyps(2) by auto
  have valid: "valid_tree lr" "valid_tree r" "valid_tree ll" using exchange.prems(2) by auto
  have wf: "wf_tree lr" "wf_tree r" "fit ll" using m valid normal_wf_tree by blast+
  have prec: "p_prec p = AND_PREC \<or> p_prec p = OR_PREC"
    using wf_pred_three_ops [OF m(2) exchange.hyps(2)] exchange.prems(3) exchange.hyps(2) by (auto simp: three_ops_def)
  have "quiet (run lr)" "quiet (run r)"
    using run_quiet [OF wf(1)] run_quiet [OF wf(2)] exchange.hyps(5,6) effects_subtree valid by blast+
  then have "quiet_operand (p_prec p) (p, r)" "quiet_operand (p_prec p) (q, lr)"
    using m q wf valid exchange.hyps(2) by (auto simp: quiet_operand_def operand_def)
  then have "same_run (run (Node p (Node q ll lr) r)) (run (Node p (Node q ll r) lr))"
    by (rule relabel_same [OF prec _ _ wf(3)])
  moreover have "same_run (run u) (run (Node p (Node q ll r) lr))"
  proof (rule exchange.IH)
    show "normal (Node p (Node q ll r) lr) \<or> Node p (Node q ll r) lr = Null"
      using n m q exchange.hyps(2) by simp
  qed (use exchange.prems in auto)
  ultimately show ?case using same_run_sym same_run_trans by blast
next
  case (inside l l' r r' p)
  from inside.prems have n: "normal (Node p l r)" by simp
  have wf: "wf_pred p" using n by simp
  note l' = arm_swaps_normal [OF inside.hyps(1)] and r' = arm_swaps_normal [OF inside.hyps(2)]
  consider "p_type p = PRIMARY_TYPE" "l = Null" "r = Null"
    | "p_type p = UNI_OP" "l = Null" "normal r"
    | "p_type p = BI_OP" "l = Null \<or> normal l" "normal r"
    using n by (auto split: if_splits)
  then show ?case
  proof cases
    case 1
    then show ?thesis
      using l' r' run_same [of "Node p l r"] inside.prems(2) normal_wf_tree [OF n] by simp
  next
    case 2
    then have "same_run (run r') (run r)" using inside by simp
    then show ?thesis using 2 wf by (simp add: run_not opposite_same)
  next
    case 3
    then have "same_run (run r') (run r)" "same_run (run l') (run l)" using inside by auto
    then show ?thesis using 3 wf l' combine_same by (auto simp: run_binary)
  qed
qed

text \<open>The passes one after the other, on the tree the parser made.\<close>

lemma passes_same:
  assumes t: "wf_tree t" "valid_tree t" "comma_free t"
    and t1: "calculate_derived_rates F t = Some t1" and t2: "opt_expr F opt (estimate_costs t1) = Some (t2, b)"
    and t3: "do_arm_swaps F n t2 = Some (t3, c)"
  shows "same_run (run t3) (run t)"
proof -
  obtain u where "calculate_derived_rates F t = Some u" and same: "same_tree t u"
    using calculate_derived_rates_ok [OF t(1)] by blast
  with t1 have u: "u = t1" by simp
  note facts = same_tree_facts [OF same, unfolded u]
  have est: "wf_tree (estimate_costs t1)" "valid_tree (estimate_costs t1)" "comma_free (estimate_costs t1)"
    using facts(1,3) t same_tree_comma_free [OF same] u
    by (simp_all add: estimate_wf estimate_comma_free estimate_valid [OF valid_cost])
  obtain u' b' where "opt_expr F opt (estimate_costs t1) = Some (u', b')"
    and res: "opt_result (estimate_costs t1) u' b'"
    using opt_expr_ok [OF est(1)] by blast
  with t2 have u': "u' = t2" by simp
  have n: "normal t2" "set (primaries t2) = set (primaries (estimate_costs t1))"
    using res u' mset_eq_setD by (auto simp: opt_result_def)
  have "same_run (run t3) (run t2)"
    using arm_swaps_same do_arm_swaps_swaps [OF t3] n est(2) opt_expr_comma_free [OF est(1,3) t2]
    by metis
  moreover have "same_run (run t2) (run (estimate_costs t1))" by (rule opt_expr_same [OF est(1,2) t2])
  moreover have "run (estimate_costs t1) = run t"
    using estimate_costs_same run_same_tree [OF same] t(1) u by simp
  ultimately show ?thesis using same_run_trans by metis
qed

end

subsection \<open>build_expression_tree\<close>

lemma finish_passes:
  assumes t: "wf_tree t" and F: "less_asym F"
  shows "\<exists>t1 t2 t3 b. calculate_derived_rates F t = Some t1 \<and>
    opt_expr F opt (estimate_costs t1) = Some (t2, b) \<and> check_normalization t2 True \<and>
    do_arm_swaps F (2 * nodes t2 + 1) t2 = Some (t3, False) \<and> check_normalization t3 True \<and>
    normal t3 \<and> mset (primaries t3) = mset (primaries (estimate_costs t))"
proof -
  obtain t1 where t1: "calculate_derived_rates F t = Some t1" "same_tree t t1"
    using calculate_derived_rates_ok [OF t] by blast
  then have "wf_tree (estimate_costs t1)" using same_tree_facts(1) [OF t1(2)] t by (simp add: estimate_wf)
  then obtain t2 b where t2: "opt_expr F opt (estimate_costs t1) = Some (t2, b)"
    "opt_result (estimate_costs t1) t2 b"
    using opt_expr_ok by blast
  then obtain m where n2: "normal t2" "root_is m t2" by (auto simp: opt_result_def)
  obtain t3 where t3: "do_arm_swaps F (2 * nodes t2 + 1) t2 = Some (t3, False)"
    using do_arm_swaps_ends [OF F, of t2 "2 * nodes t2 + 1"] by auto
  then have sw: "arm_swaps t2 t3" using do_arm_swaps_swaps by blast
  have n3: "normal t3" "root_is m t3" using arm_swaps_normal [OF sw] n2 by auto
  have chk: "check_normalization u True" if "normal u" "root_is m u" for u :: "('a, 'b) ptree"
    using that normal_check [OF that(1)] by (cases u) auto
  have "mset (primaries t3) = mset (primaries (estimate_costs t1))"
    using arm_swaps_primaries [OF sw] t2(2) by (simp add: opt_result_def)
  moreover have "mset (primaries (estimate_costs t1)) = mset (primaries (estimate_costs t))"
    using same_tree_facts(3) [OF t1(2)] by (simp add: estimate_primaries)
  ultimately show ?thesis using t1(1) t2(1) t3 chk n2 n3 by metis
qed

lemma finish_tree_Ok:
  assumes "finish_tree F opt ps = Ok u"
  obtains t t1 t2 b c where "get_expr ps NO_PREC None = Ok (t, [])"
    "calculate_derived_rates F t = Some t1" "opt_expr F opt (estimate_costs t1) = Some (t2, b)"
    "do_arm_swaps F (2 * nodes t2 + 1) t2 = Some (u, c)"
  using assms unfolding finish_tree_def
  by (auto simp: obind_eq_Ok split: if_splits option.splits bind_splits)

lemma finish_tree_parsed:
  assumes wf: "\<forall>p\<in>set ps. wf_pred p" and F: "less_asym F" and opt: "check_option_combinations opt ps"
    and parsed: "get_expr ps NO_PREC None = Ok (t, rest)"
  shows "rest \<noteq> [] \<and> (\<exists>e. finish_tree F opt ps = Exit e) \<or>
    rest = [] \<and> (\<exists>u. finish_tree F opt ps = Ok u \<and> normal u \<and>
      mset (primaries u) = mset (primaries (estimate_costs t)))"
proof -
  have t: "wf_tree t" using get_expr_complete [OF parsed wf] complete_wf_tree by blast
  obtain t1 t2 t3 b where p: "calculate_derived_rates F t = Some t1"
    "opt_expr F opt (estimate_costs t1) = Some (t2, b)" "check_normalization t2 True"
    "do_arm_swaps F (2 * nodes t2 + 1) t2 = Some (t3, False)" "check_normalization t3 True"
    and n: "normal t3" "mset (primaries t3) = mset (primaries (estimate_costs t))"
    using finish_passes [OF t F, of opt] by blast
  show ?thesis
  proof (cases "rest = []")
    case True
    then have "finish_tree F opt ps = Ok t3" using opt parsed p by (simp add: finish_tree_def)
    then show ?thesis using True n by blast
  next
    case False
    then have "\<exists>e. finish_tree F opt ps = Exit e" using opt parsed p(1) by (simp add: finish_tree_def)
    then show ?thesis using False by blast
  qed
qed

lemma finish_tree_Undef_aux:
  assumes "\<forall>p\<in>set ps. wf_pred p" and "less_asym F"
  shows "finish_tree F opt ps = Undef \<longleftrightarrow>
      check_option_combinations opt ps \<and> ps \<noteq> [] \<and> p_type (hd ps) = CLOSE_PAREN"
    and "finish_tree F opt ps \<noteq> Diverge"
proof -
  have "(finish_tree F opt ps = Undef \<longleftrightarrow>
      check_option_combinations opt ps \<and> get_expr ps NO_PREC None = Undef) \<and>
    finish_tree F opt ps \<noteq> Diverge"
  proof (cases "check_option_combinations opt ps")
    case True
    note opt = this
    show ?thesis
    proof (cases "get_expr ps NO_PREC None")
      case (Ok x)
      then have "get_expr ps NO_PREC None = Ok (fst x, snd x)" by simp
      from finish_tree_parsed [OF assms opt this] show ?thesis using Ok by auto
    next
      case Diverge
      then show ?thesis using parse_defined_aux(2) by blast
    qed (use opt in \<open>simp_all add: finish_tree_def\<close>)
  qed (simp add: finish_tree_def)
  then show "finish_tree F opt ps = Undef \<longleftrightarrow>
      check_option_combinations opt ps \<and> ps \<noteq> [] \<and> p_type (hd ps) = CLOSE_PAREN"
    and "finish_tree F opt ps \<noteq> Diverge"
    using get_expr_Undef [of ps NO_PREC] by auto
qed

abbreviation is_primary :: "('a, 'f) predicate \<Rightarrow> bool" where
  "is_primary p \<equiv> p_type p = PRIMARY_TYPE"

lemma primaries_flatten: "complete_tree t \<Longrightarrow> primaries t = filter is_primary (flatten t)"
  by (induction t) (auto split: if_splits)

lemma parsed_primaries:
  assumes "get_expr ps NO_PREC None = Ok (t, [])" and "\<forall>p\<in>set ps. wf_pred p"
  shows "primaries t = filter is_primary ps"
proof -
  have "flatten t = filter not_paren ps" using parse_keeps_aux(2) [OF assms(1)] by simp
  then have "primaries t = filter is_primary (filter not_paren ps)"
    using primaries_flatten [OF get_expr_complete [OF assms]] by simp
  also have "\<dots> = filter is_primary ps"
    unfolding filter_filter by (rule filter_cong) auto
  finally show ?thesis .
qed

lemma finish_tree_Ok_aux:
  assumes "\<forall>p\<in>set ps. wf_pred p" and "less_asym F" and "finish_tree F opt ps = Ok u"
  shows "normal u \<and>
    mset (primaries u) = mset (map (\<lambda>p. p\<lparr>p_cost := get_pred_cost p\<rparr>) (filter is_primary ps))"
proof -
  obtain t where t: "get_expr ps NO_PREC None = Ok (t, [])"
    using assms(3) by (rule finish_tree_Ok)
  have "check_option_combinations opt ps" using assms(3) by (auto simp: finish_tree_def split: if_splits)
  from finish_tree_parsed [OF assms(1,2) this t] show ?thesis
    using assms(3) parsed_primaries [OF t assms(1)] by (simp add: estimate_primaries)
qed

lemma comma_free_parsed:
  assumes "get_expr ps NO_PREC None = Ok (t, [])" and "\<forall>p\<in>set ps. pred_func p \<noteq> Pred_comma"
    and wf: "\<forall>p\<in>set ps. wf_pred p"
  shows "comma_free t"
proof -
  have "flatten t = filter not_paren ps" using parse_keeps_aux(2) [OF assms(1)] by simp
  then have "set (flatten t) \<subseteq> set ps" by auto
  then show ?thesis using assms(2) wf
  proof (induction t)
    case (Node p l r)
    then have "wf_pred p" "pred_func p \<noteq> Pred_comma" by auto
    then have "p_type p = BI_OP \<longrightarrow> p_prec p \<noteq> COMMA_PREC" by (auto simp: wf_pred.simps)
    then show ?case using Node by auto
  qed simp
qed

end
