(* ===== verification/FindEffects.thy ===== *)
theory FindEffects
  imports FindPred FindFinish
begin

text \<open>
  The primaries of \<open>find/pred.c\<close> meet the interface \<open>predicate_effects\<close>: what they observe, when
  the cached information about a file is consistent, and what the parsers store in a node.
\<close>

subsection \<open>What the parsers store\<close>

text \<open>The primaries that read the \<open>stat\<close> buffer, and those that do something.\<close>

definition stat_reader :: "pred_func \<Rightarrow> bool" where
  "stat_reader f \<longleftrightarrow> f \<in> {Pred_amin, Pred_anewer, Pred_atime, Pred_cmin, Pred_cnewer, Pred_ctime,
     Pred_mmin, Pred_mtime, Pred_newer, Pred_newerXY, Pred_used, Pred_gid, Pred_uid, Pred_links,
     Pred_user, Pred_group, Pred_nouser, Pred_nogroup, Pred_size, Pred_lname, Pred_ilname,
     Pred_fstype, Pred_perm, Pred_samefile, Pred_xtype, Pred_empty}"

definition action_func :: "pred_func \<Rightarrow> bool" where
  "action_func f \<longleftrightarrow> f \<in> {Pred_delete, Pred_exec, Pred_execdir, Pred_fprint, Pred_fprint0,
     Pred_fprintf, Pred_fls, Pred_ls, Pred_ok, Pred_okdir, Pred_print, Pred_print0, Pred_prune, Pred_quit}"

fun arg_ok :: "pred_func \<Rightarrow> find_args option \<Rightarrow> bool" where
  "arg_ok f a \<longleftrightarrow>
     f \<in> {Pred_true, Pred_false, Pred_empty, Pred_executable, Pred_readable, Pred_writable,
       Pred_nouser, Pred_nogroup, Pred_delete, Pred_prune, Pred_quit} \<or>
     (case a of
        Some (Str str) \<Rightarrow> f \<in> {Pred_name, Pred_iname, Pred_path, Pred_ipath, Pred_lname, Pred_ilname,
          Pred_fstype}
      | Some (Regex syntax r) \<Rightarrow> f = Pred_regex
      | Some (Numinfo kind l) \<Rightarrow> f \<in> {Pred_gid, Pred_uid, Pred_links, Pred_inum}
      | Some (Size kind blocksize n) \<Rightarrow> f = Pred_size \<and> blocksize \<noteq> 0
      | Some (Uid u) \<Rightarrow> f = Pred_user
      | Some (Gid g) \<Rightarrow> f = Pred_group
      | Some (Reftime xv kind ts) \<Rightarrow>
          f \<in> {Pred_amin, Pred_atime, Pred_cmin, Pred_ctime, Pred_mmin, Pred_mtime, Pred_used} \<or>
          f \<in> {Pred_newer, Pred_anewer, Pred_cnewer} \<and> kind = COMP_GT \<or>
          f = Pred_newerXY \<and> kind = COMP_GT \<and> xv \<noteq> XVAL_TIME
      | Some (Perm kind v0 v1) \<Rightarrow> f = Pred_perm
      | Some (Samefileid ino dev) \<Rightarrow> f = Pred_samefile
      | Some (Type_arg type) \<Rightarrow> f \<in> {Pred_type, Pred_xtype} \<and> type \<noteq> 0
      | Some (Scontext c) \<Rightarrow> f = Pred_context
      | Some (Exec_vec program n) \<Rightarrow> f \<in> {Pred_exec, Pred_execdir, Pred_ok, Pred_okdir}
      | Some (Format_vec k segments) \<Rightarrow> f = Pred_fprintf
      | Some (Printf_vec k) \<Rightarrow> f \<in> {Pred_fprint, Pred_fprint0, Pred_fprintf, Pred_fls, Pred_ls,
          Pred_print, Pred_print0}
      | None \<Rightarrow> False)"

declare arg_ok.simps [simp del]

definition valid_pred :: "env \<Rightarrow> 'f find_pred \<Rightarrow> bool" where
  "valid_pred e p \<longleftrightarrow> arg_ok (pred_func p) (args p) \<and>
     (stat_reader (pred_func p) \<longrightarrow> need_stat p) \<and>
     (pred_func p = Pred_type \<longrightarrow> need_type p) \<and>
     (pred_func p = Pred_inum \<longrightarrow> need_inum p) \<and>
     (pred_func p = Pred_prune \<and> do_dir_first e \<longrightarrow> need_stat p) \<and>
     (action_func (pred_func p) \<longrightarrow> side_effects p)"

subsection \<open>Consistent knowledge about a file\<close>

definition env_ok :: "env \<Rightarrow> bool" where
  "env_ok e \<longleftrightarrow>
     (case xstat e (rel_pathname e) of
        Inr st \<Rightarrow> st_ino st \<noteq> 0 \<and>
          (S_ISDIR (st_mode st) \<longrightarrow> (\<forall>h. unlinkat e h (rel_pathname e) False = Some EISDIR))
      | Inl _ \<Rightarrow> True)"

text \<open>
  What a directory entry said about the type and the inode number agrees with what \<open>stat\<close> says,
  except for the inode number of a directory, which may be a mount point.
\<close>

definition agrees :: "mode \<Rightarrow> fstat \<Rightarrow> fstat \<Rightarrow> bool" where
  "agrees m buf st \<longleftrightarrow> m AND S_IFMT = st_mode st AND S_IFMT \<and>
     (st_ino buf \<noteq> 0 \<and> \<not> S_ISDIR (st_mode buf) \<longrightarrow> st_ino buf = st_ino st)"

definition if_stat :: "env \<Rightarrow> (fstat \<Rightarrow> bool) \<Rightarrow> bool" where
  "if_stat e P \<longleftrightarrow> (case xstat e (rel_pathname e) of Inr st \<Rightarrow> P st | Inl _ \<Rightarrow> True)"

lemma if_stat_simps:
  "xstat e (rel_pathname e) = Inr st \<Longrightarrow> if_stat e P \<longleftrightarrow> P st"
  "xstat e (rel_pathname e) = Inl err \<Longrightarrow> if_stat e P"
  by (simp_all add: if_stat_def)

definition good :: "env \<Rightarrow> fstate \<Rightarrow> bool" where
  "good e s \<longleftrightarrow> env_ok e \<and>
     (have_stat s \<longrightarrow> have_type s \<and> xstat e (rel_pathname e) = Inr (stat_buf s) \<and>
        ftype s = st_mode (stat_buf s)) \<and>
     (have_type s \<longrightarrow> st_mode (stat_buf s) AND S_IFMT = ftype s AND S_IFMT \<and>
        if_stat e (agrees (ftype s) (stat_buf s)))"

definition type_seen :: "env \<Rightarrow> fstate \<Rightarrow> mode option" where
  "type_seen e s =
     (if have_type s then Some (ftype s AND S_IFMT)
      else case xstat e (rel_pathname e) of Inr st \<Rightarrow> Some (st_mode st AND S_IFMT) | Inl _ \<Rightarrow> None)"

definition inum_seen :: "env \<Rightarrow> fstate \<Rightarrow> nat option" where
  "inum_seen e s =
     (if st_ino (stat_buf s) \<noteq> 0 \<and> have_type s \<and> \<not> S_ISDIR (st_mode (stat_buf s))
      then Some (st_ino (stat_buf s))
      else case xstat e (rel_pathname e) of Inr st \<Rightarrow> Some (st_ino st) | Inl _ \<Rightarrow> None)"

datatype (plugins only: code size) run_summary = Runs | Quit | Crashed

fun run_state :: "run_status \<Rightarrow> run_summary" where
  "run_state Running = Runs"
| "run_state (Exited n) = Quit"
| "run_state Aborted = Crashed"

text \<open>
  What a reordering of the expression must keep: the actions and their order, whether the
  directory is pruned and whether the program goes on. Diagnostics and the exit status are not
  part of it: a test that is skipped does not complain that \<open>stat\<close> failed.
\<close>

definition obs :: "env \<Rightarrow> fstate \<Rightarrow>
    find_args find_action list \<times> bool \<times> bool \<times> run_summary \<times> mode option \<times> nat option" where
  "obs e s = (actions s, stop_at_current_level s, execdirs_outstanding s, run_state (status s),
     type_seen e s, inum_seen e s)"

lemma run_state_Runs [simp]: "run_state x = Runs \<longleftrightarrow> x = Running"
  by (cases x) auto

text \<open>States that differ in diagnostics and the exit status only.\<close>

definition alike :: "fstate \<Rightarrow> fstate \<Rightarrow> bool" where
  "alike s s' \<longleftrightarrow> (\<exists>m x b. s' = s\<lparr>messages := m, exit_status := x, already_issued_stat_error_msg := b\<rparr>)"

lemma alike_keeps:
  assumes "alike s s'"
  shows "good e s' \<longleftrightarrow> good e s" "obs e s' = obs e s"
  using assms by (auto simp: alike_def good_def obs_def type_seen_def inum_seen_def)

lemmas state_update_defs = error_msg_def error_severity_def report_file_err_def
  nonfatal_target_file_error_def act_def Let_def

lemma alike_updates [simp]:
  "alike s s"
  "alike s (error_msg n s)" "alike s (nonfatal_target_file_error n s)"
  "alike s ((error_msg n s)\<lparr>exit_status := x\<rparr>)"
  "alike s ((nonfatal_target_file_error n s)\<lparr>exit_status := x\<rparr>)"
  by (cases s, auto simp: alike_def state_update_defs)+

subsection \<open>Fetching information\<close>

text \<open>The information that \<open>p\<close> asked for is there.\<close>

definition ready :: "env \<Rightarrow> 'f find_pred \<Rightarrow> fstate \<Rightarrow> bool" where
  "ready e p s \<longleftrightarrow> status s = Running \<and> (need_stat p \<longrightarrow> have_stat s) \<and>
     (need_type p \<longrightarrow> have_type s) \<and>
     (need_inum p \<longrightarrow> st_ino (stat_buf s) \<noteq> 0 \<and> inum_seen e s = Some (st_ino (stat_buf s)))"

definition info_ok :: "env \<Rightarrow> 'f find_pred \<Rightarrow> fstate \<Rightarrow> bool" where
  "info_ok e p s \<longleftrightarrow> (need_stat p \<longrightarrow> (\<exists>st. xstat e (rel_pathname e) = Inr st)) \<and>
     (need_type p \<longrightarrow> type_seen e s \<noteq> None) \<and> (need_inum p \<longrightarrow> inum_seen e s \<noteq> None)"

lemma get_statinfo_cached:
  "good e s \<Longrightarrow> have_stat s \<Longrightarrow> get_statinfo e s = (True, s)"
  by (simp add: get_statinfo_def good_def)

lemma get_statinfo_ok:
  assumes "good e s" and "xstat e (rel_pathname e) = Inr st"
  shows "\<exists>s'. get_statinfo e s = (True, s') \<and> good e s' \<and> obs e s' = obs e s \<and> have_stat s' \<and>
    stat_buf s' = st \<and> status s' = status s"
proof (cases "have_stat s")
  case True
  then have "stat_buf s = st" using assms by (simp add: good_def)
  then show ?thesis using assms(1) True get_statinfo_cached [OF assms(1) True] by blast
next
  case False
  define s1 where "s1 = (let s = s\<lparr>stat_buf := st\<rparr> in
    if st_mode st = 0 then error_severity 1 (error_msg (rel_pathname e) s) else s)"
  define s' where "s' = s1\<lparr>have_stat := True, have_type := True, ftype := st_mode st\<rparr>"
  have fields: "have_stat s'" "have_type s'" "ftype s' = st_mode st" "stat_buf s' = st"
    "status s' = status s" "actions s' = actions s"
    "stop_at_current_level s' = stop_at_current_level s"
    "execdirs_outstanding s' = execdirs_outstanding s"
    by (auto simp: s'_def s1_def state_update_defs)
  have res: "get_statinfo e s = (True, s')"
    using False assms(2) by (simp add: get_statinfo_def s'_def s1_def Let_def)
  have ok: "env_ok e" using assms(1) by (simp add: good_def)
  have g: "good e s'" using ok assms(2) by (simp add: good_def fields if_stat_simps agrees_def)
  have agree: "agrees (ftype s) (stat_buf s) st" if "have_type s"
    using that assms by (simp add: good_def if_stat_simps)
  have "type_seen e s' = type_seen e s"
    using agree assms(2) by (simp add: type_seen_def fields agrees_def)
  moreover have "st_ino st \<noteq> 0" using ok assms(2) by (simp add: env_ok_def)
  then have "inum_seen e s' = inum_seen e s"
    using agree assms(2) by (auto simp: inum_seen_def fields agrees_def)
  ultimately have "obs e s' = obs e s" by (simp add: obs_def fields)
  then show ?thesis using res g fields by blast
qed

lemma get_statinfo_fails:
  assumes "good e s" and "xstat e (rel_pathname e) = Inl err"
  shows "fst (get_statinfo e s) = False \<and> alike s (snd (get_statinfo e s))"
  using assms by (auto simp: get_statinfo_def good_def)

lemma get_info_result:
  assumes "good e s" and "status s = Running"
  shows "fst (get_info e p s) = info_ok e p s \<and> good e (snd (get_info e p s)) \<and>
    obs e (snd (get_info e p s)) = obs e s \<and> (info_ok e p s \<longrightarrow> ready e p (snd (get_info e p s)))"
proof (cases "info_todo p s")
  case False
  then have "get_info e p s = (True, s)" by (simp add: get_info_def)
  then show ?thesis using False assms
    by (auto simp: info_todo_def info_ok_def ready_def type_seen_def inum_seen_def split: if_splits)
next
  case todo: True
  show ?thesis
  proof (cases "xstat e (rel_pathname e)")
    case (Inl err)
    then have "\<not> have_stat s" using assms(1) by (auto simp: good_def)
    then have "\<not> info_ok e p s" using todo Inl
      by (auto simp: info_todo_def info_ok_def type_seen_def inum_seen_def split: if_splits)
    moreover have "fst (get_info e p s) = False" "alike s (snd (get_info e p s))"
      using todo assms get_statinfo_fails [OF assms(1) Inl]
      by (auto simp: get_info_def split: prod.splits)
    ultimately show ?thesis using alike_keeps assms(1) by auto
  next
    case (Inr st)
    obtain s' where s': "get_statinfo e s = (True, s')" "good e s'" "obs e s' = obs e s"
      "have_stat s'" "stat_buf s' = st" "status s' = status s"
      using get_statinfo_ok [OF assms(1) Inr] by blast
    have "st_ino st \<noteq> 0" using assms(1) Inr by (simp add: good_def env_ok_def)
    moreover have "have_type s'" using s' by (simp add: good_def)
    ultimately have "get_info e p s = (True, s')" "ready e p s'" "info_ok e p s"
      using todo s' assms(2) Inr
      by (auto simp: get_info_def ready_def info_ok_def type_seen_def inum_seen_def)
    then show ?thesis using s' by simp
  qed
qed

lemma info_ok_obs: "obs e s = obs e s' \<Longrightarrow> info_ok e p s = info_ok e p s'"
  by (simp add: obs_def info_ok_def)

subsection \<open>Tests\<close>

lemmas time_defs = pred_amin_def pred_atime_def pred_cmin_def pred_ctime_def pred_mmin_def
  pred_mtime_def pred_used_def pred_anewer_def pred_cnewer_def pred_newer_def

lemmas test_defs = time_defs pred_nouser_def pred_nogroup_def pred_lname_def pred_ilname_def
  pred_type_def pred_xtype_def pred_samefile_def pred_empty_def pred_executable_def
  pred_readable_def pred_writable_def pred_true_def pred_false_def

fun time_test :: "comparison_type \<Rightarrow> timespec \<Rightarrow> timespec \<Rightarrow> int \<Rightarrow> bool" where
  "time_test COMP_GT ts ref w \<longleftrightarrow> compare_ts ts ref > 0"
| "time_test COMP_LT ts ref w \<longleftrightarrow> compare_ts ts ref < 0"
| "time_test COMP_EQ ts ref w \<longleftrightarrow>
     0 < ts_difference ts ref \<and> ts_difference ts ref \<le> w * 1000000000"

lemma timewindow_value [simp]:
  "pred_timewindow ts (Some (Reftime xv k ref)) w s = (time_test k ts ref w, s)"
  by (cases k) (simp_all add: Let_def)

lemma newerXY_value:
  "xv \<noteq> XVAL_TIME \<Longrightarrow> alike s (snd (pred_newerXY e (Some (Reftime xv COMP_GT ref)) s))"
  "xv \<noteq> XVAL_TIME \<Longrightarrow> stat_buf s' = stat_buf s \<Longrightarrow>
     fst (pred_newerXY e (Some (Reftime xv COMP_GT ref)) s') =
     fst (pred_newerXY e (Some (Reftime xv COMP_GT ref)) s)"
  by (cases xv; simp)+

lemma prim_test_alike:
  assumes "valid_pred e p" and "\<not> action_func (pred_func p)" and "good e s" and "ready e p s"
    and "\<not> is_operator_func (pred_func p)"
  shows "alike s (snd (prim e p s))"
proof -
  have a: "arg_ok (pred_func p) (args p)" using assms(1) by (simp add: valid_pred_def)
  have r: "status s = Running" "stat_reader (pred_func p) \<Longrightarrow> have_stat s"
    "pred_func p = Pred_type \<Longrightarrow> have_type s" "pred_func p = Pred_inum \<Longrightarrow> st_ino (stat_buf s) \<noteq> 0"
    using assms(1,4) by (auto simp: ready_def valid_pred_def)
  have h: "have_stat s \<Longrightarrow> have_type s" using assms(3) by (simp add: good_def)
  note cached = get_statinfo_cached [OF assms(3)]
  show ?thesis
    using assms(2,5) a r h cached
    apply (cases "pred_func p")
    by (simp_all add: prim.simps action_func_def arg_ok.simps stat_reader_def test_defs Let_def
      newerXY_value split: option.splits find_args.splits permissions_type.splits sum.splits)
qed

lemma type_test_value:
  assumes "have_type s" and "good e s" and "t \<noteq> 0"
  shows "pred_type (Some (Type_arg t)) s = (type_seen e s = Some t, s)"
proof -
  have "st_mode (stat_buf s) AND S_IFMT = ftype s AND S_IFMT" using assms(1,2) by (simp add: good_def)
  then show ?thesis using assms(1,3) by (auto simp: pred_type_def type_seen_def Let_def)
qed

lemma good_stat:
  "good e s \<Longrightarrow> have_stat s \<Longrightarrow> have_type s"
  "good e s \<Longrightarrow> have_stat s \<Longrightarrow> xstat e (rel_pathname e) = Inr (stat_buf s)"
  "good e s \<Longrightarrow> have_stat s \<Longrightarrow> ftype s = st_mode (stat_buf s)"
  by (simp_all add: good_def)

lemma good_same_stat:
  assumes "good e s" "good e s'" "have_stat s" "have_stat s'"
  shows "stat_buf s' = stat_buf s" "ftype s' = ftype s"
  using good_stat(2,3) [OF assms(1,3)] good_stat(2,3) [OF assms(2,4)] by simp_all

lemma xtype_value:
  assumes "have_stat s" and "have_type s" and "have_stat s'" and "have_type s'"
    and "stat_buf s' = stat_buf s" and "ftype s' = ftype s"
  shows "fst (pred_xtype e (Some (Type_arg t)) s') = fst (pred_xtype e (Some (Type_arg t)) s)"
  using assms by (auto simp: pred_xtype_def Let_def split: sum.splits)

lemma prim_test_value:
  assumes "valid_pred e p" and "\<not> action_func (pred_func p)" and "good e s" "good e s'"
    and "ready e p s" "ready e p s'" and "obs e s = obs e s'"
    and "\<not> is_operator_func (pred_func p)"
  shows "fst (prim e p s') = fst (prim e p s)"
proof -
  have a: "arg_ok (pred_func p) (args p)" using assms(1) by (simp add: valid_pred_def)
  have r: "status s = Running" "status s' = Running" "actions s' = actions s"
    using assms(5-7) by (auto simp: ready_def obs_def)
  have st: "have_stat s" "have_type s" "have_stat s'" "have_type s'" "stat_buf s' = stat_buf s"
    "ftype s' = ftype s" if "stat_reader (pred_func p)"
  proof -
    show h: "have_stat s" "have_stat s'" using that assms(1,5,6) by (auto simp: ready_def valid_pred_def)
    show "have_type s" "have_type s'" using h assms(3,4) good_stat(1) by blast+
    show "stat_buf s' = stat_buf s" "ftype s' = ftype s" using good_same_stat [OF assms(3,4) h] .
  qed
  have t: "have_type s" "have_type s'" if "pred_func p = Pred_type"
    using that assms(1,5,6) by (auto simp: ready_def valid_pred_def)
  have i: "st_ino (stat_buf s) \<noteq> 0" "st_ino (stat_buf s') = st_ino (stat_buf s)"
    if "pred_func p = Pred_inum"
    using that assms(1,5-7) by (auto simp: ready_def valid_pred_def obs_def)
  have seen: "type_seen e s' = type_seen e s" using assms(7) by (simp add: obs_def)
  note prim_defs = prim.simps r action_func_def stat_reader_def
  consider (stat) "stat_reader (pred_func p)" | (type) "pred_func p = Pred_type"
    | (inum) "pred_func p = Pred_inum"
    | (other) "\<not> stat_reader (pred_func p)" "pred_func p \<noteq> Pred_type" "pred_func p \<noteq> Pred_inum"
    by blast
  then show ?thesis
  proof cases
    case stat
    note st = st [OF stat]
    note cached = get_statinfo_cached [OF assms(3) st(1)] get_statinfo_cached [OF assms(4) st(3)]
    note vals = xtype_value [OF st] newerXY_value(2) [OF _ st(5)]
    show ?thesis
      using stat a
      by (cases "pred_func p")
        (simp_all add: prim.simps r action_func_def arg_ok.simps stat_reader_def time_defs
          pred_nouser_def pred_nogroup_def pred_lname_def pred_ilname_def pred_samefile_def
          pred_empty_def Let_def cached vals st(5)
          split: option.splits find_args.splits permissions_type.splits sum.splits)
  next
    case type
    note typed = type_test_value [OF t(1) assms(3)] type_test_value [OF t(2) assms(4)]
    show ?thesis using type a
      by (auto simp: prim.simps r arg_ok.simps typed seen split: option.splits find_args.splits)
  next
    case inum
    show ?thesis using inum a i
      by (auto simp: prim.simps r arg_ok.simps split: option.splits find_args.splits)
  next
    case other
    show ?thesis
      using other assms(2,8) a
      by (cases "pred_func p")
        (simp_all add: prim.simps r action_func_def arg_ok.simps stat_reader_def
          pred_executable_def pred_readable_def pred_writable_def pred_true_def
          pred_false_def Let_def split: option.splits find_args.splits)
  qed
qed

subsection \<open>Actions\<close>

text \<open>\<open>same e r r'\<close>: two results look the same and their states are good.\<close>

definition same :: "env \<Rightarrow> bool \<times> fstate \<Rightarrow> bool \<times> fstate \<Rightarrow> bool" where
  "same e r r' \<longleftrightarrow> fst r = fst r' \<and> obs e (snd r) = obs e (snd r') \<and> good e (snd r) \<and> good e (snd r')"

lemma good_updates [simp]:
  "good e (act a s) \<longleftrightarrow> good e s"
  "good e (s\<lparr>execdirs_outstanding := b\<rparr>) \<longleftrightarrow> good e s"
  "good e (s\<lparr>stop_at_current_level := b\<rparr>) \<longleftrightarrow> good e s"
  "good e (s\<lparr>status := x\<rparr>) \<longleftrightarrow> good e s"
  by (simp_all add: good_def act_def)

lemma obs_act: "obs e s = obs e s' \<Longrightarrow> obs e (act a s) = obs e (act a s')"
  by (auto simp: obs_def act_def type_seen_def inum_seen_def)

lemma obs_updates:
  assumes "obs e s = obs e s'"
  shows "obs e (s\<lparr>execdirs_outstanding := b\<rparr>) = obs e (s'\<lparr>execdirs_outstanding := b\<rparr>)"
    "obs e (s\<lparr>stop_at_current_level := b\<rparr>) = obs e (s'\<lparr>stop_at_current_level := b\<rparr>)"
    "run_state x = run_state y \<Longrightarrow> obs e (s\<lparr>status := x\<rparr>) = obs e (s'\<lparr>status := y\<rparr>)"
  using assms by (auto simp: obs_def type_seen_def inum_seen_def)

lemma obs_actions: "obs e s = obs e s' \<Longrightarrow> actions s = actions s'"
  by (simp add: obs_def)

lemma same_act:
  "b = b' \<Longrightarrow> obs e s = obs e s' \<Longrightarrow> good e s \<Longrightarrow> good e s' \<Longrightarrow> same e (b, act a s) (b', act a s')"
  unfolding same_def by (simp only: prod.sel good_updates) (blast intro: obs_act)

lemma delete_value:
  assumes "good e s"
  shows "pred_delete e s =
    (if rel_pathname e \<noteq> ''.'' then
       (case perform_delete e False s of
          None \<Rightarrow> (True, act (Unlink (rel_pathname e) False) s)
        | Some err \<Rightarrow>
            if err = EISDIR then
              (case perform_delete e True s of
                 None \<Rightarrow> (True, act (Unlink (rel_pathname e) True) s)
               | Some _ \<Rightarrow> (False, (error_msg (pathname e) s)\<lparr>exit_status := 1\<rparr>))
            else (False, (error_msg (pathname e) s)\<lparr>exit_status := 1\<rparr>))
     else (True, s))"
proof (cases "have_stat s \<and> S_ISDIR (st_mode (stat_buf s))")
  case True
  then have "xstat e (rel_pathname e) = Inr (stat_buf s)" using assms good_stat(2) by blast
  moreover have "env_ok e" using assms by (simp add: good_def)
  ultimately have "perform_delete e False s = Some EISDIR"
    using True by (simp add: env_ok_def perform_delete_def)
  then show ?thesis using True by (simp add: pred_delete_def split: option.splits)
next
  case False
  then show ?thesis by (auto simp: pred_delete_def Let_def split: option.splits)
qed

lemma same_alike:
  assumes "alike s t" and "alike s' t'" and "obs e s = obs e s'" and "good e s" and "good e s'"
  shows "same e (b, t) (b, t')"
  using assms alike_keeps by (simp add: same_def)

lemma delete_same:
  assumes "good e s" "good e s'" and o: "obs e s = obs e s'"
  shows "same e (pred_delete e s) (pred_delete e s')"
proof -
  have "perform_delete e f s = perform_delete e f s'" for f
    using obs_actions [OF o] by (simp add: perform_delete_def)
  then show ?thesis
    unfolding delete_value [OF assms(1)] delete_value [OF assms(2)]
    using same_act [OF refl o assms(1,2)] same_alike [OF alike_updates(4,4) o assms(1,2)]
      same_alike [OF alike_updates(1,1) o assms(1,2)]
    by (auto split: option.splits)
qed

lemma exec_same:
  assumes "good e s" "good e s'" and o: "obs e s = obs e s'" and "args p = Some (Exec_vec c n)"
  shows "same e (impl_pred_exec e p s) (impl_pred_exec e p s')"
proof -
  have "actions (act a s) = actions (act a s')" for a
    using obs_actions [OF o] by (simp add: act_def)
  then show ?thesis
    using assms(1,2,4) obs_act [OF o] obs_updates(1) [OF obs_act [OF o]]
    by (simp add: impl_pred_exec_def Let_def same_def)
qed

lemma ok_same:
  assumes "good e s" "good e s'" and o: "obs e s = obs e s'" and a: "args p = Some (Exec_vec c n)"
  shows "same e (pred_ok e p s) (pred_ok e p s')"
proof -
  let ?s = "act (Prompt c (pathname e)) s" and ?s' = "act (Prompt c (pathname e)) s'"
  have o': "obs e ?s = obs e ?s'" using obs_act [OF o] .
  have g: "good e ?s" "good e ?s'" using assms(1,2) by simp_all
  show ?thesis
    using exec_same [OF g o' a] o' g obs_actions [OF o'] a
    by (simp add: pred_ok_def is_ok_def Let_def same_def)
qed

lemma formatted_same:
  assumes "good e s" "good e s'" and o: "obs e s = obs e s'" and "ready e p s" "ready e p s'"
  shows "same e (formatted_as out e p s) (formatted_as out e p s')"
proof -
  have "stat_buf s' = stat_buf s" if "need_stat p"
    using that good_same_stat [OF assms(1,2)] assms(4,5) by (simp add: ready_def)
  moreover have "st_mode (stat_buf s') AND S_IFMT = st_mode (stat_buf s) AND S_IFMT" if "need_type p"
  proof -
    have h: "have_type s" "have_type s'" using that assms(4,5) by (simp_all add: ready_def)
    then have "ftype s' AND S_IFMT = ftype s AND S_IFMT" using o by (simp add: obs_def type_seen_def)
    then show ?thesis using h assms(1,2) by (simp add: good_def)
  qed
  moreover have "st_ino (stat_buf s') = st_ino (stat_buf s)" if "need_inum p"
    using that assms(4,5) o by (simp add: ready_def obs_def)
  ultimately have "(if need_stat p then Some (stat_buf s') else None) = (if need_stat p then Some (stat_buf s) else None)"
    "(if need_type p then Some (st_mode (stat_buf s') AND S_IFMT) else None) =
       (if need_type p then Some (st_mode (stat_buf s) AND S_IFMT) else None)"
    "(if need_inum p then Some (st_ino (stat_buf s')) else None) =
       (if need_inum p then Some (st_ino (stat_buf s)) else None)" by simp_all
  then show ?thesis unfolding formatted_as_def
    by (simp only:) (rule same_act [OF refl o assms(1,2)])
qed

lemma printf_errors_alike: "alike s (fold (printf_error e h) segments s)"
proof (induction segments arbitrary: s)
  case (Cons seg segments)
  have trans: "alike s t \<Longrightarrow> alike t u \<Longrightarrow> alike s u" for s t u
    unfolding alike_def by (elim exE) (cases s, simp)
  have "alike s (printf_error e h seg s)"
    by (auto simp: printf_error_def split: segment.split sum.split)
  from trans [OF this Cons.IH] show ?case by simp
qed simp

lemma printf_same:
  assumes "good e s" "good e s'" and o: "obs e s = obs e s'" and "ready e p s" "ready e p s'"
    and "args p = Some (Format_vec f segments)"
  shows "same e (formatted e p s) (formatted e p s')"
proof -
  have "same e (b, s1) (b', s1') \<longleftrightarrow> same e (b, fold (printf_error e h) segments s1) (b', fold (printf_error e h') segments s1')"
    for b b' s1 s1' h h'
    using alike_keeps [OF printf_errors_alike [of s1 e h segments]]
      alike_keeps [OF printf_errors_alike [of s1' e h' segments]] by (simp add: same_def)
  then show ?thesis
    using formatted_same [OF assms(1-5), of "Format_vec f segments"] assms(6)
    by (simp add: formatted_def formatted_as_def)
qed

lemma prune_same:
  assumes "good e s" "good e s'" and o: "obs e s = obs e s'"
    and h: "do_dir_first e \<longrightarrow> have_stat s" "do_dir_first e \<longrightarrow> have_stat s'"
  shows "same e (pred_prune e s) (pred_prune e s')"
proof (cases "do_dir_first e")
  case True
  then have "stat_buf s' = stat_buf s" using good_same_stat [OF assms(1,2)] h by blast
  then show ?thesis using True h assms(1,2) o obs_updates(2) [OF o] by (simp add: pred_prune_def same_def)
next
  case False
  then show ?thesis using assms by (simp add: pred_prune_def same_def)
qed

lemma prim_action_same:
  assumes "valid_pred e p" and "action_func (pred_func p)" and "good e s" "good e s'"
    and "ready e p s" "ready e p s'" and o: "obs e s = obs e s'"
  shows "same e (prim e p s) (prim e p s')"
proof -
  have a: "arg_ok (pred_func p) (args p)" using assms(1) by (simp add: valid_pred_def)
  have r: "status s = Running" "status s' = Running" using assms(5,6) by (auto simp: ready_def)
  have h: "do_dir_first e \<longrightarrow> have_stat s" "do_dir_first e \<longrightarrow> have_stat s'" if "pred_func p = Pred_prune"
    using that assms(1,5,6) by (auto simp: ready_def valid_pred_def)
  have quit: "same e (pred_quit s) (pred_quit s')"
    using assms(3,4) obs_updates(3) [OF obs_act [OF o]] by (simp add: pred_quit_def same_def Let_def)
  note acts = same_act [OF refl o assms(3,4)] delete_same [OF assms(3,4) o] exec_same [OF assms(3,4) o]
    ok_same [OF assms(3,4) o] formatted_same [OF assms(3,4) o assms(5,6)] printf_same [OF assms(3,4) o assms(5,6)] quit
    prune_same [OF assms(3,4) o]
  have format: "same e (formatted e p s) (formatted e p s')" if "arg_ok Pred_fprintf (args p)"
    using that acts by (auto simp: arg_ok.simps formatted_def split: option.splits find_args.splits)
  show ?thesis
    using assms(2) a h format
    by (cases "pred_func p")
      (simp_all add: prim.simps r action_func_def arg_ok.simps pred_print_def pred_fprint_def
        pred_fprint0_def acts split: option.splits find_args.splits)
qed

subsection \<open>The interpretation\<close>

lemma prim_same:
  assumes "valid_pred e p" and "good e s" "good e s'" and "ready e p s" "ready e p s'"
    and "obs e s = obs e s'" and "\<not> is_operator_func (pred_func p)"
  shows "same e (prim e p s) (prim e p s')"
proof (cases "action_func (pred_func p)")
  case True
  then show ?thesis using prim_action_same assms by blast
next
  case False
  note al = prim_test_alike [OF assms(1) False assms(2,4,7)] prim_test_alike [OF assms(1) False assms(3,5,7)]
  have "fst (prim e p s') = fst (prim e p s)"
    by (rule prim_test_value [OF assms(1) False assms(2-7)])
  then show ?thesis using same_alike [OF al assms(6,2,3)] unfolding same_def by simp
qed

lemma stopped_same:
  assumes "good e s" "good e s'" and o: "obs e s = obs e s'" and "status s \<noteq> Running"
  shows "same e (apply_primary (get_info e) (prim e) p s) (apply_primary (get_info e) (prim e) p s')"
proof -
  have "status s' \<noteq> Running" using o assms(4) run_state_Runs unfolding obs_def by (metis prod.inject)
  then show ?thesis using assms by (simp add: apply_primary_def get_info_def prim.simps same_def)
qed

definition valid :: "env \<Rightarrow> 'f find_pred \<Rightarrow> bool" where
  "valid e p \<longleftrightarrow> valid_pred e p \<and> \<not> is_operator_func (pred_func p)"

lemma primary_same:
  assumes v: "valid e p" and g: "good e s" "good e s'" and o: "obs e s = obs e s'"
  shows "same e (apply_primary (get_info e) (prim e) p s) (apply_primary (get_info e) (prim e) p s')"
proof (cases "status s = Running")
  case False
  then show ?thesis using stopped_same g o by blast
next
  case True
  then have r: "status s = Running" "status s' = Running"
    using o run_state_Runs unfolding obs_def by (metis prod.inject)+
  have v': "valid_pred e p" "\<not> is_operator_func (pred_func p)" using v by (simp_all add: valid_def)
  note i = get_info_result [OF g(1) r(1), of p] get_info_result [OF g(2) r(2), of p]
  have ok: "info_ok e p s = info_ok e p s'" by (rule info_ok_obs [OF o])
  show ?thesis
  proof (cases "needs_nothing p")
    case True
    then have "ready e p s" "ready e p s'" using r by (simp_all add: ready_def needs_nothing_def)
    then have "same e (prim e p s) (prim e p s')" using prim_same [OF v'(1) g _ _ o v'(2)] by blast
    then show ?thesis using True by (simp add: apply_primary_def)
  next
    case needs: False
    show ?thesis
    proof (cases "info_ok e p s")
      case True
      then have "same e (prim e p (snd (get_info e p s))) (prim e p (snd (get_info e p s')))"
        using i ok o by (intro prim_same [OF v'(1) _ _ _ _ _ v'(2)]) auto
      then show ?thesis using needs True i ok by (simp add: apply_primary_def split_beta)
    next
      case False
      then show ?thesis using needs i ok o by (simp add: apply_primary_def split_beta same_def)
    qed
  qed
qed

lemma primary_test_quiet:
  assumes v: "valid e p" and eff: "\<not> side_effects p" and g: "good e s"
  shows "obs e (snd (apply_primary (get_info e) (prim e) p s)) = obs e s"
proof (cases "status s = Running")
  case False
  then show ?thesis by (simp add: apply_primary_def get_info_def prim.simps)
next
  case True
  have v': "valid_pred e p" "\<not> action_func (pred_func p)" "\<not> is_operator_func (pred_func p)"
    using v eff by (auto simp: valid_def valid_pred_def)
  note i = get_info_result [OF g True, of p]
  have ready: "ready e p s" if "needs_nothing p" using that True by (simp add: ready_def needs_nothing_def)
  show ?thesis
    using i ready alike_keeps(2) prim_test_alike [OF v'(1,2) g _ v'(3)]
      prim_test_alike [OF v'(1,2) _ _ v'(3), of "snd (get_info e p s)"] g
    by (cases "info_ok e p s") (simp_all add: apply_primary_def split_beta)
qed

interpretation find: predicate_effects "get_info e" "prim e" "obs e" "good e" "valid e" for e :: env
proof unfold_locales
  fix p :: "(find_args, 'f) predicate" and s s' :: fstate
  assume v: "valid e p" and g: "good e s"
  show "good e (snd (apply_primary (get_info e) (prim e) p s))"
    using primary_same [OF v g g refl] by (simp add: same_def)
  show "fst (apply_primary (get_info e) (prim e) p s) = fst (apply_primary (get_info e) (prim e) p s') \<and>
      obs e (snd (apply_primary (get_info e) (prim e) p s)) =
      obs e (snd (apply_primary (get_info e) (prim e) p s'))" if "good e s'" "obs e s = obs e s'"
    using primary_same [OF v g that] by (simp add: same_def)
  show "obs e (snd (apply_primary (get_info e) (prim e) p s)) = obs e s" if "\<not> side_effects p"
    by (rule primary_test_quiet [OF v that g])
next
  fix p :: "(find_args, 'f) predicate" and c
  have fields: "need_stat (p\<lparr>p_cost := c\<rparr>) = need_stat p" "need_type (p\<lparr>p_cost := c\<rparr>) = need_type p"
    "need_inum (p\<lparr>p_cost := c\<rparr>) = need_inum p" "pred_func (p\<lparr>p_cost := c\<rparr>) = pred_func p"
    "args (p\<lparr>p_cost := c\<rparr>) = args p" "exec_multiple (p\<lparr>p_cost := c\<rparr>) = exec_multiple p"
    by simp_all
  show "get_info e (p\<lparr>p_cost := c\<rparr>) = get_info e p"
    by (rule ext) (simp only: get_info_def info_todo_def fields)
  show "prim e (p\<lparr>p_cost := c\<rparr>) = prim e p"
    by (rule ext) (simp only: prim.simps impl_pred_exec_def pred_ok_def formatted_def formatted_as_def fields)
  show "valid e (p\<lparr>p_cost := c\<rparr>) = valid e p" by (simp add: valid_def valid_pred_def)
qed

subsection \<open>No assertion fails\<close>

lemma status_updates [simp]:
  "status (act a s) = status s" "status (error_msg n s) = status s"
  by (simp_all add: act_def error_msg_def)

lemma alike_status: "alike s s' \<Longrightarrow> status s' = status s"
  by (auto simp: alike_def)

lemma prim_action_status:
  assumes "valid_pred e p" and "action_func (pred_func p)" and "ready e p s"
  shows "status (snd (prim e p s)) \<noteq> Aborted"
proof -
  have a: "arg_ok (pred_func p) (args p)" using assms(1) by (simp add: valid_pred_def)
  have r: "status s = Running" using assms(3) by (simp add: ready_def)
  have h: "have_stat s" if "pred_func p = Pred_prune" "do_dir_first e"
    using that assms(1,3) by (auto simp: ready_def valid_pred_def)
  have delete: "status (snd (pred_delete e s)) \<noteq> Aborted"
    using r by (auto simp: pred_delete_def Let_def split: option.splits)
  have prune: "status (snd (pred_prune e s)) \<noteq> Aborted" if "pred_func p = Pred_prune"
    using r h that by (auto simp: pred_prune_def)
  have exec: "status (snd (impl_pred_exec e p t)) \<noteq> Aborted"
    if "args p = Some (Exec_vec c n)" "status t = Running" for c n t
    using that by (auto simp: impl_pred_exec_def Let_def)
  have ok: "status (snd (pred_ok e p s)) \<noteq> Aborted" if "args p = Some (Exec_vec c n)" for c n
    using that r exec [OF that] by (auto simp: pred_ok_def is_ok_def Let_def)
  have errors: "status (fold (printf_error e h) segments t) = status t" for h segments t
    using printf_errors_alike [of t e h segments] by (auto simp: alike_def)
  show ?thesis
    using assms(2) a
    by (cases "pred_func p")
      (simp_all add: prim.simps r action_func_def arg_ok.simps pred_print_def pred_fprint_def
        pred_fprint0_def formatted_def formatted_as_def errors pred_quit_def delete prune exec ok Let_def
        split: option.splits find_args.splits)
qed

lemma primary_status:
  assumes v: "valid e p" and g: "good e s" and st: "status s \<noteq> Aborted"
  shows "status (snd (apply_primary (get_info e) (prim e) p s)) \<noteq> Aborted"
proof (cases "status s = Running")
  case False
  then show ?thesis using st by (simp add: apply_primary_def get_info_def prim.simps)
next
  case True
  have v': "valid_pred e p" "\<not> is_operator_func (pred_func p)" using v by (auto simp: valid_def)
  have prim: "status (snd (prim e p t)) \<noteq> Aborted" if "good e t" "ready e p t" for t
  proof (cases "action_func (pred_func p)")
    case True
    then show ?thesis using prim_action_status [OF v'(1) True that(2)] by simp
  next
    case False
    then show ?thesis using alike_status [OF prim_test_alike [OF v'(1) False that v'(2)]] that(2)
      by (simp add: ready_def)
  qed
  note i = get_info_result [OF g True, of p]
  have run: "status (snd (get_info e p s)) = Running"
    using i True run_state_Runs unfolding obs_def by (metis prod.inject)
  have ready: "ready e p s" if "needs_nothing p" using that True by (simp add: ready_def needs_nothing_def)
  show ?thesis
  proof (cases "needs_nothing p")
    case True
    then show ?thesis using prim [OF g ready] by (simp add: apply_primary_def)
  next
    case False
    then show ?thesis using prim [of "snd (get_info e p s)"] i run
      by (cases "info_ok e p s") (simp_all add: apply_primary_def split_beta)
  qed
qed

lemma run_status:
  "wf_tree t \<Longrightarrow> \<forall>p\<in>set (primaries t). valid e p \<Longrightarrow> good e s \<Longrightarrow> status s \<noteq> Aborted \<Longrightarrow>
     status (snd (apply_predicate (get_info e) (prim e) t s)) \<noteq> Aborted \<and>
     good e (snd (apply_predicate (get_info e) (prim e) t s))"
proof (induction t arbitrary: s)
  case (Node p l r)
  have wf: "wf_pred p" using Node.prems(1) by simp
  consider "p_type p = PRIMARY_TYPE" "valid e p" | "p_type p = UNI_OP" "l = Null" "wf_tree r"
    | "p_type p = BI_OP" "l = Null \<or> wf_tree l" "wf_tree r"
    using Node.prems(1,2) by (auto split: if_splits)
  then show ?case
  proof cases
    case 1
    have "good e (snd (apply_primary (get_info e) (prim e) p s))"
      using primary_same [OF 1(2) Node.prems(3,3) refl] by (simp add: same_def)
    then show ?thesis using primary_status [OF 1(2) Node.prems(3,4)] find.run_leaf [OF wf 1(1)] by simp
  next
    case 2
    then show ?thesis using Node.IH(2) [OF 2(3) _ Node.prems(3,4)] Node.prems(2) find.run_not [OF wf 2(1)]
      by (simp add: find.opposite_def split_beta Let_def)
  next
    case 3
    have r: "status (snd (apply_predicate (get_info e) (prim e) r t)) \<noteq> Aborted \<and>
        good e (snd (apply_predicate (get_info e) (prim e) r t))" if "good e t" "status t \<noteq> Aborted" for t
      using Node.IH(2) [OF 3(3) _ that] Node.prems(2) by simp
    show ?thesis
    proof (cases "l = Null")
      case True
      then show ?thesis using r [OF Node.prems(3,4)] find.run_binary [OF wf 3(1)] by simp
    next
      case False
      then have l: "status (snd (apply_predicate (get_info e) (prim e) l s)) \<noteq> Aborted \<and>
          good e (snd (apply_predicate (get_info e) (prim e) l s))"
        using Node.IH(1) [OF _ _ Node.prems(3,4)] Node.prems(2) 3(2) by simp
      then show ?thesis
        using r [of "snd (apply_predicate (get_info e) (prim e) l s)"] False find.run_binary [OF wf 3(1)]
        by (simp add: find.combine_defs split_beta Let_def)
    qed
  qed
qed simp

end
