(* ===== verification/FindTheorems.thy ===== *)
theory FindTheorems
  imports FindEffects
begin

text \<open>
  The properties of the expression code of \<open>find\<close>: the parser, the optimiser, the evaluation and the
  tests.
\<close>

subsection \<open>Nodes for the examples\<close>

definition ex_node :: "pred_func \<Rightarrow> string \<Rightarrow> predicate_type \<Rightarrow> predicate_precedence \<Rightarrow> bool \<Rightarrow> bool \<Rightarrow>
    find_args option \<Rightarrow> int find_pred" where
  "ex_node fn name ty pr eff stat a =
     \<lparr>pred_func = fn, p_name = name, p_type = ty, p_prec = pr, side_effects = eff,
      no_default_print = eff, need_stat = stat, need_type = stat, need_inum = False,
      p_cost = NeedsUnknown, est_success_rate = 100, literal_control_chars = False,
      artificial = False, arg_text = None, args = a, exec_multiple = False\<rparr>"

definition ex_name :: "int find_pred" where
  "ex_name = ex_node Pred_name ''-name'' PRIMARY_TYPE NO_PREC False False (Some (Str ''x''))"

definition ex_size :: "int find_pred" where
  "ex_size = ex_node Pred_size ''-size'' PRIMARY_TYPE NO_PREC False True (Some (Size COMP_GT 512 3))"

definition ex_print :: "int find_pred" where
  "ex_print = ex_node Pred_print ''-print'' PRIMARY_TYPE NO_PREC True False (Some (Printf_vec 1))"

definition ex_and :: "int find_pred" where
  "ex_and = ex_node Pred_and ''-a'' BI_OP AND_PREC False False None"

definition ex_or :: "int find_pred" where
  "ex_or = ex_node Pred_or ''-o'' BI_OP OR_PREC False False None"

definition ex_comma :: "int find_pred" where
  "ex_comma = ex_node Pred_comma '','' BI_OP COMMA_PREC False False None"

definition ex_not :: "int find_pred" where
  "ex_not = ex_node Pred_negate ''!'' UNI_OP NEGATE_PREC False False None"

definition ex_open :: "int find_pred" where
  "ex_open = ex_node Pred_openparen ''('' OPEN_PAREN NO_PREC False False None"

definition ex_close :: "int find_pred" where
  "ex_close = ex_node Pred_closeparen '')'' CLOSE_PAREN NO_PREC False False None"

lemmas ex_defs = ex_name_def ex_size_def ex_print_def ex_and_def ex_or_def ex_comma_def ex_not_def
  ex_open_def ex_close_def ex_node_def

definition ex_options :: options where
  "ex_options = \<lparr>optimisation_level = 2, opt_literal_control_chars = False, explicit_depth = False\<rparr>"

text \<open>A regular file of 2000 bytes with the name x.\<close>

definition ex_stat :: fstat where
  "ex_stat = \<lparr>st_mode = 0x81A4, st_ino = 7, st_dev = 1, st_nlink = 1, st_uid = 0, st_gid = 0,
     st_size = 2000, stat_atime = \<lparr>tv_sec = 0, tv_nsec = 0\<rparr>, stat_mtime = \<lparr>tv_sec = 0, tv_nsec = 0\<rparr>,
     stat_ctime = \<lparr>tv_sec = 0, tv_nsec = 0\<rparr>, stat_birthtime = \<lparr>tv_sec = 0, tv_nsec = 0\<rparr>\<rparr>"

definition ex_env :: env where
  "ex_env = \<lparr>pathname = ''./x'', rel_pathname = ''x'', curdepth = 1, do_dir_first = True,
     ignore_readdir_race = False, symlink_handling = SYMLINK_NEVER_DEREF,
     fstatat = (\<lambda>n f. Inr ex_stat), unlinkat = (\<lambda>h n f. None), faccessat = (\<lambda>h n a. True),
     readlinkat = (\<lambda>h n. None), open_dir = (\<lambda>h n. Inl ENOTDIR), getfilecon = (\<lambda>h n. None),
     command_ok = (\<lambda>h. True), yesno = (\<lambda>h. True), fnmatch = (\<lambda>p s c. p = s),
     re_match = (\<lambda>syntax r s. 0), base_name = (\<lambda>n. ''x''), base_name_of = (\<lambda>n. ''x''),
     filesystem_type = (\<lambda>st n. ''ext4''), getpwuid = (\<lambda>u. None), getgrgid = (\<lambda>g. None)\<rparr>"

definition ex_state :: fstate where
  "ex_state = \<lparr>have_stat = False, have_type = False, ftype = 0, stat_buf = ex_stat\<lparr>st_ino := 0\<rparr>,
     stop_at_current_level = False, exit_status = 0, execdirs_outstanding = False,
     already_issued_stat_error_msg = False, messages = [], actions = [], status = Running\<rparr>"

lemma ex_good: "good ex_env ex_state"
  by (simp add: good_def env_ok_def ex_env_def ex_state_def ex_stat_def xstat.simps optionp_stat_def
    S_ISDIR_def S_IFMT_def S_IFDIR_def)

lemma ex_valid: "valid e ex_name" "valid e ex_size" "valid e ex_print"
  by (simp_all add: valid_def valid_pred_def ex_defs arg_ok.simps stat_reader_def action_func_def)

lemma pct_asym: "less_asym pct"
  by (simp add: less_asym_def)

subsection \<open>The parser\<close>

text \<open>C10: Parsing what a tree is printed as gives back the tree: for every complete tree (operators
  with their operands, as the parser makes them) and its rendering with as few parentheses as the
  precedences and left associativity need, \<open>get_expr\<close> returns that tree and consumes all input. So
  the parser implements the documented precedences.\<close>

theorem find_parse_render:
  assumes "user_parens op cp" and "complete_tree t" and "\<forall>p\<in>set (flatten t). \<not> artificial p"
  shows "get_expr (render op cp 0 t) NO_PREC None = Ok (t, [])"
proof -
  have "get_expr (render op cp 0 t @ []) NO_PREC None = scan_loop [] t NO_PREC"
    by (rule render_parse [OF assms]) (simp_all add: stops_def)
  then show ?thesis by simp
qed

definition ex_tree :: "(find_args, int) ptree" where
  "ex_tree = Node ex_and (Node ex_not Null (Node ex_or (Node ex_size Null Null) (Node ex_name Null Null)))
     (Node ex_print Null Null)"

theorem find_parse_render_witness:
  "user_parens ex_open ex_close \<and>
   get_expr (render ex_open ex_close 0 ex_tree) NO_PREC None = Ok (ex_tree, []) \<and>
   map p_name (render ex_open ex_close 0 ex_tree) =
     [''!'', ''('', ''-size'', ''-o'', ''-name'', '')'', ''-a'', ''-print'']"
proof -
  have "user_parens ex_open ex_close" by (simp add: user_parens_def ex_defs wf_pred.simps)
  moreover have "complete_tree ex_tree" "\<forall>p\<in>set (flatten ex_tree). \<not> artificial p"
    by (simp_all add: ex_tree_def ex_defs wf_pred.simps needs_nothing_def)
  moreover have "map p_name (render ex_open ex_close 0 ex_tree) =
     [''!'', ''('', ''-size'', ''-o'', ''-name'', '')'', ''-a'', ''-print'']"
    by (simp add: ex_tree_def ex_defs)
  ultimately show ?thesis using find_parse_render [of ex_open ex_close ex_tree] by simp
qed

text \<open>C31: When \<open>get_expr\<close> succeeds on a list of well-formed predicates its tree is complete, and the
  tree's nodes in order followed by the rest of the list are the list without its parentheses: no
  test, action or operator is lost, duplicated or moved.\<close>

theorem find_parse_keeps:
  assumes "get_expr ps prec prev = Ok (t, rest)" and "\<forall>p\<in>set ps. wf_pred p"
  shows "complete_tree t \<and> filter not_paren ps = flatten t @ filter not_paren rest"
  using get_expr_complete [OF assms] parse_keeps_aux(2) [OF assms(1)] by simp

theorem find_parse_keeps_witness:
  "\<exists>t. get_expr [ex_not, ex_name, ex_and, ex_print] NO_PREC None = Ok (t, []) \<and> complete_tree t \<and>
     flatten t = [ex_not, ex_name, ex_and, ex_print]"
proof -
  let ?ps = "[ex_not, ex_name, ex_and, ex_print]"
  let ?t = "Node ex_and (Node ex_not Null (Node ex_name Null Null)) (Node ex_print Null Null)"
  have parse: "get_expr ?ps NO_PREC None = Ok (?t, [])"
    by (simp add: get_expr.simps scan_rest.simps ex_defs)
  have "\<forall>p\<in>set ?ps. wf_pred p" by (simp add: ex_defs wf_pred.simps needs_nothing_def)
  from find_parse_keeps [OF parse this] parse show ?thesis by (auto simp: ex_defs)
qed

text \<open>The parser always returns, and \<open>build_expression_tree\<close> reads through a null pointer for one
  kind of input only: an expression that starts with a close parenthesis, where \<open>get_expr\<close> looks at
  the previous predicate and there is none. Every other list of well-formed predicates gives a tree
  or one of the error messages; no assertion fails and no loop goes on for ever.\<close>

theorem find_tree_undefined:
  assumes "\<forall>p\<in>set ps. wf_pred p" and "less_asym F"
  shows "(finish_tree F opt ps = Undef \<longleftrightarrow>
      check_option_combinations opt ps \<and> ps \<noteq> [] \<and> p_type (hd ps) = CLOSE_PAREN) \<and>
    finish_tree F opt ps \<noteq> Diverge"
  using finish_tree_Undef_aux [OF assms] by blast

theorem find_tree_undefined_witness:
  "finish_tree pct ex_options [ex_close, ex_print] = Undef \<and>
   finish_tree pct ex_options [ex_name, ex_close] \<noteq> Undef"
proof -
  have "check_option_combinations ex_options [ex_close, ex_print]"
    by (simp add: check_option_combinations_def ex_defs)
  then show ?thesis
    using find_tree_undefined [of "[ex_close, ex_print]" pct ex_options]
      find_tree_undefined [of "[ex_name, ex_close]" pct ex_options] pct_asym
    by (simp add: ex_defs wf_pred.simps)
qed

subsection \<open>The optimiser\<close>

text \<open>C32: \<open>opt_expr\<close> on the tree of any expression ends, without failing an assertion or following a
  null pointer. Its result is in the normal form that \<open>check_normalization\<close> asserts (with a binary
  operator at the root), has the same primaries as the tree, and the value it returns says whether
  one of them has side effects.\<close>

theorem opt_expr_normal:
  assumes "wf_tree t"
  shows "\<exists>u b. opt_expr F opt t = Some (u, b) \<and> normal u \<and> check_normalization u True \<and>
    mset (primaries u) = mset (primaries t) \<and> (b \<longleftrightarrow> (\<exists>p\<in>set (primaries t). side_effects p))"
proof -
  obtain u b m where u: "opt_expr F opt t = Some (u, b)" "normal u" "root_is m u"
    "mset (primaries u) = mset (primaries t)" "b \<longleftrightarrow> has_effects t"
    using opt_expr_ok [OF assms, of F opt] by (auto simp: opt_result_def)
  have "check_normalization u True" using normal_check [OF u(2)] u(3) by (cases u) auto
  then show ?thesis using u by (auto simp: has_effects_def)
qed

theorem opt_expr_normal_witness:
  "\<exists>u b. opt_expr pct ex_options ex_tree = Some (u, b) \<and> normal u \<and> b"
proof -
  have "wf_tree ex_tree" by (simp add: ex_tree_def ex_defs wf_pred.simps needs_nothing_def)
  from opt_expr_normal [OF this, of pct ex_options] show ?thesis
    by (auto simp: ex_tree_def ex_defs)
qed

text \<open>C9: Optimising does not change what an expression does. From states of the search that look
  alike, the optimised tree has the same truth value and leaves states that look alike: the same
  actions in the same order, the same pruning, the same end of the program. This is for the
  primaries of \<open>find/pred.c\<close> with the flags the parsers give them, at every optimisation level, also
  with comma operators, as long as the actions do not change what \<open>stat\<close> says about the file.\<close>

theorem opt_expr_same_actions:
  assumes "wf_tree t" and "\<forall>p\<in>set (primaries t). valid e p" and "opt_expr F opt t = Some (u, b)"
    and "good e s" and "good e s'" and "obs e s = obs e s'"
  shows "fst (apply_predicate (get_info e) (prim e) u s) = fst (apply_predicate (get_info e) (prim e) t s') \<and>
    obs e (snd (apply_predicate (get_info e) (prim e) u s)) =
    obs e (snd (apply_predicate (get_info e) (prim e) t s'))"
  using find.opt_expr_same [OF assms(1-3)] find.same_runD(1,2) assms(4-6) by blast

text \<open>The expression of the example is \<open>-size +3 -name x -print\<close>.\<close>

definition ex_expr :: "(find_args, int) ptree" where
  "ex_expr = Node ex_and (Node ex_and (Node ex_size Null Null) (Node ex_name Null Null))
     (Node ex_print Null Null)"

lemma ex_expr_wf: "wf_tree ex_expr" "\<forall>p\<in>set (primaries ex_expr). valid e p"
  using ex_valid by (simp_all add: ex_expr_def) (simp_all add: ex_defs wf_pred.simps needs_nothing_def)

theorem opt_expr_same_actions_witness:
  "\<exists>u b. opt_expr pct ex_options ex_expr = Some (u, b) \<and>
     map p_name (primaries u) = [''-name'', ''-size'', ''-print''] \<and>
     fst (apply_predicate (get_info ex_env) (prim ex_env) u ex_state) =
     fst (apply_predicate (get_info ex_env) (prim ex_env) ex_expr ex_state)"
proof -
  obtain u b where u: "opt_expr pct ex_options ex_expr = Some (u, b)"
    using opt_expr_ok [OF ex_expr_wf(1), of pct ex_options] by blast
  moreover have "map_option (\<lambda>(u, b). map p_name (primaries u)) (opt_expr pct ex_options ex_expr) =
      Some [''-name'', ''-size'', ''-print'']"
    by code_simp
  then have "map p_name (primaries u) = [''-name'', ''-size'', ''-print'']" using u by simp
  ultimately show ?thesis
    using opt_expr_same_actions [OF ex_expr_wf u ex_good ex_good refl]
    by (intro exI [of _ u] exI [of _ b]) simp
qed

text \<open>\<open>build_expression_tree\<close> as a whole: from a list of well-formed predicates, when it
  succeeds, it gives a tree in normal form with exactly the user's primaries, each with its cost
  class filled in.\<close>

theorem find_tree_result:
  assumes "\<forall>p\<in>set ps. wf_pred p" and "less_asym F" and "finish_tree F opt ps = Ok u"
  shows "normal u \<and>
    mset (primaries u) = mset (map (\<lambda>p. p\<lparr>p_cost := get_pred_cost p\<rparr>) (filter is_primary ps))"
  by (rule finish_tree_Ok_aux [OF assms])

definition ex_list :: "int find_pred list" where
  "ex_list = [ex_size, ex_and, ex_name, ex_and, ex_print]"

lemma ex_list_wf: "\<forall>p\<in>set ex_list. wf_pred p"
  by (simp add: ex_list_def ex_defs wf_pred.simps needs_nothing_def)

definition ex_result :: "(find_args, int) ptree" where
  "ex_result = (case finish_tree pct ex_options ex_list of Ok u \<Rightarrow> u | _ \<Rightarrow> Null)"

lemma ex_result: "finish_tree pct ex_options ex_list = Ok ex_result"
proof -
  have "(case finish_tree pct ex_options ex_list of Ok u \<Rightarrow> True | _ \<Rightarrow> False)" by code_simp
  then show ?thesis by (cases "finish_tree pct ex_options ex_list") (simp_all add: ex_result_def)
qed

theorem find_tree_result_witness:
  "normal ex_result \<and> size (mset (primaries ex_result)) = 3"
  using find_tree_result [OF ex_list_wf pct_asym ex_result]
  by (simp add: ex_list_def ex_defs)

text \<open>C5: From the command line to the evaluation: for an expression without a comma operator, the
  tree that \<open>build_expression_tree\<close> makes with all its passes (derived rates, costs, \<open>opt_expr\<close> and
  the exchange of arms) does the same as the tree of the parser, on every file: the same truth
  value, the same actions in the same order, the same pruning.\<close>

theorem find_tree_same_actions:
  assumes "\<forall>p\<in>set ps. wf_pred p \<and> pred_func p \<noteq> Pred_comma \<and> (is_primary p \<longrightarrow> valid e p)"
    and "finish_tree F opt ps = Ok u" and "get_expr ps NO_PREC None = Ok (t, [])"
    and "good e s" and "good e s'" and "obs e s = obs e s'"
  shows "fst (apply_predicate (get_info e) (prim e) u s) = fst (apply_predicate (get_info e) (prim e) t s') \<and>
    obs e (snd (apply_predicate (get_info e) (prim e) u s)) =
    obs e (snd (apply_predicate (get_info e) (prim e) t s'))"
proof -
  have wf: "\<forall>p\<in>set ps. wf_pred p" "\<forall>p\<in>set ps. pred_func p \<noteq> Pred_comma" using assms(1) by auto
  obtain t' t1 t2 b c where passes: "get_expr ps NO_PREC None = Ok (t', [])"
    "calculate_derived_rates F t' = Some t1" "opt_expr F opt (estimate_costs t1) = Some (t2, b)"
    "do_arm_swaps F (2 * nodes t2 + 1) t2 = Some (u, c)"
    using assms(2) by (rule finish_tree_Ok)
  then have t': "t' = t" using assms(3) by simp
  have "wf_tree t" using get_expr_complete [OF assms(3) wf(1)] complete_wf_tree by blast
  moreover have "\<forall>p\<in>set (primaries t). valid e p"
    using parsed_primaries [OF assms(3) wf(1)] assms(1) by auto
  moreover have "comma_free t" by (rule comma_free_parsed [OF assms(3) wf(2,1)])
  ultimately have "find.same_run e (apply_predicate (get_info e) (prim e) u) (apply_predicate (get_info e) (prim e) t)"
    using find.passes_same passes(2-4) t' by blast
  from find.same_runD(1,2) [OF this assms(4-6)] show ?thesis ..
qed

theorem find_tree_same_actions_witness:
  "\<exists>t. get_expr ex_list NO_PREC None = Ok (t, []) \<and>
     fst (apply_predicate (get_info ex_env) (prim ex_env) ex_result ex_state) =
     fst (apply_predicate (get_info ex_env) (prim ex_env) t ex_state)"
proof -
  have parse: "get_expr ex_list NO_PREC None = Ok (ex_expr, [])"
    by (simp add: get_expr.simps scan_rest.simps ex_list_def ex_expr_def ex_defs)
  have "\<forall>p\<in>set ex_list. wf_pred p \<and> pred_func p \<noteq> Pred_comma \<and> (is_primary p \<longrightarrow> valid ex_env p)"
    using ex_list_wf ex_valid by (auto simp: ex_list_def) (simp_all add: ex_defs)
  from find_tree_same_actions [OF this ex_result parse ex_good ex_good refl] parse
  show ?thesis by (intro exI conjI) auto
qed

text \<open>Exchanging arms ends: on every tree \<open>do_arm_swaps\<close> returns, within two steps for each node,
  whatever the success rates are. It keeps the normal form and the primaries.\<close>

theorem do_arm_swaps_terminates:
  assumes "less_asym F"
  shows "\<exists>u. do_arm_swaps F (2 * nodes t + 1) t = Some (u, False) \<and> (normal t \<longrightarrow> normal u) \<and>
    mset (primaries u) = mset (primaries t)"
proof -
  obtain u where u: "do_arm_swaps F (2 * nodes t + 1) t = Some (u, False)"
    using do_arm_swaps_ends [OF assms, of t "2 * nodes t + 1"] by auto
  then have "arm_swaps t u" using do_arm_swaps_swaps by blast
  then show ?thesis using u arm_swaps_normal arm_swaps_primaries by blast
qed

theorem do_arm_swaps_terminates_witness:
  "\<exists>u. do_arm_swaps pct 11 ex_expr = Some (u, False) \<and> mset (primaries u) = mset (primaries ex_expr)"
proof -
  have "2 * nodes ex_expr + 1 = 11" by (simp add: ex_expr_def)
  then show ?thesis using do_arm_swaps_terminates [OF pct_asym, of ex_expr] by auto
qed

text \<open>The exchange of arms is wrong for the comma operator. In \<open>-size +3 , -name y\<close> the value of the
  whole is that of its last operand; \<open>do_arm_swaps\<close> exchanges the two, as the first costs more, and
  on a file of 2000 bytes with the name x the value changes from false to true.\<close>

theorem comma_arms_swapped:
  "let t = Node ex_comma (Node ex_comma Null (Node ex_size Null Null)) (Node (ex_name\<lparr>args := Some (Str ''y'')\<rparr>) Null Null) in
   case do_arm_swaps pct (2 * nodes t + 1) (estimate_costs t) of
     None \<Rightarrow> False
   | Some (u, _) \<Rightarrow>
       \<not> fst (apply_predicate (get_info ex_env) (prim ex_env) t ex_state) \<and>
       fst (apply_predicate (get_info ex_env) (prim ex_env) u ex_state)"
  by code_simp

text \<open>The list of a cost class is not sorted by \<open>predlist_merge_sort\<close>: a new element is put behind
  the first one that compares greater or equal. Three tests with success rates 20, 30 and 10 in an
  and-list, where the test least likely to succeed should be evaluated first and so be the last
  of the list, come out as 30, 10, 20: the test with rate 20 is evaluated before the one with 10.\<close>

theorem merge_sort_order:
  "let q = (\<lambda>r. (ex_and, Node (ex_name\<lparr>est_success_rate := r\<rparr>) Null Null)) in
   map_option (map (\<lambda>(p, r). getrate pct r) \<circ> spine_of) (predlist_merge_sort pct (map q [20, 30, 10]) Null)
   = Some [30, 10, 20]"
  by code_simp

subsection \<open>The tests and actions\<close>

text \<open>Evaluating an expression never fails one of the assertions in \<open>find/pred.c\<close> and
  \<open>find/util.c\<close> and never uses the wrong member of the argument union: for a tree of the parser with
  primaries as the parsers make them, evaluated when what is known about the file is consistent,
  the program is not aborted, and what is known stays consistent.\<close>

theorem evaluation_never_aborts:
  assumes "wf_tree t" and "\<forall>p\<in>set (primaries t). valid e p" and "good e s" and "status s \<noteq> Aborted"
  shows "status (snd (apply_predicate (get_info e) (prim e) t s)) \<noteq> Aborted \<and>
    good e (snd (apply_predicate (get_info e) (prim e) t s))"
  by (rule run_status [OF assms])

theorem evaluation_never_aborts_witness:
  "good ex_env (snd (apply_predicate (get_info ex_env) (prim ex_env) ex_expr ex_state))"
  using evaluation_never_aborts [OF ex_expr_wf ex_good] by (simp add: ex_state_def)

text \<open>\<open>-size\<close> compares the size rounded up to whole blocks: for a file size that a 64-bit \<open>off_t\<close>
  holds and a positive block size, the number compared is the least n such that n blocks hold the
  file.\<close>

theorem size_blocks_rounds_up:
  assumes "0 \<le> sz" and "sz < 2 ^ 63" and "0 < blocksize"
  shows "sz \<le> int (size_blocks sz blocksize) * blocksize \<and>
    (int (size_blocks sz blocksize) - 1) * blocksize < sz \<or> sz = 0 \<and> size_blocks sz blocksize = 0"
proof -
  define q where "q = sz div blocksize"
  define r where "r = sz mod blocksize"
  have sz: "sz = q * blocksize + r" "0 \<le> r" "r < blocksize" "0 \<le> q"
    using assms by (simp_all add: q_def r_def pos_imp_zdiv_nonneg_iff)
  have "q * 1 \<le> q * blocksize" using sz(4) assms(3) by (intro mult_left_mono) auto
  then have "q \<le> sz" using sz(1,2) by linarith
  then have q: "q + 1 < 2 ^ 64" using assms(2) by simp
  have "sz sdiv blocksize = q" "sz smod blocksize = r"
    using assms by (simp_all add: signed_divide_int_def signed_modulo_int_def q_def r_def
      minus_div_mult_eq_mod sgn_if)
  then have "int (size_blocks sz blocksize) = (if r = 0 then q else q + 1)"
    using sz(4) q by (auto simp: size_blocks_def)
  then show ?thesis using sz assms by (auto simp: algebra_simps)
qed

theorem size_blocks_rounds_up_witness: "size_blocks 2000 512 = 4 \<and> 2000 \<le> int (size_blocks 2000 512) * 512"
proof -
  have "size_blocks 2000 512 = 4" by code_simp
  then show ?thesis using size_blocks_rounds_up [of 2000 512] by simp
qed

text \<open>\<open>-delete\<close> needs no \<open>stat\<close> information: whether the file has been looked at before makes no
  difference to what is removed or to the result, as \<open>unlinkat\<close> without \<open>AT_REMOVEDIR\<close> fails with
  \<open>EISDIR\<close> on a directory and is repeated with the flag.\<close>

theorem delete_independent_of_stat:
  assumes "good e s" and "good e s'" and "obs e s = obs e s'"
  shows "fst (pred_delete e s) = fst (pred_delete e s') \<and>
    actions (snd (pred_delete e s)) = actions (snd (pred_delete e s'))"
  using delete_same [OF assms] obs_actions unfolding same_def by blast

theorem delete_independent_of_stat_witness:
  "actions (snd (pred_delete ex_env ex_state)) = [Unlink ''x'' False] \<and>
   fst (pred_delete ex_env ex_state) = fst (pred_delete ex_env (snd (get_info ex_env ex_size ex_state)))"
proof -
  have i: "status ex_state = Running" by (simp add: ex_state_def)
  note i = get_info_result [OF ex_good i, of ex_size]
  have "actions (snd (pred_delete ex_env ex_state)) = [Unlink ''x'' False]" by code_simp
  then show ?thesis
    using delete_independent_of_stat [OF ex_good, of "snd (get_info ex_env ex_size ex_state)"] i by simp
qed

end
