(* ===== verification/FindSharefile.thy ===== *)
theory FindSharefile
  imports Prelude
begin

unbundle bit_operations_syntax

text \<open>
  Files opened for output (\<open>find/sharefile.c\<close>). Two names may stand for one file, so that the files are
  told apart by device and inode, and every file has one stream, however often it is opened.
\<close>

subsection \<open>The table\<close>

text \<open>
  An entry of the table; the stream is a number. The hash table of gnulib is the list of its entries; memory
  is always there. \<open>streams\<close> are the streams that \<open>fopen\<close> has opened and nobody has closed, each with the
  device and inode of its file, and \<open>next_stream\<close> is the one that \<open>fopen\<close> makes next. The streams 0 and 1
  are the standard output and the standard error.
\<close>

type_synonym file_id = "nat \<times> nat"

record sharefile_entry =
  ent_device :: nat
  ent_inode :: nat
  ent_name :: string
  ent_fp :: nat

record shared_files =
  open_mode :: string
  file_table :: "sharefile_entry list"
  streams :: "(nat \<times> file_id) list"
  next_stream :: nat

text \<open>The system: the file that a name opens, and which calls fail.\<close>

record file_opener =
  fopen_safer :: "string \<Rightarrow> string \<Rightarrow> file_id option"
  fstat_fails :: "string \<Rightarrow> bool"
  fclose_fails :: "nat \<Rightarrow> bool"

definition entry_comparator :: "sharefile_entry \<Rightarrow> sharefile_entry \<Rightarrow> bool" where
  "entry_comparator a b \<longleftrightarrow> ent_inode a = ent_inode b \<and> ent_device a = ent_device b"

definition entry_hashfunc :: "sharefile_entry \<Rightarrow> nat \<Rightarrow> nat" where
  "entry_hashfunc p buckets = (ent_device p XOR ent_inode p) mod buckets"

text \<open>Closing a file may fail, which ends the program with a message that names the file.\<close>

definition entry_free :: "file_opener \<Rightarrow> sharefile_entry \<Rightarrow> shared_files \<Rightarrow> (string, shared_files) outcome" where
  "entry_free S p h =
     (if fclose_fails S (ent_fp p) then Exit (ent_name p)
      else Ok (h\<lparr>streams := filter (\<lambda>(k, f). k \<noteq> ent_fp p) (streams h)\<rparr>))"

subsection \<open>Opening and closing\<close>

definition sharefile_init :: "string \<Rightarrow> shared_files" where
  "sharefile_init mode = \<lparr>open_mode = mode, file_table = [], streams = [], next_stream = 2\<rparr>"

definition sharefile_destroy :: "file_opener \<Rightarrow> shared_files \<Rightarrow> (string, shared_files) outcome" where
  "sharefile_destroy S h =
     obind (ofold (entry_free S) (file_table h) h) (\<lambda>h. Ok (h\<lparr>file_table := []\<rparr>))"

text \<open>The stream, or None for NULL.\<close>

definition sharefile_fopen :: "file_opener \<Rightarrow> string \<Rightarrow> shared_files \<Rightarrow>
    (string, nat option \<times> shared_files) outcome" where
  "sharefile_fopen S filename h =
     (case fopen_safer S filename (open_mode h) of
        None \<Rightarrow> Ok (None, h)
      | Some (dev, ino) \<Rightarrow>
          (let new_entry = \<lparr>ent_device = dev, ent_inode = ino, ent_name = filename, ent_fp = next_stream h\<rparr>;
               h = h\<lparr>streams := (next_stream h, dev, ino) # streams h, next_stream := Suc (next_stream h)\<rparr>
           in if fstat_fails S filename then obind (entry_free S new_entry h) (\<lambda>h. Ok (None, h))
              else
                (case find (\<lambda>e. entry_comparator e new_entry) (file_table h) of
                   Some existing \<Rightarrow> obind (entry_free S new_entry h) (\<lambda>h. Ok (Some (ent_fp existing), h))
                 | None \<Rightarrow> Ok (Some (ent_fp new_entry), h\<lparr>file_table := new_entry # file_table h\<rparr>))))"

text \<open>The hash function agrees with the comparison, as a hash table asks for.\<close>

lemma equal_entries_hash: "entry_comparator a b \<Longrightarrow> entry_hashfunc a n = entry_hashfunc b n"
  by (simp add: entry_comparator_def entry_hashfunc_def)

subsection \<open>What the table keeps\<close>

definition entry_id :: "sharefile_entry \<Rightarrow> file_id" where
  "entry_id e = (ent_device e, ent_inode e)"

text \<open>One entry for a file and one entry for an open stream.\<close>

definition shares :: "shared_files \<Rightarrow> bool" where
  "shares h \<longleftrightarrow> distinct (map entry_id (file_table h)) \<and> distinct (map ent_fp (file_table h)) \<and>
     streams h = map (\<lambda>e. (ent_fp e, entry_id e)) (file_table h) \<and> (\<forall>e\<in>set (file_table h). ent_fp e < next_stream h)"

lemma shares_init: "shares (sharefile_init mode)"
  by (simp add: shares_def sharefile_init_def)

lemma comparator_id: "entry_comparator a b \<longleftrightarrow> entry_id a = entry_id b"
  by (auto simp: entry_comparator_def entry_id_def)

lemma filter_fresh:
  "\<forall>e\<in>set es. ent_fp e < n \<Longrightarrow>
    filter (\<lambda>(k, f). k \<noteq> n) (map (\<lambda>e. (ent_fp e, entry_id e)) es) = map (\<lambda>e. (ent_fp e, entry_id e)) es"
  by (induction es) auto

text \<open>What opening does when the table is in order.\<close>

lemma sharefile_fopen_cases:
  assumes "shares h" and "sharefile_fopen S name h = Ok (r, h')"
  obtains "r = None" and "file_table h' = file_table h" and "shares h'" and "open_mode h' = open_mode h"
  | e where "fopen_safer S name (open_mode h) = Some (entry_id e)" and "e \<in> set (file_table h)"
      and "r = Some (ent_fp e)" and "file_table h' = file_table h" and "shares h'" and "open_mode h' = open_mode h"
  | e where "fopen_safer S name (open_mode h) = Some (entry_id e)" and "entry_id e \<notin> entry_id ` set (file_table h)"
      and "r = Some (ent_fp e)" and "file_table h' = e # file_table h" and "shares h'" and "open_mode h' = open_mode h"
proof (cases "fopen_safer S name (open_mode h)")
  case None
  then show thesis using assms by (intro that(1)) (auto simp: sharefile_fopen_def)
next
  case (Some f)
  define e where "e = \<lparr>ent_device = fst f, ent_inode = snd f, ent_name = name, ent_fp = next_stream h\<rparr>"
  define h1 where "h1 = h\<lparr>streams := (next_stream h, f) # streams h, next_stream := Suc (next_stream h)\<rparr>"
  have fp: "ent_fp e = next_stream h" by (simp add: e_def)
  have id: "entry_id e = f" by (simp add: e_def entry_id_def)
  have freed: "shares h2" "file_table h2 = file_table h" "open_mode h2 = open_mode h" if "entry_free S e h1 = Ok h2" for h2
    using that assms(1) filter_fresh [of "file_table h" "next_stream h"]
    by (auto simp: entry_free_def shares_def h1_def e_def less_Suc_eq split: if_splits)
  have opened: "sharefile_fopen S name h =
      (if fstat_fails S name then obind (entry_free S e h1) (\<lambda>h. Ok (None, h))
       else (case find (\<lambda>x. entry_comparator x e) (file_table h) of
               Some x \<Rightarrow> obind (entry_free S e h1) (\<lambda>h. Ok (Some (ent_fp x), h))
             | None \<Rightarrow> Ok (Some (ent_fp e), h1\<lparr>file_table := e # file_table h\<rparr>)))"
    using Some by (cases f) (auto simp: sharefile_fopen_def e_def h1_def Let_def split: option.split)
  show thesis
  proof (cases "fstat_fails S name")
    case True
    then have "obind (entry_free S e h1) (\<lambda>h. Ok (None, h)) = Ok (r, h')" using opened assms(2) by simp
    then obtain h2 where h2: "entry_free S e h1 = Ok h2" "r = None" "h' = h2" by (auto simp: obind_eq_Ok)
    show thesis using freed [OF h2(1)] h2(3) by (intro that(1) [OF h2(2)]) simp_all
  next
    case stat: False
    show thesis
    proof (cases "find (\<lambda>x. entry_comparator x e) (file_table h)")
      case None
      then have new: "f \<notin> entry_id ` set (file_table h)" by (auto simp: find_None_iff comparator_id id)
      have "r = Some (ent_fp e)" "h' = h1\<lparr>file_table := e # file_table h\<rparr>" using opened assms(2) stat None by auto
      moreover have "shares (h1\<lparr>file_table := e # file_table h\<rparr>)"
        using assms(1) new id fp by (auto simp: shares_def h1_def less_Suc_eq)
      ultimately show thesis using Some id new by (intro that(3) [of e]) (simp_all add: h1_def)
    next
      case found: (Some x)
      have x: "x \<in> set (file_table h)" "entry_id x = f"
        using found by (auto simp: find_Some_iff comparator_id id)
      have "obind (entry_free S e h1) (\<lambda>h. Ok (Some (ent_fp x), h)) = Ok (r, h')"
        using opened assms(2) stat found by simp
      then obtain h2 where h2: "entry_free S e h1 = Ok h2" "r = Some (ent_fp x)" "h' = h2"
        by (auto simp: obind_eq_Ok)
      show thesis
        using Some x(2) freed [OF h2(1)] h2(3) by (intro that(2) [OF _ x(1) h2(2)]) simp_all
    qed
  qed
qed


subsection \<open>Opening a list of files\<close>

fun open_files :: "file_opener \<Rightarrow> string list \<Rightarrow> shared_files \<Rightarrow> (string, nat option list \<times> shared_files) outcome" where
  "open_files S [] h = Ok ([], h)"
| "open_files S (name # names) h =
     obind (sharefile_fopen S name h) (\<lambda>(r, h).
       obind (open_files S names h) (\<lambda>(rs, h). Ok (r # rs, h)))"

text \<open>The stream that the table has for a file.\<close>

definition stream_of :: "shared_files \<Rightarrow> file_id \<Rightarrow> nat option" where
  "stream_of h f = map_option ent_fp (find (\<lambda>e. entry_id e = f) (file_table h))"

lemma stream_of_entry: "shares h \<Longrightarrow> e \<in> set (file_table h) \<Longrightarrow> stream_of h (entry_id e) = Some (ent_fp e)"
proof -
  have "distinct (map entry_id es) \<Longrightarrow> e \<in> set es \<Longrightarrow> find (\<lambda>x. entry_id x = entry_id e) es = Some e" for es
    by (induction es) (auto simp: image_iff)
  then show "shares h \<Longrightarrow> e \<in> set (file_table h) \<Longrightarrow> stream_of h (entry_id e) = Some (ent_fp e)"
    by (simp add: stream_of_def shares_def)
qed

lemma stream_of_inj:
  assumes "shares h" and "stream_of h f = Some k" and "stream_of h g = Some k"
  shows "f = g"
proof -
  have "\<exists>e\<in>set (file_table h). entry_id e = f \<and> ent_fp e = k" if "stream_of h f = Some k" for f
    using that by (auto simp: stream_of_def find_Some_iff)
  then obtain a b where "a \<in> set (file_table h)" "entry_id a = f" "ent_fp a = k"
      "b \<in> set (file_table h)" "entry_id b = g" "ent_fp b = k"
    using assms(2,3) by blast
  then show ?thesis using assms(1) by (auto simp: shares_def distinct_map inj_on_def)
qed

definition can_open :: "file_opener \<Rightarrow> string \<Rightarrow> string \<Rightarrow> bool" where
  "can_open S mode name \<longleftrightarrow> fopen_safer S name mode \<noteq> None \<and> \<not> fstat_fails S name"

lemma sharefile_fopen_works:
  assumes "shares h" and "can_open S (open_mode h) name" and "\<forall>k. \<not> fclose_fails S k"
  obtains k f h' where "sharefile_fopen S name h = Ok (Some k, h')" and "shares h'" and "open_mode h' = open_mode h"
    and "fopen_safer S name (open_mode h) = Some f" and "stream_of h' f = Some k"
    and "\<And>g. stream_of h g \<noteq> None \<Longrightarrow> stream_of h' g = stream_of h g"
    and "set (map ent_fp (file_table h')) = insert k (set (map ent_fp (file_table h)))"
proof -
  obtain f where f: "fopen_safer S name (open_mode h) = Some f" using assms(2) by (auto simp: can_open_def)
  have "\<exists>r h'. sharefile_fopen S name h = Ok (r, h') \<and> r \<noteq> None"
    using assms(2,3) f by (cases f) (simp add: sharefile_fopen_def can_open_def Let_def entry_free_def split: option.split)
  then obtain r h' where opened: "sharefile_fopen S name h = Ok (r, h')" and some: "r \<noteq> None" by blast
  from assms(1) opened show thesis
  proof (cases rule: sharefile_fopen_cases)
    case 1
    then show thesis using some by simp
  next
    case (2 e)
    moreover have "stream_of h' g = stream_of h g" for g using 2 by (simp add: stream_of_def)
    ultimately show thesis using opened f stream_of_entry [of h' e] by (intro that [of "ent_fp e" h' f]) auto
  next
    case (3 e)
    moreover have "stream_of h' g = stream_of h g" if "stream_of h g \<noteq> None" for g
      using 3 that by (auto simp: stream_of_def find_Some_iff)
    ultimately show thesis using opened f stream_of_entry [of h' e] by (intro that [of "ent_fp e" h' f]) auto
  qed
qed

lemma open_files_works:
  assumes "shares h" and "\<forall>name\<in>set names. can_open S (open_mode h) name" and "\<forall>k. \<not> fclose_fails S k"
  shows "\<exists>ks h'. open_files S names h = Ok (map Some ks, h') \<and> shares h' \<and>
    map Some ks = map (\<lambda>name. stream_of h' (the (fopen_safer S name (open_mode h)))) names \<and>
    (\<forall>g. stream_of h g \<noteq> None \<longrightarrow> stream_of h' g = stream_of h g) \<and>
    set (map ent_fp (file_table h')) = set ks \<union> set (map ent_fp (file_table h))"
  using assms(1,2)
proof (induction names arbitrary: h)
  case (Cons name names)
  obtain k f h1 where one: "sharefile_fopen S name h = Ok (Some k, h1)" "shares h1" "open_mode h1 = open_mode h"
      "fopen_safer S name (open_mode h) = Some f" "stream_of h1 f = Some k"
      "\<And>g. stream_of h g \<noteq> None \<Longrightarrow> stream_of h1 g = stream_of h g"
      "set (map ent_fp (file_table h1)) = insert k (set (map ent_fp (file_table h)))"
    using sharefile_fopen_works [of h S name] Cons.prems assms(3) by (metis list.set_intros(1))
  obtain ks h2 where rest: "open_files S names h1 = Ok (map Some ks, h2)" "shares h2"
      "map Some ks = map (\<lambda>name. stream_of h2 (the (fopen_safer S name (open_mode h)))) names"
      "\<And>g. stream_of h1 g \<noteq> None \<Longrightarrow> stream_of h2 g = stream_of h1 g"
      "set (map ent_fp (file_table h2)) = set ks \<union> set (map ent_fp (file_table h1))"
    using Cons.IH [of h1] Cons.prems one(2,3) by auto
  have "stream_of h2 f = Some k" using rest(4) [of f] one(5) by simp
  moreover have "stream_of h2 g = stream_of h g" if "stream_of h g \<noteq> None" for g
    using one(6) [OF that] rest(4) [of g] that by simp
  ultimately show ?case using one rest
    by (intro exI [of _ "k # ks"] exI [of _ h2]) auto
qed auto

lemma destroy_closes_all:
  assumes "shares h" and "\<forall>k. \<not> fclose_fails S k"
  shows "\<exists>h'. sharefile_destroy S h = Ok h' \<and> streams h' = [] \<and> file_table h' = []"
proof -
  have closes: "ofold (entry_free S) es h = Ok (h\<lparr>streams := filter (\<lambda>(k, f). k \<notin> ent_fp ` set es) (streams h)\<rparr>)" for es h
  proof (induction es arbitrary: h)
    case (Cons e es)
    have "filter (\<lambda>(k, f). k \<notin> ent_fp ` set es) (filter (\<lambda>(k, f). k \<noteq> ent_fp e) (streams h)) =
        filter (\<lambda>(k, f). k \<notin> ent_fp ` set (e # es)) (streams h)"
      by (auto intro: filter_cong simp: filter_filter)
    with Cons.IH assms(2) show ?case by (simp add: entry_free_def)
  qed simp
  have "filter (\<lambda>(k, f). k \<notin> ent_fp ` set (file_table h)) (streams h) = []"
    using assms(1) by (auto simp: shares_def filter_empty_conv)
  with closes [of "file_table h" h] show ?thesis by (simp add: sharefile_destroy_def)
qed

text \<open>C25: Whatever names output goes to, every file has one stream: when the files can be opened, two names get
  the same stream exactly when they stand for the same file, nothing else stays open, and all streams
  are closed in the end.\<close>

theorem one_stream_per_file:
  assumes "\<forall>name\<in>set names. can_open S ''w'' name" and "\<forall>k. \<not> fclose_fails S k"
  shows "\<exists>ks h h'. open_files S names (sharefile_init ''w'') = Ok (map Some ks, h) \<and>
    length ks = length names \<and>
    (\<forall>i j. i < length names \<longrightarrow> j < length names \<longrightarrow>
      ks ! i = ks ! j \<longleftrightarrow> fopen_safer S (names ! i) ''w'' = fopen_safer S (names ! j) ''w'') \<and>
    distinct (map fst (streams h)) \<and> set (map fst (streams h)) = set ks \<and>
    sharefile_destroy S h = Ok h' \<and> streams h' = []"
proof -
  let ?file = "\<lambda>i. the (fopen_safer S (names ! i) ''w'')"
  obtain ks h where ks: "open_files S names (sharefile_init ''w'') = Ok (map Some ks, h)" and h: "shares h"
      and at: "map Some ks = map (\<lambda>name. stream_of h (the (fopen_safer S name ''w''))) names"
      and fps: "set (map ent_fp (file_table h)) = set ks"
    using open_files_works [OF shares_init, of names S "''w''"] assms by (auto simp: sharefile_init_def)
  have len: "length ks = length names" using arg_cong [OF at, of length] by simp
  have at: "stream_of h (?file i) = Some (ks ! i)" if "i < length names" for i
    using arg_cong [OF at, of "\<lambda>l. l ! i"] that len by simp
  have same: "ks ! i = ks ! j \<longleftrightarrow> fopen_safer S (names ! i) ''w'' = fopen_safer S (names ! j) ''w''"
    if ij: "i < length names" "j < length names" for i j
  proof -
    have "fopen_safer S (names ! i) ''w'' = Some (?file i)" "fopen_safer S (names ! j) ''w'' = Some (?file j)"
      using assms(1) ij nth_mem by (force simp: can_open_def)+
    then show ?thesis using stream_of_inj [OF h, of "?file i" "ks ! i" "?file j"] at [OF ij(1)] at [OF ij(2)] by auto
  qed
  obtain h' where "sharefile_destroy S h = Ok h'" "streams h' = []" using destroy_closes_all [OF h assms(2)] by auto
  moreover have "map fst (streams h) = map ent_fp (file_table h)" using h by (simp add: shares_def)
  moreover have "distinct (map ent_fp (file_table h))" using h by (simp add: shares_def)
  ultimately show ?thesis using ks len same fps
    by (intro exI [of _ ks] exI [of _ h] exI [of _ h']) simp
qed

text \<open>Two names of one file and a third name of another.\<close>

definition linked_files :: file_opener where
  "linked_files = \<lparr>fopen_safer = (\<lambda>name mode. Some (1, if name = ''b'' then 8 else 7)), fstat_fails = (\<lambda>name. False),
     fclose_fails = (\<lambda>k. False)\<rparr>"

theorem one_stream_per_file_witness:
  "\<exists>ks h. open_files linked_files [''a'', ''b'', ''link''] (sharefile_init ''w'') = Ok (map Some ks, h) \<and>
    length ks = 3 \<and> ks ! 0 = ks ! 2 \<and> ks ! 0 \<noteq> ks ! 1"
proof -
  have "\<forall>name\<in>set [''a'', ''b'', ''link'']. can_open linked_files ''w'' name"
      "\<forall>k. \<not> fclose_fails linked_files k"
    by (simp_all add: can_open_def linked_files_def)
  from one_stream_per_file [OF this] obtain ks h where
      ks: "open_files linked_files [''a'', ''b'', ''link''] (sharefile_init ''w'') = Ok (map Some ks, h)" "length ks = 3"
      and same: "\<And>i j. i < 3 \<Longrightarrow> j < 3 \<Longrightarrow> ks ! i = ks ! j \<longleftrightarrow>
        fopen_safer linked_files ([''a'', ''b'', ''link''] ! i) ''w'' = fopen_safer linked_files ([''a'', ''b'', ''link''] ! j) ''w''"
    by auto
  have "ks ! 0 = ks ! 2" "ks ! 0 \<noteq> ks ! 1" by (subst same; simp add: linked_files_def)+
  with ks show ?thesis by blast
qed

end
