(* ===== verification/CString.thy ===== *)
theory CString
  imports Prelude
begin

text \<open>
  Strings in memory as C has them: characters up to a null character, in buffers of a fixed length.
\<close>

abbreviation (input) NUL :: char where "NUL \<equiv> CHR 0x00"

definition string_at :: "char list \<Rightarrow> nat \<Rightarrow> string" where
  "string_at buf off = takeWhile (\<lambda>c. c \<noteq> NUL) (drop off buf)"

text \<open>What \<open>strcpy\<close> copies of the bytes that its argument points to.\<close>

definition c_string :: "char list \<Rightarrow> string" where
  "c_string s = takeWhile (\<lambda>c. c \<noteq> NUL) s"

text \<open>\<open>strcpy (buf + off, s)\<close>; a write outside the buffer is undefined.\<close>

definition strcpy :: "nat \<Rightarrow> string \<Rightarrow> char list \<Rightarrow> char list option" where
  "strcpy off s buf =
     (if off + length (c_string s) < length buf
      then Some (take off buf @ c_string s @ [NUL] @ drop (off + length (c_string s) + 1) buf)
      else None)"

text \<open>\<open>strstr\<close>: the offset of the first occurrence. \<open>mbsstr\<close> is the same in a single-byte locale.\<close>

fun find_string :: "string \<Rightarrow> string \<Rightarrow> nat option" where
  "find_string pat s =
     (if take (length pat) s = pat then Some 0
      else case s of [] \<Rightarrow> None | c # cs \<Rightarrow> map_option Suc (find_string pat cs))"

declare find_string.simps [simp del]

lemma c_string_no_nul [simp]: "NUL \<notin> set (c_string s)"
  by (auto simp: c_string_def dest: set_takeWhileD)

lemma c_string_id: "NUL \<notin> set s \<Longrightarrow> c_string s = s"
  by (auto simp: c_string_def takeWhile_eq_all_conv)

lemma c_string_idem [simp]: "c_string (c_string s) = c_string s"
  by (simp add: c_string_id)

lemma length_c_string: "length (c_string s) \<le> length s"
  by (simp add: c_string_def length_takeWhile_le)

lemma takeWhile_nul_append: "NUL \<notin> set s \<Longrightarrow> takeWhile (\<lambda>c. c \<noteq> NUL) (s @ NUL # r) = s"
  by (induction s) auto

lemma strcpy_length: "strcpy off s buf = Some buf' \<Longrightarrow> length buf' = length buf"
  by (auto simp: strcpy_def split: if_splits)

lemma strcpy_at: "strcpy off s buf = Some buf' \<Longrightarrow> string_at buf' off = c_string s"
  by (auto simp: strcpy_def string_at_def takeWhile_nul_append split: if_splits)

text \<open>A string that ends before the place written to is not touched.\<close>

definition string_ends :: "char list \<Rightarrow> nat \<Rightarrow> nat \<Rightarrow> bool" where
  "string_ends buf off n \<longleftrightarrow> off + length (string_at buf off) < n \<and> n \<le> length buf"

lemma string_ends_nul: "string_ends buf off n \<Longrightarrow>
   drop off (take n buf) = string_at buf off @ NUL # drop (off + length (string_at buf off) + 1) (take n buf)"
proof -
  assume e: "string_ends buf off n"
  let ?k = "length (string_at buf off)"
  have k: "off + ?k < n" "n \<le> length buf" using e by (simp_all add: string_ends_def)
  have t: "take ?k (drop off buf) = string_at buf off"
    unfolding string_at_def by (metis takeWhile_eq_take)
  have "?k < length (drop off buf)" using k by simp
  then have n: "drop off buf ! ?k = NUL"
    unfolding string_at_def using nth_length_takeWhile by blast
  have "drop off (take n buf) = take (n - off) (drop off buf)" by (simp add: drop_take)
  also have "\<dots> = take ?k (drop off buf) @ drop off buf ! ?k # drop (Suc ?k) (take (n - off) (drop off buf))"
    using k by (subst id_take_nth_drop [of ?k]) (auto simp: min_def)
  also have "drop (Suc ?k) (take (n - off) (drop off buf)) = drop (off + ?k + 1) (take n buf)"
    by (simp add: drop_take add.commute)
  finally show ?thesis using t n by simp
qed

lemma string_at_cong:
  assumes e: "string_ends buf off n" and t: "take n buf' = take n buf"
  shows "string_at buf' off = string_at buf off"
proof -
  have "drop off buf' = drop off (take n buf' @ drop n buf')" by simp
  also have "\<dots> = drop off (take n buf') @ drop (off - length (take n buf')) (drop n buf')"
    by (rule drop_append)
  also have "\<dots> = string_at buf off @ NUL # drop (off + length (string_at buf off) + 1) (take n buf) @
      drop (off - length (take n buf')) (drop n buf')"
    using string_ends_nul [OF e] t by simp
  moreover have "NUL \<notin> set (string_at buf off)"
    by (auto simp: string_at_def dest: set_takeWhileD)
  ultimately show ?thesis by (simp add: string_at_def [of buf' off] takeWhile_nul_append)
qed

lemma strcpy_below: "strcpy off s buf = Some buf' \<Longrightarrow> n \<le> off \<Longrightarrow> take n buf' = take n buf"
  by (auto simp: strcpy_def min_def split: if_splits)

lemma strcpy_ends: "strcpy off s buf = Some buf' \<Longrightarrow> off + length (c_string s) < n \<Longrightarrow> n \<le> length buf \<Longrightarrow>
   string_ends buf' off n"
  by (simp add: string_ends_def strcpy_at strcpy_length)

lemma strcpy_keeps:
  assumes "strcpy m s buf = Some buf'" and "n \<le> m" and "string_ends buf off n"
  shows "string_at buf' off = string_at buf off" "string_ends buf' off n"
proof -
  show "string_at buf' off = string_at buf off"
    by (rule string_at_cong [OF assms(3) strcpy_below [OF assms(1,2)]])
  then show "string_ends buf' off n" using assms(3) strcpy_length [OF assms(1)] by (simp add: string_ends_def)
qed

lemma string_ends_mono: "string_ends buf off n \<Longrightarrow> n \<le> m \<Longrightarrow> m \<le> length buf \<Longrightarrow> string_ends buf off m"
  by (simp add: string_ends_def)

lemma find_string_Some:
  "find_string pat s = Some n \<Longrightarrow> take (length pat) (drop n s) = pat \<and> n + length pat \<le> length s"
proof (induction s arbitrary: n)
  case Nil
  then show ?case by (subst (asm) find_string.simps) (simp split: if_splits)
next
  case (Cons c cs)
  show ?case
  proof (cases "take (length pat) (c # cs) = pat")
    case True
    then have "n = 0" using Cons.prems by (subst (asm) find_string.simps) simp
    moreover have "length pat \<le> length (c # cs)" using arg_cong [OF True, of length] by auto
    ultimately show ?thesis using True by simp
  next
    case False
    then obtain m where m: "find_string pat cs = Some m" "n = Suc m"
      using Cons.prems by (subst (asm) find_string.simps) auto
    then show ?thesis using Cons.IH [OF m(1)] by simp
  qed
qed

lemma find_string_Nil [simp]: "find_string [] s = Some 0"
  by (subst find_string.simps) simp

end
