(* ===== verification/CNumber.thy ===== *)
theory CNumber
  imports CString "HOL-Library.Char_ord"
begin

text \<open>
  Numbers in strings: the C library's \<open>strtol\<close> and \<open>strtoul\<close> in the C locale, from the C standard.
\<close>

definition is_space :: "char \<Rightarrow> bool" where
  "is_space c \<longleftrightarrow> c = CHR '' '' \<or> c = CHR 0x09 \<or> c = CHR 0x0A \<or> c = CHR 0x0B \<or> c = CHR 0x0C \<or> c = CHR 0x0D"

definition digit_value :: "char \<Rightarrow> nat option" where
  "digit_value c =
     (let n = (of_char c :: nat) in
      if 48 \<le> n \<and> n \<le> 57 then Some (n - 48)
      else if 97 \<le> n \<and> n \<le> 122 then Some (n - 97 + 10)
      else if 65 \<le> n \<and> n \<le> 90 then Some (n - 65 + 10) else None)"

definition is_digit_in :: "nat \<Rightarrow> char \<Rightarrow> bool" where
  "is_digit_in base c \<longleftrightarrow> (case digit_value c of Some d \<Rightarrow> d < base | None \<Rightarrow> False)"

definition number_value :: "nat \<Rightarrow> string \<Rightarrow> nat" where
  "number_value base ds = foldl (\<lambda>n c. n * base + the (digit_value c)) 0 ds"

text \<open>
  What \<open>strtol\<close> and \<open>strtoul\<close> find: the sign, the value of the digits, and what follows; the whole
  string when there is no digit.
\<close>

definition c_number :: "nat \<Rightarrow> string \<Rightarrow> bool \<times> nat \<times> string" where
  "c_number base s =
     (let t = dropWhile is_space s;
          neg = (t \<noteq> [] \<and> hd t = CHR ''-'');
          t = (if t \<noteq> [] \<and> (hd t = CHR ''-'' \<or> hd t = CHR ''+'') then tl t else t);
          t = (if base = 16 \<and> length t \<ge> 3 \<and> take 1 t = ''0'' \<and> (t ! 1 = CHR ''x'' \<or> t ! 1 = CHR ''X'') \<and>
                  is_digit_in 16 (t ! 2)
               then drop 2 t else t);
          ds = takeWhile (is_digit_in base) t
      in if ds = [] then (False, 0, s) else (neg, number_value base ds, drop (length ds) t))"

definition strtoul :: "nat \<Rightarrow> string \<Rightarrow> nat \<times> string" where
  "strtoul base s =
     (let (neg, n, rest) = c_number base s in
      (if n \<ge> 2 ^ 64 then 2 ^ 64 - 1 else if neg \<and> n \<noteq> 0 then 2 ^ 64 - n else n, rest))"

definition strtol :: "nat \<Rightarrow> string \<Rightarrow> int \<times> string" where
  "strtol base s =
     (let (neg, n, rest) = c_number base s; v = (if neg then - int n else int n) in
      (if v < - (2 ^ 63) then - (2 ^ 63) else if v > 2 ^ 63 - 1 then 2 ^ 63 - 1 else v, rest))"

end
