(* ===== verification/LibUtil.thy ===== *)
theory LibUtil
  imports CNumber
begin

unbundle bit_operations_syntax

text \<open>
  Small functions of \<open>lib/\<close> that the programs share: the elements of a path (\<open>nextelem.c\<close>), buffers
  that grow (\<open>extendbuf.c\<close>), numbers in arguments (\<open>safe-atoi.c\<close>), the types of regular expressions
  (\<open>regextype.c\<close>), names for a terminal (\<open>qmark.c\<close>) and for \<open>-ls\<close> (\<open>listfile.c\<close>).
\<close>

subsection \<open>The elements of a path\<close>

text \<open>
  The static variables of \<open>next_element\<close>: what is left of the path, and whether the element before
  ended in a colon. The result is None for NULL.
\<close>

record path_state =
  path_end :: string
  final_colon :: bool

definition init_path :: "string \<Rightarrow> path_state" where
  "init_path new_path = \<lparr>path_end = c_string new_path, final_colon = False\<rparr>"

definition next_element :: "bool \<Rightarrow> path_state \<Rightarrow> string option \<times> path_state" where
  "next_element curdir_ok st =
     (let cur = (if curdir_ok then ''.'' else []); s = path_end st in
      if s = [] then
        (if final_colon st then (Some cur, st\<lparr>final_colon := False\<rparr>) else (None, st))
      else
        (let elem = takeWhile (\<lambda>x. x \<noteq> CHR '':'') s; rest = drop (length elem) s in
         if elem = [] then (Some cur, st\<lparr>path_end := tl rest, final_colon := True\<rparr>)
         else if rest = [] then (Some elem, st\<lparr>path_end := [], final_colon := False\<rparr>)
         else (Some elem, st\<lparr>path_end := tl rest, final_colon := True\<rparr>)))"

text \<open>All calls up to the one that returns NULL.\<close>

definition elements_left :: "path_state \<Rightarrow> nat" where
  "elements_left st = 2 * length (path_end st) + (if final_colon st then 1 else 0)"

lemma next_element_less: "next_element curdir_ok st = (Some e, st') \<Longrightarrow> elements_left st' < elements_left st"
  by (cases "path_end st")
    (auto simp: next_element_def elements_left_def Let_def split: if_splits)

function path_elements :: "bool \<Rightarrow> path_state \<Rightarrow> string list" where
  "path_elements curdir_ok st =
     (case next_element curdir_ok st of
        (None, st) \<Rightarrow> []
      | (Some e, st) \<Rightarrow> e # path_elements curdir_ok st)"
  by pat_completeness auto

termination path_elements
  by (relation "measure (\<lambda>(curdir_ok, st). elements_left st)") (metis in_measure case_prod_conv next_element_less wf_measure)+

declare path_elements.simps [simp del]

subsection \<open>Growing buffers\<close>

text \<open>
  \<open>size_t\<close> has 64 bits. The loop of \<open>decide_size\<close> doubles; it does not end on a size of zero. The memory is
  always there.
\<close>

partial_function (option) double_up :: "64 word \<Rightarrow> 64 word \<Rightarrow> 64 word option" where
  "double_up newsize wanted =
     (if newsize < wanted then (if 2 * newsize < newsize then Some wanted else double_up (2 * newsize) wanted)
      else Some newsize)"

abbreviation (input) SIZE_DEFAULT :: "64 word" where "SIZE_DEFAULT \<equiv> 16"

definition decide_size :: "64 word \<Rightarrow> 64 word \<Rightarrow> 64 word option" where
  "decide_size current wanted = double_up (if current = 0 then SIZE_DEFAULT else current) wanted"

text \<open>The buffer and its size; new memory holds \<open>junk\<close>, by position. NULL is None.\<close>

definition extendbuf :: "(nat \<Rightarrow> char) \<Rightarrow> string option \<Rightarrow> 64 word \<Rightarrow> 64 word \<Rightarrow> (unit, string \<times> 64 word) outcome" where
  "extendbuf junk existing wanted allocated =
     (if wanted = 0 then Undef
      else
        (case decide_size allocated wanted of
           None \<Rightarrow> Diverge
         | Some newsize \<Rightarrow>
             (let old = (case existing of None \<Rightarrow> [] | Some b \<Rightarrow> b);
                  new = take (unat newsize) old @ map junk [length old..<unat newsize]
              in if allocated = 0 then (if existing \<noteq> None then Undef else Ok (new, newsize))
                 else if newsize \<noteq> allocated then Ok (new, newsize)
                 else Ok (old, allocated))))"

subsection \<open>Numbers\<close>

datatype (plugins only: code size) atoi_error = Number_range | Number_suffix string | Number_missing

definition safe_atoi :: "string \<Rightarrow> (atoi_error, int) outcome" where
  "safe_atoi s =
     (let (lval, endp) = strtol 10 s in
      if lval = 2 ^ 63 - 1 \<or> lval = - (2 ^ 63) then Exit Number_range
      else if lval > 2147483647 \<or> lval < - 2147483648 then Exit Number_range
      else if endp \<noteq> [] then Exit (Number_suffix endp)
      else if endp = s then Exit Number_missing
      else Ok lval)"

subsection \<open>Types of regular expressions\<close>

text \<open>The bits of \<open>regex.h\<close>.\<close>

abbreviation (input) RE_BACKSLASH_ESCAPE_IN_LISTS :: int where "RE_BACKSLASH_ESCAPE_IN_LISTS \<equiv> 1"
abbreviation (input) RE_BK_PLUS_QM :: int where "RE_BK_PLUS_QM \<equiv> 2"
abbreviation (input) RE_CHAR_CLASSES :: int where "RE_CHAR_CLASSES \<equiv> 4"
abbreviation (input) RE_CONTEXT_INDEP_ANCHORS :: int where "RE_CONTEXT_INDEP_ANCHORS \<equiv> 8"
abbreviation (input) RE_CONTEXT_INDEP_OPS :: int where "RE_CONTEXT_INDEP_OPS \<equiv> 16"
abbreviation (input) RE_CONTEXT_INVALID_OPS :: int where "RE_CONTEXT_INVALID_OPS \<equiv> 32"
abbreviation (input) RE_DOT_NEWLINE :: int where "RE_DOT_NEWLINE \<equiv> 64"
abbreviation (input) RE_DOT_NOT_NULL :: int where "RE_DOT_NOT_NULL \<equiv> 128"
abbreviation (input) RE_HAT_LISTS_NOT_NEWLINE :: int where "RE_HAT_LISTS_NOT_NEWLINE \<equiv> 256"
abbreviation (input) RE_INTERVALS :: int where "RE_INTERVALS \<equiv> 512"
abbreviation (input) RE_LIMITED_OPS :: int where "RE_LIMITED_OPS \<equiv> 1024"
abbreviation (input) RE_NEWLINE_ALT :: int where "RE_NEWLINE_ALT \<equiv> 2048"
abbreviation (input) RE_NO_BK_BRACES :: int where "RE_NO_BK_BRACES \<equiv> 4096"
abbreviation (input) RE_NO_BK_PARENS :: int where "RE_NO_BK_PARENS \<equiv> 8192"
abbreviation (input) RE_NO_BK_REFS :: int where "RE_NO_BK_REFS \<equiv> 16384"
abbreviation (input) RE_NO_BK_VBAR :: int where "RE_NO_BK_VBAR \<equiv> 32768"
abbreviation (input) RE_NO_EMPTY_RANGES :: int where "RE_NO_EMPTY_RANGES \<equiv> 65536"
abbreviation (input) RE_UNMATCHED_RIGHT_PAREN_ORD :: int where "RE_UNMATCHED_RIGHT_PAREN_ORD \<equiv> 131072"
abbreviation (input) RE_NO_POSIX_BACKTRACKING :: int where "RE_NO_POSIX_BACKTRACKING \<equiv> 262144"
abbreviation (input) RE_NO_GNU_OPS :: int where "RE_NO_GNU_OPS \<equiv> 524288"
abbreviation (input) RE_DEBUG :: int where "RE_DEBUG \<equiv> 1048576"
abbreviation (input) RE_INVALID_INTERVAL_ORD :: int where "RE_INVALID_INTERVAL_ORD \<equiv> 2097152"
abbreviation (input) RE_ICASE :: int where "RE_ICASE \<equiv> 4194304"
abbreviation (input) RE_CARET_ANCHORS_HERE :: int where "RE_CARET_ANCHORS_HERE \<equiv> 8388608"
abbreviation (input) RE_CONTEXT_INVALID_DUP :: int where "RE_CONTEXT_INVALID_DUP \<equiv> 16777216"
abbreviation (input) RE_NO_SUB :: int where "RE_NO_SUB \<equiv> 33554432"

text \<open>The combinations.\<close>

definition RE_SYNTAX_EMACS :: int where
  "RE_SYNTAX_EMACS = 0"

definition RE_SYNTAX_AWK :: int where
  "RE_SYNTAX_AWK = RE_BACKSLASH_ESCAPE_IN_LISTS OR RE_DOT_NOT_NULL OR RE_NO_BK_PARENS OR RE_NO_BK_REFS OR RE_NO_BK_VBAR OR RE_NO_EMPTY_RANGES OR RE_DOT_NEWLINE OR RE_CONTEXT_INDEP_ANCHORS OR RE_UNMATCHED_RIGHT_PAREN_ORD OR RE_NO_GNU_OPS"

definition RE_SYNTAX_POSIX_COMMON :: int where
  "RE_SYNTAX_POSIX_COMMON = RE_CHAR_CLASSES OR RE_DOT_NEWLINE OR RE_DOT_NOT_NULL OR RE_INTERVALS OR RE_NO_EMPTY_RANGES"

definition RE_SYNTAX_POSIX_EXTENDED :: int where
  "RE_SYNTAX_POSIX_EXTENDED = RE_SYNTAX_POSIX_COMMON OR RE_CONTEXT_INDEP_ANCHORS OR RE_CONTEXT_INDEP_OPS OR RE_NO_BK_BRACES OR RE_NO_BK_PARENS OR RE_NO_BK_VBAR OR RE_CONTEXT_INVALID_OPS OR RE_UNMATCHED_RIGHT_PAREN_ORD"

definition RE_SYNTAX_GNU_AWK :: int where
  "RE_SYNTAX_GNU_AWK = (RE_SYNTAX_POSIX_EXTENDED OR RE_BACKSLASH_ESCAPE_IN_LISTS OR RE_DEBUG) AND
     NOT (RE_DOT_NOT_NULL OR RE_INTERVALS OR RE_CONTEXT_INDEP_OPS OR RE_CONTEXT_INVALID_OPS)"

definition RE_SYNTAX_POSIX_AWK :: int where
  "RE_SYNTAX_POSIX_AWK = RE_SYNTAX_POSIX_EXTENDED OR RE_BACKSLASH_ESCAPE_IN_LISTS OR RE_INTERVALS OR RE_NO_GNU_OPS"

definition RE_SYNTAX_GREP :: int where
  "RE_SYNTAX_GREP = RE_BK_PLUS_QM OR RE_CHAR_CLASSES OR RE_HAT_LISTS_NOT_NEWLINE OR RE_INTERVALS OR RE_NEWLINE_ALT"

definition RE_SYNTAX_EGREP :: int where
  "RE_SYNTAX_EGREP = RE_CHAR_CLASSES OR RE_CONTEXT_INDEP_ANCHORS OR RE_CONTEXT_INDEP_OPS OR RE_HAT_LISTS_NOT_NEWLINE OR RE_NEWLINE_ALT OR RE_NO_BK_PARENS OR RE_NO_BK_VBAR"

definition RE_SYNTAX_POSIX_EGREP :: int where
  "RE_SYNTAX_POSIX_EGREP = RE_SYNTAX_EGREP OR RE_INTERVALS OR RE_NO_BK_BRACES OR RE_INVALID_INTERVAL_ORD"

definition RE_SYNTAX_POSIX_BASIC :: int where
  "RE_SYNTAX_POSIX_BASIC = RE_SYNTAX_POSIX_COMMON OR RE_BK_PLUS_QM OR RE_CONTEXT_INVALID_DUP"

definition RE_SYNTAX_POSIX_MINIMAL_BASIC :: int where
  "RE_SYNTAX_POSIX_MINIMAL_BASIC = RE_SYNTAX_POSIX_COMMON OR RE_LIMITED_OPS"

abbreviation (input) CONTEXT_FINDUTILS :: nat where "CONTEXT_FINDUTILS \<equiv> 1"
abbreviation (input) CONTEXT_GENERIC :: nat where "CONTEXT_GENERIC \<equiv> 2"
abbreviation (input) CONTEXT_ALL :: nat where "CONTEXT_ALL \<equiv> 3"

definition regex_map :: "(string \<times> nat \<times> int) list" where
  "regex_map =
     [(''findutils-default'', CONTEXT_FINDUTILS, RE_SYNTAX_EMACS OR RE_DOT_NEWLINE),
      (''awk'', CONTEXT_ALL, RE_SYNTAX_AWK),
      (''egrep'', CONTEXT_ALL, RE_SYNTAX_EGREP),
      (''ed'', CONTEXT_GENERIC, RE_SYNTAX_POSIX_BASIC),
      (''emacs'', CONTEXT_ALL, RE_SYNTAX_EMACS),
      (''gnu-awk'', CONTEXT_ALL, RE_SYNTAX_GNU_AWK),
      (''grep'', CONTEXT_ALL, RE_SYNTAX_GREP),
      (''posix-awk'', CONTEXT_ALL, RE_SYNTAX_POSIX_AWK),
      (''posix-basic'', CONTEXT_ALL, RE_SYNTAX_POSIX_BASIC),
      (''posix-egrep'', CONTEXT_ALL, RE_SYNTAX_POSIX_EGREP),
      (''posix-extended'', CONTEXT_ALL, RE_SYNTAX_POSIX_EXTENDED),
      (''posix-minimal-basic'', CONTEXT_GENERIC, RE_SYNTAX_POSIX_MINIMAL_BASIC),
      (''sed'', CONTEXT_GENERIC, RE_SYNTAX_POSIX_BASIC)]"

text \<open>An unknown name ends the program.\<close>

definition get_regex_type :: "string \<Rightarrow> (string, int) outcome" where
  "get_regex_type s =
     (case find (\<lambda>(name, context, option_val). name = s) regex_map of
        Some (name, context, option_val) \<Rightarrow> Ok option_val
      | None \<Rightarrow> Exit s)"

definition get_regex_type_name :: "nat \<Rightarrow> string option" where
  "get_regex_type_name ix = (if ix < length regex_map then Some (fst (regex_map ! ix)) else None)"

definition get_regex_type_flags :: "nat \<Rightarrow> int" where
  "get_regex_type_flags ix = (if ix < length regex_map then snd (snd (regex_map ! ix)) else - 1)"

definition get_regex_type_context :: "nat \<Rightarrow> nat" where
  "get_regex_type_context ix = (if ix < length regex_map then fst (snd (regex_map ! ix)) else 0)"

definition get_regex_type_synonym :: "nat \<Rightarrow> int" where
  "get_regex_type_synonym ix =
     (if ix \<ge> length regex_map then - 1
      else (case find (\<lambda>i. snd (snd (regex_map ! ix)) = snd (snd (regex_map ! i))) [0..<ix] of
              Some i \<Rightarrow> int i | None \<Rightarrow> - 1))"

subsection \<open>Names on a terminal and in lists\<close>

text \<open>\<open>isprint\<close> in the C locale.\<close>

definition c_isprint :: "char \<Rightarrow> bool" where
  "c_isprint x \<longleftrightarrow> 32 \<le> (of_char x :: nat) \<and> (of_char x :: nat) < 127"

definition unibyte_qmark_chars :: "string \<Rightarrow> string" where
  "unibyte_qmark_chars buf = map (\<lambda>x. if c_isprint x then x else CHR ''?'') buf"

definition octal3 :: "nat \<Rightarrow> string" where
  "octal3 n = map (\<lambda>k. char_of (48 + n div 8 ^ k mod 8)) [2, 1, 0]"

definition quote_char :: "char \<Rightarrow> string" where
  "quote_char x =
     (let n = of_char x :: nat; bsl = CHR 0x5C in
      if n = 92 then [bsl, bsl]
      else if n = 10 then [bsl, CHR ''n'']
      else if n = 8 then [bsl, CHR ''b'']
      else if n = 13 then [bsl, CHR ''r'']
      else if n = 9 then [bsl, CHR ''t'']
      else if n = 12 then [bsl, CHR ''f'']
      else if n = 32 then [bsl, CHR '' '']
      else if n = 34 then [bsl, CHR 0x22]
      else if n > 32 \<and> n < 127 then [x]
      else bsl # octal3 n)"

definition print_name_with_quoting :: "string \<Rightarrow> string" where
  "print_name_with_quoting p = concat (map quote_char (c_string p))"

definition print_name :: "bool \<Rightarrow> string \<Rightarrow> string" where
  "print_name literal_control_chars p = (if literal_control_chars then c_string p else print_name_with_quoting p)"

end
