(* ===== verification/FindBuild.thy ===== *)
theory FindBuild
  imports Complex_Main FindTheorems FindSharefile Buildcmd LibUtil
begin

text \<open>
  From the command line to the list of predicates: the table of parsers, the making of nodes with the
  implied \<open>-a\<close> and the parsers of operators, parentheses and the simpler primaries (\<open>find/parser.c\<close>,
  \<open>find/util.c\<close>).
\<close>

subsection \<open>State and surroundings\<close>

datatype (plugins only: code size) build_error =
  Paths_must_precede string
| Unknown_predicate string
| Invalid_predicate string
| Invalid_argument string string
| Missing_argument string
| Argument_needed string
| Bad_type string
| Bad_size string
| Bad_depth string
| Bad_number string atoi_error
| Bad_mode string
| Bad_regex string
| Bad_regextype string
| Bad_time string
| Time_overflow string
| Bad_format string
| No_birth_time string
| Unknown_user string
| Unknown_group string
| File_error string
| No_selinux
| Unsafe_path string
| Braces_in_utility_name
| Too_many_braces
| Braces_not_alone string
| Environment_too_large
| Exec_error bc_error
| Help_shown
| Version_shown
| Bad_option string
| Debug_help_shown
| Not_modelled string
| Tree_error expr_error

text \<open>The members of \<open>struct options\<close> that parsers read or set, with \<open>posixly_correct\<close> below.\<close>

record settings =
  opt_maxdepth :: int
  opt_mindepth :: int
  opt_stay_on_filesystem :: bool
  opt_ignore_readdir_race :: bool
  opt_symlink_handling :: SymlinkOption
  opt_no_leaf_check :: bool
  opt_warnings :: bool
  opt_regex_options :: int
  opt_full_days :: bool
  opt_cur_day_start :: timespec
  opt_level :: nat
  opt_debug :: "string list"

text \<open>
  The list that \<open>predicates\<close> points to, whose last element is \<open>last_pred\<close>, the options the parsers
  set and the files opened for output (\<open>state.shared_files\<close>). Stream 0 is the standard output, 1 the
  standard error.
\<close>

record 'f builder =
  predicates :: "'f find_pred list"
  b_do_dir_first :: bool
  b_explicit_depth :: bool
  b_literal :: bool
  b_shared_files :: shared_files
  b_settings :: settings

text \<open>
  What \<open>strtod\<close> reads: a number, here an exact one, or an infinity or NaN.
\<close>

datatype (plugins only: code size) strtod_value = Finite rat | Not_finite

text \<open>
  The library (number parsing of gnulib, the user and group databases, \<open>fnmatch\<close>, whose sanity check is
  assumed to succeed, times, modes and regular expressions), the system (what \<open>surroundings\<close> answers to
  \<open>stat\<close> while the command line is read, the mounted file systems, the environment and the limit for
  \<open>exec\<close>), decimal constants as floats, what was found before the expression, and the contents of
  memory that is read without having been set (\<open>stale_word\<close>, \<open>stale_xval\<close>).

  \<open>open_stat name nofollow\<close> is None when the file cannot be opened, and otherwise the result of
  \<open>fstat\<close>. \<open>mode_bits\<close> is \<open>mode_compile\<close> followed by \<open>mode_adjust\<close> from mode 0, for a directory if the
  flag is set. \<open>leading_options\<close> are the options before the start points; \<open>argv_offset\<close> is the number of words of
  the command line before the expression.
\<close>

record 'f parse_env =
  lit :: "string \<Rightarrow> 'f"
  xstrtoumax :: "string \<Rightarrow> nat option"
  xstrtod :: "string \<Rightarrow> strtod_value option"
  getpwnam :: "string \<Rightarrow> nat option"
  getgrnam :: "string \<Rightarrow> nat option"
  glob_matches :: "string \<Rightarrow> string \<Rightarrow> bool \<Rightarrow> bool"
  local_time :: "int \<Rightarrow> (int \<times> int \<times> int) option"
  parse_datetime :: "string \<Rightarrow> timespec option"
  mode_bits :: "string \<Rightarrow> (bool \<Rightarrow> mode) option"
  re_compile :: "int \<Rightarrow> string \<Rightarrow> bool"
  surroundings :: env
  open_stat :: "string \<Rightarrow> bool \<Rightarrow> (errno + fstat) option"
  opener :: file_opener
  have_birthtime :: bool
  nofollow_available :: bool
  mounted_types :: "string list option"
  root_fs_type :: "string option"
  selinux_enabled :: bool
  search_path :: "string option"
  environ :: "string list"
  system_arg_max :: nat
  posixly_correct :: bool
  start_points :: "string list"
  argv_offset :: nat
  leading_options :: settings
  stale_word :: nat
  stale_xval :: xval

subsection \<open>The table of parsers\<close>

datatype (plugins only: code size) arg_type =
  ARG_OPTION | ARG_NOOP | ARG_POSITIONAL_OPTION | ARG_TEST | ARG_SPECIAL_PARSE | ARG_PUNCTUATION | ARG_ACTION

text \<open>The parser functions.\<close>

datatype (plugins only: code size) parse_func =
  Parse_negate | Parse_openparen | Parse_closeparen | Parse_comma | Parse_and | Parse_or
| Parse_true | Parse_false | Parse_print | Parse_print0 | Parse_prune | Parse_quit | Parse_delete
| Parse_depth | Parse_d | Parse_daystart | Parse_empty | Parse_nouser | Parse_nogroup | Parse_accesscheck
| Parse_name | Parse_iname | Parse_path | Parse_ipath | Parse_wholename | Parse_iwholename
| Parse_lname | Parse_ilname | Parse_regex | Parse_iregex | Parse_regextype
| Parse_gid | Parse_uid | Parse_links | Parse_inum | Parse_user | Parse_group | Parse_size | Parse_type
| Parse_xtype | Parse_perm | Parse_fstype | Parse_context | Parse_samefile
| Parse_anewer | Parse_cnewer | Parse_newer | Parse_newerXY | Parse_amin | Parse_cmin | Parse_mmin
| Parse_time | Parse_used
| Parse_maxdepth | Parse_mindepth | Parse_xdev | Parse_follow | Parse_noleaf | Parse_ignore_race
| Parse_noignore_race | Parse_warn | Parse_nowarn | No_parser | Parse_help | Parse_version
| Parse_ls | Parse_fls | Parse_fprint | Parse_fprint0 | Parse_printf | Parse_fprintf
| Parse_exec | Parse_execdir | Parse_ok | Parse_okdir

record parser_entry =
  e_type :: arg_type
  parser_name :: string
  parser_func :: parse_func
  e_pred_func :: "pred_func option"

abbreviation (input) "entry ty name f p \<equiv>
  \<lparr>e_type = ty, parser_name = name, parser_func = f, e_pred_func = p\<rparr>"

definition parse_table :: "parser_entry list" where
  "parse_table =
    [entry ARG_PUNCTUATION ''!'' Parse_negate (Some Pred_negate),
     entry ARG_PUNCTUATION ''not'' Parse_negate (Some Pred_negate),
     entry ARG_PUNCTUATION ''('' Parse_openparen (Some Pred_openparen),
     entry ARG_PUNCTUATION '')'' Parse_closeparen (Some Pred_closeparen),
     entry ARG_PUNCTUATION '','' Parse_comma (Some Pred_comma),
     entry ARG_PUNCTUATION ''a'' Parse_and (Some Pred_and),
     entry ARG_TEST ''amin'' Parse_amin (Some Pred_amin),
     entry ARG_PUNCTUATION ''and'' Parse_and (Some Pred_and),
     entry ARG_TEST ''anewer'' Parse_anewer (Some Pred_anewer),
     entry ARG_TEST ''atime'' Parse_time (Some Pred_atime),
     entry ARG_TEST ''cmin'' Parse_cmin (Some Pred_cmin),
     entry ARG_TEST ''cnewer'' Parse_cnewer (Some Pred_cnewer),
     entry ARG_TEST ''ctime'' Parse_time (Some Pred_ctime),
     entry ARG_TEST ''context'' Parse_context (Some Pred_context),
     entry ARG_POSITIONAL_OPTION ''daystart'' Parse_daystart None,
     entry ARG_ACTION ''delete'' Parse_delete (Some Pred_delete),
     entry ARG_OPTION ''d'' Parse_d None,
     entry ARG_OPTION ''depth'' Parse_depth None,
     entry ARG_TEST ''empty'' Parse_empty (Some Pred_empty),
     entry ARG_ACTION ''exec'' Parse_exec (Some Pred_exec),
     entry ARG_TEST ''executable'' Parse_accesscheck (Some Pred_executable),
     entry ARG_ACTION ''execdir'' Parse_execdir (Some Pred_execdir),
     entry ARG_ACTION ''fls'' Parse_fls (Some Pred_fls),
     entry ARG_POSITIONAL_OPTION ''follow'' Parse_follow None,
     entry ARG_ACTION ''fprint'' Parse_fprint (Some Pred_fprint),
     entry ARG_ACTION ''fprint0'' Parse_fprint0 (Some Pred_fprint0),
     entry ARG_ACTION ''fprintf'' Parse_fprintf (Some Pred_fprintf),
     entry ARG_TEST ''fstype'' Parse_fstype (Some Pred_fstype),
     entry ARG_TEST ''gid'' Parse_gid (Some Pred_gid),
     entry ARG_TEST ''group'' Parse_group (Some Pred_group),
     entry ARG_OPTION ''ignore_readdir_race'' Parse_ignore_race None,
     entry ARG_TEST ''ilname'' Parse_ilname (Some Pred_ilname),
     entry ARG_TEST ''iname'' Parse_iname (Some Pred_iname),
     entry ARG_TEST ''inum'' Parse_inum (Some Pred_inum),
     entry ARG_TEST ''ipath'' Parse_ipath (Some Pred_ipath),
     entry ARG_TEST ''iregex'' Parse_iregex None,
     entry ARG_TEST ''iwholename'' Parse_iwholename None,
     entry ARG_TEST ''links'' Parse_links (Some Pred_links),
     entry ARG_TEST ''lname'' Parse_lname (Some Pred_lname),
     entry ARG_ACTION ''ls'' Parse_ls (Some Pred_ls),
     entry ARG_OPTION ''maxdepth'' Parse_maxdepth None,
     entry ARG_OPTION ''mindepth'' Parse_mindepth None,
     entry ARG_TEST ''mmin'' Parse_mmin (Some Pred_mmin),
     entry ARG_OPTION ''mount'' Parse_xdev None,
     entry ARG_TEST ''mtime'' Parse_time (Some Pred_mtime),
     entry ARG_TEST ''name'' Parse_name (Some Pred_name),
     entry ARG_TEST ''newer'' Parse_newer (Some Pred_newer),
     entry ARG_TEST ''atime'' Parse_time (Some Pred_atime),
     entry ARG_OPTION ''noleaf'' Parse_noleaf None,
     entry ARG_TEST ''nogroup'' Parse_nogroup (Some Pred_nogroup),
     entry ARG_TEST ''nouser'' Parse_nouser (Some Pred_nouser),
     entry ARG_OPTION ''noignore_readdir_race'' Parse_noignore_race None,
     entry ARG_POSITIONAL_OPTION ''nowarn'' Parse_nowarn None,
     entry ARG_PUNCTUATION ''o'' Parse_or (Some Pred_or),
     entry ARG_PUNCTUATION ''or'' Parse_or (Some Pred_or),
     entry ARG_ACTION ''ok'' Parse_ok (Some Pred_ok),
     entry ARG_ACTION ''okdir'' Parse_okdir (Some Pred_okdir),
     entry ARG_TEST ''path'' Parse_path (Some Pred_path),
     entry ARG_TEST ''perm'' Parse_perm (Some Pred_perm),
     entry ARG_ACTION ''print'' Parse_print (Some Pred_print),
     entry ARG_ACTION ''print0'' Parse_print0 (Some Pred_print0),
     entry ARG_ACTION ''printf'' Parse_printf None,
     entry ARG_ACTION ''prune'' Parse_prune (Some Pred_prune),
     entry ARG_ACTION ''quit'' Parse_quit (Some Pred_quit),
     entry ARG_TEST ''readable'' Parse_accesscheck (Some Pred_readable),
     entry ARG_TEST ''regex'' Parse_regex (Some Pred_regex),
     entry ARG_POSITIONAL_OPTION ''regextype'' Parse_regextype None,
     entry ARG_TEST ''samefile'' Parse_samefile (Some Pred_samefile),
     entry ARG_TEST ''size'' Parse_size (Some Pred_size),
     entry ARG_TEST ''type'' Parse_type (Some Pred_type),
     entry ARG_TEST ''uid'' Parse_uid (Some Pred_uid),
     entry ARG_TEST ''used'' Parse_used (Some Pred_used),
     entry ARG_TEST ''user'' Parse_user (Some Pred_user),
     entry ARG_OPTION ''warn'' Parse_warn None,
     entry ARG_TEST ''wholename'' Parse_wholename None,
     entry ARG_TEST ''writable'' Parse_accesscheck (Some Pred_writable),
     entry ARG_OPTION ''xdev'' Parse_xdev None,
     entry ARG_TEST ''xtype'' Parse_xtype (Some Pred_xtype),
     entry ARG_TEST ''false'' Parse_false (Some Pred_false),
     entry ARG_TEST ''true'' Parse_true (Some Pred_true),
     entry ARG_NOOP ''noop'' No_parser (Some Pred_true),
     entry ARG_TEST ''help'' Parse_help None,
     entry ARG_TEST ''-help'' Parse_help None,
     entry ARG_TEST ''version'' Parse_version None,
     entry ARG_TEST ''-version'' Parse_version None]"

definition parse_entry_newerXY :: parser_entry where
  "parse_entry_newerXY = entry ARG_SPECIAL_PARSE ''newerXY'' Parse_newerXY (Some Pred_newerXY)"

definition find_parser :: "string \<Rightarrow> parser_entry option" where
  "find_parser search_name =
     (if take 6 search_name = ''-newer'' \<and> length search_name = 8 then Some parse_entry_newerXY
      else let name = (if search_name \<noteq> [] \<and> hd search_name = CHR ''-'' then tl search_name else search_name)
           in find (\<lambda>e. parser_name e = name) parse_table)"

subsection \<open>Making nodes\<close>

text \<open>Fields that \<open>get_new_pred\<close> sets to placeholders: no function, no name, \<open>NO_TYPE\<close>.\<close>

definition new_pred :: "'f parse_env \<Rightarrow> 'f builder \<Rightarrow> pred_func \<Rightarrow> predicate_type \<Rightarrow>
    predicate_precedence \<Rightarrow> string option \<Rightarrow> 'f find_pred" where
  "new_pred E b fn ty pr arg =
     \<lparr>pred_func = fn, p_name = [], p_type = ty, p_prec = pr, side_effects = False,
      no_default_print = False, need_stat = True, need_type = True, need_inum = False,
      p_cost = NeedsUnknown, est_success_rate = lit E ''1.0'', literal_control_chars = b_literal b,
      artificial = False, arg_text = arg, args = None, exec_multiple = False\<rparr>"

definition append_pred :: "'f find_pred \<Rightarrow> 'f builder \<Rightarrow> 'f builder" where
  "append_pred p b = b\<lparr>predicates := predicates b @ [p]\<rparr>"

text \<open>\<open>get_new_pred_chk_op\<close> first appends the operator \<open>-a\<close> where two operands would meet.\<close>

definition interpose_and :: "'f parse_env \<Rightarrow> 'f builder \<Rightarrow> 'f builder" where
  "interpose_and E b =
     (if predicates b \<noteq> [] \<and>
         (p_type (last (predicates b)) = PRIMARY_TYPE \<or> p_type (last (predicates b)) = CLOSE_PAREN)
      then append_pred ((new_pred E b Pred_and BI_OP AND_PREC None)
        \<lparr>p_name := ''-a'', need_stat := False, need_type := False\<rparr>) b
      else b)"

text \<open>An operator or a parenthesis; \<open>chk\<close> tells \<open>get_new_pred_chk_op\<close> from \<open>get_new_pred_noarg\<close>.\<close>

definition insert_operator :: "'f parse_env \<Rightarrow> bool \<Rightarrow> pred_func \<Rightarrow> predicate_type \<Rightarrow>
    predicate_precedence \<Rightarrow> 'f builder \<Rightarrow> 'f builder" where
  "insert_operator E chk fn ty pr b =
     (let b = (if chk then interpose_and E b else b)
      in append_pred ((new_pred E b fn ty pr None)\<lparr>need_stat := False, need_type := False\<rparr>) b)"

text \<open>\<open>insert_primary_withpred\<close>; \<open>f\<close> is what the caller sets in the node afterwards.\<close>

definition insert_primary_withpred :: "'f parse_env \<Rightarrow> parser_entry \<Rightarrow> pred_func \<Rightarrow> string option \<Rightarrow>
    ('f find_pred \<Rightarrow> 'f find_pred) \<Rightarrow> 'f builder \<Rightarrow> 'f builder" where
  "insert_primary_withpred E e fn arg f b =
     (let b = interpose_and E b
      in append_pred (f ((new_pred E b fn PRIMARY_TYPE NO_PREC arg)\<lparr>p_name := parser_name e\<rparr>)) b)"

text \<open>\<open>insert_primary\<close> asserts that the entry has a function.\<close>

definition insert_primary :: "'f parse_env \<Rightarrow> parser_entry \<Rightarrow> string option \<Rightarrow>
    ('f find_pred \<Rightarrow> 'f find_pred) \<Rightarrow> 'f builder \<Rightarrow> 'f builder option" where
  "insert_primary E e arg f b =
     map_option (\<lambda>fn. insert_primary_withpred E e fn arg f b) (e_pred_func e)"

abbreviation no_stat :: "'f find_pred \<Rightarrow> 'f find_pred" where
  "no_stat p \<equiv> p\<lparr>need_stat := False, need_type := False\<rparr>"

abbreviation with_effects :: "'f find_pred \<Rightarrow> 'f find_pred" where
  "with_effects p \<equiv> p\<lparr>side_effects := True, no_default_print := True\<rparr>"

text \<open>The stream that a predicate writes to.\<close>

definition open_output_file :: "'f parse_env \<Rightarrow> string \<Rightarrow> 'f builder \<Rightarrow>
    (build_error, find_args \<times> 'f builder) outcome" where
  "open_output_file E path b =
     (if path = ''/dev/stderr'' then Ok (Printf_vec 1, b)
      else if path = ''/dev/stdout'' then Ok (Printf_vec 0, b)
      else (case sharefile_fopen (opener E) path (b_shared_files b) of
              Ok (Some k, h) \<Rightarrow> Ok (Printf_vec k, b\<lparr>b_shared_files := h\<rparr>)
            | Ok (None, h) \<Rightarrow> Exit (File_error path)
            | Exit closing \<Rightarrow> Exit (File_error closing)
            | Undef \<Rightarrow> Undef
            | Diverge \<Rightarrow> Diverge))"

subsection \<open>The parsers\<close>

text \<open>
  A parser gets the index of the next argument and returns whether it accepts, the index and the new
  state; \<open>argv ! i\<close> is NULL at \<open>i = length argv\<close>.
\<close>

type_synonym 'f parsed = "(build_error, bool \<times> nat \<times> 'f builder) outcome"

definition collect_arg :: "string list \<Rightarrow> nat \<Rightarrow> string option \<times> nat" where
  "collect_arg argv i = (if i < length argv then (Some (argv ! i), i + 1) else (None, i))"

definition accept :: "nat \<Rightarrow> 'f builder option \<Rightarrow> 'f parsed" where
  "accept i r = (case r of None \<Rightarrow> Undef | Some b \<Rightarrow> Ok (True, i, b))"

definition insert_test :: "'f parse_env \<Rightarrow> parser_entry \<Rightarrow> ('f find_pred \<Rightarrow> 'f find_pred) \<Rightarrow> nat \<Rightarrow>
    'f builder \<Rightarrow> 'f parsed" where
  "insert_test E e f i b = accept i (insert_primary E e None f b)"

text \<open>A test with one argument taken as it stands.\<close>

definition insert_str :: "'f parse_env \<Rightarrow> parser_entry \<Rightarrow> pred_func option \<Rightarrow>
    (string \<Rightarrow> 'f find_pred \<Rightarrow> 'f find_pred) \<Rightarrow> string list \<Rightarrow> nat \<Rightarrow> 'f builder \<Rightarrow> 'f parsed" where
  "insert_str E e fn f argv i b =
     (case collect_arg argv i of
        (None, i) \<Rightarrow> Ok (False, i, b)
      | (Some arg, i) \<Rightarrow>
          accept i (map_option (\<lambda>fn. insert_primary_withpred E e fn (Some arg) (f arg) b) fn))"

text \<open>\<open>estimate_pattern_match_rate\<close> for patterns that are no regular expressions.\<close>

definition has_wildcard :: "string \<Rightarrow> bool" where
  "has_wildcard pattern \<longleftrightarrow> list_ex (\<lambda>c. c \<in> set ''*?['') pattern"

definition set_str :: "'f parse_env \<Rightarrow> string \<Rightarrow> 'f find_pred \<Rightarrow> 'f find_pred" where
  "set_str E arg p = (no_stat p)\<lparr>args := Some (Str arg),
     est_success_rate := lit E (if has_wildcard arg then ''0.8'' else ''0.1'')\<rparr>"

text \<open>A tenth of the rate of the pattern, as most files are no links.\<close>

definition set_link :: "'f parse_env \<Rightarrow> string \<Rightarrow> 'f find_pred \<Rightarrow> 'f find_pred" where
  "set_link E arg p = p\<lparr>args := Some (Str arg),
     est_success_rate := lit E (if has_wildcard arg then ''0.08'' else ''0.01'')\<rparr>"

definition matches_start_point :: "'f parse_env \<Rightarrow> string \<Rightarrow> bool \<Rightarrow> bool" where
  "matches_start_point E glob foldcase \<longleftrightarrow>
     (if start_points E \<noteq> [] then list_ex (\<lambda>s. glob_matches E glob s foldcase) (start_points E)
      else glob_matches E glob ''.'' foldcase)"

definition is_feasible_path_argument :: "'f parse_env \<Rightarrow> string \<Rightarrow> bool \<Rightarrow> bool" where
  "is_feasible_path_argument E arg foldcase \<longleftrightarrow>
     (if arg \<noteq> [] \<and> last arg = CHR ''/'' then matches_start_point E arg foldcase else True)"

definition set_path :: "'f parse_env \<Rightarrow> bool \<Rightarrow> string \<Rightarrow> 'f find_pred \<Rightarrow> 'f find_pred" where
  "set_path E foldcase arg p =
     (let p = set_str E arg p
      in if \<not> posixly_correct E \<and> \<not> is_feasible_path_argument E arg foldcase
         then p\<lparr>est_success_rate := lit E ''1.0e-8''\<rparr> else p)"

definition get_comp_type :: "string \<Rightarrow> comparison_type \<times> string" where
  "get_comp_type str =
     (case str of
        c # rest \<Rightarrow>
          if c = CHR ''+'' then (COMP_GT, rest) else if c = CHR ''-'' then (COMP_LT, rest)
          else (COMP_EQ, str)
      | [] \<Rightarrow> (COMP_EQ, str))"

definition get_num :: "'f parse_env \<Rightarrow> string \<Rightarrow> (comparison_type \<times> nat) option" where
  "get_num E str = (let (kind, rest) = get_comp_type str in map_option (Pair kind) (xstrtoumax E rest))"

text \<open>
  \<open>insert_num\<close> and its callers: when it fails they step back one argument, also when there was none.
\<close>

definition insert_num :: "'f parse_env \<Rightarrow> parser_entry \<Rightarrow> (nat \<Rightarrow> 'f find_pred \<Rightarrow> 'f find_pred) \<Rightarrow>
    string list \<Rightarrow> nat \<Rightarrow> 'f builder \<Rightarrow> 'f parsed" where
  "insert_num E e f argv i b =
     (let (arg, i) = collect_arg argv i in
      case Option.bind arg (get_num E) of
        None \<Rightarrow> Ok (False, i - 1, b)
      | Some (kind, n) \<Rightarrow>
          accept i (insert_primary E e arg (\<lambda>p. f n (p\<lparr>args := Some (Numinfo kind n)\<rparr>)) b))"

text \<open>A number that \<open>safe_atoi\<close> reads; anything else ends the program.\<close>

definition is_digit_char :: "char \<Rightarrow> bool" where
  "is_digit_char c \<longleftrightarrow> c \<in> set ''0123456789''"

definition read_int :: "string \<Rightarrow> (build_error, int) outcome" where
  "read_int s =
     (case safe_atoi s of
        Ok v \<Rightarrow> Ok v | Exit err \<Rightarrow> Exit (Bad_number s err) | Undef \<Rightarrow> Undef | Diverge \<Rightarrow> Diverge)"

definition parse_user :: "'f parse_env \<Rightarrow> parser_entry \<Rightarrow> string list \<Rightarrow> nat \<Rightarrow> 'f builder \<Rightarrow> 'f parsed"
where
  "parse_user E e argv i b =
     (case collect_arg argv i of
        (None, i) \<Rightarrow> Ok (False, i, b)
      | (Some name, i) \<Rightarrow>
          obind
            (case getpwnam E name of
               Some u \<Rightarrow> Ok u
             | None \<Rightarrow>
                 if name \<noteq> [] \<and> list_all is_digit_char name
                 then obind (read_int name) (\<lambda>v. Ok (nat (v mod 2 ^ 32))) else Exit (Unknown_user name))
            (\<lambda>u. accept i (insert_primary E e (Some name)
              (\<lambda>p. p\<lparr>args := Some (Uid u), est_success_rate := lit E (if u < 100 then ''0.99'' else ''0.2'')\<rparr>) b)))"

definition size_suffix :: "char \<Rightarrow> (int \<times> bool) option" where
  "size_suffix c =
     (if c = CHR ''b'' then Some (512, True) else if c = CHR ''c'' then Some (1, True)
      else if c = CHR ''k'' then Some (1024, True) else if c = CHR ''M'' then Some (1024 * 1024, True)
      else if c = CHR ''G'' then Some (1024 * 1024 * 1024, True) else if c = CHR ''w'' then Some (2, True)
      else if c \<in> set ''0123456789'' then Some (512, False) else None)"

definition parse_size :: "'f parse_env \<Rightarrow> parser_entry \<Rightarrow> string list \<Rightarrow> nat \<Rightarrow> 'f builder \<Rightarrow> 'f parsed"
where
  "parse_size E e argv i b =
     (if i \<ge> length argv then Ok (False, i, b)
      else
        (let arg = argv ! i in
         if arg = [] then Exit (Bad_size arg)
         else case size_suffix (last arg) of
           None \<Rightarrow> Exit (Bad_size arg)
         | Some (blksize, strip) \<Rightarrow>
             (let digits = (if strip then butlast arg else arg) in
              case get_num E digits of
                None \<Rightarrow> Exit (Bad_size arg)
              | Some (kind, num) \<Rightarrow>
                  (let big = num * nat blksize mod 2 ^ 64 > 20480;
                       rate = (case kind of
                           COMP_GT \<Rightarrow> if big then ''0.1'' else ''0.9''
                         | COMP_LT \<Rightarrow> if big then ''0.9'' else ''0.1''
                         | COMP_EQ \<Rightarrow> ''0.01'')
                   in accept (i + 1) (insert_primary E e (Some digits)
                     (\<lambda>p. p\<lparr>args := Some (Size kind blksize num), need_stat := True,
                       need_type := False, est_success_rate := lit E rate\<rparr>) b)))))"

definition type_letter :: "char \<Rightarrow> (mode \<times> string) option" where
  "type_letter c =
     (if c = CHR ''b'' then Some (S_IFBLK, ''0.01'') else if c = CHR ''c'' then Some (S_IFCHR, ''0.01'')
      else if c = CHR ''d'' then Some (S_IFDIR, ''0.4'') else if c = CHR ''f'' then Some (S_IFREG, ''0.95'')
      else if c = CHR ''l'' then Some (S_IFLNK, ''0.1'') else if c = CHR ''p'' then Some (S_IFIFO, ''0.01'')
      else if c = CHR ''s'' then Some (S_IFSOCK, ''0.01'') else None)"

definition insert_type :: "'f parse_env \<Rightarrow> parser_entry \<Rightarrow> pred_func \<Rightarrow> string list \<Rightarrow> nat \<Rightarrow> 'f builder \<Rightarrow>
    'f parsed" where
  "insert_type E e which_pred argv i b =
     (case collect_arg argv i of
        (None, i) \<Rightarrow> Ok (False, i, b)
      | (Some letter, i) \<Rightarrow>
          (case (if length letter = 1 then type_letter (hd letter) else None) of
             None \<Rightarrow> Exit (Bad_type letter)
           | Some (cell, rate) \<Rightarrow>
               Ok (True, i, insert_primary_withpred E e which_pred (Some letter)
                 (\<lambda>p. p\<lparr>est_success_rate := lit E rate, need_stat := (which_pred = Pred_xtype),
                   need_type := (which_pred \<noteq> Pred_xtype), args := Some (Type_arg cell)\<rparr>) b)))"

definition insert_fls :: "'f parse_env \<Rightarrow> parser_entry \<Rightarrow> string option \<Rightarrow> nat \<Rightarrow> 'f builder \<Rightarrow> 'f parsed"
where
  "insert_fls E e filename i b =
     obind (open_output_file E (case filename of None \<Rightarrow> ''/dev/stdout'' | Some f \<Rightarrow> f) b) (\<lambda>(vec, b).
       accept i (insert_primary E e None
         (\<lambda>p. (with_effects p)\<lparr>args := Some vec, est_success_rate := lit E ''1.0''\<rparr>) b))"

definition insert_fprint :: "'f parse_env \<Rightarrow> parser_entry \<Rightarrow> string option \<Rightarrow> nat \<Rightarrow> 'f builder \<Rightarrow>
    'f parsed" where
  "insert_fprint E e filename i b =
     obind (open_output_file E (case filename of None \<Rightarrow> ''/dev/stdout'' | Some f \<Rightarrow> f) b) (\<lambda>(vec, b).
       accept i (insert_primary E e filename
         (\<lambda>p. (no_stat (with_effects p))\<lparr>args := Some vec, est_success_rate := lit E ''1.0''\<rparr>) b))"

text \<open>\<open>parse_noop\<close> calls \<open>parse_true\<close> with the entry named \<open>noop\<close>.\<close>

definition noop_entry :: parser_entry where
  "noop_entry = entry ARG_NOOP ''noop'' No_parser (Some Pred_true)"

definition parse_true :: "'f parse_env \<Rightarrow> parser_entry \<Rightarrow> nat \<Rightarrow> 'f builder \<Rightarrow> 'f parsed" where
  "parse_true E e i b = insert_test E e (\<lambda>p. (no_stat p)\<lparr>est_success_rate := lit E ''1.0''\<rparr>) i b"

definition parse_print :: "'f parse_env \<Rightarrow> parser_entry \<Rightarrow> nat \<Rightarrow> 'f builder \<Rightarrow> 'f parsed" where
  "parse_print E e i b =
     insert_test E e (\<lambda>p. (no_stat (with_effects p))\<lparr>args := Some (Printf_vec 0)\<rparr>) i b"

definition parse_negate :: "'f parse_env \<Rightarrow> nat \<Rightarrow> 'f builder \<Rightarrow> 'f parsed" where
  "parse_negate E i b =
     Ok (True, i, insert_operator E True Pred_negate UNI_OP NEGATE_PREC b)"

definition parse_openparen :: "'f parse_env \<Rightarrow> nat \<Rightarrow> 'f builder \<Rightarrow> 'f parsed" where
  "parse_openparen E i b =
     Ok (True, i, insert_operator E True Pred_openparen OPEN_PAREN NO_PREC b)"

definition parse_closeparen :: "'f parse_env \<Rightarrow> nat \<Rightarrow> 'f builder \<Rightarrow> 'f parsed" where
  "parse_closeparen E i b =
     Ok (True, i, insert_operator E False Pred_closeparen CLOSE_PAREN NO_PREC b)"

definition parse_comma :: "'f parse_env \<Rightarrow> nat \<Rightarrow> 'f builder \<Rightarrow> 'f parsed" where
  "parse_comma E i b =
     Ok (True, i, insert_operator E False Pred_comma BI_OP COMMA_PREC b)"

definition parse_and :: "'f parse_env \<Rightarrow> nat \<Rightarrow> 'f builder \<Rightarrow> 'f parsed" where
  "parse_and E i b =
     Ok (True, i, insert_operator E False Pred_and BI_OP AND_PREC b)"

definition parse_or :: "'f parse_env \<Rightarrow> nat \<Rightarrow> 'f builder \<Rightarrow> 'f parsed" where
  "parse_or E i b =
     Ok (True, i, insert_operator E False Pred_or BI_OP OR_PREC b)"

definition parse_false :: "'f parse_env \<Rightarrow> parser_entry \<Rightarrow> nat \<Rightarrow> 'f builder \<Rightarrow> 'f parsed" where
  "parse_false E e i b =
     insert_test E e (\<lambda>p. (no_stat p)\<lparr>est_success_rate := lit E ''0.0''\<rparr>) i
       b"

definition parse_print0 :: "'f parse_env \<Rightarrow> parser_entry \<Rightarrow> nat \<Rightarrow> 'f builder \<Rightarrow> 'f parsed" where
  "parse_print0 E e i b =
     insert_fprint E e None i b"

definition parse_prune :: "'f parse_env \<Rightarrow> parser_entry \<Rightarrow> nat \<Rightarrow> 'f builder \<Rightarrow> 'f parsed" where
  "parse_prune E e i b =
     insert_test E e (\<lambda>p. (if \<not> b_do_dir_first b then no_stat p else
       p)\<lparr>side_effects := True\<rparr>) i b"

definition parse_quit :: "'f parse_env \<Rightarrow> parser_entry \<Rightarrow> nat \<Rightarrow> 'f builder \<Rightarrow> 'f parsed" where
  "parse_quit E e i b =
     insert_test E e (\<lambda>p. (no_stat p)\<lparr>side_effects := True, est_success_rate := lit
       E ''1.0''\<rparr>) i b"

definition parse_delete :: "'f parse_env \<Rightarrow> parser_entry \<Rightarrow> nat \<Rightarrow> 'f builder \<Rightarrow> 'f parsed" where
  "parse_delete E e i b =
     insert_test E e (\<lambda>p. (no_stat (with_effects p))\<lparr>est_success_rate := lit E
       ''1.0''\<rparr>) i (b\<lparr>b_do_dir_first := False\<rparr>)"

definition parse_depth :: "'f parse_env \<Rightarrow> nat \<Rightarrow> 'f builder \<Rightarrow> 'f parsed" where
  "parse_depth E i b =
     parse_true E noop_entry i (b\<lparr>b_do_dir_first := False, b_explicit_depth :=
       True\<rparr>)"

definition parse_empty :: "'f parse_env \<Rightarrow> parser_entry \<Rightarrow> nat \<Rightarrow> 'f builder \<Rightarrow> 'f parsed" where
  "parse_empty E e i b =
     insert_test E e (\<lambda>p. p\<lparr>est_success_rate := lit E ''0.01''\<rparr>) i b"

definition parse_nouser :: "'f parse_env \<Rightarrow> parser_entry \<Rightarrow> nat \<Rightarrow> 'f builder \<Rightarrow> 'f parsed" where
  "parse_nouser E e i b =
     insert_test E e (\<lambda>p. p\<lparr>est_success_rate := lit E ''1e-3''\<rparr>) i b"

definition parse_nogroup :: "'f parse_env \<Rightarrow> parser_entry \<Rightarrow> nat \<Rightarrow> 'f builder \<Rightarrow> 'f parsed" where
  "parse_nogroup E e i b =
     insert_test E e (\<lambda>p. p\<lparr>est_success_rate := lit E ''1e-4''\<rparr>) i b"

definition parse_accesscheck :: "'f parse_env \<Rightarrow> parser_entry \<Rightarrow> nat \<Rightarrow> 'f builder \<Rightarrow> 'f parsed" where
  "parse_accesscheck E e i b =
     insert_test E e (\<lambda>p. (no_stat p)\<lparr>est_success_rate := lit E (if pred_func p =
       Pred_executable then ''0.2'' else ''0.9'')\<rparr>) i b"

definition parse_name :: "'f parse_env \<Rightarrow> parser_entry \<Rightarrow> string list \<Rightarrow> nat \<Rightarrow> 'f builder \<Rightarrow> 'f parsed" where
  "parse_name E e argv i b =
     insert_str E e (e_pred_func e) (set_str E) argv i b"

definition parse_iname :: "'f parse_env \<Rightarrow> parser_entry \<Rightarrow> string list \<Rightarrow> nat \<Rightarrow> 'f builder \<Rightarrow> 'f parsed" where
  "parse_iname E e argv i b =
     insert_str E e (e_pred_func e) (set_str E) argv i b"

definition parse_path :: "'f parse_env \<Rightarrow> parser_entry \<Rightarrow> string list \<Rightarrow> nat \<Rightarrow> 'f builder \<Rightarrow> 'f parsed" where
  "parse_path E e argv i b =
     insert_str E e (Some Pred_path) (set_path E False) argv i b"

definition parse_ipath :: "'f parse_env \<Rightarrow> parser_entry \<Rightarrow> string list \<Rightarrow> nat \<Rightarrow> 'f builder \<Rightarrow> 'f parsed" where
  "parse_ipath E e argv i b =
     insert_str E e (Some Pred_ipath) (set_path E True) argv i b"

definition parse_wholename :: "'f parse_env \<Rightarrow> parser_entry \<Rightarrow> string list \<Rightarrow> nat \<Rightarrow> 'f builder \<Rightarrow> 'f parsed" where
  "parse_wholename E e argv i b =
     insert_str E e (Some Pred_path) (set_path E False) argv i b"

definition parse_iwholename :: "'f parse_env \<Rightarrow> parser_entry \<Rightarrow> string list \<Rightarrow> nat \<Rightarrow> 'f builder \<Rightarrow> 'f parsed" where
  "parse_iwholename E e argv i b =
     insert_str E e (Some Pred_ipath) (set_path E True) argv i b"

definition parse_lname :: "'f parse_env \<Rightarrow> parser_entry \<Rightarrow> string list \<Rightarrow> nat \<Rightarrow> 'f builder \<Rightarrow> 'f parsed" where
  "parse_lname E e argv i b =
     insert_str E e (e_pred_func e) (set_link E) argv i b"

definition parse_ilname :: "'f parse_env \<Rightarrow> parser_entry \<Rightarrow> string list \<Rightarrow> nat \<Rightarrow> 'f builder \<Rightarrow> 'f parsed" where
  "parse_ilname E e argv i b =
     insert_str E e (e_pred_func e) (set_link E) argv i b"

definition parse_gid :: "'f parse_env \<Rightarrow> parser_entry \<Rightarrow> string list \<Rightarrow> nat \<Rightarrow> 'f builder \<Rightarrow> 'f parsed" where
  "parse_gid E e argv i b =
     insert_num E e (\<lambda>n p. p\<lparr>est_success_rate := lit E (if n < 100 then ''0.99''
       else ''0.2'')\<rparr>) argv i b"

definition parse_uid :: "'f parse_env \<Rightarrow> parser_entry \<Rightarrow> string list \<Rightarrow> nat \<Rightarrow> 'f builder \<Rightarrow> 'f parsed" where
  "parse_uid E e argv i b =
     insert_num E e (\<lambda>n p. p\<lparr>est_success_rate := lit E (if n < 100 then ''0.99''
       else ''0.2'')\<rparr>) argv i b"

definition parse_links :: "'f parse_env \<Rightarrow> parser_entry \<Rightarrow> string list \<Rightarrow> nat \<Rightarrow> 'f builder \<Rightarrow> 'f parsed" where
  "parse_links E e argv i b =
     insert_num E e (\<lambda>n p. p\<lparr>est_success_rate := lit E (if n = 1 then ''0.99'' else
       if n = 2 then ''0.01'' else ''1e-3'')\<rparr>) argv i b"

definition parse_inum :: "'f parse_env \<Rightarrow> parser_entry \<Rightarrow> string list \<Rightarrow> nat \<Rightarrow> 'f builder \<Rightarrow> 'f parsed" where
  "parse_inum E e argv i b =
     insert_num E e (\<lambda>n p. (no_stat p)\<lparr>est_success_rate := lit E ''1e-6'', need_inum
       := True\<rparr>) argv i b"

definition parse_type :: "'f parse_env \<Rightarrow> parser_entry \<Rightarrow> string list \<Rightarrow> nat \<Rightarrow> 'f builder \<Rightarrow> 'f parsed" where
  "parse_type E e argv i b =
     insert_type E e Pred_type argv i b"

definition parse_xtype :: "'f parse_env \<Rightarrow> parser_entry \<Rightarrow> string list \<Rightarrow> nat \<Rightarrow> 'f builder \<Rightarrow> 'f parsed" where
  "parse_xtype E e argv i b =
     insert_type E e Pred_xtype argv i b"

definition parse_ls :: "'f parse_env \<Rightarrow> parser_entry \<Rightarrow> nat \<Rightarrow> 'f builder \<Rightarrow> 'f parsed" where
  "parse_ls E e i b =
     insert_fls E e None i b"

definition parse_fls :: "'f parse_env \<Rightarrow> parser_entry \<Rightarrow> string list \<Rightarrow> nat \<Rightarrow> 'f builder \<Rightarrow> 'f parsed" where
  "parse_fls E e argv i b =
     (case collect_arg argv i of (None, i) \<Rightarrow> Ok (False, i, b) | (Some f, i)
       \<Rightarrow> insert_fls E e (Some f) i b)"

definition parse_fprint :: "'f parse_env \<Rightarrow> parser_entry \<Rightarrow> string list \<Rightarrow> nat \<Rightarrow> 'f builder \<Rightarrow> 'f parsed" where
  "parse_fprint E e argv i b =
     (case collect_arg argv i of (None, i) \<Rightarrow> Ok (False, i, b) | (Some f, i)
       \<Rightarrow> insert_fprint E e (Some f) i b)"

definition parse_fprint0 :: "'f parse_env \<Rightarrow> parser_entry \<Rightarrow> string list \<Rightarrow> nat \<Rightarrow> 'f builder \<Rightarrow> 'f parsed" where
  "parse_fprint0 E e argv i b =
     (case collect_arg argv i of (None, i) \<Rightarrow> Ok (False, i, b) | (Some f, i)
       \<Rightarrow> insert_fprint E e (Some f) i b)"

lemmas parser_defs = parse_negate_def parse_openparen_def parse_closeparen_def parse_comma_def parse_and_def
  parse_or_def parse_false_def parse_print0_def parse_prune_def parse_quit_def parse_delete_def
  parse_depth_def parse_empty_def parse_nouser_def parse_nogroup_def
  parse_accesscheck_def parse_name_def parse_iname_def parse_path_def parse_ipath_def parse_wholename_def parse_iwholename_def
  parse_lname_def parse_ilname_def parse_gid_def parse_uid_def parse_links_def parse_inum_def
  parse_type_def parse_xtype_def parse_ls_def parse_fls_def parse_fprint_def parse_fprint0_def

end
