(* ===== verification/FindFormat.thy ===== *)
theory FindFormat
  imports FindBuild
begin

text \<open>
  The formats of \<open>-printf\<close> and \<open>-fprintf\<close> (\<open>insert_fprintf\<close> and \<open>make_segment\<close> of \<open>find/parser.c\<close>): the
  division into segments, what they need to know about a file, and the two parsers.
\<close>

subsection \<open>Segments\<close>

text \<open>
  What a directive needs: the letter of the conversion that is put behind its text, \<open>need_stat\<close>,
  \<open>need_type\<close>, \<open>need_inum\<close> and the cost. The three reserved directives do not come this far.
\<close>

definition directive_needs :: "char \<Rightarrow> (char \<times> bool \<times> bool \<times> bool \<times> EvaluationCost) option" where
  "directive_needs x =
     (if x = CHR ''l'' then Some (CHR ''s'', True, False, False, NeedsLinkName)
      else if x = CHR ''y'' then Some (CHR ''s'', False, True, False, NeedsType)
      else if x = CHR ''i'' then Some (CHR ''s'', False, False, True, NeedsInodeNumber)
      else if x \<in> set ''aABcCFgMstTu'' then Some (CHR ''s'', True, False, False, NeedsStatInfo)
      else if x = CHR ''S'' then Some (CHR ''g'', True, False, False, NeedsStatInfo)
      else if x = CHR ''Y'' then Some (CHR ''s'', True, False, False, NeedsType)
      else if x \<in> set ''fhpP'' then Some (CHR ''s'', False, False, False, NeedsNothing)
      else if x = CHR ''Z'' then Some (CHR ''s'', False, False, False, NeedsAccessInfo)
      else if x = CHR ''H'' then Some (CHR ''s'', False, False, False, NeedsNothing)
      else if x \<in> set ''GUbDkn'' then Some (CHR ''s'', True, False, False, NeedsStatInfo)
      else if x = CHR ''d'' then Some (CHR ''d'', False, False, False, NeedsNothing)
      else if x = CHR ''m'' then Some (CHR ''o'', True, False, False, NeedsStatInfo)
      else None)"

text \<open>The new segment, with the conversion appended to the text of a directive.\<close>

definition make_segment :: "string \<Rightarrow> SegmentKind \<Rightarrow> char option \<Rightarrow> char option \<Rightarrow> segment" where
  "make_segment format kind format_char aux_format_char =
     (case Option.bind format_char directive_needs of
        Some (conversion, _) \<Rightarrow> Segment kind (format @ [conversion]) format_char aux_format_char
      | None \<Rightarrow> Segment kind format format_char aux_format_char)"

text \<open>What \<open>make_segment\<close> changes in the node.\<close>

fun segment_needs :: "'f find_pred \<Rightarrow> segment \<Rightarrow> 'f find_pred" where
  "segment_needs p (Segment kind text format_char aux) =
     (case Option.bind format_char directive_needs of
        Some (_, stat, type, inum, cost) \<Rightarrow>
          p\<lparr>need_stat := need_stat p \<or> stat, need_type := need_type p \<or> type,
            need_inum := need_inum p \<or> inum, p_cost := (if p_cost p < cost then cost else p_cost p)\<rparr>
      | None \<Rightarrow> p)"

subsection \<open>Scanning\<close>

text \<open>A backslash and a letter; None is an unrecognised escape.\<close>

definition simple_escape :: "char \<Rightarrow> char option" where
  "simple_escape x =
     (if x = CHR ''a'' then Some (CHR 0x07) else if x = CHR ''b'' then Some (CHR 0x08)
      else if x = CHR ''f'' then Some (CHR 0x0C) else if x = CHR ''n'' then Some (CHR 0x0A)
      else if x = CHR ''r'' then Some (CHR 0x0D) else if x = CHR ''t'' then Some (CHR 0x09)
      else if x = CHR ''v'' then Some (CHR 0x0B) else if x = CHR 0x5C then Some (CHR 0x5C) else None)"

definition is_octal :: "char \<Rightarrow> bool" where
  "is_octal x \<longleftrightarrow> x \<in> set ''01234567''"

definition octal_char :: "string \<Rightarrow> char" where
  "octal_char ds = char_of (foldl (\<lambda>n x. 8 * n + (of_char x - 48)) (0 :: nat) ds)"

text \<open>Flags, width and precision of a directive, and what follows.\<close>

definition span_spec :: "string \<Rightarrow> string \<times> string" where
  "span_spec r =
     (let flags = takeWhile (\<lambda>x. x \<in> set ''-+ #'') r; r1 = drop (length flags) r;
          width = takeWhile is_digit_char r1; r2 = drop (length width) r1;
          precision = (case r2 of x # r3 \<Rightarrow> if x = CHR ''.'' then x # takeWhile is_digit_char r3 else [] | [] \<Rightarrow> [])
      in (flags @ width @ precision, drop (length precision) r2))"

definition take_while3 :: "string \<Rightarrow> string" where
  "take_while3 r = takeWhile is_octal (take 3 r)"

lemma span_spec_append: "span_spec r = (spec, rest) \<Longrightarrow> spec @ rest = r"
proof -
  have cut: "takeWhile P xs @ drop (length (takeWhile P xs)) xs = xs" for P and xs :: string
    by (simp add: dropWhile_eq_drop [symmetric])
  define flags where "flags = takeWhile (\<lambda>x. x \<in> set ''-+ #'') r"
  define r1 where "r1 = drop (length flags) r"
  define width where "width = takeWhile is_digit_char r1"
  define r2 where "r2 = drop (length width) r1"
  define precision where "precision = (case r2 of x # r3 \<Rightarrow> if x = CHR ''.'' then x # takeWhile is_digit_char r3 else [] | [] \<Rightarrow> [])"
  have "r = flags @ r1" "r1 = width @ r2" unfolding flags_def r1_def width_def r2_def by (simp_all only: cut)
  moreover have "precision @ drop (length precision) r2 = r2"
    by (cases r2) (auto simp: precision_def cut)
  moreover assume spec: "span_spec r = (spec, rest)"
  have "(flags @ width @ precision, drop (length precision) r2) = (spec, rest)"
    using spec unfolding span_spec_def Let_def flags_def r1_def width_def r2_def precision_def .
  then have "spec = flags @ width @ precision" "rest = drop (length precision) r2" by simp_all
  ultimately show ?thesis by simp
qed

lemma span_spec_length: "span_spec r = (spec, rest) \<Longrightarrow> length rest \<le> length r"
  using span_spec_append [of r spec rest] by (metis le_add2 length_append)

text \<open>
  The loop of \<open>insert_fprintf\<close>: \<open>acc\<close> is the text from \<open>format\<close> to \<open>scan\<close>, and the other argument what
  \<open>scan\<close> points to. The end of the string is a null character. A backslash in front of it is skipped
  together with it, and a directive that ends there is taken for a known one, as \<open>strchr\<close> finds the null
  character in any string; in both cases \<open>scan\<close> leaves the string.
\<close>

function scan_format :: "string \<Rightarrow> string \<Rightarrow> (build_error, segment list) outcome" where
  "scan_format acc [] = Ok (if acc \<noteq> [] then [make_segment acc KIND_PLAIN None None] else [])"
| "scan_format acc (x # r) =
     (if x = CHR 0x5C then
        (case r of
           [] \<Rightarrow> Undef
         | y # r' \<Rightarrow>
             if is_octal y then
               (let ds = take_while3 r in
                obind (scan_format [] (drop (length ds) r)) (\<lambda>segments.
                  Ok (make_segment (acc @ [octal_char ds]) KIND_PLAIN None None # segments)))
             else if y = CHR ''c'' then Ok [make_segment acc KIND_STOP None None]
             else (case simple_escape y of
                     Some z \<Rightarrow> obind (scan_format [] r') (\<lambda>segments.
                       Ok (make_segment (acc @ [z]) KIND_PLAIN None None # segments))
                   | None \<Rightarrow> scan_format (acc @ [x, y]) r'))
      else if x = CHR ''%'' then
        (case r of
           [] \<Rightarrow> Exit (Bad_format ''%'')
         | y # r' \<Rightarrow>
             if y = CHR ''%'' then
               obind (scan_format [] r') (\<lambda>segments.
                 Ok (make_segment (acc @ [x]) KIND_PLAIN None None # segments))
             else
               (let (spec, rest) = span_spec r in
                case rest of
                  [] \<Rightarrow> Undef
                | d # rest' \<Rightarrow>
                    if d \<in> set ''abcdDfFgGhHiklmMnpPsStuUyYZ'' then
                      obind (scan_format [] rest') (\<lambda>segments.
                        Ok (make_segment (acc @ x # spec) KIND_FORMAT (Some d) None # segments))
                    else if d \<in> set ''ABCT'' \<and> rest' \<noteq> [] then
                      obind (scan_format [] (tl rest')) (\<lambda>segments.
                        Ok (make_segment (acc @ x # spec) KIND_FORMAT (Some d) (Some (hd rest')) # segments))
                    else
                      obind (scan_format [] r) (\<lambda>segments.
                        Ok (make_segment acc KIND_PLAIN None None # segments))))
      else scan_format (acc @ [x]) r)"
  by pat_completeness auto

termination scan_format
proof (relation "measure (\<lambda>(acc, r). length r)", goal_cases)
  case (6 acc x r y r' u spec rest d rest')
  have "span_spec r = (spec, rest)" using 6 by simp
  from span_spec_length [OF this] have "length rest \<le> length r" .
  then show ?case using 6 by simp
next
  case (7 acc x r y r' u spec rest d rest')
  have "span_spec r = (spec, rest)" using 7 by simp
  from span_spec_length [OF this] have "length rest \<le> length r" .
  then show ?case using 7 by simp
qed auto

declare scan_format.simps [simp del]

subsection \<open>The parsers\<close>

text \<open>
  The node with the segments. After a \<open>\c\<close> the cost is raised to that of \<open>stat\<close> if \<open>need_stat\<close> is set.
\<close>

definition stops :: "segment list \<Rightarrow> bool" where
  "stops segments \<longleftrightarrow> list_ex (\<lambda>seg. case seg of Segment kind _ _ _ \<Rightarrow> kind = KIND_STOP) segments"

definition set_format :: "find_args \<Rightarrow> segment list \<Rightarrow> 'f find_pred \<Rightarrow> 'f find_pred" where
  "set_format vec segments p =
     (let p = (no_stat (with_effects p))\<lparr>p_cost := NeedsNothing\<rparr>;
          p = foldl segment_needs p segments;
          p = (if stops segments \<and> need_stat p \<and> p_cost p < NeedsStatInfo
               then p\<lparr>p_cost := NeedsStatInfo\<rparr> else p)
      in p\<lparr>args := (case vec of Printf_vec f \<Rightarrow> Some (Format_vec f segments) | _ \<Rightarrow> None)\<rparr>)"

definition insert_fprintf :: "'f parse_env \<Rightarrow> find_args \<Rightarrow> parser_entry \<Rightarrow> string \<Rightarrow> nat \<Rightarrow> 'f builder \<Rightarrow>
    'f parsed" where
  "insert_fprintf E vec e format i b =
     obind (scan_format [] format) (\<lambda>segments.
       Ok (True, i, insert_primary_withpred E e Pred_fprintf (Some format) (set_format vec segments) b))"

definition parse_printf :: "'f parse_env \<Rightarrow> parser_entry \<Rightarrow> string list \<Rightarrow> nat \<Rightarrow> 'f builder \<Rightarrow> 'f parsed" where
  "parse_printf E e argv i b =
     (case collect_arg argv i of
        (None, i) \<Rightarrow> Ok (False, i, b)
      | (Some format, i) \<Rightarrow> insert_fprintf E (Printf_vec 0) e format i b)"

definition parse_fprintf :: "'f parse_env \<Rightarrow> parser_entry \<Rightarrow> string list \<Rightarrow> nat \<Rightarrow> 'f builder \<Rightarrow> 'f parsed" where
  "parse_fprintf E e argv i b =
     (case collect_arg argv i of
        (None, _) \<Rightarrow> Ok (False, i, b)
      | (Some filename, j) \<Rightarrow>
          (case collect_arg argv j of
             (None, _) \<Rightarrow> Ok (False, i, b)
           | (Some format, j) \<Rightarrow>
               obind (open_output_file E filename b) (\<lambda>(vec, b). insert_fprintf E vec e format j b)))"

end
