(* ===== verification/FindTimes.thy ===== *)
theory FindTimes
  imports FindBuild
begin

text \<open>
  The parsers of tests on times (\<open>find/parser.c\<close>): relative to now or to midnight, and relative to the
  times of another file.

  The code computes with doubles, the definitions with exact numbers. For whole numbers the two agree
  up to \<open>2^53\<close>; a fraction of a second may differ by what rounding loses.
\<close>

subsection \<open>Options and settings\<close>

abbreviation set_option :: "(settings \<Rightarrow> settings) \<Rightarrow> 'f builder \<Rightarrow> 'f builder" where
  "set_option f b \<equiv> b\<lparr>b_settings := f (b_settings b)\<rparr>"

abbreviation cur_day_start :: "'f builder \<Rightarrow> timespec" where
  "cur_day_start b \<equiv> opt_cur_day_start (b_settings b)"

text \<open>Unless \<open>localtime\<close> fails, the day starts at midnight local time. No node is made.\<close>

definition parse_daystart :: "'f parse_env \<Rightarrow> nat \<Rightarrow> 'f builder \<Rightarrow> 'f parsed" where
  "parse_daystart E i b =
     (if opt_full_days (b_settings b) then Ok (True, i, b)
      else
        (let sec = tv_sec (cur_day_start b) + DAYSECS;
             since = (case local_time E sec of
                        Some (hour, minute, second) \<Rightarrow> second + minute * 60 + hour * 3600
                      | None \<Rightarrow> sec smod DAYSECS)
         in Ok (True, i, set_option (\<lambda>o1. o1\<lparr>opt_cur_day_start := \<lparr>tv_sec = sec - since, tv_nsec = 0\<rparr>,
              opt_full_days := True\<rparr>) b)))"

subsection \<open>Estimates\<close>

definition estimate_file_age_success_rate :: "'f parse_env \<Rightarrow> rat \<Rightarrow> 'f" where
  "estimate_file_age_success_rate E num_days =
     (if num_days < 1 / 10 then lit E ''0.01''
      else if num_days < 1 then lit E ''0.3''
      else if num_days > 100 then lit E ''0.3''
      else lit E ''0.39'')"

text \<open>The number of days is an \<open>int\<close>.\<close>

definition estimate_timestamp_success_rate :: "'f parse_env \<Rightarrow> 'f builder \<Rightarrow> int \<Rightarrow> 'f" where
  "estimate_timestamp_success_rate E b when =
     (let num_days = sint (word_of_int ((tv_sec (cur_day_start b) - when) sdiv 86400) :: 32 word)
      in estimate_file_age_success_rate E (of_int num_days))"

subsection \<open>Relative times\<close>

definition round_to_zero :: "rat \<Rightarrow> int" where
  "round_to_zero x = (if x < 0 then - \<lfloor>- x\<rfloor> else \<lfloor>x\<rfloor>)"

fun invert_comp :: "comparison_type \<Rightarrow> comparison_type" where
  "invert_comp COMP_LT = COMP_GT"
| "invert_comp COMP_GT = COMP_LT"
| "invert_comp COMP_EQ = COMP_EQ"

definition fits_time_t :: "int \<Rightarrow> bool" where
  "fits_time_t x \<longleftrightarrow> - (2 ^ 63) < x \<and> x < 2 ^ 63"

text \<open>
  \<open>modf\<close> splits the number of seconds towards zero, and the difference of the nanoseconds is cut in the
  same way when it is stored. What C leaves undefined, a number of seconds that is not finite or does
  not fit a \<open>time_t\<close>, is not modelled.
\<close>

definition get_relative_timestamp :: "'f parse_env \<Rightarrow> string \<Rightarrow> timespec \<Rightarrow> rat \<Rightarrow>
    (build_error, (comparison_type \<times> timespec) option) outcome" where
  "get_relative_timestamp E str origin sec_per_unit =
     (let (kind, rest) = get_comp_type str; kind = invert_comp kind in
      case xstrtod E rest of
        None \<Rightarrow> Ok None
      | Some Not_finite \<Rightarrow> Exit (Not_modelled str)
      | Some (Finite offset) \<Rightarrow>
          (let seconds = round_to_zero (offset * sec_per_unit);
               nanosec = (offset * sec_per_unit - of_int seconds) * 1000000000;
               sec = tv_sec origin - seconds
           in if \<not> fits_time_t sec then Exit (Not_modelled str)
              else if (tv_sec origin < sec) \<noteq> (seconds < 0) then Exit (Time_overflow str)
              else
                (let nsec = round_to_zero (of_int (tv_nsec origin) - nanosec)
                 in Ok (Some (kind,
                      if of_int (tv_nsec origin) < nanosec
                      then \<lparr>tv_sec = sec - 1, tv_nsec = nsec + 1000000000\<rparr>
                      else \<lparr>tv_sec = sec, tv_nsec = nsec\<rparr>)))))"

definition set_reftime :: "xval \<Rightarrow> comparison_type \<Rightarrow> timespec \<Rightarrow> 'f \<Rightarrow> 'f find_pred \<Rightarrow> 'f find_pred" where
  "set_reftime xv kind ts rate p = p\<lparr>args := Some (Reftime xv kind ts), est_success_rate := rate\<rparr>"

text \<open>Adding a day less a second is compared with itself, so the message about an overflow never comes.\<close>

definition parse_time :: "'f parse_env \<Rightarrow> parser_entry \<Rightarrow> string list \<Rightarrow> nat \<Rightarrow> 'f builder \<Rightarrow> 'f parsed" where
  "parse_time E e argv i b =
     (case collect_arg argv i of
        (None, i) \<Rightarrow> Ok (False, i, b)
      | (Some timearg, j) \<Rightarrow>
          (let origin = cur_day_start b;
               origin = (if fst (get_comp_type timearg) = COMP_LT
                         then origin\<lparr>tv_sec := tv_sec origin + (DAYSECS - 1)\<rparr> else origin)
           in obind (get_relative_timestamp E timearg origin (of_int DAYSECS)) (\<lambda>r.
                case r of
                  None \<Rightarrow> Ok (False, i, b)
                | Some (kind, ts) \<Rightarrow>
                    accept j (insert_primary E e (Some timearg) (set_reftime (stale_xval E) kind ts
                      (estimate_timestamp_success_rate E b (tv_sec ts))) b))))"

definition do_parse_xmin :: "'f parse_env \<Rightarrow> parser_entry \<Rightarrow> xval \<Rightarrow> string list \<Rightarrow> nat \<Rightarrow> 'f builder \<Rightarrow>
    'f parsed" where
  "do_parse_xmin E e xv argv i b =
     (case collect_arg argv i of
        (None, i) \<Rightarrow> Ok (False, i, b)
      | (Some minutes, j) \<Rightarrow>
          (let origin = cur_day_start b; origin = origin\<lparr>tv_sec := tv_sec origin + DAYSECS\<rparr>
           in obind (get_relative_timestamp E minutes origin 60) (\<lambda>r.
                case r of
                  None \<Rightarrow> Ok (False, i, b)
                | Some (kind, ts) \<Rightarrow>
                    accept j (insert_primary E e (Some minutes) (set_reftime xv kind ts
                      (estimate_timestamp_success_rate E b (tv_sec ts))) b))))"

definition parse_amin :: "'f parse_env \<Rightarrow> parser_entry \<Rightarrow> string list \<Rightarrow> nat \<Rightarrow> 'f builder \<Rightarrow> 'f parsed" where
  "parse_amin E e argv i b = do_parse_xmin E e XVAL_ATIME argv i b"

definition parse_cmin :: "'f parse_env \<Rightarrow> parser_entry \<Rightarrow> string list \<Rightarrow> nat \<Rightarrow> 'f builder \<Rightarrow> 'f parsed" where
  "parse_cmin E e argv i b = do_parse_xmin E e XVAL_CTIME argv i b"

definition parse_mmin :: "'f parse_env \<Rightarrow> parser_entry \<Rightarrow> string list \<Rightarrow> nat \<Rightarrow> 'f builder \<Rightarrow> 'f parsed" where
  "parse_mmin E e argv i b = do_parse_xmin E e XVAL_MTIME argv i b"

definition parse_used :: "'f parse_env \<Rightarrow> parser_entry \<Rightarrow> string list \<Rightarrow> nat \<Rightarrow> 'f builder \<Rightarrow> 'f parsed" where
  "parse_used E e argv i b =
     (case collect_arg argv i of
        (None, i) \<Rightarrow> Ok (False, i, b)
      | (Some offset_str, i) \<Rightarrow>
          obind (get_relative_timestamp E offset_str \<lparr>tv_sec = 0, tv_nsec = 0\<rparr> (of_int DAYSECS)) (\<lambda>r.
            case r of
              None \<Rightarrow> Exit (Invalid_argument offset_str ''-used'')
            | Some (kind, ts) \<Rightarrow>
                accept i (insert_primary E e (Some offset_str) (set_reftime (stale_xval E) kind ts
                  (estimate_file_age_success_rate E (of_int (tv_sec ts sdiv DAYSECS)))) b)))"

subsection \<open>Times of other files\<close>

text \<open>
  \<open>options.xstat\<close> while the command line is read: \<open>state.curdepth\<close> is 0. A failure ends the program
  (\<open>fatal_target_file_error\<close>).
\<close>

definition stat_at_start :: "'f parse_env \<Rightarrow> 'f builder \<Rightarrow> string \<Rightarrow> (build_error, fstat) outcome" where
  "stat_at_start E b name =
     (case xstat ((surroundings E)\<lparr>curdepth := 0, symlink_handling := opt_symlink_handling (b_settings b)\<rparr>)
        name of
        Inr st \<Rightarrow> Ok st
      | Inl err \<Rightarrow> Exit (File_error name))"

definition collect_arg_stat_info :: "'f parse_env \<Rightarrow> 'f builder \<Rightarrow> string list \<Rightarrow> nat \<Rightarrow>
    (build_error, (string \<times> fstat) option \<times> nat) outcome" where
  "collect_arg_stat_info E b argv i =
     (case collect_arg argv i of
        (None, i) \<Rightarrow> Ok (None, i)
      | (Some filename, i) \<Rightarrow> obind (stat_at_start E b filename) (\<lambda>st. Ok (Some (filename, st), i)))"

text \<open>The common text of \<open>parse_anewer\<close>, \<open>parse_cnewer\<close> and \<open>parse_newer\<close>.\<close>

definition insert_newer :: "'f parse_env \<Rightarrow> parser_entry \<Rightarrow> xval \<Rightarrow> string list \<Rightarrow> nat \<Rightarrow> 'f builder \<Rightarrow>
    'f parsed" where
  "insert_newer E e xv argv i b =
     obind (collect_arg_stat_info E b argv i) (\<lambda>(r, i).
       case r of
         None \<Rightarrow> Ok (False, i, b)
       | Some (arg, stat_newer) \<Rightarrow>
           accept i (insert_primary E e (Some arg) (set_reftime xv COMP_GT (stat_mtime stat_newer)
             (estimate_timestamp_success_rate E b (tv_sec (stat_mtime stat_newer)))) b))"

definition parse_anewer :: "'f parse_env \<Rightarrow> parser_entry \<Rightarrow> string list \<Rightarrow> nat \<Rightarrow> 'f builder \<Rightarrow> 'f parsed" where
  "parse_anewer E e argv i b = insert_newer E e XVAL_ATIME argv i b"

definition parse_cnewer :: "'f parse_env \<Rightarrow> parser_entry \<Rightarrow> string list \<Rightarrow> nat \<Rightarrow> 'f builder \<Rightarrow> 'f parsed" where
  "parse_cnewer E e argv i b = insert_newer E e XVAL_CTIME argv i b"

definition parse_newer :: "'f parse_env \<Rightarrow> parser_entry \<Rightarrow> string list \<Rightarrow> nat \<Rightarrow> 'f builder \<Rightarrow> 'f parsed" where
  "parse_newer E e argv i b = insert_newer E e XVAL_MTIME argv i b"

text \<open>\<open>get_stat_Ytime\<close>; a file without a birth time has a negative number of nanoseconds.\<close>

definition get_stat_Ytime :: "fstat \<Rightarrow> char \<Rightarrow> timespec option" where
  "get_stat_Ytime p what =
     (if what = CHR ''a'' then Some (stat_atime p)
      else if what = CHR ''B'' then
        (if tv_nsec (stat_birthtime p) \<ge> 0 then Some (stat_birthtime p) else None)
      else if what = CHR ''c'' then Some (stat_ctime p)
      else Some (stat_mtime p))"

definition xval_of :: "char \<Rightarrow> xval" where
  "xval_of x =
     (if x = CHR ''a'' then XVAL_ATIME else if x = CHR ''B'' then XVAL_BIRTHTIME
      else if x = CHR ''c'' then XVAL_CTIME else XVAL_MTIME)"

text \<open>The time of \<open>-newerXY\<close>: a date, or the time \<open>Y\<close> of a file.\<close>

definition reference_time :: "'f parse_env \<Rightarrow> 'f builder \<Rightarrow> char \<Rightarrow> string \<Rightarrow> (build_error, timespec) outcome"
where
  "reference_time E b y arg =
     (if y = CHR ''t'' then
        (case parse_datetime E arg of Some ts \<Rightarrow> Ok ts | None \<Rightarrow> Exit (Bad_time arg))
      else obind (stat_at_start E b arg) (\<lambda>st.
        case get_stat_Ytime st y of Some ts \<Rightarrow> Ok ts | None \<Rightarrow> Exit (No_birth_time arg)))"

text \<open>
  The name of the test is still to be skipped. Without \<open>have_birthtime\<close> the system has no birth times.
\<close>

definition parse_newerXY :: "'f parse_env \<Rightarrow> parser_entry \<Rightarrow> string list \<Rightarrow> nat \<Rightarrow> 'f builder \<Rightarrow> 'f parsed" where
  "parse_newerXY E e argv i b =
     (if i \<ge> length argv then Ok (False, i, b)
      else if length (argv ! i) \<noteq> 8 then Ok (False, i, b)
      else if take 6 (argv ! i) \<noteq> ''-newer'' then Undef
      else
        (let x = argv ! i ! 6; y = argv ! i ! 7 in
         if \<not> have_birthtime E \<and> (x = CHR ''B'' \<or> y = CHR ''B'') then Ok (False, i, b)
         else if x = CHR ''t'' \<or> x \<notin> set ''aBcmt'' \<or> y \<notin> set ''aBcmt'' then Ok (False, i, b)
         else if i + 1 \<ge> length argv then Exit (Argument_needed (argv ! i))
         else
           obind (reference_time E b y (argv ! (i + 1))) (\<lambda>ts.
             accept (i + 2) (insert_primary E e (Some (argv ! (i + 1))) (set_reftime (xval_of x) COMP_GT ts
               (estimate_timestamp_success_rate E b (tv_sec ts))) b))))"

end
