(* ===== verification/FindExec.thy ===== *)
theory FindExec
  imports FindBuild
begin

text \<open>
  The parsers of \<open>-exec\<close>, \<open>-execdir\<close>, \<open>-ok\<close> and \<open>-okdir\<close> (\<open>insert_exec_ok\<close> of \<open>find/parser.c\<close>), which use
  \<open>lib/buildcmd.c\<close> for the limits and for the words in front of \<open>{} +\<close>.
\<close>

text \<open>\<open>PATH\<close> may be missing. No element is empty, as \<open>next_element\<close> puts a dot for it.\<close>

definition check_path_safety :: "'f parse_env \<Rightarrow> (build_error, unit) outcome" where
  "check_path_safety E =
     (case search_path E of
        None \<Rightarrow> Ok ()
      | Some path \<Rightarrow>
          (case find (\<lambda>s. s = ''.'' \<or> take 1 s \<noteq> ''/'') (path_elements True (init_path path)) of
             None \<Rightarrow> Ok ()
           | Some s \<Rightarrow> Exit (Unsafe_path s)))"

text \<open>
  The loop over the words of the command, given those left and the number of words before. \<open>off\<close> is what
  is missing to the index into \<open>argv\<close>. The result is the number of words before the one that ends the
  command, whether that is a \<open>+\<close>, how many words contain braces, and the last of them.
\<close>

fun scan_command :: "nat \<Rightarrow> bool \<Rightarrow> bool \<Rightarrow> string list \<Rightarrow> nat \<Rightarrow> bool \<Rightarrow> nat \<Rightarrow> string \<Rightarrow>
    (build_error, nat \<times> bool \<times> nat \<times> string) outcome" where
  "scan_command off allow_plus local [] n saw_braces brace_count brace_arg =
     Ok (n, False, brace_count, brace_arg)"
| "scan_command off allow_plus local (w # ws) n saw_braces brace_count brace_arg =
     (if w = '';'' then Ok (n, False, brace_count, brace_arg)
      else if allow_plus \<and> w = ''+'' \<and> saw_braces then Ok (n, True, brace_count, brace_arg)
      else if find_string ''{}'' w \<noteq> None then
        (if off + n = 0 \<and> local then Exit Braces_in_utility_name
         else scan_command off allow_plus local ws (n + 1) True (brace_count + 1) w)
      else scan_command off allow_plus local ws (n + 1) False brace_count brace_arg)"

text \<open>
  When as many words are there as the limit of pointers allows, \<open>bc_push_arg\<close> would start the command
  before the command line has been read. This is not modelled; the callback ends the program.
\<close>

definition no_launch :: "unit bc_callback" where
  "no_launch built running u = Exit (Client_exit 0, u)"

definition exec_error :: "('e, 'a) outcome \<Rightarrow> ('e \<Rightarrow> bc_error) \<Rightarrow> (build_error, 'a) outcome" where
  "exec_error r f =
     (case r of Ok a \<Rightarrow> Ok a | Exit err \<Rightarrow> Exit (Exec_error (f err)) | Undef \<Rightarrow> Undef | Diverge \<Rightarrow> Diverge)"

text \<open>
  The words in front of \<open>{} +\<close>, whose number is remembered in advance. \<open>junk\<close> is what the new buffer
  contains; for the parser it makes no difference.
\<close>

definition plus_control :: "bc_control \<Rightarrow> string list \<Rightarrow> bc_control" where
  "plus_control ctl words =
     ctl\<lparr>replace_pat := None, lines_per_exec := 0, args_per_exec := 0, initial_argc := length words\<rparr>"

definition exec_buffer :: "bc_control \<Rightarrow> (nat \<Rightarrow> char) \<Rightarrow> 'u bc_callback \<Rightarrow> 'u \<Rightarrow> string list \<Rightarrow>
    (build_error, 'u bc_state) outcome" where
  "exec_buffer ctl junk cb u words =
     obind (exec_error (bc_init_state ctl junk u) (\<lambda>_. Cannot_exec)) (\<lambda>s.
       exec_error (ofold (\<lambda>w. bc_push_arg ctl cb w (length w + 1) None 0 True) words s) fst)"

definition gather_initial :: "bc_control \<Rightarrow> string list \<Rightarrow> (build_error, unit) outcome" where
  "gather_initial ctl words =
     obind (exec_buffer (plus_control ctl words) (\<lambda>n. CHR 0x00) no_launch () words) (\<lambda>s. Ok ())"

text \<open>The limits, with room for 2048 bytes.\<close>

definition exec_control :: "'f parse_env \<Rightarrow> (build_error, bc_control) outcome" where
  "exec_control E =
     (case bc_init_controlinfo (system_arg_max E) (environ E) 2048 of
        Ok (BC_INIT_OK ctl) \<Rightarrow> Ok (bc_use_sensible_arg_max ctl)
      | Ok _ \<Rightarrow> Exit Environment_too_large
      | Exit _ \<Rightarrow> Undef | Undef \<Rightarrow> Undef | Diverge \<Rightarrow> Diverge)"

definition set_exec :: "string \<Rightarrow> string list \<Rightarrow> bool \<Rightarrow> 'f find_pred \<Rightarrow> 'f find_pred" where
  "set_exec program words multiple p =
     (no_stat (with_effects p))\<lparr>args := Some (Exec_vec program words), exec_multiple := multiple\<rparr>"

text \<open>
  What is checked when the command ends in \<open>{} +\<close>.
\<close>

definition check_braces :: "nat \<Rightarrow> string \<Rightarrow> (build_error, unit) outcome" where
  "check_braces brace_count brace_arg =
     (if brace_count > 1 then Exit Too_many_braces
      else if length brace_arg \<noteq> 2 then Exit (Braces_not_alone brace_arg) else Ok ())"

text \<open>
  When there is no command the node that was already inserted is freed, though the list still points to
  it; the program ends then, and the node is left out here.
\<close>

definition insert_exec_ok :: "'f parse_env \<Rightarrow> parser_entry \<Rightarrow> pred_func \<Rightarrow> string list \<Rightarrow> nat \<Rightarrow> 'f builder \<Rightarrow>
    'f parsed" where
  "insert_exec_ok E e func argv i b =
     (if i \<ge> length argv then Ok (False, i, b)
      else
        (let allow_plus = (func \<noteq> Pred_okdir \<and> func \<noteq> Pred_ok); local = is_exec_in_local_dir func in
         obind (if local then check_path_safety E else Ok ()) (\<lambda>_.
         let b = (if local then b\<lparr>b_settings := (b_settings b)\<lparr>opt_ignore_readdir_race := False\<rparr>\<rparr> else b) in
         obind (scan_command (argv_offset E + i) allow_plus local (drop i argv) 0 False 0 [])
           (\<lambda>(n, multiple, brace_count, brace_arg).
         if n = 0 \<or> i + n \<ge> length argv then Ok (False, i + n, b)
         else
           (let words = take (if multiple then n - 1 else n) (drop i argv) in
            obind (if multiple then check_braces brace_count brace_arg else Ok ()) (\<lambda>_.
            obind (exec_control E) (\<lambda>ctl.
            obind (if multiple then gather_initial ctl words else Ok ()) (\<lambda>_.
            Ok (True, i + n + 1, insert_primary_withpred E e func (Some ''(some -exec* arguments)'')
              (set_exec (argv ! i) words multiple) b)))))))))"

definition parse_exec :: "'f parse_env \<Rightarrow> parser_entry \<Rightarrow> string list \<Rightarrow> nat \<Rightarrow> 'f builder \<Rightarrow> 'f parsed" where
  "parse_exec E e argv i b = insert_exec_ok E e (the (e_pred_func e)) argv i b"

definition parse_execdir :: "'f parse_env \<Rightarrow> parser_entry \<Rightarrow> string list \<Rightarrow> nat \<Rightarrow> 'f builder \<Rightarrow> 'f parsed" where
  "parse_execdir E e argv i b = insert_exec_ok E e (the (e_pred_func e)) argv i b"

definition parse_ok :: "'f parse_env \<Rightarrow> parser_entry \<Rightarrow> string list \<Rightarrow> nat \<Rightarrow> 'f builder \<Rightarrow> 'f parsed" where
  "parse_ok E e argv i b = insert_exec_ok E e (the (e_pred_func e)) argv i b"

definition parse_okdir :: "'f parse_env \<Rightarrow> parser_entry \<Rightarrow> string list \<Rightarrow> nat \<Rightarrow> 'f builder \<Rightarrow> 'f parsed" where
  "parse_okdir E e argv i b = insert_exec_ok E e (the (e_pred_func e)) argv i b"

end
