(* ===== verification/FindPrimaries.thy ===== *)
theory FindPrimaries
  imports FindFormat FindTimes FindExec
begin

text \<open>
  The remaining parsers (\<open>find/parser.c\<close>): options, regular expressions, permissions, groups, file
  systems and the identity of a file; then the call through the table, the list of predicates and
  \<open>build_expression_tree\<close> (\<open>find/tree.c\<close>).
\<close>

subsection \<open>Options\<close>

text \<open>\<open>parse_noop\<close> calls \<open>parse_true\<close> with the entry named \<open>noop\<close>.\<close>

definition parse_noop :: "'f parse_env \<Rightarrow> nat \<Rightarrow> 'f builder \<Rightarrow> 'f parsed" where
  "parse_noop E i b = parse_true E noop_entry i b"

definition parse_d :: "'f parse_env \<Rightarrow> nat \<Rightarrow> 'f builder \<Rightarrow> 'f parsed" where
  "parse_d E i b = parse_depth E i b"

definition insert_depthspec :: "'f parse_env \<Rightarrow> (int \<Rightarrow> settings \<Rightarrow> settings) \<Rightarrow> string list \<Rightarrow> nat \<Rightarrow>
    'f builder \<Rightarrow> 'f parsed" where
  "insert_depthspec E set_limit argv i b =
     (case collect_arg argv i of
        (None, i) \<Rightarrow> Ok (False, i, b)
      | (Some depthstr, i) \<Rightarrow>
          if depthstr \<noteq> [] \<and> list_all is_digit_char depthstr then
            obind (read_int depthstr) (\<lambda>limit.
              if limit \<ge> 0 then parse_noop E i (set_option (set_limit limit) b) else Exit (Bad_depth depthstr))
          else Exit (Bad_depth depthstr))"

definition parse_maxdepth :: "'f parse_env \<Rightarrow> string list \<Rightarrow> nat \<Rightarrow> 'f builder \<Rightarrow> 'f parsed" where
  "parse_maxdepth E argv i b = insert_depthspec E (\<lambda>n opts. opts\<lparr>opt_maxdepth := n\<rparr>) argv i b"

definition parse_mindepth :: "'f parse_env \<Rightarrow> string list \<Rightarrow> nat \<Rightarrow> 'f builder \<Rightarrow> 'f parsed" where
  "parse_mindepth E argv i b = insert_depthspec E (\<lambda>n opts. opts\<lparr>opt_mindepth := n\<rparr>) argv i b"

definition parse_xdev :: "'f parse_env \<Rightarrow> nat \<Rightarrow> 'f builder \<Rightarrow> 'f parsed" where
  "parse_xdev E i b = parse_noop E i (set_option (\<lambda>opts. opts\<lparr>opt_stay_on_filesystem := True\<rparr>) b)"

definition parse_ignore_race :: "'f parse_env \<Rightarrow> nat \<Rightarrow> 'f builder \<Rightarrow> 'f parsed" where
  "parse_ignore_race E i b = parse_noop E i (set_option (\<lambda>opts. opts\<lparr>opt_ignore_readdir_race := True\<rparr>) b)"

definition parse_noignore_race :: "'f parse_env \<Rightarrow> nat \<Rightarrow> 'f builder \<Rightarrow> 'f parsed" where
  "parse_noignore_race E i b = parse_noop E i (set_option (\<lambda>opts. opts\<lparr>opt_ignore_readdir_race := False\<rparr>) b)"

definition parse_noleaf :: "'f parse_env \<Rightarrow> nat \<Rightarrow> 'f builder \<Rightarrow> 'f parsed" where
  "parse_noleaf E i b = parse_noop E i (set_option (\<lambda>opts. opts\<lparr>opt_no_leaf_check := True\<rparr>) b)"

definition parse_warn :: "'f parse_env \<Rightarrow> nat \<Rightarrow> 'f builder \<Rightarrow> 'f parsed" where
  "parse_warn E i b = parse_noop E i (set_option (\<lambda>opts. opts\<lparr>opt_warnings := True\<rparr>) b)"

definition parse_nowarn :: "'f parse_env \<Rightarrow> nat \<Rightarrow> 'f builder \<Rightarrow> 'f parsed" where
  "parse_nowarn E i b = parse_noop E i (set_option (\<lambda>opts. opts\<lparr>opt_warnings := False\<rparr>) b)"

text \<open>
  The choice of \<open>options.xstat\<close> follows from the symbolic link option and is made in \<open>xstat\<close>;
  \<open>debug_stat\<close>, which \<open>-D stat\<close> puts there, chooses in the same way.
\<close>

definition set_follow_state :: "SymlinkOption \<Rightarrow> settings \<Rightarrow> settings" where
  "set_follow_state opt opts =
     (let opts =
        (if ''stat'' \<in> set (opt_debug opts) then opts
         else case opt of
            SYMLINK_ALWAYS_DEREF \<Rightarrow> opts\<lparr>opt_no_leaf_check := True\<rparr>
          | SYMLINK_NEVER_DEREF \<Rightarrow> opts
          | SYMLINK_DEREF_ARGSONLY \<Rightarrow> opts\<lparr>opt_no_leaf_check := True\<rparr>)
      in opts\<lparr>opt_symlink_handling := opt\<rparr>)"

definition parse_follow :: "'f parse_env \<Rightarrow> nat \<Rightarrow> 'f builder \<Rightarrow> 'f parsed" where
  "parse_follow E i b = parse_noop E i (set_option (set_follow_state SYMLINK_ALWAYS_DEREF) b)"

definition parse_help :: "'f parsed" where "parse_help = Exit Help_shown"
definition parse_version :: "'f parsed" where "parse_version = Exit Version_shown"

subsection \<open>Regular expressions\<close>

definition parse_regextype :: "'f parse_env \<Rightarrow> string list \<Rightarrow> nat \<Rightarrow> 'f builder \<Rightarrow> 'f parsed" where
  "parse_regextype E argv i b =
     (case collect_arg argv i of
        (None, i) \<Rightarrow> Ok (False, i, b)
      | (Some type_name, i) \<Rightarrow>
          (case get_regex_type type_name of
             Ok v \<Rightarrow> parse_noop E i (set_option (\<lambda>opts. opts\<lparr>opt_regex_options := v\<rparr>) b)
           | Exit _ \<Rightarrow> Exit (Bad_regextype type_name)
           | Undef \<Rightarrow> Undef | Diverge \<Rightarrow> Diverge))"

text \<open>The regular expression is compiled with the syntax; only then is the test accepted.\<close>

definition set_regex :: "'f parse_env \<Rightarrow> int \<Rightarrow> string \<Rightarrow> 'f find_pred \<Rightarrow> 'f find_pred" where
  "set_regex E regex_options rx p =
     (no_stat p)\<lparr>args := Some (Regex regex_options rx),
       est_success_rate := lit E (if has_wildcard rx \<or> CHR ''.'' \<in> set rx then ''0.8'' else ''0.1'')\<rparr>"

definition insert_regex :: "'f parse_env \<Rightarrow> parser_entry \<Rightarrow> int \<Rightarrow> string list \<Rightarrow> nat \<Rightarrow> 'f builder \<Rightarrow>
    'f parsed" where
  "insert_regex E e regex_options argv i b =
     (case collect_arg argv i of
        (None, i) \<Rightarrow> Ok (False, i, b)
      | (Some rx, i) \<Rightarrow>
          if \<not> re_compile E regex_options rx then Exit (Bad_regex rx)
          else Ok (True, i, insert_primary_withpred E e Pred_regex (Some rx) (set_regex E regex_options rx) b))"

definition parse_regex :: "'f parse_env \<Rightarrow> parser_entry \<Rightarrow> string list \<Rightarrow> nat \<Rightarrow> 'f builder \<Rightarrow> 'f parsed" where
  "parse_regex E e argv i b = insert_regex E e (opt_regex_options (b_settings b)) argv i b"

definition parse_iregex :: "'f parse_env \<Rightarrow> parser_entry \<Rightarrow> string list \<Rightarrow> nat \<Rightarrow> 'f builder \<Rightarrow> 'f parsed" where
  "parse_iregex E e argv i b = insert_regex E e (opt_regex_options (b_settings b) OR RE_ICASE) argv i b"

subsection \<open>Other tests\<close>

text \<open>
  The estimate reads the member \<open>numinfo\<close> of the union, where only \<open>gid\<close> has been set: the word it finds
  there is whatever the memory contained.
\<close>

definition parse_group :: "'f parse_env \<Rightarrow> parser_entry \<Rightarrow> string list \<Rightarrow> nat \<Rightarrow> 'f builder \<Rightarrow> 'f parsed"
where
  "parse_group E e argv i b =
     (case collect_arg argv i of
        (None, i) \<Rightarrow> Ok (False, i, b)
      | (Some groupname, i) \<Rightarrow>
          obind
            (case getgrnam E groupname of
               Some g \<Rightarrow> Ok g
             | None \<Rightarrow>
                 if groupname \<noteq> [] \<and> list_all is_digit_char groupname
                 then obind (read_int groupname) (\<lambda>v. Ok (nat (v mod 2 ^ 32)))
                 else Exit (Unknown_group groupname))
            (\<lambda>g. accept i (insert_primary E e (Some groupname)
              (\<lambda>p. p\<lparr>args := Some (Gid g),
                est_success_rate := lit E (if stale_word E < 100 then ''0.99'' else ''0.2'')\<rparr>) b)))"

definition non_posix_mode :: "'f parse_env \<Rightarrow> string \<Rightarrow> (build_error, unit) outcome" where
  "non_posix_mode E mode = (if posixly_correct E then Exit (Bad_mode mode) else Ok ())"

text \<open>The kind, the text of the mode, and the rate, from the first character.\<close>

definition perm_kind :: "'f parse_env \<Rightarrow> string \<Rightarrow> (build_error, permissions_type \<times> string \<times> string) outcome"
where
  "perm_kind E perm_expr =
     (case perm_expr of
        c # rest \<Rightarrow>
          if c = CHR ''-'' then Ok (PERM_AT_LEAST, rest, ''0.2'')
          else if c = CHR ''+'' then
            (if mode_bits E perm_expr = None
             then obind (non_posix_mode E perm_expr) (\<lambda>_. Ok (PERM_ANY, rest, ''0.3''))
             else Ok (PERM_EXACT, perm_expr, ''0.1''))
          else if c = CHR ''/'' then obind (non_posix_mode E perm_expr) (\<lambda>_. Ok (PERM_ANY, rest, ''0.3''))
          else Ok (PERM_EXACT, perm_expr, ''0.01'')
      | [] \<Rightarrow> Ok (PERM_EXACT, perm_expr, ''0.01''))"

definition parse_perm :: "'f parse_env \<Rightarrow> parser_entry \<Rightarrow> string list \<Rightarrow> nat \<Rightarrow> 'f builder \<Rightarrow> 'f parsed" where
  "parse_perm E e argv i b =
     (case collect_arg argv i of
        (None, i) \<Rightarrow> Ok (False, i, b)
      | (Some perm_expr, i) \<Rightarrow>
          obind (perm_kind E perm_expr) (\<lambda>(kind, mode, rate).
            case mode_bits E mode of
              None \<Rightarrow> Exit (Bad_mode perm_expr)
            | Some bits \<Rightarrow>
                (let v0 = bits False; v1 = bits True;
                     (kind, rate) = (if take 1 perm_expr = ''/'' \<and> v0 = 0 \<and> v1 = 0
                                     then (PERM_AT_LEAST, ''0.9986'') else (kind, rate))
                 in accept i (insert_primary E e (Some perm_expr)
                   (\<lambda>p. p\<lparr>est_success_rate := lit E rate, args := Some (Perm kind v0 v1)\<rparr>) b))))"

definition estimate_fstype_success_rate :: "'f parse_env \<Rightarrow> string \<Rightarrow> 'f" where
  "estimate_fstype_success_rate E fsname =
     (case root_fs_type E of
        Some fstype \<Rightarrow> lit E (if fsname = fstype then ''0.7'' else ''0.3'')
      | None \<Rightarrow> lit E ''1.0'')"

definition is_used_fs_type :: "'f parse_env \<Rightarrow> string \<Rightarrow> bool" where
  "is_used_fs_type E name \<longleftrightarrow>
     (if name = ''afs'' then True
      else (case mounted_types E of Some types \<Rightarrow> name \<in> set types | None \<Rightarrow> True))"

text \<open>A list of mounted file systems that is empty is NULL. \<open>insert_false\<close> makes the node of \<open>-false\<close>.\<close>

definition insert_false :: "'f parse_env \<Rightarrow> nat \<Rightarrow> 'f builder \<Rightarrow> 'f parsed" where
  "insert_false E i b =
     (case find_parser ''false'' of
        None \<Rightarrow> Undef
      | Some entry_false \<Rightarrow>
          insert_test E entry_false (\<lambda>p. (no_stat p)\<lparr>side_effects := False, no_default_print := False,
            est_success_rate := lit E ''0.0''\<rparr>) i b)"

definition parse_fstype :: "'f parse_env \<Rightarrow> parser_entry \<Rightarrow> string list \<Rightarrow> nat \<Rightarrow> 'f builder \<Rightarrow> 'f parsed" where
  "parse_fstype E e argv i b =
     (case collect_arg argv i of
        (None, i) \<Rightarrow> Ok (False, i, b)
      | (Some typename, i) \<Rightarrow>
          if opt_level (b_settings b) < 2 \<or> is_used_fs_type E typename then
            accept i (insert_primary E e (Some typename)
              (\<lambda>p. p\<lparr>args := Some (Str typename), est_success_rate := estimate_fstype_success_rate E typename\<rparr>) b)
          else insert_false E i b)"

definition parse_context :: "'f parse_env \<Rightarrow> parser_entry \<Rightarrow> string list \<Rightarrow> nat \<Rightarrow> 'f builder \<Rightarrow> 'f parsed" where
  "parse_context E e argv i b =
     (if i \<ge> length argv then Ok (False, i, b)
      else if \<not> selinux_enabled E then Exit No_selinux
      else accept (i + 1) (insert_primary E e None
        (\<lambda>p. p\<lparr>est_success_rate := lit E ''0.01'', need_stat := False, args := Some (Scontext (argv ! i))\<rparr>) b))"

text \<open>
  \<open>parse_samefile\<close>: when the file can be opened, what \<open>fstat\<close> says of the descriptor counts, except with
  \<open>-P\<close> on a system that cannot open without following links. The second \<open>stat\<close> is taken to answer as the
  first. The descriptor is kept open only so that the inode number is not used again.
\<close>

definition samefile_stat :: "'f parse_env \<Rightarrow> 'f builder \<Rightarrow> string \<Rightarrow> fstat \<Rightarrow> (build_error, fstat) outcome"
where
  "samefile_stat E b filename st =
     (let never = (opt_symlink_handling (b_settings b) = SYMLINK_NEVER_DEREF) in
      if never \<and> \<not> nofollow_available E \<and> S_ISLNK (st_mode st) then Ok st
      else case open_stat E filename (never \<and> nofollow_available E) of
        None \<Rightarrow> Ok st
      | Some (Inl _) \<Rightarrow> Exit (File_error filename)
      | Some (Inr opened) \<Rightarrow>
          obind (stat_at_start E b filename) (\<lambda>st.
            Ok (if never \<and> \<not> nofollow_available E then st else opened)))"

definition parse_samefile :: "'f parse_env \<Rightarrow> parser_entry \<Rightarrow> string list \<Rightarrow> nat \<Rightarrow> 'f builder \<Rightarrow> 'f parsed" where
  "parse_samefile E e argv i b =
     obind (collect_arg_stat_info E b argv i) (\<lambda>(r, i).
       case r of
         None \<Rightarrow> Ok (False, i, b)
       | Some (filename, st) \<Rightarrow>
           obind (samefile_stat E b filename st) (\<lambda>st.
             accept i (insert_primary E e (Some filename)
               (\<lambda>p. p\<lparr>args := Some (Samefileid (st_ino st) (st_dev st)), need_type := False,
                 need_stat := True, est_success_rate := lit E ''0.01''\<rparr>) b)))"

subsection \<open>The call through the table\<close>

text \<open>The call through the function pointer of the entry, which is NULL in the entry named \<open>noop\<close>.\<close>

fun run_parser :: "'f parse_env \<Rightarrow> parser_entry \<Rightarrow> string list \<Rightarrow> nat \<Rightarrow> 'f builder \<Rightarrow> 'f parsed" where
  "run_parser E e argv i b =
     (case parser_func e of
        Parse_negate \<Rightarrow> parse_negate E i b
      | Parse_openparen \<Rightarrow> parse_openparen E i b
      | Parse_closeparen \<Rightarrow> parse_closeparen E i b
      | Parse_comma \<Rightarrow> parse_comma E i b
      | Parse_and \<Rightarrow> parse_and E i b
      | Parse_or \<Rightarrow> parse_or E i b
      | Parse_true \<Rightarrow> parse_true E e i b
      | Parse_false \<Rightarrow> parse_false E e i b
      | Parse_print \<Rightarrow> parse_print E e i b
      | Parse_print0 \<Rightarrow> parse_print0 E e i b
      | Parse_prune \<Rightarrow> parse_prune E e i b
      | Parse_quit \<Rightarrow> parse_quit E e i b
      | Parse_delete \<Rightarrow> parse_delete E e i b
      | Parse_depth \<Rightarrow> parse_depth E i b
      | Parse_empty \<Rightarrow> parse_empty E e i b
      | Parse_nouser \<Rightarrow> parse_nouser E e i b
      | Parse_nogroup \<Rightarrow> parse_nogroup E e i b
      | Parse_accesscheck \<Rightarrow> parse_accesscheck E e i b
      | Parse_name \<Rightarrow> parse_name E e argv i b
      | Parse_iname \<Rightarrow> parse_iname E e argv i b
      | Parse_path \<Rightarrow> parse_path E e argv i b
      | Parse_ipath \<Rightarrow> parse_ipath E e argv i b
      | Parse_lname \<Rightarrow> parse_lname E e argv i b
      | Parse_ilname \<Rightarrow> parse_ilname E e argv i b
      | Parse_gid \<Rightarrow> parse_gid E e argv i b
      | Parse_uid \<Rightarrow> parse_uid E e argv i b
      | Parse_links \<Rightarrow> parse_links E e argv i b
      | Parse_inum \<Rightarrow> parse_inum E e argv i b
      | Parse_user \<Rightarrow> parse_user E e argv i b
      | Parse_size \<Rightarrow> parse_size E e argv i b
      | Parse_type \<Rightarrow> parse_type E e argv i b
      | Parse_xtype \<Rightarrow> parse_xtype E e argv i b
      | Parse_ls \<Rightarrow> parse_ls E e i b
      | Parse_fls \<Rightarrow> parse_fls E e argv i b
      | Parse_fprint \<Rightarrow> parse_fprint E e argv i b
      | Parse_fprint0 \<Rightarrow> parse_fprint0 E e argv i b
      | Parse_d \<Rightarrow> parse_d E i b
      | Parse_daystart \<Rightarrow> parse_daystart E i b
      | Parse_wholename \<Rightarrow> parse_wholename E e argv i b
      | Parse_iwholename \<Rightarrow> parse_iwholename E e argv i b
      | Parse_maxdepth \<Rightarrow> parse_maxdepth E argv i b
      | Parse_mindepth \<Rightarrow> parse_mindepth E argv i b
      | Parse_help \<Rightarrow> parse_help
      | Parse_version \<Rightarrow> parse_version
      | Parse_regextype \<Rightarrow> parse_regextype E argv i b
      | Parse_regex \<Rightarrow> parse_regex E e argv i b
      | Parse_iregex \<Rightarrow> parse_iregex E e argv i b
      | Parse_group \<Rightarrow> parse_group E e argv i b
      | Parse_perm \<Rightarrow> parse_perm E e argv i b
      | Parse_fstype \<Rightarrow> parse_fstype E e argv i b
      | Parse_context \<Rightarrow> parse_context E e argv i b
      | Parse_samefile \<Rightarrow> parse_samefile E e argv i b
      | Parse_anewer \<Rightarrow> parse_anewer E e argv i b
      | Parse_cnewer \<Rightarrow> parse_cnewer E e argv i b
      | Parse_newer \<Rightarrow> parse_newer E e argv i b
      | Parse_newerXY \<Rightarrow> parse_newerXY E e argv i b
      | Parse_amin \<Rightarrow> parse_amin E e argv i b
      | Parse_cmin \<Rightarrow> parse_cmin E e argv i b
      | Parse_mmin \<Rightarrow> parse_mmin E e argv i b
      | Parse_time \<Rightarrow> parse_time E e argv i b
      | Parse_used \<Rightarrow> parse_used E e argv i b
      | Parse_printf \<Rightarrow> parse_printf E e argv i b
      | Parse_fprintf \<Rightarrow> parse_fprintf E e argv i b
      | Parse_exec \<Rightarrow> parse_exec E e argv i b
      | Parse_execdir \<Rightarrow> parse_execdir E e argv i b
      | Parse_ok \<Rightarrow> parse_ok E e argv i b
      | Parse_okdir \<Rightarrow> parse_okdir E e argv i b
      | Parse_xdev \<Rightarrow> parse_xdev E i b
      | Parse_follow \<Rightarrow> parse_follow E i b
      | Parse_noleaf \<Rightarrow> parse_noleaf E i b
      | Parse_ignore_race \<Rightarrow> parse_ignore_race E i b
      | Parse_noignore_race \<Rightarrow> parse_noignore_race E i b
      | Parse_warn \<Rightarrow> parse_warn E i b
      | Parse_nowarn \<Rightarrow> parse_nowarn E i b
      | No_parser \<Rightarrow> Undef)"

declare run_parser.simps [simp del]

subsection \<open>The list of predicates\<close>

definition set_last :: "('f find_pred \<Rightarrow> 'f find_pred) \<Rightarrow> 'f builder \<Rightarrow> 'f builder" where
  "set_last f b = b\<lparr>predicates := butlast (predicates b) @ map f [last (predicates b)]\<rparr>"

text \<open>
  The loop over the arguments from index \<open>i\<close>. The fuel is an upper bound of the number of arguments
  left; each round takes at least one.
\<close>

fun parse_arguments :: "'f parse_env \<Rightarrow> nat \<Rightarrow> string list \<Rightarrow> nat \<Rightarrow> 'f builder \<Rightarrow>
    (build_error, 'f builder) outcome" where
  "parse_arguments E 0 argv i b = (if i < length argv then Diverge else Ok b)"
| "parse_arguments E (Suc n) argv i b =
     (if \<not> i < length argv then Ok b
      else if \<not> looks_like_expression (argv ! i) False then Exit (Paths_must_precede (argv ! i))
      else case find_parser (argv ! i) of
        None \<Rightarrow> Exit (Unknown_predicate (argv ! i))
      | Some e \<Rightarrow>
          (let oldi = (if e_type e \<noteq> ARG_SPECIAL_PARSE then i + 1 else i) in
           obind (run_parser E e argv oldi b) (\<lambda>(ok, i', b).
             if \<not> ok then
               Exit (if i' < length argv then
                       (if e_type e = ARG_SPECIAL_PARSE \<and> i' = oldi then Invalid_predicate (argv ! i)
                        else Invalid_argument (argv ! i') (argv ! i))
                     else Missing_argument (argv ! i))
             else parse_arguments E n argv i'
               (set_last (\<lambda>p. p\<lparr>p_name := argv ! i,
                  arg_text := (if i' \<noteq> oldi then Some (argv ! oldi) else None)\<rparr>) b))))"

text \<open>The first three options are as \<open>set_option_defaults\<close> leaves them; no option before the start points
  changes them.\<close>

definition empty_builder :: "'f parse_env \<Rightarrow> 'f builder" where
  "empty_builder E = \<lparr>predicates = [], b_do_dir_first = True, b_explicit_depth = False, b_literal = False,
     b_shared_files = sharefile_init ''w'', b_settings = leading_options E\<rparr>"

text \<open>The parentheses and the \<open>-print\<close> that are added when nothing the user wrote prints.\<close>

definition print_entry :: parser_entry where
  "print_entry = entry ARG_ACTION ''print'' Parse_print (Some Pred_print)"

definition complete_list :: "'f parse_env \<Rightarrow> 'f builder \<Rightarrow> (build_error, 'f find_pred list) outcome" where
  "complete_list E b =
     (if tl (predicates b) = [] then
        obind (parse_print E print_entry 0 (b\<lparr>predicates := []\<rparr>))
          (\<lambda>(_, _, b). Ok (predicates (set_last (\<lambda>p. p\<lparr>p_name := ''-print''\<rparr>) b)))
      else if \<not> default_prints (tl (predicates b)) then Ok (tl (predicates b))
      else
        (let b = set_last (\<lambda>p. p\<lparr>p_name := '')'', artificial := True\<rparr>)
               (insert_operator E False Pred_closeparen CLOSE_PAREN NO_PREC b)
         in obind (parse_print E print_entry 0 b)
           (\<lambda>(_, _, b). Ok (predicates (set_last (\<lambda>p. p\<lparr>p_name := ''-print'', artificial := True\<rparr>) b)))))"

text \<open>The arguments are those after the start points.\<close>

definition predicate_list :: "'f parse_env \<Rightarrow> string list \<Rightarrow>
    (build_error, 'f builder \<times> 'f find_pred list) outcome" where
  "predicate_list E argv =
     (let b = set_last (\<lambda>p. p\<lparr>p_name := ''('', artificial := True\<rparr>)
            (insert_operator E True Pred_openparen OPEN_PAREN NO_PREC (empty_builder E))
      in obind (parse_arguments E (length argv) argv 0 b) (\<lambda>b.
           obind (complete_list E b) (\<lambda>ps. Ok (b, ps))))"

definition build_expression_tree :: "'f flt \<Rightarrow> 'f parse_env \<Rightarrow> string list \<Rightarrow>
    (build_error, 'f builder \<times> (find_args, 'f) ptree) outcome" where
  "build_expression_tree F E argv =
     obind (predicate_list E argv) (\<lambda>(b, ps).
       case finish_tree F \<lparr>optimisation_level = opt_level (b_settings b), opt_literal_control_chars = b_literal b,
              explicit_depth = b_explicit_depth b\<rparr> ps of
         Ok t \<Rightarrow> Ok (b, t) | Exit err \<Rightarrow> Exit (Tree_error err) | Undef \<Rightarrow> Undef | Diverge \<Rightarrow> Diverge)"

end
