(* ===== verification/FindNodes.thy ===== *)
theory FindNodes
  imports FindPrimaries
begin

text \<open>
  The nodes that the parsers make are well formed: what a node has to be, and the parsers of operators
  and of the simpler primaries.
\<close>

subsection \<open>The table\<close>

text \<open>The functions that an entry with a parser may have, for the parsers that use the one of the entry.\<close>

fun entry_funcs :: "parse_func \<Rightarrow> pred_func option list" where
  "entry_funcs Parse_true = [Some Pred_true]"
| "entry_funcs Parse_false = [Some Pred_false]"
| "entry_funcs Parse_print = [Some Pred_print]"
| "entry_funcs Parse_print0 = [Some Pred_print0]"
| "entry_funcs Parse_prune = [Some Pred_prune]"
| "entry_funcs Parse_quit = [Some Pred_quit]"
| "entry_funcs Parse_delete = [Some Pred_delete]"
| "entry_funcs Parse_empty = [Some Pred_empty]"
| "entry_funcs Parse_nouser = [Some Pred_nouser]"
| "entry_funcs Parse_nogroup = [Some Pred_nogroup]"
| "entry_funcs Parse_accesscheck = [Some Pred_executable, Some Pred_readable, Some Pred_writable]"
| "entry_funcs Parse_name = [Some Pred_name]"
| "entry_funcs Parse_iname = [Some Pred_iname]"
| "entry_funcs Parse_lname = [Some Pred_lname]"
| "entry_funcs Parse_ilname = [Some Pred_ilname]"
| "entry_funcs Parse_gid = [Some Pred_gid]"
| "entry_funcs Parse_uid = [Some Pred_uid]"
| "entry_funcs Parse_links = [Some Pred_links]"
| "entry_funcs Parse_inum = [Some Pred_inum]"
| "entry_funcs Parse_user = [Some Pred_user]"
| "entry_funcs Parse_size = [Some Pred_size]"
| "entry_funcs Parse_ls = [Some Pred_ls]"
| "entry_funcs Parse_fls = [Some Pred_fls]"
| "entry_funcs Parse_fprint = [Some Pred_fprint]"
| "entry_funcs Parse_fprint0 = [Some Pred_fprint0]"
| "entry_funcs Parse_anewer = [Some Pred_anewer]"
| "entry_funcs Parse_cnewer = [Some Pred_cnewer]"
| "entry_funcs Parse_newer = [Some Pred_newer]"
| "entry_funcs Parse_newerXY = [Some Pred_newerXY]"
| "entry_funcs Parse_amin = [Some Pred_amin]"
| "entry_funcs Parse_cmin = [Some Pred_cmin]"
| "entry_funcs Parse_mmin = [Some Pred_mmin]"
| "entry_funcs Parse_used = [Some Pred_used]"
| "entry_funcs Parse_group = [Some Pred_group]"
| "entry_funcs Parse_perm = [Some Pred_perm]"
| "entry_funcs Parse_fstype = [Some Pred_fstype]"
| "entry_funcs Parse_context = [Some Pred_context]"
| "entry_funcs Parse_samefile = [Some Pred_samefile]"
| "entry_funcs Parse_exec = [Some Pred_exec]"
| "entry_funcs Parse_execdir = [Some Pred_execdir]"
| "entry_funcs Parse_ok = [Some Pred_ok]"
| "entry_funcs Parse_okdir = [Some Pred_okdir]"
| "entry_funcs Parse_time = [Some Pred_atime, Some Pred_ctime, Some Pred_mtime]"
| "entry_funcs _ = []"

definition entry_ok :: "parser_entry \<Rightarrow> bool" where
  "entry_ok e \<longleftrightarrow> entry_funcs (parser_func e) \<noteq> [] \<longrightarrow> e_pred_func e \<in> set (entry_funcs (parser_func e))"

lemma parse_table_ok: "list_all entry_ok parse_table"
  by code_simp

lemma find_parser_ok: "find_parser name = Some e \<Longrightarrow> entry_ok e"
  using parse_table_ok
  by (auto simp: find_parser_def find_Some_iff list_all_length Let_def parse_entry_newerXY_def
    entry_ok_def split: if_splits)

lemma special_newerXY:
  assumes "find_parser name = Some e"
  shows "e_type e = ARG_SPECIAL_PARSE \<longleftrightarrow> parser_func e = Parse_newerXY"
    "parser_func e = Parse_newerXY \<Longrightarrow> take 6 name = ''-newer''"
proof -
  have "list_all (\<lambda>e. e_type e \<noteq> ARG_SPECIAL_PARSE \<and> parser_func e \<noteq> Parse_newerXY) parse_table" by code_simp
  then have "(e_type e = ARG_SPECIAL_PARSE \<longleftrightarrow> parser_func e = Parse_newerXY) \<and>
      (parser_func e = Parse_newerXY \<longrightarrow> take 6 name = ''-newer'')"
    using assms by (auto simp: find_parser_def find_Some_iff list_all_length Let_def parse_entry_newerXY_def
      split: if_splits)
  then show "e_type e = ARG_SPECIAL_PARSE \<longleftrightarrow> parser_func e = Parse_newerXY"
    "parser_func e = Parse_newerXY \<Longrightarrow> take 6 name = ''-newer''" by blast+
qed

subsection \<open>Nodes\<close>

text \<open>A node as a parser leaves it; \<open>d\<close> is \<open>options.do_dir_first\<close>.\<close>

definition node_ok :: "bool \<Rightarrow> 'f find_pred \<Rightarrow> bool" where
  "node_ok d p \<longleftrightarrow> wf_pred p \<and> (p_type p = PRIMARY_TYPE \<longrightarrow>
     arg_ok (pred_func p) (args p) \<and>
     (stat_reader (pred_func p) \<longrightarrow> need_stat p) \<and>
     (pred_func p = Pred_type \<longrightarrow> need_type p) \<and>
     (pred_func p = Pred_inum \<longrightarrow> need_inum p) \<and>
     (pred_func p = Pred_prune \<and> d \<longrightarrow> need_stat p) \<and>
     (action_func (pred_func p) \<longrightarrow> side_effects p))"

lemma node_ok_valid:
  assumes "node_ok (do_dir_first e) p" and "is_primary p"
  shows "valid e p"
  using assms by (auto simp: node_ok_def valid_def valid_pred_def wf_pred.simps)

lemma node_ok_mono: "node_ok d p \<Longrightarrow> (d' \<longrightarrow> d) \<Longrightarrow> node_ok d' p"
  by (auto simp: node_ok_def)

lemma node_ok_name [simp]:
  "node_ok d (p\<lparr>p_name := n\<rparr>) \<longleftrightarrow> node_ok d p"
  "node_ok d (p\<lparr>arg_text := a\<rparr>) \<longleftrightarrow> node_ok d p"
  "node_ok d (p\<lparr>artificial := x\<rparr>) \<longleftrightarrow> node_ok d p"
  by (cases "p_type p"; simp add: node_ok_def wf_pred.simps needs_nothing_def)+

definition built :: "'f builder \<Rightarrow> bool" where
  "built b \<longleftrightarrow> (\<forall>p\<in>set (predicates b). node_ok (b_do_dir_first b) p)"

lemma built_append: "built b \<Longrightarrow> node_ok (b_do_dir_first b) p \<Longrightarrow> built (append_pred p b)"
  by (auto simp: built_def append_pred_def)

lemma append_keeps [simp]: "b_do_dir_first (append_pred p b) = b_do_dir_first b"
  "predicates (append_pred p b) = predicates b @ [p]"
  "b_literal (append_pred p b) = b_literal b"
  by (simp_all add: append_pred_def)

lemma built_interpose: "built b \<Longrightarrow> built (interpose_and E b)"
  by (auto simp: interpose_and_def new_pred_def node_ok_def wf_pred.simps needs_nothing_def
    intro!: built_append)

lemma interpose_keeps [simp]: "b_do_dir_first (interpose_and E b) = b_do_dir_first b"
  by (simp add: interpose_and_def)

lemma built_operator:
  assumes "built b" and "ty = UNI_OP \<and> pr = NEGATE_PREC \<and> fn = Pred_negate \<or> ty = BI_OP \<and> biop_func pr = Some fn \<or>
    ty = OPEN_PAREN \<and> pr = NO_PREC \<and> fn = Pred_openparen \<or> ty = CLOSE_PAREN \<and> pr = NO_PREC \<and> fn = Pred_closeparen"
  shows "built (insert_operator E chk fn ty pr b)"
proof -
  have "built (if chk then interpose_and E b else b)" using assms(1) built_interpose by auto
  then show ?thesis unfolding insert_operator_def Let_def
    using assms(2) by (intro built_append) (auto simp: new_pred_def node_ok_def wf_pred.simps needs_nothing_def)
qed

text \<open>What a parser makes of the default node of a primary.\<close>

definition default_node :: "'f parse_env \<Rightarrow> bool \<Rightarrow> pred_func \<Rightarrow> string option \<Rightarrow> string \<Rightarrow> 'f find_pred" where
  "default_node E literal fn arg name =
     \<lparr>pred_func = fn, p_name = name, p_type = PRIMARY_TYPE, p_prec = NO_PREC, side_effects = False,
      no_default_print = False, need_stat = True, need_type = True, need_inum = False,
      p_cost = NeedsUnknown, est_success_rate = lit E ''1.0'', literal_control_chars = literal,
      artificial = False, arg_text = arg, args = None, exec_multiple = False\<rparr>"

lemma built_primary:
  assumes "built b" and "\<And>literal. node_ok (b_do_dir_first b) (f (default_node E literal fn arg (parser_name e)))"
  shows "built (insert_primary_withpred E e fn arg f b)"
proof -
  have "(new_pred E (interpose_and E b) fn PRIMARY_TYPE NO_PREC arg)\<lparr>p_name := parser_name e\<rparr> =
      default_node E (b_literal (interpose_and E b)) fn arg (parser_name e)"
    by (simp add: new_pred_def default_node_def)
  then show ?thesis using assms(2) built_interpose [OF assms(1)]
    by (simp add: insert_primary_withpred_def Let_def built_append)
qed

lemma insert_primary_keeps [simp]:
  "b_do_dir_first (insert_primary_withpred E e fn arg f b) = b_do_dir_first b"
  "predicates (insert_primary_withpred E e fn arg f b) \<noteq> []"
  "predicates (insert_operator E chk fn ty pr b) \<noteq> []"
  by (simp_all add: insert_primary_withpred_def insert_operator_def Let_def)

lemma sharefile_fopen_returns: "sharefile_fopen S name h \<noteq> Undef" "sharefile_fopen S name h \<noteq> Diverge"
  by (auto simp: sharefile_fopen_def entry_free_def Let_def split: option.splits)

subsection \<open>What a parser returns\<close>

text \<open>\<open>may\<close> says whether the behaviour may be undefined.\<close>

definition parsed_ok :: "bool \<Rightarrow> nat \<Rightarrow> 'f parsed \<Rightarrow> bool" where
  "parsed_ok may i r \<longleftrightarrow>
     (case r of
        Ok (ok, i', b') \<Rightarrow> built b' \<and> (ok \<longrightarrow> i \<le> i' \<and> predicates b' \<noteq> [])
      | Exit err \<Rightarrow> True
      | Undef \<Rightarrow> may
      | Diverge \<Rightarrow> False)"

lemma accept_ok:
  "r = Some b' \<Longrightarrow> built b' \<Longrightarrow> predicates b' \<noteq> [] \<Longrightarrow> i \<le> i' \<Longrightarrow> parsed_ok may i (accept i' r)"
  by (simp add: parsed_ok_def accept_def)

lemma insert_ok:
  assumes "built b" and "e_pred_func e = Some fn" and "i \<le> i'"
    and "\<And>literal. node_ok (b_do_dir_first b) (f (default_node E literal fn arg (parser_name e)))"
  shows "parsed_ok may i (accept i' (insert_primary E e arg f b))"
proof (rule accept_ok)
  show "insert_primary E e arg f b = Some (insert_primary_withpred E e fn arg f b)"
    using assms(2) by (simp add: insert_primary_def)
  show "built (insert_primary_withpred E e fn arg f b)"
    by (rule built_primary [OF assms(1)]) (rule assms(4))
qed (simp_all add: assms(3))

lemma insert_test_ok:
  assumes "built b" and "e_pred_func e = Some fn"
    and "\<And>literal. node_ok (b_do_dir_first b) (f (default_node E literal fn None (parser_name e)))"
  shows "parsed_ok may i (insert_test E e f i b)"
  unfolding insert_test_def by (rule insert_ok [OF assms(1,2) order_refl]) (rule assms(3))

lemma insert_str_ok:
  assumes "built b" and "fn = Some fn'"
    and "\<And>literal a. node_ok (b_do_dir_first b) (f a (default_node E literal fn' (Some a) (parser_name e)))"
  shows "parsed_ok may i (insert_str E e fn f argv i b)"
proof (cases "i < length argv")
  case True
  have "built (insert_primary_withpred E e fn' (Some (argv ! i)) (f (argv ! i)) b)"
    by (rule built_primary [OF assms(1)]) (rule assms(3))
  then show ?thesis using True assms(2)
    by (simp add: insert_str_def collect_arg_def accept_def parsed_ok_def)
next
  case False
  then show ?thesis using assms(1) by (simp add: insert_str_def collect_arg_def parsed_ok_def)
qed

lemma insert_num_ok:
  assumes "built b" and "e_pred_func e = Some fn"
    and "\<And>literal a n k. node_ok (b_do_dir_first b)
      (f n ((default_node E literal fn a (parser_name e))\<lparr>args := Some (Numinfo k n)\<rparr>))"
  shows "parsed_ok may i (insert_num E e f argv i b)"
proof (cases "Option.bind (fst (collect_arg argv i)) (get_num E)")
  case None
  then show ?thesis using assms(1) by (simp add: insert_num_def split_beta Let_def parsed_ok_def)
next
  case (Some x)
  have "i \<le> snd (collect_arg argv i)" by (simp add: collect_arg_def)
  then show ?thesis
    using Some insert_ok [OF assms(1,2), of i "snd (collect_arg argv i)"] assms(3)
    by (cases x) (simp add: insert_num_def split_beta Let_def)
qed

lemmas node_simps = default_node_def node_ok_def wf_pred.simps arg_ok.simps stat_reader_def action_func_def

lemma parsed_ok_bind:
  assumes "m \<noteq> Undef \<or> may" and "m \<noteq> Diverge" and "\<And>a. m = Ok a \<Longrightarrow> parsed_ok may i (f a)"
  shows "parsed_ok may i (obind m f)"
  using assms by (cases m) (auto simp: parsed_ok_def)

text \<open>Opening a file only changes the table of open files.\<close>

lemma open_output_ok:
  assumes "built b" and "\<And>k h. parsed_ok may i (g (Printf_vec k, b\<lparr>b_shared_files := h\<rparr>))"
  shows "parsed_ok may i (obind (open_output_file E path b) g)"
proof (rule parsed_ok_bind)
  show "parsed_ok may i (g a)" if "open_output_file E path b = Ok a" for a
    using that assms(2) assms(2) [of _ "b_shared_files b"]
    by (auto simp: open_output_file_def split: if_splits outcome.splits option.splits)
qed (auto simp: open_output_file_def sharefile_fopen_returns split: outcome.splits option.splits)

lemma insert_fls_ok:
  assumes "built b" and "e_pred_func e = Some fn" and "fn = Pred_ls \<or> fn = Pred_fls" and "i \<le> i'"
  shows "parsed_ok may i (insert_fls E e filename i' b)"
  unfolding insert_fls_def
proof (rule open_output_ok [OF assms(1)], unfold prod.case)
  fix k h
  have "built (b\<lparr>b_shared_files := h\<rparr>)" using assms(1) by (simp add: built_def)
  from insert_ok [OF this assms(2,4)] assms(3)
  show "parsed_ok may i (accept i' (insert_primary E e None
      (\<lambda>p. (with_effects p)\<lparr>args := Some (Printf_vec k), est_success_rate := lit E ''1.0''\<rparr>) (b\<lparr>b_shared_files := h\<rparr>)))"
    by (auto simp: node_simps)
qed

lemma insert_fprint_ok:
  assumes "built b" and "e_pred_func e = Some fn" and "fn \<in> {Pred_fprint, Pred_fprint0, Pred_print0}" and "i \<le> i'"
  shows "parsed_ok may i (insert_fprint E e filename i' b)"
  unfolding insert_fprint_def
proof (rule open_output_ok [OF assms(1)], unfold prod.case)
  fix k h
  have "built (b\<lparr>b_shared_files := h\<rparr>)" using assms(1) by (simp add: built_def)
  from insert_ok [OF this assms(2,4)] assms(3)
  show "parsed_ok may i (accept i' (insert_primary E e filename
      (\<lambda>p. (no_stat (with_effects p))\<lparr>args := Some (Printf_vec k), est_success_rate := lit E ''1.0''\<rparr>)
      (b\<lparr>b_shared_files := h\<rparr>)))"
    by (auto simp: node_simps)
qed

lemma read_int_returns: "read_int s \<noteq> Undef" "read_int s \<noteq> Diverge"
  by (simp_all add: read_int_def safe_atoi_def split_beta Let_def)

lemma collected:
  assumes "built b" and "\<And>a. i < length argv \<Longrightarrow> a = argv ! i \<Longrightarrow> parsed_ok may i (g a (Suc i))"
  shows "parsed_ok may i (case collect_arg argv i of (None, j) \<Rightarrow> Ok (False, j, b) | (Some a, j) \<Rightarrow> g a j)"
  using assms by (simp add: collect_arg_def parsed_ok_def)

lemma numeric_returns:
  "(case r of Some u \<Rightarrow> Ok u | None \<Rightarrow> if c then obind (read_int s) (\<lambda>v. Ok (h v)) else Exit err) \<noteq> Undef"
  "(case r of Some u \<Rightarrow> Ok u | None \<Rightarrow> if c then obind (read_int s) (\<lambda>v. Ok (h v)) else Exit err) \<noteq> Diverge"
  using read_int_returns [of s] by (auto simp: obind_eqs split: option.splits)

lemma parse_user_ok:
  assumes "built b" and "e_pred_func e = Some Pred_user"
  shows "parsed_ok may i (parse_user E e argv i b)"
  unfolding parse_user_def
  by (intro collected parsed_ok_bind insert_ok [OF assms] disjI1 numeric_returns assms(1))
    (simp_all add: node_simps)

lemma parse_group_ok:
  assumes "built b" and "e_pred_func e = Some Pred_group"
  shows "parsed_ok may i (parse_group E e argv i b)"
  unfolding parse_group_def
  by (intro collected parsed_ok_bind insert_ok [OF assms] disjI1 numeric_returns assms(1))
    (simp_all add: node_simps)

lemma size_suffix_pos: "size_suffix c = Some (k, s) \<Longrightarrow> k \<noteq> 0"
  by (auto simp: size_suffix_def split: if_splits)

lemma parse_size_ok:
  assumes "built b" and "e_pred_func e = Some Pred_size"
  shows "parsed_ok may i (parse_size E e argv i b)"
proof -
  have ins: "parsed_ok may i (accept (Suc i) (insert_primary E e a (\<lambda>p. p\<lparr>args := Some (Size k bs n), need_stat := True,
      need_type := False, est_success_rate := x\<rparr>) b))" if "bs \<noteq> 0" for a k bs n x
    using that by (intro insert_ok [OF assms]) (simp_all add: node_simps)
  show ?thesis
  proof (cases "i < length argv \<and> argv ! i \<noteq> []")
    case True
    then show ?thesis
      using ins size_suffix_pos
      by (cases "size_suffix (last (argv ! i))")
        (auto simp: parse_size_def Let_def parsed_ok_def split: option.splits if_splits)
  next
    case False
    then show ?thesis using assms(1) by (auto simp: parse_size_def parsed_ok_def Let_def)
  qed
qed

lemma type_letter_nonzero: "type_letter c = Some (m, r) \<Longrightarrow> m \<noteq> 0"
  by (auto simp: type_letter_def S_IFBLK_def S_IFCHR_def S_IFDIR_def S_IFREG_def S_IFLNK_def
    S_IFIFO_def S_IFSOCK_def split: if_splits)

lemma insert_type_ok:
  assumes "built b" and "fn = Pred_type \<or> fn = Pred_xtype"
  shows "parsed_ok may i (insert_type E e fn argv i b)"
proof (cases "i < length argv \<and> length (argv ! i) = 1 \<and> type_letter (hd (argv ! i)) \<noteq> None")
  case True
  then obtain m r where m: "type_letter (hd (argv ! i)) = Some (m, r)" by auto
  have "built (insert_primary_withpred E e fn a (\<lambda>p. p\<lparr>est_success_rate := x, need_stat := (fn = Pred_xtype),
      need_type := (fn \<noteq> Pred_xtype), args := Some (Type_arg m)\<rparr>) b)" for a x
    using assms(2) type_letter_nonzero [OF m] by (intro built_primary [OF assms(1)]) (auto simp: node_simps)
  then show ?thesis using True m by (simp add: insert_type_def collect_arg_def parsed_ok_def)
next
  case False
  then show ?thesis using assms(1)
    by (auto simp: insert_type_def collect_arg_def parsed_ok_def split: option.splits)
qed

lemma built_delete: "built b \<Longrightarrow> built (b\<lparr>b_do_dir_first := False, b_explicit_depth := x\<rparr>)"
  "built b \<Longrightarrow> built (b\<lparr>b_do_dir_first := False\<rparr>)"
  by (auto simp: built_def intro: node_ok_mono)

lemma parse_true_ok: "built b \<Longrightarrow> e_pred_func e = Some Pred_true \<Longrightarrow> parsed_ok may i (parse_true E e i b)"
  unfolding parse_true_def by (rule insert_test_ok, assumption, assumption) (simp add: node_simps)

lemma parse_print_ok: "built b \<Longrightarrow> e_pred_func e = Some Pred_print \<Longrightarrow> parsed_ok may i (parse_print E e i b)"
  unfolding parse_print_def by (rule insert_test_ok, assumption, assumption) (simp add: node_simps)

end
