(* ===== verification/BuildcmdLog.thy ===== *)
theory BuildcmdLog
  imports Buildcmd
begin

text \<open>
  What building command lines promises: the arguments handed over are those pushed, in order, in
  commands that keep the limits, and no write leaves the buffer.
\<close>

subsection \<open>The invariant\<close>

definition ptr_ok :: "char list \<Rightarrow> nat \<Rightarrow> nat option \<Rightarrow> bool" where
  "ptr_ok buf n p \<longleftrightarrow> (\<exists>off. p = Some off \<and> string_ends buf off n)"

definition weight :: "string list \<Rightarrow> nat" where
  "weight strs = sum_list (map (\<lambda>s. length s + 1) strs)"

text \<open>The strings of the command being built, and the initial ones among them.\<close>

definition bc_strings :: "'u bc_state \<Rightarrow> string list" where
  "bc_strings s = strings_of (argbuf s) (cmd_argv s)"

definition bc_initial :: "bc_control \<Rightarrow> 'u bc_state \<Rightarrow> string list" where
  "bc_initial ctl s = take (initial_argc ctl) (bc_strings s)"

definition bc_pending :: "bc_control \<Rightarrow> 'u bc_state \<Rightarrow> string list" where
  "bc_pending ctl s = drop (initial_argc ctl) (bc_strings s)"

definition bc_inv :: "bc_control \<Rightarrow> 'u bc_state \<Rightarrow> bool" where
  "bc_inv ctl s \<longleftrightarrow>
     length (argbuf s) = arg_max ctl + 1 \<and> initial_argc ctl \<le> cmd_argc s \<and>
     cmd_argc s \<le> cmd_argv_alloc s \<and>
     cmd_initial_argv_chars s \<le> cmd_argv_chars s \<and> cmd_argv_chars s \<le> arg_max ctl \<and>
     (\<forall>p\<in>set (cmd_argv s). ptr_ok (argbuf s) (cmd_argv_chars s) p) \<and>
     (\<forall>p\<in>set (take (initial_argc ctl) (cmd_argv s)). ptr_ok (argbuf s) (cmd_initial_argv_chars s) p) \<and>
     weight (bc_strings s) \<le> cmd_argv_chars s \<and> weight (bc_initial ctl s) \<le> cmd_initial_argv_chars s"

lemma ptr_ok_Some: "ptr_ok buf n p \<Longrightarrow> p \<noteq> None"
  by (auto simp: ptr_ok_def)

lemma takeWhile_no_null: "None \<notin> set ps \<Longrightarrow> takeWhile (\<lambda>p. p \<noteq> None) ps = ps"
  by (rule takeWhile_eq_all_conv [THEN iffD2]) (intro ballI notI, simp)

lemma strings_of_Some: "None \<notin> set ps \<Longrightarrow> strings_of buf ps = map (\<lambda>p. string_at buf (the p)) ps"
  by (simp add: strings_of_def takeWhile_no_null del: not_None_eq)

lemma strings_of_append_None: "None \<notin> set ps \<Longrightarrow> strings_of buf (ps @ None # qs) = strings_of buf ps"
  by (induction ps) (auto simp: strings_of_def)

lemma ptr_ok_strcpy:
  assumes "strcpy m s buf = Some buf'" and "n \<le> m" and "ptr_ok buf n p"
  shows "ptr_ok buf' n p" "string_at buf' (the p) = string_at buf (the p)"
  using assms strcpy_keeps [OF assms(1,2)] by (auto simp: ptr_ok_def)

lemma ptr_ok_mono: "ptr_ok buf n p \<Longrightarrow> n \<le> m \<Longrightarrow> m \<le> length buf \<Longrightarrow> ptr_ok buf m p"
  by (auto simp: ptr_ok_def intro: string_ends_mono)

lemma weight_append [simp]: "weight (xs @ ys) = weight xs + weight ys"
  by (simp add: weight_def)

lemma weight_simps [simp]: "weight [] = 0" "weight (x # xs) = length x + 1 + weight xs"
  by (simp_all add: weight_def)

lemma weight_take_drop: "weight (take n xs) + weight (drop n xs) = weight xs"
  using weight_append [of "take n xs" "drop n xs"] by simp

lemma strings_of_take: "None \<notin> set ps \<Longrightarrow> strings_of buf (take n ps) = take n (strings_of buf ps)"
  by (subst (1 2) strings_of_Some) (auto simp: take_map dest: in_set_takeD)

lemma strings_of_drop: "None \<notin> set ps \<Longrightarrow> strings_of buf (drop n ps) = drop n (strings_of buf ps)"
  by (subst (1 2) strings_of_Some) (auto simp: drop_map dest: in_set_dropD)

lemma inv_Some: "bc_inv ctl s \<Longrightarrow> None \<notin> set (cmd_argv s)"
  unfolding bc_inv_def using ptr_ok_Some by blast

lemma inv_length: "bc_inv ctl s \<Longrightarrow> length (bc_strings s) = cmd_argc s"
  by (simp add: bc_strings_def strings_of_Some [OF inv_Some])

lemma inv_pending: "bc_inv ctl s \<Longrightarrow> length (bc_pending ctl s) = cmd_argc s - initial_argc ctl"
  by (simp add: bc_pending_def inv_length)

lemma inv_clear:
  assumes inv: "bc_inv ctl s"
  shows "bc_strings (bc_clear_args ctl s) = bc_initial ctl s"
    "bc_initial ctl (bc_clear_args ctl s) = bc_initial ctl s" "bc_pending ctl (bc_clear_args ctl s) = []"
    "bc_inv ctl (bc_clear_args ctl s)"
proof -
  have strs: "bc_strings (bc_clear_args ctl s) = bc_initial ctl s"
    by (simp add: bc_strings_def bc_initial_def bc_clear_args_def strings_of_take [OF inv_Some [OF inv]])
  then show "bc_strings (bc_clear_args ctl s) = bc_initial ctl s" .
  show i: "bc_initial ctl (bc_clear_args ctl s) = bc_initial ctl s"
    unfolding bc_initial_def [of ctl "bc_clear_args ctl s"] strs by (simp add: bc_initial_def)
  show "bc_pending ctl (bc_clear_args ctl s) = []"
    unfolding bc_pending_def strs by (simp add: bc_initial_def)
  show "bc_inv ctl (bc_clear_args ctl s)"
    unfolding bc_inv_def strs i using inv
    by (simp add: bc_inv_def bc_clear_args_def min_def)
qed

subsection \<open>What the callback is given\<close>

lemma strings_of_copy_args:
  assumes "cmd_argv s = ps @ [None]" and "None \<notin> set ps" and "initial_argc ctl + done \<le> length ps"
  shows "strings_of (argbuf s) (copy_args ctl s limit done) =
      take (initial_argc ctl) (strings_of (argbuf s) ps) @
      take (limit - initial_argc ctl) (drop done (drop (initial_argc ctl) (strings_of (argbuf s) ps)))"
    and "length (copy_args ctl s limit done) =
      initial_argc ctl + min (limit - initial_argc ctl) (length ps - initial_argc ctl - done + 1)"
proof -
  let ?i = "initial_argc ctl" and ?k = "limit - initial_argc ctl"
  define qs where "qs = take ?i ps @ take ?k (drop (?i + done) ps)"
  have qs: "None \<notin> set qs" using assms(2) by (auto simp: qs_def dest: in_set_takeD in_set_dropD)
  have copy: "copy_args ctl s limit done = qs @ take (?k - (length ps - (?i + done))) [None]"
    using assms(1,3) by (simp add: copy_args_def qs_def)
  have "strings_of (argbuf s) (copy_args ctl s limit done) = strings_of (argbuf s) qs"
    unfolding copy using strings_of_append_None [OF qs, of "argbuf s" "[]"]
    by (cases "?k - (length ps - (?i + done))") auto
  also have "\<dots> = take ?i (strings_of (argbuf s) ps) @ take ?k (drop done (drop ?i (strings_of (argbuf s) ps)))"
    using assms(2) qs by (simp add: strings_of_Some qs_def take_map drop_map add.commute)
  finally show "strings_of (argbuf s) (copy_args ctl s limit done) =
      take ?i (strings_of (argbuf s) ps) @ take ?k (drop done (drop ?i (strings_of (argbuf s) ps)))" .
  show "length (copy_args ctl s limit done) = ?i + min ?k (length ps - ?i - done + 1)"
    using assms(3) by (auto simp: copy qs_def min_def)
qed

text \<open>The fields that running commands leaves alone.\<close>

definition same_args :: "'u bc_state \<Rightarrow> 'u bc_state \<Rightarrow> bool" where
  "same_args s s' \<longleftrightarrow> cmd_argv s' = cmd_argv s \<and> cmd_argv_alloc s' = cmd_argv_alloc s \<and>
     argbuf s' = argbuf s \<and> cmd_argv_chars s' = cmd_argv_chars s \<and>
     cmd_initial_argv_chars s' = cmd_initial_argv_chars s"

lemma same_args_trans: "same_args s s' \<Longrightarrow> same_args s' s'' \<Longrightarrow> same_args s s''"
  by (simp add: same_args_def)

lemma same_args_limit: "same_args s (snd (update_limit ctl b limit (s\<lparr>usercontext := u\<rparr>)))"
  by (simp add: same_args_def)

lemma grow_keeps [simp]:
  "cmd_argv (bc_grow s) = cmd_argv s" "argbuf (bc_grow s) = argbuf s"
  "cmd_argv_chars (bc_grow s) = cmd_argv_chars s" "usercontext (bc_grow s) = usercontext s"
  "cmd_initial_argv_chars (bc_grow s) = cmd_initial_argv_chars s"
  by (simp_all add: bc_grow_def)

lemma grow_room: "cmd_argc s \<le> cmd_argv_alloc s \<Longrightarrow> cmd_argc s < cmd_argv_alloc (bc_grow s)"
  by (auto simp: bc_grow_def)

lemma grow_alloc: "cmd_argv_alloc s \<le> cmd_argv_alloc (bc_grow (s\<lparr>todo := b\<rparr>))"
  by (simp add: bc_grow_def)

lemma inv_todo [simp]:
  "bc_inv ctl (s\<lparr>todo := b\<rparr>) = bc_inv ctl s" "bc_strings (s\<lparr>todo := b\<rparr>) = bc_strings s"
  "bc_initial ctl (s\<lparr>todo := b\<rparr>) = bc_initial ctl s" "bc_pending ctl (s\<lparr>todo := b\<rparr>) = bc_pending ctl s"
  by (simp_all add: bc_inv_def bc_initial_def bc_pending_def bc_strings_def)

text \<open>The part of \<open>bc_push_arg\<close> that copies the argument, without a prefix.\<close>

definition bc_append :: "string \<Rightarrow> 'u bc_state \<Rightarrow> ('u, 'u bc_state) bc_result" where
  "bc_append arg s =
     obind (bc_store (Some (cmd_argv_chars s)) (bc_grow s)) (\<lambda>s.
       obind (bc_put arg s) (\<lambda>s. Ok (s\<lparr>cmd_argv_chars := cmd_argv_chars s + (length arg + 1)\<rparr>)))"

lemma bc_push_append:
  "bc_push_arg ctl cb arg (length arg + 1) None 0 initial_args s =
     (let s = (if initial_args then s else s\<lparr>todo := True\<rparr>) in
      obind
        (if cmd_argv_chars s + (length arg + 1) > arg_max ctl then
           (if initial_args \<or> cmd_argc s = initial_argc ctl then Exit (Cannot_fit_argument, usercontext s)
            else if replace_pat ctl \<noteq> None \<or>
                exit_if_size_exceeded ctl \<and> (lines_per_exec ctl \<noteq> 0 \<or> args_per_exec ctl \<noteq> 0)
            then Exit (Argument_list_too_long, usercontext s)
            else bc_do_exec ctl cb s)
         else Ok s) (\<lambda>s.
      obind (if bc_argc_limit_reached initial_args ctl s then bc_do_exec ctl cb s else Ok s) (\<lambda>s.
      obind (bc_append arg s) (\<lambda>s.
      obind (if bc_argc_limit_reached initial_args ctl s then bc_do_exec ctl cb s else Ok s) (\<lambda>s.
      Ok (if initial_args then s\<lparr>cmd_initial_argv_chars := cmd_argv_chars s\<rparr> else s))))))"
  by (simp add: bc_push_arg_def bc_append_def Let_def obind_assoc)

lemma append_ok:
  assumes inv: "bc_inv ctl s" and fits: "cmd_argv_chars s + length arg + 1 \<le> arg_max ctl"
  obtains s' where "bc_append arg s = Ok s'" "bc_inv ctl s'" "bc_strings s' = bc_strings s @ [c_string arg]"
    "usercontext s' = usercontext s" "cmd_initial_argv_chars s' = cmd_initial_argv_chars s"
    "cmd_argc s' = cmd_argc s + 1" "cmd_argv_chars s' = cmd_argv_chars s + length arg + 1"
proof -
  let ?n = "cmd_argv_chars s"
  have room: "cmd_argc s < cmd_argv_alloc (bc_grow s)"
    by (rule grow_room) (use inv in \<open>simp add: bc_inv_def\<close>)
  have len: "length (argbuf s) = arg_max ctl + 1" using inv by (simp add: bc_inv_def)
  obtain buf where buf: "strcpy ?n arg (argbuf s) = Some buf"
    using fits len length_c_string [of arg] by (auto simp: strcpy_def)
  define s' where "s' = (bc_grow s)\<lparr>cmd_argv := cmd_argv s @ [Some ?n], argbuf := buf,
    cmd_argv_chars := ?n + (length arg + 1)\<rparr>"
  have app: "bc_append arg s = Ok s'"
    using room buf by (simp add: bc_append_def bc_store_def bc_put_def s'_def)
  have old: "ptr_ok (argbuf s) ?n p" if "p \<in> set (cmd_argv s)" for p
    using inv that by (simp add: bc_inv_def)
  have keep: "string_at buf (the p) = string_at (argbuf s) (the p)" "ptr_ok buf (?n + (length arg + 1)) p"
    if p: "p \<in> set (cmd_argv s)" for p
    using ptr_ok_strcpy [OF buf le_refl old [OF p]] ptr_ok_mono [of buf ?n p "?n + (length arg + 1)"]
      strcpy_length [OF buf] fits len by simp_all
  have new: "string_at buf ?n = c_string arg" "ptr_ok buf (?n + (length arg + 1)) (Some ?n)"
    using strcpy_at [OF buf] strcpy_ends [OF buf, of "?n + (length arg + 1)"] length_c_string [of arg] fits len
    by (simp_all add: ptr_ok_def)
  have some: "None \<notin> set (cmd_argv s)" by (rule inv_Some [OF inv])
  have strs: "bc_strings s' = bc_strings s @ [c_string arg]"
    using some keep(1) new(1) by (simp add: bc_strings_def s'_def strings_of_Some)
  have i: "initial_argc ctl \<le> cmd_argc s" using inv by (simp add: bc_inv_def)
  have ini: "bc_initial ctl s' = bc_initial ctl s"
    using i inv_length [OF inv] by (simp add: bc_initial_def strs)
  have "ptr_ok buf (cmd_initial_argv_chars s) p" if p: "p \<in> set (take (initial_argc ctl) (cmd_argv s))" for p
    using ptr_ok_strcpy(1) [OF buf] inv p by (auto simp: bc_inv_def)
  then have "bc_inv ctl s'"
    unfolding bc_inv_def strs ini
    using inv room fits i keep(2) new(2) length_c_string [of arg] strcpy_length [OF buf]
    by (auto simp: bc_inv_def s'_def)
  with app strs show thesis by (intro that [of s']) (simp_all add: s'_def)
qed

text \<open>What a command gets besides the initial arguments: the limits of size and number.\<close>

definition chunk_ok :: "bc_control \<Rightarrow> string list \<Rightarrow> string list \<Rightarrow> bool" where
  "chunk_ok ctl ini c \<longleftrightarrow> weight (ini @ c) \<le> arg_max ctl \<and>
     (args_per_exec ctl \<noteq> 0 \<longrightarrow> length c \<le> args_per_exec ctl)"

definition few_pending :: "bc_control \<Rightarrow> 'u bc_state \<Rightarrow> bool" where
  "few_pending ctl s \<longleftrightarrow> args_per_exec ctl \<noteq> 0 \<longrightarrow> length (bc_pending ctl s) < args_per_exec ctl"

lemma few_pending_todo [simp]: "few_pending ctl (s\<lparr>todo := b\<rparr>) = few_pending ctl s"
  by (simp add: few_pending_def)

text \<open>A piece of code that ends, whose behaviour is defined and whose result, if it has one, satisfies \<open>P\<close>.\<close>

definition safely :: "('a \<Rightarrow> bool) \<Rightarrow> ('e, 'a) outcome \<Rightarrow> bool" where
  "safely P r \<longleftrightarrow> (case r of Ok a \<Rightarrow> P a | Exit e \<Rightarrow> True | _ \<Rightarrow> False)"

lemma safely_simps [simp]:
  "safely P (Ok a) = P a" "safely P (Exit e)" "\<not> safely P Undef" "\<not> safely P Diverge"
  by (simp_all add: safely_def)

lemma safely_bind: "safely P m \<Longrightarrow> (\<And>a. m = Ok a \<Longrightarrow> P a \<Longrightarrow> safely Q (f a)) \<Longrightarrow> safely Q (obind m f)"
  by (cases m) auto

lemma safely_mono: "safely P m \<Longrightarrow> (\<And>a. m = Ok a \<Longrightarrow> P a \<Longrightarrow> Q a) \<Longrightarrow> safely Q m"
  by (cases m) auto

text \<open>The callback ends and keeps a property of what it works on.\<close>

definition cb_safe :: "('u \<Rightarrow> bool) \<Rightarrow> 'u bc_callback \<Rightarrow> bool" where
  "cb_safe I cb \<longleftrightarrow> (\<forall>argv args u. I u \<longrightarrow> safely (\<lambda>r. I (snd r)) (cb argv args u))"

lemma exec_loop_safe:
  assumes "cb_safe I cb" and "I (usercontext s)"
  shows "safely (\<lambda>s. I (usercontext s)) (bc_exec_loop ctl cb limit done s)"
  using assms
proof (induction ctl cb limit "done" s rule: bc_exec_loop.induct)
  case (1 ctl cb limit "done" s)
  let ?call = "cb (strings_of (argbuf s) (cmd_argv s)) (strings_of (argbuf s) (copy_args ctl s limit done)) (usercontext s)"
  have c: "safely (\<lambda>r. I (snd r)) ?call" using 1(3,4) by (simp add: cb_safe_def)
  show ?case
  proof (cases ?call)
    case (Ok r)
    then obtain ok u where r: "?call = Ok (ok, u)" "I u" using c by (cases r) auto
    show ?thesis using 1(1,2) [OF refl _ refl refl] 1(3) r
      by (subst bc_exec_loop.simps) (auto simp: Let_def)
  next
    case (Exit e)
    then show ?thesis by (subst bc_exec_loop.simps) (simp add: Let_def)
  qed (use c in auto)
qed

lemma do_exec_safe:
  assumes "cb_safe I cb" and "bc_inv ctl s" and "I (usercontext s)"
  shows "safely (\<lambda>s. I (usercontext s)) (bc_do_exec ctl cb s)"
proof -
  have "cmd_argc s < cmd_argv_alloc (bc_grow (s\<lparr>todo := True\<rparr>))"
    using grow_room [of "s\<lparr>todo := True\<rparr>"] assms(2) by (simp add: bc_inv_def)
  then obtain s1 where s1: "bc_args_complete s = Ok s1" "usercontext s1 = usercontext s"
    by (simp add: bc_args_complete_def bc_store_def)
  then have "safely (\<lambda>s. I (usercontext s)) (bc_exec_loop ctl cb (cmd_argc s1) 0 s1)"
    using exec_loop_safe [OF assms(1)] assms(3) by simp
  then show ?thesis unfolding bc_do_exec_def s1(1) obind.simps
    by (rule safely_bind) (simp add: bc_clear_args_def)
qed

text \<open>
  A callback that keeps a log of the commands it has started: a call that returns true started the
  command, and one that returns false or ends the program did not.
\<close>

locale exec_log =
  fixes cb :: "'u bc_callback" and log :: "'u \<Rightarrow> string list list"
  assumes run: "cb argv args u = Ok (True, u') \<Longrightarrow> log u' = log u @ [args]"
    and too_long: "cb argv args u = Ok (False, u') \<Longrightarrow> log u' = log u"
    and stop: "cb argv args u = Exit (err, u') \<Longrightarrow> log u' = log u"
begin

lemma loop_log:
  assumes "cmd_argv s = ps @ [None]" and "None \<notin> set ps" and "initial_argc ctl \<le> length ps"
    and "initial_argc ctl < limit"
    and "R = drop (initial_argc ctl) (strings_of (argbuf s) ps)"
    and "done < length R \<or> R = [] \<and> done = 0 \<and> limit \<le> initial_argc ctl + 1"
    and "bc_exec_loop ctl cb limit done s = Ok s'"
  shows "same_args s s' \<and> (\<exists>chunks. concat chunks = drop done R \<and> chunks \<noteq> [] \<and>
    log (usercontext s') = log (usercontext s) @
      map (\<lambda>c. take (initial_argc ctl) (strings_of (argbuf s) ps) @ c) chunks)"
  using assms
proof (induction "(limit, done, s)" arbitrary: limit "done" s
    rule: wf_induct_rule [OF wf_measures [of "[\<lambda>(limit, done, s). cmd_argc s - initial_argc ctl - done,
      \<lambda>(limit, done, s). limit]"]])
  case (1 limit "done" s)
  let ?i = "initial_argc ctl" and ?strs = "strings_of (argbuf s) ps"
  define args where "args = copy_args ctl s limit done"
  define chunk where "chunk = take (limit - ?i) (drop done R)"
  have len: "length R = length ps - ?i" using 1(2-6) by (simp add: strings_of_Some)
  have le: "?i + done \<le> length ps" using 1(4,7) len by auto
  have args: "strings_of (argbuf s) args = take ?i ?strs @ chunk"
    "length args = ?i + min (limit - ?i) (length R - done + 1)"
    using strings_of_copy_args [OF 1(2,3) le] 1(6) len by (simp_all add: args_def chunk_def)
  obtain ok u where cb: "cb (strings_of (argbuf s) (cmd_argv s)) (take ?i ?strs @ chunk) (usercontext s) = Ok (ok, u)"
    using 1(8) args(1) by (subst (asm) bc_exec_loop.simps) (auto simp: Let_def args_def obind_eq_Ok)
  define s1 where "s1 = s\<lparr>usercontext := u\<rparr>"
  define r where "r = update_limit ctl ok limit s1"
  have s1: "same_args s (snd r)" "usercontext (snd r) = u" by (simp_all add: r_def s1_def same_args_limit)
  have r: "?i < fst r" using update_limit_at_least [of ctl ok limit s1] r_def by simp
  have argc: "cmd_argc s - ?i = length R + 1" using 1(2,4) len by simp
  define done' where "done' = done + (length args - ?i)"
  have body: "(if ok then if done' < length R then bc_exec_loop ctl cb (fst r) done' (snd r) else Ok (snd r)
      else if limit \<le> ?i + 1 then Exit (Cannot_exec, u)
      else if done < length R then bc_exec_loop ctl cb (fst r) done (snd r) else Ok (snd r)) = Ok s'"
    using 1(8) cb args(1) argc unfolding r_def done'_def s1_def args_def
    by (subst (asm) bc_exec_loop.simps) (cases ok; auto simp: Let_def split: if_splits)
  show ?case
  proof (cases ok)
    case True
    note ok = this
    have log: "log u = log (usercontext s) @ [take ?i ?strs @ chunk]" using run [of _ _ _ u] cb True by simp
    show ?thesis
    proof (cases "done' < length R")
      case True
      have loop: "bc_exec_loop ctl cb (fst r) done' (snd r) = Ok s'"
        using body ok True by simp
      have d: "done' = done + (limit - ?i)" using True args(2) done'_def by auto
      have "((fst r, done', snd r), limit, done, s) \<in> measures [\<lambda>(limit, done, s). cmd_argc s - ?i - done,
          \<lambda>(limit, done, s). limit]"
      proof -
        have "cmd_argc (snd r) - ?i - done' < cmd_argc s - ?i - done"
          using d True argc s1(1) 1(5) by (simp only: same_args_def)
        then show ?thesis by simp
      qed
      from 1(1) [OF this _ _ _ r _ _ loop] 1(2-4,6) True s1
      obtain chunks where c: "same_args (snd r) s'" "concat chunks = drop done' R"
        "log (usercontext s') = log u @ map (\<lambda>c. take ?i ?strs @ c) chunks"
        by (auto simp: same_args_def)
      have "concat (chunk # chunks) = drop done R"
        using c(2) d by (simp add: chunk_def add.commute [of "done"] flip: drop_drop)
      then show ?thesis using c log s1 same_args_trans by (intro conjI exI [of _ "chunk # chunks"]) auto
    next
      case False
      have "chunk = drop done R" using False args(2) by (auto simp: chunk_def done'_def min_def split: if_splits)
      moreover have "s' = snd r"
        using body ok False by simp
      ultimately show ?thesis using log s1 by (intro conjI exI [of _ "[chunk]"]) auto
    qed
  next
    case False
    note ok = this
    have log: "log u = log (usercontext s)" using too_long [of _ _ _ u] cb False by simp
    have big: "\<not> limit \<le> ?i + 1" and more: "done < length R"
      using 1(7) body ok by (auto split: if_splits)
    have loop: "bc_exec_loop ctl cb (fst r) done (snd r) = Ok s'"
      using body ok big more by simp
    have "fst r < limit" using update_limit_smaller [of ctl limit s1] big ok r_def by simp
    then have "((fst r, done, snd r), limit, done, s) \<in> measures [\<lambda>(limit, done, s). cmd_argc s - ?i - done,
        \<lambda>(limit, done, s). limit]"
      using s1(1) by (simp add: same_args_def)
    from 1(1) [OF this _ _ _ r _ _ loop] 1(2-4,6) more s1 log
    show ?thesis using same_args_trans by (auto simp: same_args_def)
  qed
qed

text \<open>
  One operation: the commands started, each the initial arguments and one of \<open>chunks\<close>, hand over
  what was pending and the new arguments, less what is pending afterwards, and keep the limits.
\<close>

definition step_log :: "bc_control \<Rightarrow> 'u bc_state \<Rightarrow> string list \<Rightarrow> 'u bc_state \<Rightarrow> bool" where
  "step_log ctl s new s' \<longleftrightarrow> bc_inv ctl s' \<and> bc_initial ctl s' = bc_initial ctl s \<and>
     cmd_initial_argv_chars s' = cmd_initial_argv_chars s \<and> few_pending ctl s' \<and>
     (\<exists>chunks. log (usercontext s') = log (usercontext s) @ map (\<lambda>c. bc_initial ctl s @ c) chunks \<and>
        concat chunks @ bc_pending ctl s' = bc_pending ctl s @ new \<and>
        (\<forall>c\<in>set chunks. chunk_ok ctl (bc_initial ctl s) c))"

lemma step_log_refl: "bc_inv ctl s \<Longrightarrow> few_pending ctl s \<Longrightarrow> step_log ctl s [] s"
  by (auto simp: step_log_def intro: exI [of _ "[]"])

lemma step_log_trans:
  assumes "step_log ctl s new s'" and "step_log ctl s' new' s''"
  shows "step_log ctl s (new @ new') s''"
proof -
  obtain c1 c2 where c: "log (usercontext s') = log (usercontext s) @ map (\<lambda>c. bc_initial ctl s @ c) c1"
    "concat c1 @ bc_pending ctl s' = bc_pending ctl s @ new" "\<forall>c\<in>set c1. chunk_ok ctl (bc_initial ctl s) c"
    "log (usercontext s'') = log (usercontext s') @ map (\<lambda>c. bc_initial ctl s @ c) c2"
    "concat c2 @ bc_pending ctl s'' = bc_pending ctl s' @ new'" "\<forall>c\<in>set c2. chunk_ok ctl (bc_initial ctl s) c"
    using assms by (auto simp: step_log_def)
  have "concat (c1 @ c2) @ bc_pending ctl s'' = bc_pending ctl s @ new @ new'"
    using c(2,5) by (metis append.assoc concat_append)
  then show ?thesis using assms c
    unfolding step_log_def by (intro conjI exI [of _ "c1 @ c2"]) auto
qed

lemma do_exec_log:
  assumes inv: "bc_inv ctl s" and n: "args_per_exec ctl \<noteq> 0 \<longrightarrow> length (bc_pending ctl s) \<le> args_per_exec ctl"
    and ok: "bc_do_exec ctl cb s = Ok s'"
  shows "step_log ctl s [] s' \<and> bc_pending ctl s' = [] \<and> cmd_argv_chars s' = cmd_initial_argv_chars s \<and>
    length (log (usercontext s)) < length (log (usercontext s'))"
proof -
  define s1 where "s1 = (bc_grow (s\<lparr>todo := True\<rparr>))\<lparr>cmd_argv := cmd_argv s @ [None]\<rparr>"
  have alloc: "cmd_argc s \<le> cmd_argv_alloc s" using inv by (simp add: bc_inv_def)
  have s1: "bc_args_complete s = Ok s1"
    using grow_room [of "s\<lparr>todo := True\<rparr>"] alloc
    by (simp add: bc_args_complete_def bc_store_def s1_def)
  obtain s2 where s2: "bc_exec_loop ctl cb (cmd_argc s1) 0 s1 = Ok s2" "s' = bc_clear_args ctl s2"
    using ok s1 by (auto simp: bc_do_exec_def obind_eq_Ok)
  have some: "None \<notin> set (cmd_argv s)" by (rule inv_Some [OF inv])
  have i: "initial_argc ctl \<le> cmd_argc s" using inv by (simp add: bc_inv_def)
  let ?R = "drop (initial_argc ctl) (strings_of (argbuf s1) (cmd_argv s))"
  have bufs: "argbuf s1 = argbuf s" "cmd_argv s1 = cmd_argv s @ [None]" by (simp_all add: s1_def)
  then have R: "?R = bc_pending ctl s" "take (initial_argc ctl) (strings_of (argbuf s1) (cmd_argv s)) = bc_initial ctl s"
    by (simp_all add: bc_pending_def bc_initial_def bc_strings_def)
  have "0 < length ?R \<or> ?R = [] \<and> (0::nat) = 0 \<and> cmd_argc s1 \<le> initial_argc ctl + 1"
    using inv_pending [OF inv] R(1) i bufs by auto
  from loop_log [OF bufs(2) some i _ refl this s2(1)] i bufs R obtain chunks where
    same: "same_args s1 s2" and c: "concat chunks = bc_pending ctl s" "chunks \<noteq> []"
      "log (usercontext s2) = log (usercontext s1) @ map (\<lambda>c. bc_initial ctl s @ c) chunks"
    by auto
  define s0 where "s0 = s2\<lparr>cmd_argv := cmd_argv s\<rparr>"
  have clear: "bc_clear_args ctl s2 = bc_clear_args ctl s0"
    using same i bufs by (simp add: bc_clear_args_def s0_def same_args_def)
  have strs: "bc_strings s0 = bc_strings s" "bc_initial ctl s0 = bc_initial ctl s"
    using same bufs by (simp_all add: s0_def bc_strings_def bc_initial_def same_args_def)
  have "cmd_argc s \<le> cmd_argv_alloc s0"
    using alloc grow_alloc [of s True] same by (simp add: s0_def same_args_def s1_def)
  moreover have "cmd_argv s0 = cmd_argv s" "argbuf s0 = argbuf s" "cmd_argv_chars s0 = cmd_argv_chars s"
    "cmd_initial_argv_chars s0 = cmd_initial_argv_chars s"
    using same by (simp_all add: s0_def same_args_def s1_def)
  ultimately have "bc_inv ctl s0"
    using inv unfolding bc_inv_def strs by simp
  from inv_clear [OF this] strs clear s2(2)
  have clr: "bc_inv ctl s'" "bc_initial ctl s' = bc_initial ctl s" "bc_pending ctl s' = []" by simp_all
  have chunk: "chunk_ok ctl (bc_initial ctl s) k" if k: "k \<in> set chunks" for k
  proof -
    obtain xs ys where "chunks = xs @ k # ys" using split_list [OF k] by blast
    then have "bc_pending ctl s = concat xs @ k @ concat ys" using c(1) by simp
    then have "length k \<le> length (bc_pending ctl s)" "weight k \<le> weight (bc_pending ctl s)" by simp_all
    moreover have "weight (bc_initial ctl s) + weight (bc_pending ctl s) \<le> arg_max ctl"
      using inv weight_take_drop [of "initial_argc ctl" "bc_strings s"]
      by (simp add: bc_inv_def bc_initial_def bc_pending_def)
    ultimately show ?thesis using n by (auto simp: chunk_ok_def)
  qed
  have "usercontext s1 = usercontext s" "cmd_initial_argv_chars s' = cmd_initial_argv_chars s"
    "cmd_argv_chars s' = cmd_initial_argv_chars s" "usercontext s' = usercontext s2"
    using same s2(2) by (simp_all add: s1_def bc_clear_args_def same_args_def)
  then show ?thesis using clr c chunk
    by (auto simp: step_log_def few_pending_def intro!: exI [of _ chunks])
qed

lemma exec_if_log:
  assumes inv: "bc_inv ctl s" and n: "args_per_exec ctl \<noteq> 0 \<longrightarrow> length (bc_pending ctl s) \<le> args_per_exec ctl"
    and ok: "(if bc_argc_limit_reached False ctl s then bc_do_exec ctl cb s else Ok s) = Ok s'"
  shows "step_log ctl s [] s' \<and> cmd_argv_chars s' \<le> cmd_argv_chars s"
proof (cases "bc_argc_limit_reached False ctl s")
  case True
  then show ?thesis using do_exec_log [OF inv n] ok inv by (simp add: bc_inv_def)
next
  case False
  have "int (length (bc_pending ctl s)) = int (cmd_argc s) - int (initial_argc ctl)"
    using inv_pending [OF inv] inv by (simp add: bc_inv_def of_nat_diff)
  then have "args_per_exec ctl \<noteq> 0 \<longrightarrow> length (bc_pending ctl s) \<noteq> args_per_exec ctl"
    using False by (auto simp: bc_argc_limit_reached_def)
  then have "few_pending ctl s" using n by (auto simp: few_pending_def)
  then show ?thesis using False ok step_log_refl [OF inv] by simp
qed

lemma push_log:
  assumes inv: "bc_inv ctl s" "few_pending ctl s"
    and fits: "cmd_initial_argv_chars s + length arg + 1 \<le> arg_max ctl"
    and ok: "bc_push_arg ctl cb arg (length arg + 1) None 0 False s = Ok s'"
  shows "step_log ctl s [c_string arg] s'"
proof -
  let ?lim = "bc_argc_limit_reached False ctl"
  define s0 where "s0 = s\<lparr>todo := True\<rparr>"
  have s0: "bc_inv ctl s0" "few_pending ctl s0" "cmd_initial_argv_chars s0 = cmd_initial_argv_chars s"
    using inv by (simp_all add: s0_def)
  have eq: "step_log ctl s new s'' = step_log ctl s0 new s''" for new s''
    by (simp add: step_log_def s0_def)
  obtain s1 s2 s3 where s1: "(if cmd_argv_chars s0 + (length arg + 1) > arg_max ctl then
         (if cmd_argc s0 = initial_argc ctl then Exit (Cannot_fit_argument, usercontext s0)
          else if replace_pat ctl \<noteq> None \<or>
              exit_if_size_exceeded ctl \<and> (lines_per_exec ctl \<noteq> 0 \<or> args_per_exec ctl \<noteq> 0)
          then Exit (Argument_list_too_long, usercontext s0) else bc_do_exec ctl cb s0)
       else Ok s0) = Ok s1"
    and s2: "(if ?lim s1 then bc_do_exec ctl cb s1 else Ok s1) = Ok s2"
    and s3: "bc_append arg s2 = Ok s3" and s': "(if ?lim s3 then bc_do_exec ctl cb s3 else Ok s3) = Ok s'"
    using ok unfolding bc_push_append Let_def if_False obind_eq_Ok s0_def [symmetric] outcome.inject simp_thms by blast
  then have s1: "(if cmd_argv_chars s0 + (length arg + 1) > arg_max ctl then bc_do_exec ctl cb s0 else Ok s0) = Ok s1"
    by (auto split: if_splits)
  have few: "args_per_exec ctl \<noteq> 0 \<longrightarrow> length (bc_pending ctl s) \<le> args_per_exec ctl" if "few_pending ctl s" for s
    using that by (auto simp: few_pending_def)
  have 1: "step_log ctl s0 [] s1 \<and> cmd_argv_chars s1 + (length arg + 1) \<le> arg_max ctl"
  proof (cases "cmd_argv_chars s0 + (length arg + 1) > arg_max ctl")
    case True
    then show ?thesis using do_exec_log [OF s0(1) few [OF s0(2)]] s1 fits s0(3) by simp
  next
    case False
    then show ?thesis using s1 step_log_refl [OF s0(1,2)] by simp
  qed
  then have i1: "bc_inv ctl s1" "few_pending ctl s1" by (simp_all add: step_log_def)
  have 2: "step_log ctl s1 [] s2" "cmd_argv_chars s2 \<le> cmd_argv_chars s1"
    using exec_if_log [OF i1(1) few [OF i1(2)] s2] by simp_all
  then have i2: "bc_inv ctl s2" "few_pending ctl s2" by (simp_all add: step_log_def)
  have "cmd_argv_chars s2 + length arg + 1 \<le> arg_max ctl" using 1 2 by linarith
  from append_ok [OF i2(1) this] s3
  have 3: "bc_inv ctl s3" "bc_strings s3 = bc_strings s2 @ [c_string arg]" "usercontext s3 = usercontext s2"
    "cmd_initial_argv_chars s3 = cmd_initial_argv_chars s2"
    by (metis outcome.inject(1))+
  have "initial_argc ctl \<le> length (bc_strings s2)" using i2(1) inv_length [OF i2(1)] by (simp add: bc_inv_def)
  then have p3: "bc_pending ctl s3 = bc_pending ctl s2 @ [c_string arg]" "bc_initial ctl s3 = bc_initial ctl s2"
    by (simp_all add: bc_pending_def bc_initial_def 3(2))
  have "args_per_exec ctl \<noteq> 0 \<longrightarrow> length (bc_pending ctl s3) \<le> args_per_exec ctl"
    using i2(2) p3(1) by (auto simp: few_pending_def)
  from exec_if_log [OF 3(1) this s'] have 4: "step_log ctl s3 [] s'" ..
  have "step_log ctl s2 [c_string arg] s'"
    using 4 3(3,4) p3 by (auto simp: step_log_def)
  then show ?thesis using 1 2(1) step_log_trans [of ctl s0 "[]" s1] step_log_trans [of ctl s1 "[]" s2]
    unfolding eq by (metis append_Nil)
qed

text \<open>Any number of arguments, then the last command.\<close>

lemma pushes_log:
  assumes "bc_inv ctl s" and "few_pending ctl s"
    and "\<forall>a\<in>set as. cmd_initial_argv_chars s + length a + 1 \<le> arg_max ctl"
    and "ofold (\<lambda>a. bc_push_arg ctl cb a (length a + 1) None 0 False) as s = Ok s'"
  shows "step_log ctl s (map c_string as) s'"
  using assms
proof (induction as arbitrary: s)
  case Nil
  then show ?case using step_log_refl by simp
next
  case (Cons a as)
  then obtain s1 where s1: "bc_push_arg ctl cb a (length a + 1) None 0 False s = Ok s1"
    "ofold (\<lambda>a. bc_push_arg ctl cb a (length a + 1) None 0 False) as s1 = Ok s'"
    by (auto simp: obind_eq_Ok)
  have 1: "step_log ctl s [c_string a] s1" by (rule push_log) (use Cons.prems s1 in auto)
  then have "step_log ctl s1 (map c_string as) s'"
    by (intro Cons.IH) (use Cons.prems s1 in \<open>auto simp: step_log_def\<close>)
  from step_log_trans [OF 1 this] show ?case by simp
qed

lemma push_safe:
  assumes safe: "cb_safe I cb"
    and inv: "bc_inv ctl s" "few_pending ctl s"
    and fits: "cmd_initial_argv_chars s + length arg + 1 \<le> arg_max ctl"
    and I: "I (usercontext s)"
  shows "safely (\<lambda>s. I (usercontext s)) (bc_push_arg ctl cb arg (length arg + 1) None 0 False s)"
proof -
  let ?lim = "bc_argc_limit_reached False ctl" and ?s = "s\<lparr>todo := True\<rparr>" and ?I = "\<lambda>s. I (usercontext s)"
  let ?first = "if arg_max ctl < cmd_argv_chars ?s + (length arg + 1)
       then if False \<or> cmd_argc ?s = initial_argc ctl then Exit (Cannot_fit_argument, usercontext ?s)
            else if replace_pat ctl \<noteq> None \<or> exit_if_size_exceeded ctl \<and> (lines_per_exec ctl \<noteq> 0 \<or> args_per_exec ctl \<noteq> 0)
              then Exit (Argument_list_too_long, usercontext ?s) else bc_do_exec ctl cb ?s
       else Ok ?s"
  have few: "args_per_exec ctl \<noteq> 0 \<longrightarrow> length (bc_pending ctl s) \<le> args_per_exec ctl" if "few_pending ctl s" for s
    using that by (auto simp: few_pending_def)
  have inv': "bc_inv ctl ?s" "few_pending ctl ?s" using inv by simp_all
  note exec = do_exec_safe [OF safe]
  show ?thesis
    unfolding bc_push_append Let_def if_False
  proof (rule safely_bind)
    show "safely ?I ?first" using exec [OF inv'(1)] I by simp
  next
    fix s1 assume ok: "?first = Ok s1" and I1: "I (usercontext s1)"
    then have "s1 = ?s \<and> cmd_argv_chars ?s + (length arg + 1) \<le> arg_max ctl \<or> bc_do_exec ctl cb ?s = Ok s1"
      by (auto split: if_splits)
    then have s1: "step_log ctl ?s [] s1" "cmd_argv_chars s1 + (length arg + 1) \<le> arg_max ctl"
      using do_exec_log [OF inv'(1) few [OF inv'(2)]] step_log_refl [OF inv'] fits by auto
    then have i1: "bc_inv ctl s1" "few_pending ctl s1" by (simp_all add: step_log_def)
    show "safely ?I (obind (if ?lim s1 then bc_do_exec ctl cb s1 else Ok s1) (\<lambda>s.
      obind (bc_append arg s) (\<lambda>s. obind (if ?lim s then bc_do_exec ctl cb s else Ok s) Ok)))"
    proof (rule safely_bind)
      show "safely ?I (if ?lim s1 then bc_do_exec ctl cb s1 else Ok s1)" using exec [OF i1(1) I1] I1 by simp
    next
      fix s2 assume ok2: "(if ?lim s1 then bc_do_exec ctl cb s1 else Ok s1) = Ok s2" and I2: "I (usercontext s2)"
      from exec_if_log [OF i1(1) few [OF i1(2)] ok2]
      have s2: "bc_inv ctl s2" "cmd_argv_chars s2 + length arg + 1 \<le> arg_max ctl"
        using s1(2) by (auto simp: step_log_def)
      obtain s3 where s3: "bc_append arg s2 = Ok s3" "bc_inv ctl s3" "usercontext s3 = usercontext s2"
        using append_ok [OF s2] by metis
      then have "safely ?I (if ?lim s3 then bc_do_exec ctl cb s3 else Ok s3)" using exec [OF s3(2)] I2 by simp
      from safely_bind [OF this, of ?I Ok]
      show "safely ?I (obind (bc_append arg s2) (\<lambda>s. obind (if ?lim s then bc_do_exec ctl cb s else Ok s) Ok))"
        using s3 by simp
    qed
  qed
qed

end

end
