(* ===== verification/FindExecOk.thy ===== *)
theory FindExecOk
  imports FindExec BuildcmdLog
begin

text \<open>
  The words in front of \<open>{} +\<close> are put into the buffer of \<open>lib/buildcmd.c\<close> one behind the other, or the
  program ends.
\<close>

lemma do_exec_no_launch:
  assumes "cmd_argc s \<le> cmd_argv_alloc s"
  shows "bc_do_exec ctl no_launch s = Exit (Client_exit 0, usercontext s)"
proof -
  have "cmd_argc s < cmd_argv_alloc (bc_grow (s\<lparr>todo := True\<rparr>))"
    using grow_room [of "s\<lparr>todo := True\<rparr>"] assms by simp
  then obtain s1 where s1: "bc_args_complete s = Ok s1" "usercontext s1 = usercontext s"
    by (simp add: bc_args_complete_def bc_store_def)
  then show ?thesis by (simp add: bc_do_exec_def bc_exec_loop.simps no_launch_def)
qed

text \<open>The state while the initial words are put in: their number is counted in advance in \<open>initial_argc\<close>.\<close>

definition gathering :: "bc_control \<Rightarrow> 'u bc_state \<Rightarrow> string list \<Rightarrow> bool" where
  "gathering ctl s words \<longleftrightarrow>
     bc_inv (ctl\<lparr>initial_argc := 0\<rparr>) s \<and> bc_strings s = map c_string words \<and>
     cmd_argc s = length words \<and> cmd_argv_chars s = weight words \<and> (words \<noteq> [] \<longrightarrow> cmd_initial_argv_chars s = weight words)"

lemma push_word_step:
  assumes g: "gathering ctl s words" and room: "length words < max_arg_count ctl"
    and fits: "weight (words @ [w]) \<le> arg_max ctl"
  shows "\<exists>s'. gathering ctl (s'\<lparr>cmd_initial_argv_chars := cmd_argv_chars s'\<rparr>) (words @ [w]) \<and>
    usercontext s' = usercontext s \<and> todo s' = todo s \<and> bc_inv (ctl\<lparr>initial_argc := 0\<rparr>) s' \<and>
    bc_push_arg ctl cb w (length w + 1) None 0 True s =
      obind (if length words + 1 = max_arg_count ctl then bc_do_exec ctl cb s' else Ok s')
        (\<lambda>s. Ok (s\<lparr>cmd_initial_argv_chars := cmd_argv_chars s\<rparr>))"
proof -
  let ?ctl = "ctl\<lparr>initial_argc := 0\<rparr>"
  have inv: "bc_inv ?ctl s" and argc: "cmd_argc s = length words" "cmd_argv_chars s = weight words"
    using g by (simp_all add: gathering_def)
  obtain s1 where s1: "bc_append w s = Ok s1" "bc_inv ?ctl s1" "bc_strings s1 = bc_strings s @ [c_string w]"
    "usercontext s1 = usercontext s" "cmd_initial_argv_chars s1 = cmd_initial_argv_chars s"
    "cmd_argc s1 = cmd_argc s + 1" "cmd_argv_chars s1 = cmd_argv_chars s + length w + 1"
    by (rule append_ok [OF inv, of w]) (use fits argc in auto)
  have todo: "todo s1 = todo s"
    using s1(1) by (auto simp: bc_append_def bc_store_def bc_put_def bc_grow_def obind_eq_Ok split: if_splits option.splits)
  have limit: "bc_argc_limit_reached True ctl t \<longleftrightarrow> cmd_argc t = max_arg_count ctl" for t :: "'a bc_state"
    by (simp add: bc_argc_limit_reached_def)
  have "bc_push_arg ctl cb w (length w + 1) None 0 True s =
      obind (if length words + 1 = max_arg_count ctl then bc_do_exec ctl cb s1 else Ok s1)
        (\<lambda>s. Ok (s\<lparr>cmd_initial_argv_chars := cmd_argv_chars s\<rparr>))"
    unfolding bc_push_append using fits argc room s1(1,6) by (simp add: limit)
  moreover have "gathering ctl (s1\<lparr>cmd_initial_argv_chars := cmd_argv_chars s1\<rparr>) (words @ [w])"
    using s1 g argc by (auto simp: gathering_def bc_inv_def bc_strings_def bc_initial_def)
  ultimately show ?thesis using s1(2,4) todo by blast
qed

text \<open>Words that fit are copied, whatever the callback.\<close>

lemma push_words_fit:
  assumes "gathering ctl s words" and "length (words @ ws) < max_arg_count ctl" and "weight (words @ ws) \<le> arg_max ctl"
  shows "\<exists>s'. ofold (\<lambda>w. bc_push_arg ctl cb w (length w + 1) None 0 True) ws s = Ok s' \<and>
    gathering ctl s' (words @ ws) \<and> usercontext s' = usercontext s \<and> todo s' = todo s"
  using assms
proof (induction ws arbitrary: s words)
  case (Cons w ws)
  from push_word_step [OF Cons.prems(1), of w cb] Cons.prems(2,3)
  obtain s1 where s1: "bc_push_arg ctl cb w (length w + 1) None 0 True s = Ok s1" "gathering ctl s1 (words @ [w])"
    "usercontext s1 = usercontext s" "todo s1 = todo s"
    by auto
  from Cons.IH [OF s1(2)] Cons.prems(2,3) s1 show ?case by simp
qed simp

lemma push_words_fail:
  assumes "gathering ctl s words" and "length words < max_arg_count ctl"
    and "\<not> (weight (words @ ws) \<le> arg_max ctl \<and> length (words @ ws) < max_arg_count ctl)" and "ws \<noteq> []"
  shows "\<exists>err. ofold (\<lambda>w. bc_push_arg ctl no_launch w (length w + 1) None 0 True) ws s = Exit err"
  using assms
proof (induction ws arbitrary: s words)
  case (Cons w ws)
  let ?push = "bc_push_arg ctl no_launch w (length w + 1) None 0 True s"
  show ?case
  proof (cases "weight (words @ [w]) \<le> arg_max ctl")
    case False
    then have "?push = Exit (Cannot_fit_argument, usercontext s)"
      unfolding bc_push_append using Cons.prems(1) by (simp add: gathering_def)
    then show ?thesis by simp
  next
    case True
    from push_word_step [OF Cons.prems(1,2) this, of no_launch]
    obtain s1 where s1: "gathering ctl (s1\<lparr>cmd_initial_argv_chars := cmd_argv_chars s1\<rparr>) (words @ [w])"
      "bc_inv (ctl\<lparr>initial_argc := 0\<rparr>) s1"
      "?push = obind (if length words + 1 = max_arg_count ctl then bc_do_exec ctl no_launch s1 else Ok s1)
        (\<lambda>s. Ok (s\<lparr>cmd_initial_argv_chars := cmd_argv_chars s\<rparr>))"
      by blast
    show ?thesis
    proof (cases "length words + 1 = max_arg_count ctl")
      case True
      then show ?thesis using s1(2,3) do_exec_no_launch [of s1 ctl] by (simp add: bc_inv_def)
    next
      case False
      then have few: "length (words @ [w]) < max_arg_count ctl" using Cons.prems(2) by simp
      from Cons.IH [OF s1(1) few] few s1(3) False Cons.prems(3) True show ?thesis by (cases ws) auto
    qed
  qed
qed simp

lemma init_gathering:
  assumes "bc_init_state ctl junk u = Ok s"
  shows "gathering ctl s []" "usercontext s = u" "\<not> todo s"
  using assms by (auto simp: bc_init_state_def gathering_def bc_inv_def bc_strings_def bc_initial_def strings_of_def
    split: if_splits)

lemma init_state_ok:
  assumes "arg_max ctl \<le> LONG_MAX - 2048"
  obtains s where "bc_init_state ctl junk u = Ok s"
  using assms by (simp add: bc_init_state_def)

text \<open>The initial words are taken exactly if they fit.\<close>

lemma gather_initial_result:
  assumes "arg_max ctl \<le> LONG_MAX - 2048" and "0 < max_arg_count ctl"
  shows "weight words \<le> arg_max ctl \<and> length words < max_arg_count ctl \<Longrightarrow> gather_initial ctl words = Ok ()"
    and "\<not> (weight words \<le> arg_max ctl \<and> length words < max_arg_count ctl) \<Longrightarrow>
      \<exists>err. gather_initial ctl words = Exit (Exec_error err)"
proof -
  define c where "c = plus_control ctl words"
  have lim: "arg_max c = arg_max ctl" "max_arg_count c = max_arg_count ctl" by (simp_all add: c_def plus_control_def)
  obtain s where s: "bc_init_state c (\<lambda>n. CHR 0x00) () = Ok s" using init_state_ok assms(1) lim by metis
  note start = init_gathering(1) [OF s]
  have g: "gather_initial ctl words =
      obind (exec_error (ofold (\<lambda>w. bc_push_arg c no_launch w (length w + 1) None 0 True) words s) fst) (\<lambda>s. Ok ())"
    using s by (simp add: gather_initial_def exec_buffer_def c_def [symmetric] exec_error_def)
  show "weight words \<le> arg_max ctl \<and> length words < max_arg_count ctl \<Longrightarrow> gather_initial ctl words = Ok ()"
    using push_words_fit [OF start, of words no_launch] g lim by (auto simp: exec_error_def)
  show "\<not> (weight words \<le> arg_max ctl \<and> length words < max_arg_count ctl) \<Longrightarrow>
      \<exists>err. gather_initial ctl words = Exit (Exec_error err)"
    using push_words_fail [OF start, of words] assms(2) g lim by (cases "words = []") (auto simp: exec_error_def)
qed

lemma init_controlinfo_limits:
  "bc_init_controlinfo m env room = Ok (BC_INIT_OK ctl) \<Longrightarrow> 0 < max_arg_count ctl \<and> posix_arg_size_min ctl = 4096"
  by (auto simp: bc_init_controlinfo_def Let_def split: if_splits)

lemma exec_control_ok:
  assumes "exec_control E = Ok ctl"
  shows "arg_max ctl \<le> LONG_MAX - 2048" "0 < max_arg_count ctl"
proof -
  obtain c where c: "bc_init_controlinfo (system_arg_max E) (environ E) 2048 = Ok (BC_INIT_OK c)"
    "ctl = bc_use_sensible_arg_max c"
    using assms by (auto simp: exec_control_def split: outcome.splits bc_init_status.splits)
  show "0 < max_arg_count ctl" using init_controlinfo_limits [OF c(1)] c(2) by (simp add: bc_use_sensible_arg_max_def)
  show "arg_max ctl \<le> LONG_MAX - 2048"
    using init_controlinfo_limits [OF c(1)] unfolding c(2) bc_use_sensible_arg_max_def LONG_MAX_def by (simp add: Let_def)
qed

lemma gather_initial_returns:
  assumes "exec_control E = Ok ctl"
  shows "gather_initial ctl words \<noteq> Undef" "gather_initial ctl words \<noteq> Diverge"
  using gather_initial_result [OF exec_control_ok [OF assms], of words] by (metis outcome.distinct)+

end
