(* ===== verification/FindBuilt.thy ===== *)
theory FindBuilt
  imports FindNodes FindExecOk
begin

text \<open>
  The parsers of the other primaries, the call through the table and the whole list: what the first half
  of \<open>build_expression_tree\<close> hands to the second half meets what the theorems about parsing, optimising
  and evaluating assume.
\<close>

subsection \<open>Formats\<close>

lemma segment_needs_keeps [simp]:
  "pred_func (segment_needs p seg) = pred_func p" "p_type (segment_needs p seg) = p_type p"
  "p_prec (segment_needs p seg) = p_prec p" "side_effects (segment_needs p seg) = side_effects p"
  "args (segment_needs p seg) = args p"
  by (cases seg; simp split: option.split)+

lemma foldl_segment_needs [simp]:
  "pred_func (foldl segment_needs p segs) = pred_func p" "p_type (foldl segment_needs p segs) = p_type p"
  "p_prec (foldl segment_needs p segs) = p_prec p" "side_effects (foldl segment_needs p segs) = side_effects p"
  by (induction segs arbitrary: p) simp_all

lemma set_format_ok: "node_ok d (set_format (Printf_vec k) segs (default_node E literal Pred_fprintf a name))"
  by (simp add: set_format_def Let_def node_simps)

lemma scan_format_returns: "scan_format acc r \<noteq> Diverge"
proof (induction acc r rule: scan_format.induct)
  case (2 acc x r)
  show ?case
    by (subst scan_format.simps) (use 2 in \<open>auto simp: obind_eqs Let_def split: option.split list.split prod.split\<close>)
qed (simp add: scan_format.simps)

lemma insert_fprintf_ok:
  assumes "built b" and "i \<le> i'" and "vec = Printf_vec k" and "scan_format [] format \<noteq> Undef \<or> may"
  shows "parsed_ok may i (insert_fprintf E vec e format i' b)"
  unfolding insert_fprintf_def
proof (rule parsed_ok_bind)
  fix segs
  have "built (insert_primary_withpred E e Pred_fprintf (Some format) (set_format vec segs) b)"
    unfolding assms(3) by (rule built_primary [OF assms(1)]) (rule set_format_ok)
  then show "parsed_ok may i (Ok (True, i', insert_primary_withpred E e Pred_fprintf (Some format) (set_format vec segs) b))"
    using assms(2) by (simp add: parsed_ok_def)
qed (use assms(4) scan_format_returns in auto)

subsection \<open>Settings\<close>

lemma built_settings [simp]: "built (b\<lparr>b_settings := s\<rparr>) = built b"
  by (simp add: built_def)

lemma parse_noop_ok: "built b \<Longrightarrow> parsed_ok may i (parse_noop E i b)"
  unfolding parse_noop_def by (rule parse_true_ok) (simp_all add: noop_entry_def)

lemma parse_noop_ok': "built b \<Longrightarrow> i \<le> j \<Longrightarrow> parsed_ok may i (parse_noop E j b)"
  using parse_noop_ok [of b may j E] by (auto simp: parsed_ok_def split: outcome.splits)

lemma insert_depthspec_ok: "built b \<Longrightarrow> parsed_ok may i (insert_depthspec E f argv i b)"
  unfolding insert_depthspec_def
  by (rule collected, assumption)
    (auto simp: parsed_ok_def [of _ _ "Exit _"] read_int_returns intro!: parsed_ok_bind parse_noop_ok')

lemma get_regex_type_returns: "get_regex_type s \<noteq> Undef" "get_regex_type s \<noteq> Diverge"
  by (auto simp: get_regex_type_def split: option.splits)

lemma parse_regextype_ok: "built b \<Longrightarrow> parsed_ok may i (parse_regextype E argv i b)"
  unfolding parse_regextype_def
  by (rule collected, assumption)
    (use get_regex_type_returns in \<open>auto simp: parsed_ok_def [of _ _ "Exit _"] intro: parse_noop_ok' split: outcome.split\<close>)

lemma insert_regex_ok: "built b \<Longrightarrow> parsed_ok may i (insert_regex E e r argv i b)"
  unfolding insert_regex_def
proof (rule collected, assumption)
  fix a assume "built b"
  then have "built (insert_primary_withpred E e Pred_regex (Some a) (set_regex E r a) b)"
    by (rule built_primary) (simp add: node_simps set_regex_def)
  then show "parsed_ok may i (if \<not> re_compile E r a then Exit (Bad_regex a)
      else Ok (True, Suc i, insert_primary_withpred E e Pred_regex (Some a) (set_regex E r a) b))"
    by (simp add: parsed_ok_def)
qed

subsection \<open>Times\<close>

lemma relative_returns: "get_relative_timestamp E s o1 u \<noteq> Undef" "get_relative_timestamp E s o1 u \<noteq> Diverge"
  by (auto simp: get_relative_timestamp_def Let_def split_beta split: option.splits strtod_value.splits)

abbreviation "relative_funcs \<equiv> {Pred_amin, Pred_atime, Pred_cmin, Pred_ctime, Pred_mmin, Pred_mtime, Pred_used}"

lemma insert_reftime_ok:
  assumes "built b" and "e_pred_func e = Some fn" and "i \<le> i'" and "fn \<in> relative_funcs \<or>
    fn \<in> {Pred_newer, Pred_anewer, Pred_cnewer} \<and> kind = COMP_GT \<or>
    fn = Pred_newerXY \<and> kind = COMP_GT \<and> xv \<noteq> XVAL_TIME"
  shows "parsed_ok may i (accept i' (insert_primary E e a (set_reftime xv kind ts rate) b))"
  by (rule insert_ok [OF assms(1-3)]) (use assms(4) in \<open>auto simp: node_simps set_reftime_def\<close>)

lemma relative_ok:
  assumes b: "built b" and e: "e_pred_func e = Some fn" "fn \<in> relative_funcs"
  shows "parsed_ok may i (parse_time E e argv i b)" "parsed_ok may i (do_parse_xmin E e xv argv i b)"
    "parsed_ok may i (parse_used E e argv i b)"
proof -
  note ins = insert_reftime_ok [OF b e(1)] and bind = parsed_ok_bind [OF disjI1, OF relative_returns]
  have stop: "parsed_ok may i (Ok (False, j, b))" "parsed_ok may i (Exit err)" for j err
    using b by (simp_all add: parsed_ok_def)
  show "parsed_ok may i (parse_time E e argv i b)" unfolding parse_time_def
    by (rule collected [OF b]) (use e(2) in \<open>auto simp: Let_def intro!: bind ins stop split: option.split prod.split\<close>)
  show "parsed_ok may i (do_parse_xmin E e xv argv i b)" unfolding do_parse_xmin_def
    by (rule collected [OF b]) (use e(2) in \<open>auto simp: Let_def intro!: bind ins stop split: option.split prod.split\<close>)
  show "parsed_ok may i (parse_used E e argv i b)" unfolding parse_used_def
    by (rule collected [OF b]) (use e(2) in \<open>auto simp: Let_def intro!: bind ins stop split: option.split prod.split\<close>)
qed

lemma stat_at_start_returns: "stat_at_start E b name \<noteq> Undef" "stat_at_start E b name \<noteq> Diverge"
  by (auto simp: stat_at_start_def split: sum.splits)

lemma stat_info_ok:
  assumes "built b" and "\<And>st. parsed_ok may i (g (argv ! i) st (Suc i))"
  shows "parsed_ok may i (obind (collect_arg_stat_info E b argv i) (\<lambda>(r, j).
    case r of None \<Rightarrow> Ok (False, j, b) | Some (a, st) \<Rightarrow> g a st j))"
proof (cases "stat_at_start E b (argv ! i)")
  case (Ok st)
  then show ?thesis using assms by (simp add: collect_arg_stat_info_def collect_arg_def parsed_ok_def)
qed (use assms stat_at_start_returns [of E b "argv ! i"] in
    \<open>auto simp: collect_arg_stat_info_def collect_arg_def parsed_ok_def\<close>)

lemma insert_newer_ok:
  assumes "built b" and "e_pred_func e = Some fn" and "fn \<in> {Pred_newer, Pred_anewer, Pred_cnewer}"
  shows "parsed_ok may i (insert_newer E e xv argv i b)"
  unfolding insert_newer_def
  by (rule stat_info_ok [OF assms(1)], rule insert_reftime_ok [OF assms(1,2)]) (use assms(3) in auto)

lemma reference_time_returns: "reference_time E b y a \<noteq> Undef" "reference_time E b y a \<noteq> Diverge"
  using stat_at_start_returns [of E b a]
  by (auto simp: reference_time_def obind_eqs split: option.splits)

lemma parse_newerXY_ok:
  assumes "built b" and "e_pred_func e = Some Pred_newerXY" and "i < length argv \<Longrightarrow> take 6 (argv ! i) = ''-newer''"
  shows "parsed_ok may (i + 1) (parse_newerXY E e argv i b)"
proof -
  have "xval_of x \<noteq> XVAL_TIME" for x by (simp add: xval_of_def)
  then have "parsed_ok may (i + 1) (obind (reference_time E b y a) (\<lambda>ts. accept (i + 2) (insert_primary E e (Some a)
      (set_reftime (xval_of x) COMP_GT ts (f ts)) b)))" for y a x f
    by (intro parsed_ok_bind [OF disjI1, OF reference_time_returns] insert_reftime_ok [OF assms(1,2)]) auto
  then show ?thesis
    using assms by (auto simp: parse_newerXY_def Let_def parsed_ok_def [of _ _ "Exit _"] parsed_ok_def [of _ _ "Ok (False, _)"])
qed

subsection \<open>Permissions, file systems and files\<close>

lemma perm_kind_returns: "perm_kind E s \<noteq> Undef" "perm_kind E s \<noteq> Diverge"
  by (auto simp: perm_kind_def non_posix_mode_def split: list.splits if_splits)

lemma parse_perm_ok:
  assumes "built b" and "e_pred_func e = Some Pred_perm"
  shows "parsed_ok may i (parse_perm E e argv i b)"
proof -
  have ins: "parsed_ok may i (accept (Suc i) (insert_primary E e a
      (\<lambda>p. p\<lparr>est_success_rate := lit E rate, args := Some (Perm kind v0 v1)\<rparr>) b))" for a rate kind v0 v1
    by (rule insert_ok [OF assms]) (simp_all add: node_simps)
  show ?thesis unfolding parse_perm_def
    by (rule collected [OF assms(1)])
      (auto simp: Let_def parsed_ok_def [of _ _ "Exit _"] intro!: parsed_ok_bind [OF disjI1, OF perm_kind_returns] ins
        split: option.split prod.split)
qed

lemma insert_false_ok: "built b \<Longrightarrow> i \<le> j \<Longrightarrow> parsed_ok may i (insert_false E j b)"
proof -
  have e: "find_parser ''false'' = Some (entry ARG_TEST ''false'' Parse_false (Some Pred_false))" by code_simp
  assume "built b" "i \<le> j"
  then show ?thesis unfolding insert_false_def e option.case insert_test_def
    by (intro insert_ok [where fn = Pred_false]) (simp_all add: node_simps)
qed

lemma parse_fstype_ok:
  assumes "built b" and "e_pred_func e = Some Pred_fstype"
  shows "parsed_ok may i (parse_fstype E e argv i b)"
  unfolding parse_fstype_def
  by (rule collected [OF assms(1)])
    (auto intro!: insert_ok [OF assms] insert_false_ok [OF assms(1)] simp: node_simps)

lemma parse_context_ok:
  assumes "built b" and "e_pred_func e = Some Pred_context"
  shows "parsed_ok may i (parse_context E e argv i b)"
  using assms(1)
  by (auto simp: parse_context_def parsed_ok_def [of _ _ "Exit _"] parsed_ok_def [of _ _ "Ok (False, _)"] node_simps
    intro!: insert_ok [OF assms])

lemma samefile_stat_returns: "samefile_stat E b name st \<noteq> Undef" "samefile_stat E b name st \<noteq> Diverge"
  using stat_at_start_returns [of E b name]
  by (auto simp: samefile_stat_def Let_def obind_eqs split: option.splits sum.splits if_splits)

lemma parse_samefile_ok:
  assumes "built b" and "e_pred_func e = Some Pred_samefile"
  shows "parsed_ok may i (parse_samefile E e argv i b)"
  unfolding parse_samefile_def
  by (rule stat_info_ok [OF assms(1)], rule parsed_ok_bind [OF disjI1, OF samefile_stat_returns],
    rule insert_ok [OF assms]) (simp_all add: node_simps)

subsection \<open>Commands\<close>

lemma scan_command_returns:
  "scan_command off allow local ws n saw k a \<noteq> Undef" "scan_command off allow local ws n saw k a \<noteq> Diverge"
  by (induction ws arbitrary: n saw k a) auto

lemma check_path_safety_returns: "check_path_safety E \<noteq> Undef" "check_path_safety E \<noteq> Diverge"
  by (auto simp: check_path_safety_def split: option.splits)

lemma check_braces_returns: "check_braces n a \<noteq> Undef" "check_braces n a \<noteq> Diverge"
  by (auto simp: check_braces_def)

lemma exec_control_returns: "exec_control E \<noteq> Diverge"
  by (auto simp: exec_control_def bc_init_controlinfo_def Let_def split: outcome.splits bc_init_status.splits)

lemma insert_exec_ok_ok:
  assumes "built b" and "fn \<in> {Pred_exec, Pred_execdir, Pred_ok, Pred_okdir}" and "exec_control E \<noteq> Undef \<or> may"
  shows "parsed_ok may i (insert_exec_ok E e fn argv i b)"
proof -
  define b' where "b' = (if is_exec_in_local_dir fn
    then b\<lparr>b_settings := (b_settings b)\<lparr>opt_ignore_readdir_race := False\<rparr>\<rparr> else b)"
  have b': "built b'" using assms(1) by (simp add: b'_def)
  have node: "built (insert_primary_withpred E e fn a (set_exec c ws multiple) b')" for a c ws multiple
    by (rule built_primary [OF b']) (use assms(2) in \<open>auto simp: node_simps set_exec_def\<close>)
  have rest: "parsed_ok may i (obind (if multiple then check_braces k a else Ok ()) (\<lambda>_.
      obind (exec_control E) (\<lambda>ctl. obind (if multiple then gather_initial ctl words else Ok ()) (\<lambda>_.
        Ok (True, i + n + 1, insert_primary_withpred E e fn x (set_exec c words multiple) b')))))"
    for multiple k a words n x c
    using check_braces_returns [of k a] gather_initial_returns [of E _ words] assms(3) exec_control_returns [of E] node
    by (intro parsed_ok_bind) (auto simp: parsed_ok_def)
  show ?thesis
  proof (cases "length argv \<le> i")
    case True
    then show ?thesis using assms(1) by (simp add: insert_exec_ok_def parsed_ok_def)
  next
    case False
    have "parsed_ok may i (case x of (n, multiple, k, a) \<Rightarrow>
        if n = 0 \<or> i + n \<ge> length argv then Ok (False, i + n, b')
        else let words = take (if multiple then n - 1 else n) (drop i argv) in
          obind (if multiple then check_braces k a else Ok ()) (\<lambda>_. obind (exec_control E) (\<lambda>ctl.
            obind (if multiple then gather_initial ctl words else Ok ()) (\<lambda>_.
            Ok (True, i + n + 1, insert_primary_withpred E e fn (Some ''(some -exec* arguments)'')
              (set_exec (argv ! i) words multiple) b')))))" for x
      using rest b' by (cases x) (simp add: Let_def parsed_ok_def [of _ _ "Ok (False, _)"])
    then show ?thesis
      unfolding insert_exec_ok_def Let_def b'_def [symmetric] if_not_P [OF False]
      using check_path_safety_returns [of E] scan_command_returns
      by (intro parsed_ok_bind) (auto simp: Let_def)
  qed
qed

subsection \<open>The call through the table\<close>

text \<open>
  The behaviour is undefined for some formats, for the internal primary \<open>-noop\<close>, and where the limits of
  \<open>exec\<close> fail an assertion.
\<close>

definition undefined_here :: "'f parse_env \<Rightarrow> string list \<Rightarrow> bool" where
  "undefined_here E argv \<longleftrightarrow> (\<exists>a\<in>set argv. scan_format [] a = Undef) \<or> ''-noop'' \<in> set argv \<or> exec_control E = Undef"

lemma noop_name:
  assumes "find_parser name = Some e" and "parser_func e = No_parser" and "looks_like_expression name False"
  shows "name = ''-noop''"
proof -
  have "list_all (\<lambda>e. parser_func e = No_parser \<longrightarrow> parser_name e = ''noop'') parse_table" by code_simp
  then have "(if name \<noteq> [] \<and> hd name = CHR ''-'' then tl name else name) = ''noop''"
    using assms(1,2)
    by (auto simp: find_parser_def find_Some_iff list_all_length Let_def parse_entry_newerXY_def split: if_splits)
  then show ?thesis
    using assms(3) by (cases name) (auto simp: looks_like_expression_def split: if_splits)
qed

lemma run_parser_ok:
  assumes b: "built b" and e: "entry_ok e" and ne: "predicates b \<noteq> []"
    and may: "undefined_here E argv \<Longrightarrow> may"
    and noop: "parser_func e = No_parser \<Longrightarrow> may"
    and special: "parser_func e = Parse_newerXY \<Longrightarrow> i < length argv \<Longrightarrow> take 6 (argv ! i) = ''-newer''"
  shows "parsed_ok may (if parser_func e = Parse_newerXY then i + 1 else i) (run_parser E e argv i b)"
proof -
  have op: "parsed_ok may i (Ok (True, i, insert_operator E chk fn ty pr b))"
    if "ty = UNI_OP \<and> pr = NEGATE_PREC \<and> fn = Pred_negate \<or> ty = BI_OP \<and> biop_func pr = Some fn \<or>
      ty = OPEN_PAREN \<and> pr = NO_PREC \<and> fn = Pred_openparen \<or> ty = CLOSE_PAREN \<and> pr = NO_PREC \<and> fn = Pred_closeparen"
    for chk ty pr fn
    using built_operator [OF b that] by (simp add: parsed_ok_def)
  have exec: "exec_control E \<noteq> Undef \<or> may" and format: "a \<in> set argv \<Longrightarrow> scan_format [] a \<noteq> Undef \<or> may" for a
    using may by (auto simp: undefined_here_def)
  show ?thesis
  proof (cases "parser_func e")
    case Parse_fls
    then show ?thesis using b e
      by (auto simp: run_parser.simps parser_defs entry_ok_def intro!: collected insert_fls_ok)
  next
    case Parse_fprint
    then show ?thesis using b e
      by (auto simp: run_parser.simps parser_defs entry_ok_def intro!: collected insert_fprint_ok)
  next
    case Parse_fprint0
    then show ?thesis using b e
      by (auto simp: run_parser.simps parser_defs entry_ok_def intro!: collected insert_fprint_ok)
  next
    case Parse_delete
    then show ?thesis using e
      by (auto simp: run_parser.simps parser_defs entry_ok_def node_simps intro!: insert_test_ok built_delete(2) [OF b])
  next
    case Parse_depth
    then show ?thesis using parse_true_ok [OF built_delete(1) [OF b]]
      by (simp add: run_parser.simps parser_defs noop_entry_def)
  next
    case Parse_d
    then show ?thesis using parse_true_ok [OF built_delete(1) [OF b]]
      by (simp add: run_parser.simps parser_defs parse_d_def noop_entry_def)
  next
    case Parse_daystart
    then show ?thesis using b ne by (simp add: run_parser.simps parse_daystart_def parsed_ok_def Let_def)
  next
    case Parse_newerXY
    then show ?thesis using parse_newerXY_ok [OF b, of e i argv may E] e special
      by (simp add: run_parser.simps entry_ok_def)
  next
    case Parse_printf
    then show ?thesis using b format
      by (auto simp: run_parser.simps parse_printf_def intro!: collected insert_fprintf_ok)
  next
    case Parse_fprintf
    have "parsed_ok may i (obind (open_output_file E f b) (\<lambda>(vec, b). insert_fprintf E vec e a (Suc (Suc i)) b))"
      if "a \<in> set argv" for f a
    proof (rule open_output_ok [OF b], unfold prod.case)
      fix k h
      have "built (b\<lparr>b_shared_files := h\<rparr>)" using b by (simp add: built_def)
      from insert_fprintf_ok [OF this _ refl format [OF that]]
      show "parsed_ok may i (insert_fprintf E (Printf_vec k) e a (Suc (Suc i)) (b\<lparr>b_shared_files := h\<rparr>))" by simp
    qed
    then show ?thesis using b Parse_fprintf
      by (auto simp: run_parser.simps parse_fprintf_def collect_arg_def parsed_ok_def [of _ _ "Ok (False, _)"])
  next
    case No_parser
    then show ?thesis using noop by (simp add: run_parser.simps parsed_ok_def)
  next
    case Parse_help
    then show ?thesis by (simp add: run_parser.simps parse_help_def parsed_ok_def)
  next
    case Parse_version
    then show ?thesis by (simp add: run_parser.simps parse_version_def parsed_ok_def)
  qed (use b e exec in \<open>auto simp: run_parser.simps parser_defs entry_ok_def node_simps
      set_str_def set_link_def set_path_def Let_def parse_noop_def [symmetric]
      parse_exec_def parse_execdir_def parse_ok_def parse_okdir_def parse_amin_def parse_cmin_def parse_mmin_def
      parse_anewer_def parse_cnewer_def parse_newer_def parse_maxdepth_def parse_mindepth_def parse_xdev_def
      parse_ignore_race_def parse_noignore_race_def parse_noleaf_def parse_warn_def parse_nowarn_def
      parse_follow_def parse_regex_def parse_iregex_def
      intro!: op parse_true_ok parse_print_ok insert_test_ok insert_str_ok insert_num_ok parse_user_ok
        parse_size_ok insert_type_ok insert_fls_ok insert_fprint_ok parse_group_ok parse_noop_ok
        insert_depthspec_ok parse_regextype_ok insert_regex_ok relative_ok insert_newer_ok parse_perm_ok
        parse_fstype_ok parse_context_ok parse_samefile_ok insert_exec_ok_ok\<close>)
qed

subsection \<open>The whole list\<close>

lemma set_last_ok:
  assumes "built b" and "predicates b \<noteq> []" and "\<And>d p. node_ok d (f p) \<longleftrightarrow> node_ok d p"
  shows "built (set_last f b)" "predicates (set_last f b) \<noteq> []"
    "b_do_dir_first (set_last f b) = b_do_dir_first b"
  using assms by (auto simp: set_last_def built_def dest: in_set_butlastD)

lemma parse_arguments_ok:
  assumes "built b" and "predicates b \<noteq> []" and "length argv - i \<le> n"
  shows "case parse_arguments E n argv i b of Ok b' \<Rightarrow> built b' \<and> predicates b' \<noteq> [] | Exit err \<Rightarrow> True
    | Undef \<Rightarrow> undefined_here E argv | Diverge \<Rightarrow> False"
  using assms
proof (induction n arbitrary: i b)
  case (Suc n)
  show ?case
  proof (cases "i < length argv \<and> looks_like_expression (argv ! i) False")
    case True
    show ?thesis
    proof (cases "find_parser (argv ! i)")
      case (Some e)
      define oldi where "oldi = (if e_type e \<noteq> ARG_SPECIAL_PARSE then i + 1 else i)"
      note special = special_newerXY [OF Some]
      have "parsed_ok (undefined_here E argv) (if parser_func e = Parse_newerXY then oldi + 1 else oldi)
          (run_parser E e argv oldi b)"
        by (rule run_parser_ok [OF Suc.prems(1) find_parser_ok [OF Some] Suc.prems(2)])
          (use special True Some noop_name [OF Some] in \<open>auto simp: oldi_def undefined_here_def in_set_conv_nth\<close>)
      then have ok: "parsed_ok (undefined_here E argv) (i + 1) (run_parser E e argv oldi b)"
        using special by (simp add: oldi_def split: if_splits)
      show ?thesis
      proof (cases "run_parser E e argv oldi b")
        case (Ok r)
        then obtain acc i' b' where r: "run_parser E e argv oldi b = Ok (acc, i', b')" by (cases r) auto
        define f where "f = (\<lambda>p :: 'a find_pred. p\<lparr>p_name := argv ! i,
          arg_text := (if i' \<noteq> oldi then Some (argv ! oldi) else None)\<rparr>)"
        have f: "node_ok d (f p) \<longleftrightarrow> node_ok d p" for d p by (simp add: f_def)
        have step: "parse_arguments E (Suc n) argv i b = (if \<not> acc then
            Exit (if i' < length argv then
                (if e_type e = ARG_SPECIAL_PARSE \<and> i' = oldi then Invalid_predicate (argv ! i)
                 else Invalid_argument (argv ! i') (argv ! i)) else Missing_argument (argv ! i))
          else parse_arguments E n argv i' (set_last f b'))"
          using True Some r by (simp add: f_def Let_def oldi_def [symmetric])
        show ?thesis
        proof (cases acc)
          case True
          have b': "built b'" "predicates b' \<noteq> []" and le: "i + 1 \<le> i'"
            using ok r True by (simp_all add: parsed_ok_def)
          have "length argv - i' \<le> n" using le Suc.prems(3) by linarith
          from Suc.IH [OF set_last_ok(1,2) [OF b' f] this] show ?thesis using step True by simp
        next
          case False
          then show ?thesis unfolding step by simp
        qed
      qed (use True Some ok in \<open>simp_all add: oldi_def [symmetric] parsed_ok_def Let_def\<close>)
    qed (use True in simp)
  qed (use Suc.prems in auto)
qed auto

lemma complete_list_ok:
  assumes b: "built b" "predicates b \<noteq> []"
  shows "\<exists>ps. complete_list E b = Ok ps \<and> ps \<noteq> [] \<and> (\<forall>p\<in>set ps. node_ok (b_do_dir_first b) p)"
proof -
  have print: "\<exists>b'. obind (parse_print E print_entry 0 c) (\<lambda>(_, _, b). Ok (predicates (set_last f b))) = Ok (predicates b') \<and>
      built b' \<and> predicates b' \<noteq> [] \<and> b_do_dir_first b' = b_do_dir_first c"
    if "built c" "\<And>d p. node_ok d (f p) \<longleftrightarrow> node_ok d p" for c f
  proof -
    define c' where "c' = insert_primary_withpred E print_entry Pred_print None
      (\<lambda>p. (no_stat (with_effects p))\<lparr>args := Some (Printf_vec 0)\<rparr>) c"
    have "parse_print E print_entry 0 c = Ok (True, 0, c')"
      by (simp add: parse_print_def insert_test_def insert_primary_def print_entry_def accept_def c'_def)
    moreover have "built c'" unfolding c'_def
      by (rule built_primary [OF that(1)]) (simp add: node_simps)
    moreover have "predicates c' \<noteq> []" "b_do_dir_first c' = b_do_dir_first c" by (simp_all add: c'_def)
    ultimately show ?thesis using set_last_ok [of c' f] that(2) by auto
  qed
  show ?thesis
  proof (cases "tl (predicates b) = []")
    case True
    have "built (b\<lparr>predicates := []\<rparr>)" by (simp add: built_def)
    from print [OF this, of "\<lambda>p. p\<lparr>p_name := ''-print''\<rparr>"] True show ?thesis
      by (auto simp: complete_list_def built_def)
  next
    case False
    show ?thesis
    proof (cases "default_prints (tl (predicates b))")
      case no: False
      have "\<forall>p\<in>set (tl (predicates b)). node_ok (b_do_dir_first b) p"
        using b by (auto simp: built_def dest: list.set_sel(2))
      then show ?thesis using False no by (simp add: complete_list_def)
    next
      case True
      define c where "c = set_last (\<lambda>p. p\<lparr>p_name := '')'', artificial := True\<rparr>)
        (insert_operator E False Pred_closeparen CLOSE_PAREN NO_PREC b)"
      have "built (insert_operator E False Pred_closeparen CLOSE_PAREN NO_PREC b)"
        by (rule built_operator [OF b(1)]) simp
      then have c: "built c" "b_do_dir_first c = b_do_dir_first b"
        using set_last_ok(1) [of "insert_operator E False Pred_closeparen CLOSE_PAREN NO_PREC b"
          "\<lambda>p. p\<lparr>p_name := '')'', artificial := True\<rparr>"]
        by (simp_all add: c_def) (simp add: set_last_def insert_operator_def Let_def)
      have "complete_list E b = obind (parse_print E print_entry 0 c)
          (\<lambda>(_, _, b). Ok (predicates (set_last (\<lambda>p. p\<lparr>p_name := ''-print'', artificial := True\<rparr>) b)))"
        using False True by (simp add: complete_list_def c_def Let_def)
      then show ?thesis using print [OF c(1), of "\<lambda>p. p\<lparr>p_name := ''-print'', artificial := True\<rparr>"] c(2)
        by (auto simp: built_def)
    qed
  qed
qed

lemma predicate_list_ok:
  "case predicate_list E argv of
     Ok (b, ps) \<Rightarrow> ps \<noteq> [] \<and> (\<forall>p\<in>set ps. node_ok (b_do_dir_first b) p)
   | Exit err \<Rightarrow> True | Undef \<Rightarrow> undefined_here E argv | Diverge \<Rightarrow> False"
proof -
  define b :: "'a builder" where "b = set_last (\<lambda>p. p\<lparr>p_name := ''('', artificial := True\<rparr>)
    (insert_operator E True Pred_openparen OPEN_PAREN NO_PREC (empty_builder E))"
  have "built (insert_operator E True Pred_openparen OPEN_PAREN NO_PREC (empty_builder E :: 'a builder))"
    by (rule built_operator) (simp_all add: built_def empty_builder_def)
  then have b: "built b" "predicates b \<noteq> []" unfolding b_def by (auto simp: set_last_ok)
  have args: "case parse_arguments E (length argv) argv 0 b of
      Ok b' \<Rightarrow> built b' \<and> predicates b' \<noteq> [] | Exit err \<Rightarrow> True | Undef \<Rightarrow> undefined_here E argv
      | Diverge \<Rightarrow> False"
    by (rule parse_arguments_ok [OF b]) simp
  show ?thesis
  proof (cases "parse_arguments E (length argv) argv 0 b")
    case (Ok b')
    then obtain ps where "complete_list E b' = Ok ps" "ps \<noteq> []" "\<forall>p\<in>set ps. node_ok (b_do_dir_first b') p"
      using complete_list_ok [of b' E] args by auto
    then show ?thesis using Ok by (simp add: predicate_list_def b_def Let_def)
  qed (use args in \<open>simp_all add: predicate_list_def b_def Let_def\<close>)
qed

end
