(* ===== verification/FindCommand.thy ===== *)
theory FindCommand
  imports FindBuilt
begin

text \<open>
  The properties of \<open>build_expression_tree\<close> as a whole, from the arguments of \<open>find\<close> to the evaluation
  of the tree on a file.
\<close>

subsection \<open>What is handed to the second half\<close>

lemma predicate_list_cases:
  obtains (list) b ps where "predicate_list E argv = Ok (b, ps)" "ps \<noteq> []"
    "\<forall>p\<in>set ps. node_ok (b_do_dir_first b) p"
  | (error) err where "predicate_list E argv = Exit err"
  | (undefined) "predicate_list E argv = Undef" "undefined_here E argv"
  using predicate_list_ok [of E argv] by (cases "predicate_list E argv") auto


lemma valid_cost [simp]: "valid e (p\<lparr>p_cost := c\<rparr>) = valid e p"
  by (simp add: valid_def valid_pred_def)





subsection \<open>The properties\<close>

definition ex_settings :: settings where
  "ex_settings = \<lparr>opt_maxdepth = - 1, opt_mindepth = - 1, opt_stay_on_filesystem = False,
     opt_ignore_readdir_race = False, opt_symlink_handling = SYMLINK_NEVER_DEREF, opt_no_leaf_check = False,
     opt_warnings = False, opt_regex_options = RE_SYNTAX_EMACS, opt_full_days = False,
     opt_cur_day_start = \<lparr>tv_sec = 913600, tv_nsec = 0\<rparr>, opt_level = 1, opt_debug = []\<rparr>"

definition ex_parse_env :: "int parse_env" where
  "ex_parse_env = \<lparr>lit = (\<lambda>s. 100), xstrtoumax = (\<lambda>s. if s = ''3'' then Some 3 else None),
     xstrtod = (\<lambda>s. if s = ''3'' then Some (Finite 3) else None),
     getpwnam = (\<lambda>s. None), getgrnam = (\<lambda>s. None), glob_matches = (\<lambda>p s f. p = s),
     local_time = (\<lambda>t. None), parse_datetime = (\<lambda>s. None),
     mode_bits = (\<lambda>s. if s = ''0'' then Some (\<lambda>d. 0) else None), re_compile = (\<lambda>syntax s. True),
     surroundings = ex_env, open_stat = (\<lambda>s n. None),
     opener = \<lparr>fopen_safer = (\<lambda>name mode. None), fstat_fails = (\<lambda>name. False), fclose_fails = (\<lambda>k. False)\<rparr>,
     have_birthtime = False, nofollow_available = True,
     mounted_types = None, root_fs_type = None, selinux_enabled = False, search_path = Some ''/bin'',
     environ = [], system_arg_max = 0, posixly_correct = False, start_points = [], argv_offset = 1,
     leading_options = ex_settings, stale_word = 0, stale_xval = XVAL_ATIME\<rparr>"



text \<open>C33: The parsers hand a well-formed list on: with any arguments, the first half of
  \<open>build_expression_tree\<close> ends with one of its error messages or with a non-empty list in which
  every node has a precedence and flags that fit its type and every test has the argument and the
  requirements (\<open>need_stat\<close>, \<open>need_type\<close>, \<open>need_inum\<close>, \<open>side_effects\<close>) its function relies on. The
  exceptions are formats that run off their end, the internal \<open>-noop\<close> and limits of \<open>exec\<close> that fail an assertion.\<close>

theorem parsers_make_valid_nodes:
  "(\<exists>err. predicate_list E argv = Exit err) \<or>
   (\<exists>b ps. predicate_list E argv = Ok (b, ps) \<and> ps \<noteq> [] \<and> list_all (node_ok (b_do_dir_first b)) ps) \<or>
   predicate_list E argv = Undef \<and> undefined_here E argv"
  by (cases E argv rule: predicate_list_cases) (auto simp: list_all_iff)

text \<open>The null pointer is reached: \<open>find . -daystart ')' -print\<close> passes all checks of the parsers, as
  \<open>-daystart\<close> makes no node, and \<open>get_expr\<close> looks at the predicate before the parenthesis, which is
  not there.\<close>

theorem close_paren_after_option:
  "build_expression_tree pct ex_parse_env [''-daystart'', '')'', ''-print''] = Undef"
  by code_simp

text \<open>\<open>find -noop\<close> calls the parser of an entry that has none.\<close>

theorem noop_has_no_parser: "build_expression_tree pct ex_parse_env [''-noop''] = Undef"
  by code_simp

text \<open>\<open>-uid\<close> without an argument is reported as an invalid argument \<open>-uid\<close> of \<open>-uid\<close>: the parser steps
  back over an argument it has not taken. For \<open>-name\<close>, whose parser does not step back, the message
  is that the argument is missing.\<close>

theorem missing_argument_reported_as_invalid:
  "build_expression_tree pct ex_parse_env [''-uid''] = Exit (Invalid_argument ''-uid'' ''-uid'') \<and>
   build_expression_tree pct ex_parse_env [''-name''] = Exit (Missing_argument ''-name'')"
  by code_simp

end
