(* ===== verification/FindWalk.thy ===== *)
theory FindWalk
  imports FindTheorems
begin

text \<open>
  The walk over the hierarchy (\<open>find/ftsfind.c\<close>): the loop over what \<open>fts_read\<close> returns, the decision
  whether an entry is visited, and the loop over the starting points.
\<close>

subsection \<open>The interface of fts\<close>

datatype (plugins only: code size) fts_info =
  FTS_D | FTS_DC | FTS_DEFAULT | FTS_DNR | FTS_DOT | FTS_DP | FTS_ERR | FTS_F | FTS_INIT | FTS_NS
| FTS_NSOK | FTS_SL | FTS_SLNONE | FTS_W

datatype (plugins only: code size) fts_instr = FTS_AGAIN | FTS_FOLLOW | FTS_NOINSTR | FTS_SKIP

definition FTS_COMFOLLOW :: "32 word" where "FTS_COMFOLLOW = 0x0001"
definition FTS_LOGICAL :: "32 word" where "FTS_LOGICAL = 0x0002"
definition FTS_NOSTAT :: "32 word" where "FTS_NOSTAT = 0x0008"
definition FTS_PHYSICAL :: "32 word" where "FTS_PHYSICAL = 0x0010"
definition FTS_XDEV :: "32 word" where "FTS_XDEV = 0x0040"
definition FTS_TIGHT_CYCLE_CHECK :: "32 word" where "FTS_TIGHT_CYCLE_CHECK = 0x0100"
definition FTS_CWDFD :: "32 word" where "FTS_CWDFD = 0x0200"

definition AT_FDCWD :: int where "AT_FDCWD = - 100"

text \<open>
  An entry, with the descriptor \<open>fts_cwd_fd\<close> of the directory \<open>fts_accpath\<close> is relative to. What the
  system answers there to \<open>stat\<close> and the like is \<open>seen\<close>.
\<close>

record 'x ftsent =
  fts_info :: fts_info
  fts_level :: nat
  fts_path :: string
  fts_accpath :: string
  fts_name :: string
  fts_statp :: fstat
  fts_cwd_fd :: int
  seen :: "'x find_env"

text \<open>
  A stream of entries: what the next calls of \<open>fts_read\<close> return depends on the instruction given with
  \<open>fts_set\<close> and on what was done to the files. At the end, the argument says whether \<open>fts_close\<close>
  succeeds. Every stream is finite.
\<close>

datatype (plugins only: code size) 'x fts =
  Fts_end bool
| Fts_entry "'x ftsent" "fts_instr \<Rightarrow> 'x find_action list \<Rightarrow> 'x fts"

subsection \<open>Options and state\<close>

text \<open>
  The options the walk depends on; \<open>fts_open\<close> of gnulib, with no stream when it fails; \<open>dup_cloexec\<close>,
  given the duplicates that are open; and the contents of an uninitialised \<open>struct stat\<close>.
\<close>

record 'x walk_options =
  maxdepth :: int
  mindepth :: int
  dir_first :: bool
  ignore_race :: bool
  follow_mode :: SymlinkOption
  stay_on_filesystem :: bool
  fts_open :: "'x find_action list \<Rightarrow> 32 word \<Rightarrow> string \<Rightarrow> 'x fts option"
  dup_cloexec :: "int list \<Rightarrow> int \<Rightarrow> int"
  junk_stat :: fstat

text \<open>
  \<open>open_fds\<close> are the duplicates that were opened and not closed, \<open>now_depth\<close> is \<open>state.curdepth\<close> and
  \<open>level\<close> the local variable of \<open>find\<close>, with no value for \<open>INT_MIN\<close>.
\<close>

record 'x walk =
  fstate :: "'x find_state"
  ftsoptions :: "32 word"
  prev_depth :: int
  curr_fd :: int
  open_fds :: "int list"
  now_depth :: nat
  level :: "nat option"

abbreviation on_state :: "('x find_state \<Rightarrow> 'x find_state) \<Rightarrow> 'x walk \<Rightarrow> 'x walk" where
  "on_state f w \<equiv> w\<lparr>fstate := f (fstate w)\<rparr>"

abbreviation running :: "'x walk \<Rightarrow> bool" where
  "running w \<equiv> status (fstate w) = Running"

definition uses_cwdfd :: "'x walk \<Rightarrow> bool" where
  "uses_cwdfd w \<longleftrightarrow> ftsoptions w AND FTS_CWDFD \<noteq> 0"

definition left_dir :: "'x walk \<Rightarrow> 'x walk" where
  "left_dir w =
     (if uses_cwdfd w then
        if curr_fd w \<ge> 0 then w\<lparr>open_fds := remove1 (curr_fd w) (open_fds w), curr_fd := - 1\<rparr> else w
      else w)"

text \<open>The second assertion of \<open>inside_dir\<close> cannot fail.\<close>

definition inside_dir :: "'x walk_options \<Rightarrow> int \<Rightarrow> 'x walk \<Rightarrow> 'x walk" where
  "inside_dir opts dir_fd w =
     (if uses_cwdfd w then
        if \<not> (dir_fd = AT_FDCWD \<or> dir_fd \<ge> 0) then on_state (\<lambda>s. s\<lparr>status := Aborted\<rparr>) w
        else if curr_fd w < 0 then
          if AT_FDCWD = dir_fd then w\<lparr>curr_fd := AT_FDCWD\<rparr>
          else
            (let fd = dup_cloexec opts (open_fds w) dir_fd
             in w\<lparr>curr_fd := fd, open_fds := (if fd \<ge> 0 then fd # open_fds w else open_fds w)\<rparr>)
        else w
      else w)"

subsection \<open>One entry\<close>

text \<open>
  The surroundings of an entry. \<open>depth\<close> is \<open>state.curdepth\<close> and \<open>name\<close> the name that is given to \<open>stat\<close>.
\<close>

definition entry_env :: "'x walk_options \<Rightarrow> 'x ftsent \<Rightarrow> nat \<Rightarrow> string \<Rightarrow> 'x find_env" where
  "entry_env opts ent depth name =
     (seen ent)\<lparr>pathname := fts_path ent, rel_pathname := name, curdepth := depth,
       do_dir_first := dir_first opts, ignore_readdir_race := ignore_race opts,
       symlink_handling := follow_mode opts\<rparr>"

definition symlink_loop :: "'x find_env \<Rightarrow> string \<Rightarrow> bool" where
  "symlink_loop e name \<longleftrightarrow> xstat e name = Inl ELOOP"

definition issue_loop_warning :: "'x ftsent \<Rightarrow> 'x find_state \<Rightarrow> 'x find_state" where
  "issue_loop_warning ent s = error_msg (fts_path ent) s"

text \<open>
  The error conditions of \<open>consider_visiting\<close>, with false when it returns. \<open>symlink_loop\<close> runs while
  \<open>state.curdepth\<close> is still that of the entry before.
\<close>

definition entry_errors :: "'x find_env \<Rightarrow> 'x ftsent \<Rightarrow> 'x find_state \<Rightarrow> bool \<times> 'x find_state" where
  "entry_errors e ent s =
     (if fts_info ent = FTS_ERR \<or> fts_info ent = FTS_DNR then
        (False, nonfatal_target_file_error (fts_path ent) s)
      else if fts_info ent = FTS_DC then (False, error_severity 1 (issue_loop_warning ent s))
      else if fts_info ent = FTS_SLNONE then
        (if symlink_loop e (fts_accpath ent) then (False, nonfatal_target_file_error (fts_path ent) s)
         else (True, s))
      else if fts_info ent = FTS_NS then
        (if fts_level ent = 0 then (False, nonfatal_target_file_error (fts_path ent) s)
         else (\<not> symlink_loop e (fts_accpath ent), nonfatal_target_file_error (fts_path ent) s))
      else (True, s))"

text \<open>The usual cases: what is known about the file so far, and the variable \<open>mode\<close>.\<close>

definition usual_cases :: "fstat \<Rightarrow> 'x ftsent \<Rightarrow> 'x find_state \<Rightarrow> mode \<times> 'x find_state" where
  "usual_cases junk ent s =
     (if fts_info ent = FTS_NSOK \<or> fts_info ent = FTS_NS then
        if have_stat s \<or> \<not> (fts_info ent = FTS_NSOK \<or> ftype s = 0) then (0, snd (abort s))
        else (ftype s, s\<lparr>stat_buf := junk\<lparr>st_ino := st_ino (fts_statp ent)\<rparr>\<rparr>)
      else
        (let mode = st_mode (fts_statp ent);
             s = s\<lparr>have_stat := True, have_type := True, stat_buf := fts_statp ent, ftype := mode\<rparr>
         in (mode, if mode = 0 then error_msg (fts_path ent) s else s)))"

definition is_dir_entry :: "mode \<Rightarrow> 'x ftsent \<Rightarrow> bool" where
  "is_dir_entry mode ent \<longleftrightarrow>
     S_ISDIR mode \<or> FTS_D = fts_info ent \<or> FTS_DP = fts_info ent \<or> FTS_DC = fts_info ent"

definition at_maxdepth :: "'x walk_options \<Rightarrow> 'x ftsent \<Rightarrow> bool" where
  "at_maxdepth opts ent \<longleftrightarrow> maxdepth opts \<ge> 0 \<and> int (fts_level ent) \<ge> maxdepth opts"

definition ignored :: "'x walk_options \<Rightarrow> 'x ftsent \<Rightarrow> bool" where
  "ignored opts ent \<longleftrightarrow>
     maxdepth opts \<ge> 0 \<and> int (fts_level ent) > maxdepth opts \<or>
     (if fts_info ent = FTS_D \<and> \<not> dir_first opts then True
      else if fts_info ent = FTS_DP \<and> dir_first opts then True
      else int (fts_level ent) < mindepth opts)"

text \<open>\<open>visit\<close>; \<open>instr\<close> is what was given to \<open>fts_set\<close> before.\<close>

definition evaluate :: "find_args walk_options \<Rightarrow> (find_args, 'f) ptree \<Rightarrow> find_args ftsent \<Rightarrow>
    fstate \<Rightarrow> fstate" where
  "evaluate opts t ent s =
     (let e = entry_env opts ent (fts_level ent) (fts_accpath ent)
      in snd (apply_predicate (get_info e) (prim e) t s))"

definition visit_entry :: "find_args walk_options \<Rightarrow> (find_args, 'f) ptree \<Rightarrow> find_args ftsent \<Rightarrow>
    fts_instr \<Rightarrow> fstate \<Rightarrow> fts_instr \<times> fstate" where
  "visit_entry opts t ent instr s =
     (let s = s\<lparr>have_stat := fts_info ent \<noteq> FTS_NS \<and> fts_info ent \<noteq> FTS_NSOK\<rparr>;
          s = evaluate opts t ent s
      in (if stop_at_current_level s then FTS_SKIP else instr, s))"

text \<open>\<open>consider_visiting\<close> after the type of the file is known.\<close>

definition examine_item :: "find_args walk_options \<Rightarrow> (find_args, 'f) ptree \<Rightarrow> find_args ftsent \<Rightarrow>
    mode \<Rightarrow> fstate \<Rightarrow> fts_instr \<times> fstate" where
  "examine_item opts t ent mode s =
     (if is_dir_entry mode ent \<and> fts_info ent = FTS_NSOK then (FTS_AGAIN, s)
      else
        (let instr = (if at_maxdepth opts ent then FTS_SKIP else FTS_NOINSTR);
             (instr, s) = (if \<not> ignored opts ent then visit_entry opts t ent instr s else (instr, s))
         in (instr,
             if fts_info ent = FTS_DP \<and> status s = Running then s\<lparr>stop_at_current_level := False\<rparr> else s)))"

definition directories :: "'x walk_options \<Rightarrow> 'x ftsent \<Rightarrow> 'x walk \<Rightarrow> 'x walk" where
  "directories opts ent w =
     (let w = (if fts_info ent = FTS_DP then left_dir w
               else if int (fts_level ent) > prev_depth w \<or> fts_level ent = 0 then left_dir w else w);
          w = inside_dir opts (fts_cwd_fd ent) w
      in w\<lparr>prev_depth := int (fts_level ent)\<rparr>)"

text \<open>
  The file is given to \<open>digest_mode\<close> by the last component of its name. A result \<open>FTS_NOINSTR\<close> means
  that \<open>fts_set\<close> is not called.
\<close>

definition consider_visiting :: "find_args walk_options \<Rightarrow> (find_args, 'f) ptree \<Rightarrow> find_args ftsent \<Rightarrow>
    find_args walk \<Rightarrow> fts_instr \<times> find_args walk" where
  "consider_visiting opts t ent w =
     (let w = directories opts ent w;
          s = fstate w;
          (go, s) = (if status s \<noteq> Running then (False, s)
                     else entry_errors (entry_env opts ent (now_depth w) (fts_accpath ent)) ent s)
      in if \<not> go then (FTS_NOINSTR, w\<lparr>fstate := s\<rparr>)
         else
           (let (mode, s) = usual_cases (junk_stat opts) ent s;
                w = w\<lparr>now_depth := fts_level ent\<rparr>
            in if status s \<noteq> Running then (FTS_NOINSTR, w\<lparr>fstate := s\<rparr>)
               else
                 (let (go, mode, s) =
                    (if mode \<noteq> 0
                     then digest_mode (entry_env opts ent (fts_level ent) (fts_name ent)) mode False s
                     else (True, mode, s))
                  in if \<not> go then (FTS_NOINSTR, w\<lparr>fstate := s\<rparr>)
                     else
                       (let (instr, s) = examine_item opts t ent mode s
                        in (instr, w\<lparr>fstate := s\<rparr>)))))"

subsection \<open>The loop over the entries\<close>

definition is_multiple_execdir :: "'f find_pred \<Rightarrow> bool" where
  "is_multiple_execdir p \<longleftrightarrow>
     (pred_func p = Pred_execdir \<or> pred_func p = Pred_okdir) \<and> exec_multiple p"

text \<open>
  \<open>complete_pending_execdirs\<close> goes through the tree in order. A node without an argument cannot occur.
\<close>

fun do_complete_pending_execdirs :: "(find_args, 'f) ptree \<Rightarrow> fstate \<Rightarrow> fstate" where
  "do_complete_pending_execdirs Null s = s"
| "do_complete_pending_execdirs (Node p l r) s =
     (let s = do_complete_pending_execdirs l s;
          s = (if is_multiple_execdir p
               then case args p of Some a \<Rightarrow> act (Complete a) s | None \<Rightarrow> s else s)
      in do_complete_pending_execdirs r s)"

definition complete_pending_execdirs :: "(find_args, 'f) ptree \<Rightarrow> fstate \<Rightarrow> fstate" where
  "complete_pending_execdirs t s =
     (if execdirs_outstanding s
      then (do_complete_pending_execdirs t s)\<lparr>execdirs_outstanding := False\<rparr> else s)"

text \<open>What the loop of \<open>find\<close> does before it calls \<open>consider_visiting\<close>.\<close>

definition next_entry :: "(find_args, 'f) ptree \<Rightarrow> find_args ftsent \<Rightarrow> find_args walk \<Rightarrow>
    find_args walk" where
  "next_entry t ent w =
     (let w = (if level w \<noteq> Some (fts_level ent) then on_state (complete_pending_execdirs t) w else w);
          m = st_mode (fts_statp ent)
      in on_state (\<lambda>s. s\<lparr>already_issued_stat_error_msg := False, have_stat := False,
           have_type := m \<noteq> 0, ftype := m\<rparr>) (w\<lparr>level := Some (fts_level ent)\<rparr>))"

text \<open>True is the result of \<open>find\<close> that says that the working directory could be restored.\<close>

primrec find_entries :: "find_args walk_options \<Rightarrow> (find_args, 'f) ptree \<Rightarrow> string \<Rightarrow> find_args fts \<Rightarrow>
    find_args walk \<Rightarrow> bool \<times> find_args walk" where
  "find_entries opts t arg (Fts_end ok) w =
     (if ok then (True, w) else (False, on_state (error_severity 1 \<circ> error_msg arg) w))"
| "find_entries opts t arg (Fts_entry ent rest) w =
     (let (instr, w) = consider_visiting opts t ent (next_entry t ent w)
      in if \<not> running w then (False, w)
         else find_entries opts t arg (rest instr (actions (fstate w))) w)"

definition set_fts_options :: "'x walk_options \<Rightarrow> 32 word \<Rightarrow> 32 word" where
  "set_fts_options opts f =
     (let f = f OR
            (case follow_mode opts of
               SYMLINK_ALWAYS_DEREF \<Rightarrow> FTS_COMFOLLOW OR FTS_LOGICAL
             | SYMLINK_DEREF_ARGSONLY \<Rightarrow> FTS_COMFOLLOW OR FTS_PHYSICAL
             | SYMLINK_NEVER_DEREF \<Rightarrow> FTS_PHYSICAL)
      in if stay_on_filesystem opts then f OR FTS_XDEV else f)"

definition find_from :: "find_args walk_options \<Rightarrow> (find_args, 'f) ptree \<Rightarrow> string \<Rightarrow> find_args walk \<Rightarrow>
    bool \<times> find_args walk" where
  "find_from opts t arg w =
     (let w = inside_dir opts AT_FDCWD w;
          w = w\<lparr>ftsoptions := set_fts_options opts (ftsoptions w)\<rparr>
      in case fts_open opts (actions (fstate w)) (ftsoptions w) arg of
           None \<Rightarrow> (True, on_state (error_severity 1 \<circ> error_msg arg) w)
         | Some entries \<Rightarrow> find_entries opts t arg entries (w\<lparr>level := None\<rparr>))"

fun find_each :: "find_args walk_options \<Rightarrow> (find_args, 'f) ptree \<Rightarrow> string list \<Rightarrow> find_args walk \<Rightarrow>
    bool \<times> find_args walk" where
  "find_each opts t [] w = (True, w)"
| "find_each opts t (arg # argv) w =
     (let (ok, w) = find_from opts t arg w in if ok then find_each opts t argv w else (False, w))"

definition process_all_startpoints :: "find_args walk_options \<Rightarrow> (find_args, 'f) ptree \<Rightarrow> string list \<Rightarrow>
    find_args walk \<Rightarrow> bool \<times> find_args walk" where
  "process_all_startpoints opts t argv w =
     (let starts = takeWhile (\<lambda>arg. \<not> looks_like_expression arg True) argv
      in if starts = [] then find_from opts t ''.'' w else find_each opts t starts w)"

text \<open>The state that \<open>main\<close> starts with, and what it does after the expression was built.\<close>

definition initial_walk :: "'x walk_options \<Rightarrow> 'x walk" where
  "initial_walk opts =
     \<lparr>fstate = \<lparr>have_stat = False, have_type = False, ftype = 0, stat_buf = junk_stat opts,
        stop_at_current_level = False, exit_status = 0, execdirs_outstanding = False,
        already_issued_stat_error_msg = False, messages = [], actions = [], status = Running\<rparr>,
      ftsoptions = FTS_NOSTAT OR FTS_TIGHT_CYCLE_CHECK OR FTS_CWDFD,
      prev_depth = - 2147483648, curr_fd = - 1, open_fds = [], now_depth = 0, level = None\<rparr>"

definition find_main :: "find_args walk_options \<Rightarrow> (find_args, 'f) ptree \<Rightarrow> string list \<Rightarrow> find_args walk" where
  "find_main opts t argv =
     (let (ok, w) = process_all_startpoints opts t argv (initial_walk opts)
      in if ok then on_state (act Cleanup) w else w)"

end
