(* ===== verification/FindTraverse.thy ===== *)
theory FindTraverse
  imports FindWalk
begin

text \<open>
  What the walk of \<open>find\<close> is to do on a hierarchy that stays as it is: a recursive traversal, which the
  loop over the entries of fts refines.
\<close>

subsection \<open>A hierarchy as fts returns it\<close>

text \<open>
  A file that is no directory; a name for which \<open>stat\<close> fails; a directory that is one of its own
  ancestors; a directory, with whether it can be read and what is in it.
\<close>

datatype (plugins only: code size) 'x node =
  Plain "'x ftsent"
| Missing "'x ftsent"
| Cycle "'x ftsent"
| Folder "'x ftsent" bool "'x node list"

definition with_info :: "fts_info \<Rightarrow> 'x ftsent \<Rightarrow> 'x ftsent" where
  "with_info i ent = ent\<lparr>fts_info := i\<rparr>"

lemma with_info_simps [simp]:
  "fts_info (with_info i ent) = i" "fts_level (with_info i ent) = fts_level ent"
  "fts_path (with_info i ent) = fts_path ent" "fts_accpath (with_info i ent) = fts_accpath ent"
  "fts_name (with_info i ent) = fts_name ent" "fts_statp (with_info i ent) = fts_statp ent"
  "fts_cwd_fd (with_info i ent) = fts_cwd_fd ent" "seen (with_info i ent) = seen ent"
  by (simp_all add: with_info_def)

text \<open>
  The documented order of fts: a directory first in preorder and, after what is in it, in postorder;
  one that is skipped in postorder at once; one that cannot be read as \<open>FTS_DNR\<close>.
\<close>

fun stream :: "'x node list \<Rightarrow> 'x fts \<Rightarrow> 'x fts" where
  "stream [] k = k"
| "stream (Plain ent # ns) k = Fts_entry ent (\<lambda>_ _. stream ns k)"
| "stream (Missing ent # ns) k = Fts_entry (with_info FTS_NS ent) (\<lambda>_ _. stream ns k)"
| "stream (Cycle ent # ns) k = Fts_entry (with_info FTS_DC ent) (\<lambda>_ _. stream ns k)"
| "stream (Folder ent readable kids # ns) k =
     (let post = Fts_entry (with_info FTS_DP ent) (\<lambda>_ _. stream ns k)
      in Fts_entry (with_info FTS_D ent) (\<lambda>instr _.
           if instr = FTS_SKIP then post
           else if readable then stream kids post
           else Fts_entry (with_info FTS_DNR ent) (\<lambda>_ _. stream ns k)))"

lemma nodes_induct [case_names Nil Plain Missing Cycle Folder]:
  assumes "P []" and "\<And>ent ns. P ns \<Longrightarrow> P (Plain ent # ns)" and "\<And>ent ns. P ns \<Longrightarrow> P (Missing ent # ns)"
    and "\<And>ent ns. P ns \<Longrightarrow> P (Cycle ent # ns)"
    and "\<And>ent readable kids ns. P kids \<Longrightarrow> P ns \<Longrightarrow> P (Folder ent readable kids # ns)"
  shows "P ns"
proof (induction ns rule: measure_induct_rule [of "size_list size"])
  case (less ns)
  show ?case
  proof (cases ns)
    case Nil
    then show ?thesis using assms(1) by simp
  next
    case (Cons n rest)
    have "P rest" using less Cons by simp
    moreover have "P kids" if "n = Folder ent readable kids" for ent readable kids
      using less Cons that by simp
    ultimately show ?thesis using assms(2-5) Cons by (cases n) simp_all
  qed
qed

text \<open>
  What fts guarantees: a level per directory, a descriptor that is open, the type of every file, and
  no symbolic link where links are followed. A name for which \<open>stat\<close> fails for another reason than a
  loop of links has no type.
\<close>

definition entry_ok :: "nat \<Rightarrow> 'x ftsent \<Rightarrow> bool" where
  "entry_ok l ent \<longleftrightarrow> fts_level ent = l \<and> (fts_cwd_fd ent = AT_FDCWD \<or> fts_cwd_fd ent \<ge> 0)"

definition no_loop :: "'x walk_options \<Rightarrow> 'x ftsent \<Rightarrow> bool" where
  "no_loop opts ent \<longleftrightarrow>
     \<not> symlink_loop (entry_env opts ent 0 (fts_accpath ent)) (fts_accpath ent) \<and>
     \<not> symlink_loop (entry_env opts ent (Suc 0) (fts_accpath ent)) (fts_accpath ent)"

definition plain_ok :: "'x walk_options \<Rightarrow> 'x ftsent \<Rightarrow> bool" where
  "plain_ok opts ent \<longleftrightarrow>
     fts_info ent \<in> {FTS_F, FTS_SL, FTS_SLNONE, FTS_DEFAULT, FTS_NSOK} \<and>
     (fts_info ent = FTS_SLNONE \<longrightarrow> no_loop opts ent) \<and>
     st_mode (fts_statp ent) \<noteq> 0 \<and> \<not> S_ISDIR (st_mode (fts_statp ent)) \<and>
     (fts_info ent = FTS_NSOK \<longrightarrow> \<not> (S_ISLNK (st_mode (fts_statp ent)) \<and>
        following_links (entry_env opts ent (fts_level ent) (fts_name ent))))"

fun node_ok :: "'x walk_options \<Rightarrow> nat \<Rightarrow> 'x node \<Rightarrow> bool" where
  "node_ok opts l (Plain ent) \<longleftrightarrow> entry_ok l ent \<and> plain_ok opts ent"
| "node_ok opts l (Missing ent) \<longleftrightarrow>
     entry_ok l ent \<and> st_mode (fts_statp ent) = 0 \<and> no_loop opts ent"
| "node_ok opts l (Cycle ent) \<longleftrightarrow> entry_ok l ent"
| "node_ok opts l (Folder ent readable kids) \<longleftrightarrow>
     entry_ok l ent \<and> S_ISDIR (st_mode (fts_statp ent)) \<and> (\<forall>n\<in>set kids. node_ok opts (Suc l) n)"

subsection \<open>The traversal\<close>

text \<open>The fields about the file at hand, which every visit sets anew, are left out.\<close>

definition tidy :: "'x walk_options \<Rightarrow> 'x find_state \<Rightarrow> 'x find_state" where
  "tidy opts s = s\<lparr>have_stat := False, have_type := False, ftype := 0, stat_buf := junk_stat opts,
     already_issued_stat_error_msg := False\<rparr>"

text \<open>What is known of a file when the expression is evaluated.\<close>

definition about :: "'x walk_options \<Rightarrow> 'x ftsent \<Rightarrow> 'x find_state \<Rightarrow> 'x find_state" where
  "about opts ent s =
     (let st = fts_statp ent
      in if fts_info ent = FTS_NSOK then
           s\<lparr>have_type := True, ftype := st_mode st,
             stat_buf := (junk_stat opts)\<lparr>st_ino := st_ino st, st_mode := st_mode st\<rparr>\<rparr>
         else if fts_info ent = FTS_NS then
           s\<lparr>stat_buf := (junk_stat opts)\<lparr>st_ino := st_ino st\<rparr>, already_issued_stat_error_msg := True\<rparr>
         else s\<lparr>have_stat := True, have_type := True, ftype := st_mode st, stat_buf := st\<rparr>)"

definition wanted :: "'x walk_options \<Rightarrow> nat \<Rightarrow> bool" where
  "wanted opts l \<longleftrightarrow> (maxdepth opts \<ge> 0 \<longrightarrow> int l \<le> maxdepth opts) \<and> mindepth opts \<le> int l"

definition deeper :: "'x walk_options \<Rightarrow> nat \<Rightarrow> bool" where
  "deeper opts l \<longleftrightarrow> (maxdepth opts \<ge> 0 \<longrightarrow> int l < maxdepth opts)"

definition look :: "find_args walk_options \<Rightarrow> (find_args, 'f) ptree \<Rightarrow> find_args ftsent \<Rightarrow> fstate \<Rightarrow>
    fstate" where
  "look opts t ent s = tidy opts (evaluate opts t ent (about opts ent s))"

text \<open>
  The position is the level of the entry before and the state. A step is taken while the program
  runs; when the level changes, commands collected for \<open>-execdir\<close> are run first.
\<close>

type_synonym place = "nat option \<times> fstate"

definition at_entry :: "(find_args, 'f) ptree \<Rightarrow> nat \<Rightarrow> (fstate \<Rightarrow> fstate) \<Rightarrow> place \<Rightarrow> place" where
  "at_entry t l f x =
     (if status (snd x) \<noteq> Running then x
      else (Some l, f (if fst x \<noteq> Some l then complete_pending_execdirs t (snd x) else snd x)))"

definition report :: "'x ftsent \<Rightarrow> 'x find_state \<Rightarrow> 'x find_state" where
  "report ent s = error_severity 1 (error_msg (fts_path ent) s)"

definition leave :: "'x find_state \<Rightarrow> 'x find_state" where
  "leave s = (if status s = Running then s\<lparr>stop_at_current_level := False\<rparr> else s)"

fun visit_all :: "find_args walk_options \<Rightarrow> (find_args, 'f) ptree \<Rightarrow> find_args node list \<Rightarrow> place \<Rightarrow> place"
where
  "visit_all opts t [] x = x"
| "visit_all opts t (Plain ent # ns) x =
     visit_all opts t ns
       (at_entry t (fts_level ent) (if wanted opts (fts_level ent) then look opts t ent else id) x)"
| "visit_all opts t (Missing ent # ns) x =
     visit_all opts t ns
       (at_entry t (fts_level ent)
         (if fts_level ent \<noteq> 0 \<and> wanted opts (fts_level ent)
          then look opts t (with_info FTS_NS ent) \<circ> report ent else report ent) x)"
| "visit_all opts t (Cycle ent # ns) x =
     visit_all opts t ns (at_entry t (fts_level ent) (report ent) x)"
| "visit_all opts t (Folder ent readable kids # ns) x =
     (let l = fts_level ent;
          pre = wanted opts l \<and> dir_first opts;
          post = wanted opts l \<and> \<not> dir_first opts;
          x = at_entry t l (if pre then look opts t (with_info FTS_D ent) else id) x;
          enter = (deeper opts l \<and> \<not> (pre \<and> stop_at_current_level (snd x)));
          x = (if enter \<and> readable then visit_all opts t kids x else x);
          x = (if enter \<and> \<not> readable then at_entry t l (report ent) x
               else at_entry t l
                 (leave \<circ> (if post then look opts t (with_info FTS_DP ent) else id)) x)
      in visit_all opts t ns x)"

end
