(* ===== verification/FindWalked.thy ===== *)
theory FindWalked
  imports FindTraverse
begin

text \<open>The loop over the entries of fts does what the traversal does.\<close>

lemma tidy_simps [simp]:
  "status (tidy opts s) = status s" "actions (tidy opts s) = actions s" "messages (tidy opts s) = messages s"
  "stop_at_current_level (tidy opts s) = stop_at_current_level s" "exit_status (tidy opts s) = exit_status s"
  "execdirs_outstanding (tidy opts s) = execdirs_outstanding s" "tidy opts (tidy opts s) = tidy opts s"
  by (simp_all add: tidy_def)

lemma tidy_updates:
  "tidy opts (s\<lparr>have_stat := b\<rparr>) = tidy opts s" "tidy opts (s\<lparr>have_type := b\<rparr>) = tidy opts s"
  "tidy opts (s\<lparr>ftype := m\<rparr>) = tidy opts s" "tidy opts (s\<lparr>stat_buf := st\<rparr>) = tidy opts s"
  "tidy opts (s\<lparr>already_issued_stat_error_msg := b\<rparr>) = tidy opts s"
  "tidy opts (s\<lparr>stop_at_current_level := b\<rparr>) = (tidy opts s)\<lparr>stop_at_current_level := b\<rparr>"
  "tidy opts (s\<lparr>execdirs_outstanding := b\<rparr>) = (tidy opts s)\<lparr>execdirs_outstanding := b\<rparr>"
  "tidy opts (act a s) = act a (tidy opts s)"
  "tidy opts (error_msg name s) = error_msg name (tidy opts s)"
  "tidy opts (error_severity n s) = error_severity n (tidy opts s)"
  by (simp_all add: tidy_def act_def error_msg_def error_severity_def)

lemma tidy_report: "tidy opts (report ent s) = report ent (tidy opts s)"
  by (simp add: report_def tidy_updates)

lemma tidy_leave: "tidy opts (leave s) = leave (tidy opts s)"
  by (simp add: leave_def tidy_updates)

lemma tidy_file_error:
  "\<not> already_issued_stat_error_msg s \<Longrightarrow> fts_path ent = name \<Longrightarrow>
    tidy opts (nonfatal_target_file_error name s) = report ent (tidy opts s)"
  by (simp add: nonfatal_target_file_error_def report_file_err_def report_def tidy_updates)

lemma complete_facts:
  "tidy opts (complete_pending_execdirs t s) = complete_pending_execdirs t (tidy opts s)"
  "status (complete_pending_execdirs t s) = status s"
proof -
  have "tidy opts (do_complete_pending_execdirs t s) = do_complete_pending_execdirs t (tidy opts s)" for s
    by (induction t arbitrary: s) (auto simp: Let_def tidy_updates split: option.split)
  moreover have "status (do_complete_pending_execdirs t s) = status s" for s
    by (induction t arbitrary: s) (auto simp: Let_def act_def split: option.split)
  ultimately show "tidy opts (complete_pending_execdirs t s) = complete_pending_execdirs t (tidy opts s)"
    and "status (complete_pending_execdirs t s) = status s"
    by (simp_all add: complete_pending_execdirs_def tidy_updates)
qed

subsection \<open>One entry\<close>

text \<open>The state in which an entry of level \<open>l\<close> is considered.\<close>

definition arrived :: "(find_args, 'f) ptree \<Rightarrow> nat \<Rightarrow> place \<Rightarrow> fstate" where
  "arrived t l x = (if fst x \<noteq> Some l then complete_pending_execdirs t (snd x) else snd x)"

abbreviation place_of :: "find_args walk_options \<Rightarrow> find_args walk \<Rightarrow> place" where
  "place_of opts w \<equiv> (level w, tidy opts (fstate w))"

abbreviation fresh :: "'x ftsent \<Rightarrow> 'x find_state \<Rightarrow> 'x find_state" where
  "fresh ent s \<equiv> s\<lparr>already_issued_stat_error_msg := False, have_stat := False,
     have_type := st_mode (fts_statp ent) \<noteq> 0, ftype := st_mode (fts_statp ent)\<rparr>"

lemma at_entry_arrived:
  "status (snd x) = Running \<Longrightarrow> at_entry t l f x = (Some l, f (arrived t l x))"
  by (simp add: at_entry_def arrived_def)

lemma at_entry_stopped: "status (snd x) \<noteq> Running \<Longrightarrow> at_entry t l f x = x"
  by (simp add: at_entry_def)

lemma next_entry_facts:
  "fstate (next_entry t ent w) = fresh ent (arrived t (fts_level ent) (level w, fstate w))"
  "level (next_entry t ent w) = Some (fts_level ent)"
  by (simp_all add: next_entry_def arrived_def Let_def)

lemma arrived_tidy:
  "tidy opts (arrived t l (lv, s)) = arrived t l (lv, tidy opts s)" "status (arrived t l (lv, s)) = status s"
  by (simp_all add: arrived_def complete_facts)

lemma directories_facts:
  assumes "entry_ok l ent"
  shows "fstate (directories opts ent w) = fstate w" "level (directories opts ent w) = level w"
  using assms
  by (auto simp: directories_def entry_ok_def left_dir_def inside_dir_def Let_def)

lemma symlink_loop_depth:
  assumes "no_loop opts ent"
  shows "\<not> symlink_loop (entry_env opts ent d (fts_accpath ent)) (fts_accpath ent)"
  using assms
  by (cases d)
     (auto simp: no_loop_def symlink_loop_def entry_env_def xstat.simps optionl_stat_def optionh_stat_def
       optionp_stat_def fallback_stat_def split: SymlinkOption.splits sum.splits if_splits)

text \<open>What is left of \<open>consider_visiting\<close> once the type is known, from the state \<open>s\<close> at the arrival.\<close>

lemma visit_about:
  assumes "u\<lparr>have_stat := fts_info ent \<noteq> FTS_NS \<and> fts_info ent \<noteq> FTS_NSOK\<rparr> = about opts ent (tidy opts s)"
  shows "visit_entry opts t ent i u =
    (let v = evaluate opts t ent (about opts ent (tidy opts s))
     in (if stop_at_current_level v then FTS_SKIP else i, v))"
  by (simp add: visit_entry_def assms)

lemma consider_result:
  assumes "entry_ok l ent" and "running w"
    and "entry_errors (entry_env opts ent (now_depth w) (fts_accpath ent)) ent (fstate w) = (True, s)"
    and "usual_cases (junk_stat opts) ent s = (m, s')" and "status s' = Running"
    and "(if m \<noteq> 0 then digest_mode (entry_env opts ent l (fts_name ent)) m False s'
      else (True, m, s')) = (True, m', u)"
    and "examine_item opts t ent m' u = (i, v)"
  shows "\<exists>w'. consider_visiting opts t ent w = (i, w') \<and> fstate w' = v \<and> level w' = level w"
proof -
  have l: "fts_level ent = l" and d: "now_depth (directories opts ent w) = now_depth w"
    using assms(1) by (simp_all add: entry_ok_def directories_def left_dir_def inside_dir_def Let_def)
  show ?thesis using assms(2-) directories_facts [OF assms(1), of opts w]
    by (cases "m = 0") (simp_all add: consider_visiting_def d l Let_def)
qed

lemma consider_returns:
  assumes "entry_ok l ent" and "running w"
    and "entry_errors (entry_env opts ent (now_depth w) (fts_accpath ent)) ent (fstate w) = (False, s)"
  shows "\<exists>w'. consider_visiting opts t ent w = (FTS_NOINSTR, w') \<and> fstate w' = s \<and> level w' = level w"
proof -
  have d: "now_depth (directories opts ent w) = now_depth w"
    by (simp add: directories_def left_dir_def inside_dir_def Let_def)
  show ?thesis using assms(2-) directories_facts [OF assms(1), of opts w]
    by (simp add: consider_visiting_def d Let_def)
qed

text \<open>
  What the code has found out about an entry when it comes to evaluate the expression: \<open>u\<close> is the state
  then, \<open>s\<close> the state at the arrival.
\<close>

definition known :: "find_args walk_options \<Rightarrow> find_args ftsent \<Rightarrow> mode \<Rightarrow> fstate \<Rightarrow> fstate \<Rightarrow> bool" where
  "known opts ent m s u \<longleftrightarrow>
     u\<lparr>have_stat := fts_info ent \<noteq> FTS_NS \<and> fts_info ent \<noteq> FTS_NSOK\<rparr> = about opts ent (tidy opts s) \<and>
     tidy opts u = tidy opts s"

text \<open>The steps of \<open>consider_visiting\<close> up to that state, with the value of \<open>mode\<close>.\<close>

definition finds_out :: "find_args walk_options \<Rightarrow> find_args ftsent \<Rightarrow> fstate \<Rightarrow> mode \<Rightarrow> fstate \<Rightarrow> bool"
where
  "finds_out opts ent s m u \<longleftrightarrow>
     (let (n, s') = usual_cases (junk_stat opts) ent s
      in status s' = Running \<and>
         (if n \<noteq> 0 then digest_mode (entry_env opts ent (fts_level ent) (fts_name ent)) n False s'
          else (True, n, s')) = (True, m, u))"

lemma st_mode_same [simp]: "st\<lparr>st_mode := st_mode st\<rparr> = st"
  by simp

lemma finds_out_stat:
  assumes "fts_info ent \<noteq> FTS_NSOK" and "fts_info ent \<noteq> FTS_NS" and "status s = Running"
    and "st_mode (fts_statp ent) \<noteq> 0"
  shows "\<exists>u. finds_out opts ent (fresh ent s) (st_mode (fts_statp ent)) u \<and> known opts ent (st_mode (fts_statp ent)) s u"
proof -
  let ?m = "st_mode (fts_statp ent)"
  let ?u = "s\<lparr>already_issued_stat_error_msg := False, have_stat := True, have_type := True, ftype := ?m,
    stat_buf := fts_statp ent\<rparr>"
  have "finds_out opts ent (fresh ent s) ?m ?u"
    using assms by (simp add: finds_out_def usual_cases_def digest_mode_def get_statinfo_def Let_def)
  moreover have "known opts ent ?m s ?u"
    using assms(1,2) by (simp add: known_def about_def tidy_def Let_def)
  ultimately show ?thesis by blast
qed

lemma finds_out_type:
  assumes "fts_info ent = FTS_NSOK" and "status s = Running" and "st_mode (fts_statp ent) \<noteq> 0"
    and "\<not> (S_ISLNK (st_mode (fts_statp ent)) \<and>
      following_links (entry_env opts ent (fts_level ent) (fts_name ent)))"
  shows "\<exists>u. finds_out opts ent (fresh ent s) (st_mode (fts_statp ent)) u \<and> known opts ent (st_mode (fts_statp ent)) s u"
proof -
  let ?m = "st_mode (fts_statp ent)"
  let ?u = "s\<lparr>already_issued_stat_error_msg := False, have_stat := False, have_type := True, ftype := ?m,
    stat_buf := (junk_stat opts)\<lparr>st_ino := st_ino (fts_statp ent), st_mode := ?m\<rparr>\<rparr>"
  have "finds_out opts ent (fresh ent s) ?m ?u"
    using assms by (auto simp: finds_out_def usual_cases_def digest_mode_def)
  moreover have "known opts ent ?m s ?u"
    using assms(1) by (simp add: known_def about_def tidy_def Let_def)
  ultimately show ?thesis by blast
qed

lemma finds_out_nothing:
  assumes "fts_info ent = FTS_NS" and "status s = Running" and "st_mode (fts_statp ent) = 0"
    and s': "s' = nonfatal_target_file_error (fts_path ent) (fresh ent s)"
  shows "\<exists>u. finds_out opts ent s' 0 u \<and> known opts ent 0 (report ent s) u"
proof -
  let ?u = "s'\<lparr>stat_buf := (junk_stat opts)\<lparr>st_ino := st_ino (fts_statp ent)\<rparr>\<rparr>"
  have "finds_out opts ent s' 0 ?u"
    using assms by (simp add: finds_out_def usual_cases_def nonfatal_target_file_error_def report_file_err_def
        error_severity_def error_msg_def)
  moreover have "known opts ent 0 (report ent s) ?u"
    using assms by (simp add: known_def about_def tidy_def Let_def nonfatal_target_file_error_def
        report_file_err_def report_def error_severity_def error_msg_def)
  ultimately show ?thesis by blast
qed

lemma ignored_unless_wanted:
  "fts_info ent \<noteq> FTS_D \<Longrightarrow> fts_info ent \<noteq> FTS_DP \<Longrightarrow> ignored opts ent \<longleftrightarrow> \<not> wanted opts (fts_level ent)"
  "fts_info ent = FTS_D \<Longrightarrow> ignored opts ent \<longleftrightarrow> \<not> (wanted opts (fts_level ent) \<and> dir_first opts)"
  "fts_info ent = FTS_DP \<Longrightarrow> ignored opts ent \<longleftrightarrow> \<not> (wanted opts (fts_level ent) \<and> \<not> dir_first opts)"
  by (auto simp: ignored_def wanted_def)

text \<open>One call of \<open>consider_visiting\<close> does what \<open>f\<close> does to the state, and gives the instruction \<open>i\<close>.\<close>

definition considers :: "find_args walk_options \<Rightarrow> (find_args, 'f) ptree \<Rightarrow> find_args ftsent \<Rightarrow>
    find_args walk \<Rightarrow> fts_instr \<Rightarrow> (fstate \<Rightarrow> fstate) \<Rightarrow> bool" where
  "considers opts t ent w i f \<longleftrightarrow>
     (\<exists>w'. consider_visiting opts t ent (next_entry t ent w) = (i, w') \<and>
       place_of opts w' = at_entry t (fts_level ent) f (place_of opts w))"

lemma considers_visit:
  assumes ok: "entry_ok l ent" and run: "running w"
    and err: "\<And>e. entry_errors (entry_env opts ent (now_depth (next_entry t ent w)) (fts_accpath ent)) ent
        (fresh ent (arrived t l (level w, fstate w))) = (True, s)"
    and out: "finds_out opts ent s m u" and known: "known opts ent m (g (arrived t l (level w, fstate w))) u"
    and g: "\<And>s. tidy opts (g s) = g (tidy opts s)" "\<And>s. status (g s) = status s"
    and dir: "fts_info ent \<noteq> FTS_NSOK \<or> \<not> S_ISDIR m"
  shows "\<exists>i. considers opts t ent w i
      ((if fts_info ent = FTS_DP then leave else id) \<circ>
       (if ignored opts ent then id else look opts t ent) \<circ> g) \<and>
    (i = FTS_SKIP \<longleftrightarrow> at_maxdepth opts ent \<or> \<not> ignored opts ent \<and>
       stop_at_current_level (evaluate opts t ent (about opts ent (g (arrived t l (place_of opts w))))))"
proof -
  let ?a = "arrived t l (level w, fstate w)"
  have l: "fts_level ent = l" using ok by (simp add: entry_ok_def)
  let ?w = "next_entry t ent w"
  have w: "running ?w" using run by (simp add: next_entry_facts arrived_tidy)
  obtain n s' where n: "usual_cases (junk_stat opts) ent s = (n, s')" by (cases "usual_cases (junk_stat opts) ent s")
  have n': "status s' = Running" "(if n \<noteq> 0 then digest_mode (entry_env opts ent l (fts_name ent)) n False s'
      else (True, n, s')) = (True, m, u)"
    using out n unfolding finds_out_def l by simp_all
  obtain i v where v: "examine_item opts t ent m u = (i, v)" by (cases "examine_item opts t ent m u")
  have "entry_errors (entry_env opts ent (now_depth ?w) (fts_accpath ent)) ent (fstate ?w) = (True, s)"
    using err by (simp add: next_entry_facts l)
  from consider_result [OF ok w this n n' v] obtain w' where w':
    "consider_visiting opts t ent ?w = (i, w')" "fstate w' = v" "level w' = Some l"
    by (auto simp: next_entry_facts l)
  have u: "u\<lparr>have_stat := fts_info ent \<noteq> FTS_NS \<and> fts_info ent \<noteq> FTS_NSOK\<rparr> = about opts ent (tidy opts (g ?a))"
      "tidy opts u = tidy opts (g ?a)"
    using known by (simp_all add: known_def)
  note visit = visit_about [OF u(1), of t]
  have g': "tidy opts (g ?a) = g (arrived t l (place_of opts w))" by (simp add: g arrived_tidy)
  have "status u = Running"
    using u(2) run by (metis g(2) arrived_tidy(2) tidy_simps(1))
  moreover have "status (g (arrived t l (place_of opts w))) = Running"
    using run by (simp add: g arrived_tidy)
  ultimately have "tidy opts v = ((if fts_info ent = FTS_DP then leave else id) \<circ>
       (if ignored opts ent then id else look opts t ent) \<circ> g) (arrived t l (place_of opts w))"
    using v dir visit u(2)
    by (auto simp: examine_item_def is_dir_entry_def look_def leave_def tidy_updates g' Let_def
        split: if_splits prod.splits)
  moreover have "i = FTS_SKIP \<longleftrightarrow> at_maxdepth opts ent \<or> \<not> ignored opts ent \<and>
       stop_at_current_level (evaluate opts t ent (about opts ent (g (arrived t l (place_of opts w)))))"
    using v dir visit
    by (auto simp: examine_item_def is_dir_entry_def g' Let_def split: if_splits prod.splits)
  ultimately show ?thesis
    using w' run by (auto simp: considers_def l at_entry_arrived)
qed

lemma errors_plain:
  "plain_ok opts ent \<Longrightarrow> entry_errors (entry_env opts ent d (fts_accpath ent)) ent s = (True, s)"
  by (auto simp: plain_ok_def entry_errors_def symlink_loop_depth)

lemma considers_plain:
  assumes "entry_ok l ent" and "plain_ok opts ent" and "running w"
  shows "\<exists>i. considers opts t ent w i (if wanted opts (fts_level ent) then look opts t ent else id)"
proof -
  let ?s = "arrived t l (level w, fstate w)"
  have run: "status ?s = Running" using assms(3) by (simp add: arrived_tidy)
  obtain u where "finds_out opts ent (fresh ent ?s) (st_mode (fts_statp ent)) u"
      "known opts ent (st_mode (fts_statp ent)) (id ?s) u"
    using finds_out_stat [of ent ?s opts] finds_out_type [of ent ?s opts] assms(2) run
    by (cases "fts_info ent = FTS_NSOK") (auto simp: plain_ok_def)
  from considers_visit [where g = id, OF assms(1,3) errors_plain [OF assms(2)] this] assms(2)
  show ?thesis by (auto simp: plain_ok_def ignored_unless_wanted cong: if_cong)
qed

lemma considers_folder:
  assumes "entry_ok l ent" and "running w" and "S_ISDIR (st_mode (fts_statp ent))"
    and "fts_info ent = FTS_D \<or> fts_info ent = FTS_DP"
  shows "\<exists>i. considers opts t ent w i ((if fts_info ent = FTS_DP then leave else id) \<circ>
      (if ignored opts ent then id else look opts t ent)) \<and>
    (i = FTS_SKIP \<longleftrightarrow> \<not> deeper opts l \<or> \<not> ignored opts ent \<and>
       stop_at_current_level (look opts t ent (arrived t l (place_of opts w))))"
proof -
  let ?s = "arrived t l (level w, fstate w)"
  have run: "status ?s = Running" using assms(2) by (simp add: arrived_tidy)
  have m: "st_mode (fts_statp ent) \<noteq> 0" using assms(3) by (auto simp: S_ISDIR_def S_IFDIR_def)
  obtain u where "finds_out opts ent (fresh ent ?s) (st_mode (fts_statp ent)) u"
      "known opts ent (st_mode (fts_statp ent)) (id ?s) u"
    using finds_out_stat [of ent ?s opts] assms(4) run m by auto
  note considers_visit [where g = id, OF assms(1,2) _ this]
  moreover have "at_maxdepth opts ent \<longleftrightarrow> \<not> deeper opts l"
    using assms(1) by (auto simp: at_maxdepth_def deeper_def entry_ok_def)
  ultimately show ?thesis using assms(4) by (auto simp: entry_errors_def look_def)
qed

lemma considers_report:
  assumes "entry_ok l ent" and "running w"
    and "fts_info ent = FTS_DC \<or> fts_info ent = FTS_DNR \<or> fts_info ent = FTS_NS \<and> l = 0"
  shows "\<exists>i. considers opts t ent w i (report ent)"
proof -
  let ?s = "arrived t l (level w, fstate w)" and ?w = "next_entry t ent w"
  have l: "fts_level ent = l" using assms(1) by (simp add: entry_ok_def)
  have run: "running ?w" using assms(2) by (simp add: next_entry_facts arrived_tidy)
  obtain s where s: "entry_errors (entry_env opts ent (now_depth ?w) (fts_accpath ent)) ent (fstate ?w) = (False, s)"
      "tidy opts s = report ent (tidy opts ?s)"
    using assms(3)
    by (auto simp: entry_errors_def next_entry_facts l tidy_file_error tidy_updates issue_loop_warning_def report_def)
  from consider_returns [OF assms(1) run s(1)] obtain w' where
    "consider_visiting opts t ent ?w = (FTS_NOINSTR, w')" "fstate w' = s" "level w' = Some l"
    by (auto simp: next_entry_facts l)
  then show ?thesis
    using s(2) assms(2) by (auto simp: considers_def next_entry_facts l at_entry_arrived arrived_tidy)
qed

lemma considers_missing:
  assumes "entry_ok l ent" and "running w" and "fts_info ent = FTS_NS" and "l \<noteq> 0"
    and "st_mode (fts_statp ent) = 0" and "no_loop opts ent"
  shows "\<exists>i. considers opts t ent w i (if wanted opts l then look opts t ent \<circ> report ent else report ent)"
proof -
  let ?s = "arrived t l (level w, fstate w)"
  have l: "fts_level ent = l" using assms(1) by (simp add: entry_ok_def)
  have run: "status ?s = Running" using assms(2) by (simp add: arrived_tidy)
  obtain u where u: "finds_out opts ent (nonfatal_target_file_error (fts_path ent) (fresh ent ?s)) 0 u"
      "known opts ent 0 (report ent ?s) u"
    using finds_out_nothing [OF assms(3) run assms(5) refl] by blast
  have "entry_errors (entry_env opts ent d (fts_accpath ent)) ent (fresh ent ?s) =
      (True, nonfatal_target_file_error (fts_path ent) (fresh ent ?s))" for d
    using assms(3,4) l symlink_loop_depth [OF assms(6)] by (simp add: entry_errors_def)
  moreover have "status (report ent s) = status s" for s :: fstate
    by (simp add: report_def error_severity_def error_msg_def)
  ultimately show ?thesis
    using considers_visit [OF assms(1,2) _ u tidy_report] assms(3)
    by (auto simp: ignored_unless_wanted l S_ISDIR_def S_IFDIR_def cong: if_cong)
qed

subsection \<open>The loop\<close>

lemma visit_all_stopped: "status (snd x) \<noteq> Running \<Longrightarrow> visit_all opts t ns x = x"
proof (induction ns rule: nodes_induct)
  case (Folder ent readable kids ns)
  then show ?case by (cases readable) (simp_all add: at_entry_stopped Let_def)
qed (simp_all add: at_entry_stopped)

text \<open>The loop over \<open>c\<close> comes to \<open>k\<close> at the place \<open>x\<close>, unless the program has ended there.\<close>

definition leads :: "find_args walk_options \<Rightarrow> (find_args, 'f) ptree \<Rightarrow> string \<Rightarrow> find_args fts \<Rightarrow>
    find_args walk \<Rightarrow> find_args fts \<Rightarrow> place \<Rightarrow> bool" where
  "leads opts t arg c w k x \<longleftrightarrow>
     (\<exists>w'. place_of opts w' = x \<and>
       find_entries opts t arg c w = (if running w' then find_entries opts t arg k w' else (False, w')))"

lemma leads_refl: "running w \<Longrightarrow> leads opts t arg k w k (place_of opts w)"
  unfolding leads_def by (intro exI [of _ w]) simp

lemma leads_trans:
  assumes "leads opts t arg c w k x" and "status (snd x) \<noteq> Running \<Longrightarrow> y = x"
    and "\<And>w'. place_of opts w' = x \<Longrightarrow> running w' \<Longrightarrow> leads opts t arg k w' k' y"
  shows "leads opts t arg c w k' y"
proof -
  from assms(1) obtain w' where w': "place_of opts w' = x"
    "find_entries opts t arg c w = (if running w' then find_entries opts t arg k w' else (False, w'))"
    by (auto simp: leads_def)
  show ?thesis
  proof (cases "running w'")
    case True
    from assms(3) [OF w'(1) True] show ?thesis using w'(2) True by (simp add: leads_def)
  next
    case False
    moreover have "status (snd x) = status (fstate w')" using w'(1) by (metis snd_conv tidy_simps(1))
    ultimately have "place_of opts w' = y" using assms(2) w'(1) by simp
    then show ?thesis using w'(2) False by (auto simp: leads_def)
  qed
qed

lemma leads_entry:
  assumes "considers opts t ent w i f" and "\<And>acts. rest i acts = k"
  shows "leads opts t arg (Fts_entry ent rest) w k (at_entry t (fts_level ent) f (place_of opts w))"
  using assms by (auto simp: considers_def leads_def)

lemma leads_next:
  assumes "\<exists>i. considers opts t ent w i f"
    and "\<And>w'. running w' \<Longrightarrow> leads opts t arg k w' k' (visit_all opts t ns (place_of opts w'))"
  shows "leads opts t arg (Fts_entry ent (\<lambda>_ _. k)) w k'
    (visit_all opts t ns (at_entry t (fts_level ent) f (place_of opts w)))"
proof -
  from assms(1) obtain i where "considers opts t ent w i f" ..
  from leads_entry [OF this refl] show ?thesis
  proof (rule leads_trans)
    let ?x = "at_entry t (fts_level ent) f (place_of opts w)"
    show "status (snd ?x) \<noteq> Running \<Longrightarrow> visit_all opts t ns ?x = ?x" by (rule visit_all_stopped)
    show "leads opts t arg k w' k' (visit_all opts t ns ?x)" if "place_of opts w' = ?x" "running w'" for w'
      using assms(2) [OF that(2)] by (simp add: that(1))
  qed
qed

text \<open>What follows the preorder visit of a directory.\<close>

lemma visit_all_folder:
  "visit_all opts t (Folder ent readable kids # ns) x =
     (let l = fts_level ent;
          pre = with_info FTS_D ent; post = with_info FTS_DP ent;
          x = at_entry t l (if ignored opts pre then id else look opts t pre) x;
          enter = (deeper opts l \<and> (ignored opts pre \<or> \<not> stop_at_current_level (snd x)))
      in visit_all opts t ns
           (if enter \<and> \<not> readable then at_entry t l (report ent) x
            else at_entry t l (leave \<circ> (if ignored opts post then id else look opts t post))
              (if enter then visit_all opts t kids x else x)))"
  by (auto simp: Let_def ignored_unless_wanted)

lemma leads_stream:
  assumes "\<forall>n\<in>set ns. node_ok opts l n" and "running w"
  shows "leads opts t arg (stream ns k) w k (visit_all opts t ns (place_of opts w))"
  using assms
proof (induction ns k arbitrary: l w rule: stream.induct)
  case (1 k)
  then show ?case by (simp add: leads_refl)
next
  case (2 ent ns k)
  then show ?case using considers_plain [of l ent opts w t] by (auto intro!: leads_next)
next
  case (3 ent ns k)
  let ?ent = "with_info FTS_NS ent"
  have ok: "entry_ok l ?ent" "no_loop opts ?ent" "st_mode (fts_statp ?ent) = 0" and l: "fts_level ent = l"
    using 3(2) by (auto simp: entry_ok_def no_loop_def entry_env_def)
  have r: "report ?ent = report ent" by (simp add: report_def [abs_def])
  have "\<exists>i. considers opts t ?ent w i (if l \<noteq> 0 \<and> wanted opts l then look opts t ?ent \<circ> report ent else report ent)"
    using considers_missing [OF ok(1) 3(3) _ _ ok(3,2), of t] considers_report [OF ok(1) 3(3), of opts t]
    unfolding r by (cases "l = 0") simp_all
  from leads_next [OF this 3(1) [of l]] 3(2) show ?case by (simp add: l)
next
  case (4 ent ns k)
  have "entry_ok l (with_info FTS_DC ent)" using 4(2) by (simp add: entry_ok_def)
  from considers_report [OF this 4(3), of opts t] have "\<exists>i. considers opts t (with_info FTS_DC ent) w i (report ent)"
    by (simp add: report_def [abs_def])
  from leads_next [OF this 4(1) [of l]] 4(2) show ?case by simp
next
  case (5 ent readable kids ns k)
  let ?pre = "with_info FTS_D ent" and ?post = "with_info FTS_DP ent"
  have l: "fts_level ent = l" and ok: "entry_ok l (with_info i ent)" and dir: "S_ISDIR (st_mode (fts_statp ent))"
    and kids: "\<forall>n\<in>set kids. node_ok opts (Suc l) n" and rest: "\<forall>n\<in>set ns. node_ok opts l n" for i
    using 5(4) by (auto simp: entry_ok_def)
  define p where "p = Fts_entry ?post (\<lambda>_ _. stream ns k)"
  define f where "f = leave \<circ> (if ignored opts ?post then id else look opts t ?post)"
  define x where "x = at_entry t l (if ignored opts ?pre then id else look opts t ?pre) (place_of opts w)"
  have post: "leads opts t arg p w' k (visit_all opts t ns (at_entry t l f (place_of opts w')))"
    if "running w'" for w'
  proof -
    have "\<exists>i. considers opts t ?post w' i f"
      using considers_folder [OF ok that, of FTS_DP opts t] dir unfolding f_def by auto
    from leads_next [OF this 5(1) [OF rest]] show ?thesis by (simp add: p_def l)
  qed
  from considers_folder [OF ok 5(5), of FTS_D opts t] dir obtain i where
    i: "considers opts t ?pre w i (if ignored opts ?pre then id else look opts t ?pre)"
      "i = FTS_SKIP \<longleftrightarrow> \<not> (deeper opts l \<and> (ignored opts ?pre \<or> \<not> stop_at_current_level (snd x)))"
    using 5(5) by (cases "ignored opts ?pre") (auto simp: x_def at_entry_arrived l)
  have x: "leads opts t arg (stream (Folder ent readable kids # ns) k) w
      (if i = FTS_SKIP then p else if readable then stream kids p
       else Fts_entry (with_info FTS_DNR ent) (\<lambda>_ _. stream ns k)) x"
  proof -
    let ?rest = "\<lambda>i _. if i = FTS_SKIP then p else if readable then stream kids p
       else Fts_entry (with_info FTS_DNR ent) (\<lambda>_ _. stream ns k)"
    have "stream (Folder ent readable kids # ns) k = Fts_entry ?pre ?rest"
      by (simp add: p_def Let_def fun_eq_iff)
    with leads_entry [OF i(1), of ?rest "?rest i []"] show ?thesis by (simp add: x_def l)
  qed
  have "visit_all opts t (Folder ent readable kids # ns) (place_of opts w) =
      visit_all opts t ns (if i \<noteq> FTS_SKIP \<and> \<not> readable then at_entry t l (report ent) x
        else at_entry t l f (if i \<noteq> FTS_SKIP then visit_all opts t kids x else x))"
    unfolding visit_all_folder by (auto simp: x_def f_def l i(2) Let_def)
  moreover have "leads opts t arg (stream (Folder ent readable kids # ns) k) w k
      (visit_all opts t ns (if i \<noteq> FTS_SKIP \<and> \<not> readable then at_entry t l (report ent) x
        else at_entry t l f (if i \<noteq> FTS_SKIP then visit_all opts t kids x else x)))" (is "leads _ _ _ _ _ _ ?y")
  proof (rule leads_trans [OF x])
    show "?y = x" if "status (snd x) \<noteq> Running"
      using that by (simp add: visit_all_stopped at_entry_stopped)
    fix w' assume w': "place_of opts w' = x" "running w'"
    consider "i = FTS_SKIP" | "i \<noteq> FTS_SKIP" "readable" | "i \<noteq> FTS_SKIP" "\<not> readable" by blast
    then show "leads opts t arg (if i = FTS_SKIP then p else if readable then stream kids p
       else Fts_entry (with_info FTS_DNR ent) (\<lambda>_ _. stream ns k)) w' k ?y"
    proof cases
      case 1
      then show ?thesis using post [OF w'(2)] w'(1) by simp
    next
      case 2
      have "leads opts t arg (stream kids p) w' p (visit_all opts t kids x)"
        using 5(2) [OF p_def 2 kids w'(2)] w'(1) by simp
      then have "leads opts t arg (stream kids p) w' k (visit_all opts t ns (at_entry t l f (visit_all opts t kids x)))"
      proof (rule leads_trans)
        let ?x = "visit_all opts t kids x"
        show "visit_all opts t ns (at_entry t l f ?x) = ?x" if "status (snd ?x) \<noteq> Running"
          using that by (simp add: at_entry_stopped visit_all_stopped)
        show "leads opts t arg p w' k (visit_all opts t ns (at_entry t l f ?x))"
          if "place_of opts w' = ?x" "running w'" for w'
          using post [OF that(2)] by (simp add: that(1))
      qed
      then show ?thesis using 2 by simp
    next
      case 3
      have "\<exists>i. considers opts t (with_info FTS_DNR ent) w' i (report ent)"
        using considers_report [OF ok w'(2), of FTS_DNR opts t] by (simp add: report_def [abs_def])
      from leads_next [OF this 5(1) [OF rest]] show ?thesis using 3 w'(1) by (simp add: l)
    qed
  qed
  ultimately show ?case by simp
qed

end
