(* ===== verification/FindWalkTheorems.thy ===== *)
theory FindWalkTheorems
  imports FindWalked
begin

text \<open>What the walk over the hierarchy guarantees.\<close>

subsection \<open>The walk is a traversal\<close>

definition start_list :: "string list \<Rightarrow> string list" where
  "start_list argv =
     (let starts = takeWhile (\<lambda>arg. \<not> looks_like_expression arg True) argv
      in if starts = [] then [''.''] else starts)"

text \<open>Below the starting points there is the hierarchy \<open>root\<close>, which stays as it is.\<close>

definition below :: "find_args walk_options \<Rightarrow> (string \<Rightarrow> find_args node) \<Rightarrow> string list \<Rightarrow> bool" where
  "below opts root starts \<longleftrightarrow>
     (\<forall>arg\<in>set starts. node_ok opts 0 (root arg) \<and>
        (\<forall>acts f. fts_open opts acts f arg = Some (stream [root arg] (Fts_end True))))"

definition traverse_from :: "find_args walk_options \<Rightarrow> (find_args, 'f) ptree \<Rightarrow> find_args node \<Rightarrow> fstate \<Rightarrow>
    fstate" where
  "traverse_from opts t n s = snd (visit_all opts t [n] (None, s))"

lemma find_from_traverses:
  assumes "node_ok opts 0 n" and "\<And>acts f. fts_open opts acts f arg = Some (stream [n] (Fts_end True))"
    and "running w" and "find_from opts t arg w = (ok, w')"
  shows "tidy opts (fstate w') = traverse_from opts t n (tidy opts (fstate w))" "ok \<longleftrightarrow> running w'"
proof -
  define v where "v = (inside_dir opts AT_FDCWD w)
    \<lparr>ftsoptions := set_fts_options opts (ftsoptions (inside_dir opts AT_FDCWD w)), level := None\<rparr>"
  have v: "fstate v = fstate w" "level v = None" by (simp_all add: v_def inside_dir_def)
  have "find_from opts t arg w = find_entries opts t arg (stream [n] (Fts_end True)) v"
    using assms(2) by (simp add: find_from_def v_def Let_def)
  moreover have "leads opts t arg (stream [n] (Fts_end True)) v (Fts_end True)
      (visit_all opts t [n] (place_of opts v))"
    using assms(1,3) v(1) by (intro leads_stream [of _ _ 0]) simp_all
  ultimately obtain u where u: "place_of opts u = visit_all opts t [n] (None, tidy opts (fstate w))"
      "(ok, w') = (if running u then (True, u) else (False, u))"
    using assms(4) v by (auto simp: leads_def)
  from u show "tidy opts (fstate w') = traverse_from opts t n (tidy opts (fstate w))" "ok \<longleftrightarrow> running w'"
    by (auto simp: traverse_from_def prod_eq_iff split: if_splits)
qed

lemma traverse_stopped: "status s \<noteq> Running \<Longrightarrow> traverse_from opts t n s = s"
  by (simp add: traverse_from_def visit_all_stopped)

lemma find_each_traverses:
  assumes "below opts root starts" and "running w" and "find_each opts t starts w = (ok, w')"
  shows "tidy opts (fstate w') = fold (\<lambda>arg. traverse_from opts t (root arg)) starts (tidy opts (fstate w)) \<and>
    (ok \<longleftrightarrow> running w')"
  using assms
proof (induction starts arbitrary: w)
  case Nil
  then show ?case by simp
next
  case (Cons arg starts)
  obtain ok' v where v: "find_from opts t arg w = (ok', v)" by (cases "find_from opts t arg w")
  note v' = find_from_traverses [OF _ _ Cons.prems(2) v, of "root arg"]
  have ok: "tidy opts (fstate v) = traverse_from opts t (root arg) (tidy opts (fstate w))" "ok' \<longleftrightarrow> running v"
    using Cons.prems(1) v' by (simp_all add: below_def)
  show ?case
  proof (cases "running v")
    case True
    then show ?thesis
      using Cons.IH [of v] Cons.prems(1,3) v ok by (simp add: below_def)
  next
    case False
    have "fold (\<lambda>arg. traverse_from opts t (root arg)) starts s = s" if "status s \<noteq> Running" for s
      using that by (induction starts) (simp_all add: traverse_stopped)
    moreover have "status (traverse_from opts t (root arg) (tidy opts (fstate w))) \<noteq> Running"
      using False ok(1) by (metis tidy_simps(1))
    ultimately show ?thesis using False Cons.prems(3) v ok by simp
  qed
qed

lemma find_main_traverses:
  assumes "below opts root (start_list argv)"
  shows "tidy opts (fstate (find_main opts t argv)) =
    (let s = fold (\<lambda>arg. traverse_from opts t (root arg)) (start_list argv) (fstate (initial_walk opts))
     in if status s = Running then act Cleanup s else s)"
proof -
  let ?w = "initial_walk opts"
  obtain ok w where w: "find_each opts t (start_list argv) ?w = (ok, w)"
    by (cases "find_each opts t (start_list argv) ?w")
  have p: "process_all_startpoints opts t argv ?w = (ok, w)"
    using w by (auto simp: process_all_startpoints_def start_list_def Let_def split: if_splits prod.splits)
  have init: "tidy opts (fstate ?w) = fstate ?w" "running ?w" by (simp_all add: initial_walk_def tidy_def)
  from find_each_traverses [OF assms init(2) w] show ?thesis
    by (auto simp: find_main_def p init(1) Let_def tidy_updates) (metis tidy_simps(1))+
qed

text \<open>C2: On a hierarchy that stays as it is, and for every expression, \<open>find\<close> does what a recursive traversal
  does: it visits the files below the starting points in order, within the depths asked for, directories
  before or after what is in them, leaves out what is below a pruned directory, reports what cannot be read
  or is a loop and goes on, runs the commands collected for \<open>-execdir\<close> when the depth changes, and cleans up
  at the end unless the program has ended before.\<close>

theorem find_traverses:
  assumes "below opts root (start_list argv)"
  shows "tidy opts (fstate (find_main opts t argv)) =
    (let s = fold (\<lambda>arg. traverse_from opts t (root arg)) (start_list argv) (fstate (initial_walk opts))
     in if status s = Running then act Cleanup s else s)"
  by (rule find_main_traverses [OF assms])

subsection \<open>Printing and pruning\<close>

text \<open>The entries an expression can be evaluated for.\<close>

fun entries :: "'x node \<Rightarrow> 'x ftsent list" where
  "entries (Plain ent) = [ent]"
| "entries (Missing ent) = [with_info FTS_NS ent]"
| "entries (Cycle ent) = []"
| "entries (Folder ent readable kids) =
     with_info FTS_D ent # concat (map entries kids) @ [with_info FTS_DP ent]"

text \<open>
  For the entries \<open>E\<close>, the expression does no more than print those of \<open>P\<close> and prune the directories of
  \<open>Q\<close>, with the output \<open>out\<close>.
\<close>

definition prints_and_prunes :: "find_args walk_options \<Rightarrow> (find_args, 'f) ptree \<Rightarrow> find_args ftsent set \<Rightarrow>
    (find_args ftsent \<Rightarrow> bool) \<Rightarrow> (find_args ftsent \<Rightarrow> bool) \<Rightarrow> find_args \<Rightarrow> bool" where
  "prints_and_prunes opts t E P Q out \<longleftrightarrow>
     (\<forall>ent\<in>E. \<forall>s. status s = Running \<longrightarrow> tidy opts s = s \<longrightarrow>
        look opts t ent s =
          s\<lparr>actions := actions s @ (if P ent then [Print_line out (fts_path ent)] else []),
            stop_at_current_level :=
              stop_at_current_level s \<or> Q ent \<and> fts_info ent \<in> {FTS_D, FTS_DP}\<rparr>)"

text \<open>The pathnames that are to be printed.\<close>

fun listed :: "'x walk_options \<Rightarrow> ('x ftsent \<Rightarrow> bool) \<Rightarrow> ('x ftsent \<Rightarrow> bool) \<Rightarrow> 'x node \<Rightarrow> string list" where
  "listed opts P Q (Plain ent) = (if wanted opts (fts_level ent) \<and> P ent then [fts_path ent] else [])"
| "listed opts P Q (Missing ent) = []"
| "listed opts P Q (Cycle ent) = []"
| "listed opts P Q (Folder ent readable kids) =
     (let D = with_info FTS_D ent; l = fts_level ent;
          pre = (wanted opts l \<and> dir_first opts); post = (wanted opts l \<and> \<not> dir_first opts)
      in (if pre \<and> P D then [fts_path ent] else []) @
         (if deeper opts l \<and> \<not> (pre \<and> Q D) then concat (map (listed opts P Q) kids) else []) @
         (if post \<and> P (with_info FTS_DP ent) then [fts_path ent] else []))"

text \<open>Nothing is missing, unreadable or a loop.\<close>

fun sound :: "'x node \<Rightarrow> bool" where
  "sound (Plain ent) \<longleftrightarrow> True"
| "sound (Missing ent) \<longleftrightarrow> False"
| "sound (Cycle ent) \<longleftrightarrow> False"
| "sound (Folder ent readable kids) \<longleftrightarrow> readable \<and> (\<forall>n\<in>set kids. sound n)"

definition calm :: "find_args walk_options \<Rightarrow> fstate \<Rightarrow> bool" where
  "calm opts s \<longleftrightarrow> status s = Running \<and> tidy opts s = s \<and> \<not> stop_at_current_level s \<and>
     \<not> execdirs_outstanding s"

abbreviation print_all :: "find_args \<Rightarrow> string list \<Rightarrow> fstate \<Rightarrow> fstate" where
  "print_all out names s \<equiv> s\<lparr>actions := actions s @ map (Print_line out) names\<rparr>"

lemma calm_print [simp]: "calm opts (s\<lparr>actions := as\<rparr>) = calm opts s"
  by (cases s) (simp add: calm_def tidy_def)

lemma print_all_append: "print_all out ys (print_all out xs s) = print_all out (xs @ ys) s"
  by simp

lemma calm_not_stopped: "calm opts s \<Longrightarrow> s\<lparr>stop_at_current_level := False\<rparr> = s"
  by (cases s) (simp add: calm_def)

lemma at_entry_calm:
  "calm opts (s\<lparr>stop_at_current_level := False\<rparr>) \<Longrightarrow> snd (at_entry t l f (lv, s)) = f s"
  by (simp add: at_entry_def calm_def complete_pending_execdirs_def)

lemma look_prints:
  assumes "prints_and_prunes opts t E P Q out" and "ent \<in> E" and "calm opts s"
  shows "look opts t ent s = (print_all out (if P ent then [fts_path ent] else []) s)
    \<lparr>stop_at_current_level := Q ent \<and> fts_info ent \<in> {FTS_D, FTS_DP}\<rparr>"
  using assms by (simp add: prints_and_prunes_def calm_def)

lemma look_only_prints:
  assumes "prints_and_prunes opts t E P Q out" and "ent \<in> E" and "calm opts s" and "fts_info ent \<notin> {FTS_D, FTS_DP}"
  shows "look opts t ent s = print_all out (if P ent then [fts_path ent] else []) s"
  using look_prints [OF assms(1-3)] assms(4)
    calm_not_stopped [of opts "print_all out (if P ent then [fts_path ent] else []) s"] assms(3)
  by (simp del: find_state.update_convs)

lemma leave_calm: "calm opts (s\<lparr>stop_at_current_level := False\<rparr>) \<Longrightarrow> leave s = s\<lparr>stop_at_current_level := False\<rparr>"
  by (simp add: leave_def calm_def)

lemma visit_all_prints:
  assumes "prints_and_prunes opts t E P Q out"
  shows "calm opts (snd x) \<Longrightarrow> \<forall>n\<in>set ns. sound n \<Longrightarrow> \<forall>n\<in>set ns. node_ok opts l n \<and> set (entries n) \<subseteq> E \<Longrightarrow>
    snd (visit_all opts t ns x) = print_all out (concat (map (listed opts P Q) ns)) (snd x)"
proof (induction ns arbitrary: l x rule: nodes_induct)
  case (Plain ent ns)
  let ?f = "if wanted opts (fts_level ent) then look opts t ent else id"
  let ?x = "at_entry t (fts_level ent) ?f x"
  have "fts_info ent \<notin> {FTS_D, FTS_DP}" "ent \<in> E" using Plain.prems(3) by (auto simp: plain_ok_def)
  then have "snd ?x = print_all out (listed opts P Q (Plain ent)) (snd x)"
    using Plain.prems(1) at_entry_calm [of opts "snd x" t _ ?f "fst x"]
    by (simp add: calm_not_stopped look_only_prints [OF assms])
  then show ?case using Plain.IH [of ?x l] Plain.prems by (simp add: print_all_append)
next
  case (Folder ent readable kids ns)
  let ?l = "fts_level ent" and ?D = "with_info FTS_D ent" and ?E = "with_info FTS_DP ent"
  let ?pre = "wanted opts ?l \<and> dir_first opts" and ?post = "wanted opts ?l \<and> \<not> dir_first opts"
  define b where "b \<longleftrightarrow> ?pre \<and> Q ?D"
  define before where "before = (if ?pre \<and> P ?D then [fts_path ent] else [])"
  define inner where "inner = (if deeper opts ?l \<and> \<not> b
    then concat (map (listed opts P Q) kids) else [])"
  define after where "after = (if ?post \<and> P ?E then [fts_path ent] else [])"
  define x1 where "x1 = at_entry t ?l (if ?pre then look opts t ?D else id) x"
  define x2 where "x2 = (if deeper opts ?l \<and> \<not> b then visit_all opts t kids x1 else x1)"
  define x3 where "x3 = at_entry t ?l (leave \<circ> (if ?post then look opts t ?E else id)) x2"
  have calm: "calm opts (snd x)" using Folder.prems(1) .
  have E: "?D \<in> E" "?E \<in> E" "\<forall>n\<in>set kids. set (entries n) \<subseteq> E" using Folder.prems(3) by auto
  have at: "snd (at_entry t ?l f y) = f (snd y)" if "calm opts ((snd y)\<lparr>stop_at_current_level := False\<rparr>)" for f y
    using at_entry_calm [of opts "snd y" t ?l f "fst y"] that by simp
  have not_stopped: "(snd x)\<lparr>actions := as, stop_at_current_level := False\<rparr> = (snd x)\<lparr>actions := as\<rparr>" for as
    using calm by (cases "snd x") (simp add: calm_def)
  have x1: "snd x1 = (print_all out before (snd x))\<lparr>stop_at_current_level := b\<rparr>"
    using calm not_stopped E
    by (cases ?pre) (auto simp: b_def x1_def at calm_not_stopped look_prints [OF assms] before_def)
  have x2: "snd x2 = (print_all out (before @ inner) (snd x))\<lparr>stop_at_current_level := b\<rparr>"
  proof (cases b)
    case True
    then show ?thesis using x1 by (simp add: x2_def inner_def)
  next
    case False
    then have "snd x1 = print_all out before (snd x)" using x1 not_stopped by simp
    then show ?thesis
      using Folder.IH(1) [of x1 "Suc l"] Folder.prems calm False not_stopped E(3)
      by (auto simp: x2_def inner_def print_all_append)
  qed
  have x3: "snd x3 = print_all out (before @ inner @ after) (snd x)"
  proof (cases b)
    case True
    then have post: "\<not> ?post" by (simp add: b_def)
    have c: "calm opts ((snd x2)\<lparr>stop_at_current_level := False\<rparr>)" using x2 calm not_stopped by simp
    have "snd x3 = leave (snd x2)" using at [OF c] post by (auto simp: x3_def)
    then show ?thesis using leave_calm [OF c] x2 post not_stopped by (auto simp: after_def)
  next
    case False
    then have "snd x2 = print_all out (before @ inner) (snd x)" using x2 not_stopped by simp
    then show ?thesis
      using calm not_stopped E by (simp add: x3_def at after_def leave_calm look_prints [OF assms] print_all_append)
  qed
  have readable using Folder.prems(2) by simp
  have enter: "(deeper opts ?l \<and> \<not> (?pre \<and> stop_at_current_level (snd x1))) = (deeper opts ?l \<and> \<not> b)"
    using x1 by (auto simp: b_def)
  have "visit_all opts t (Folder ent readable kids # ns) x = visit_all opts t ns x3"
    unfolding visit_all.simps(5) Let_def x1_def [symmetric] enter x3_def x2_def using \<open>readable\<close> by simp
  moreover have "listed opts P Q (Folder ent readable kids) = before @ inner @ after"
    by (auto simp: before_def inner_def after_def b_def Let_def)
  moreover have "snd (visit_all opts t ns x3) = print_all out (concat (map (listed opts P Q) ns)) (snd x3)"
    using Folder.IH(2) [of x3 l] Folder.prems x3 by simp
  ultimately show ?case using x3 by (simp del: listed.simps visit_all.simps)
qed simp_all

lemma fold_prints:
  assumes "prints_and_prunes opts t E P Q out"
    and "\<forall>n\<in>set ns. node_ok opts 0 n \<and> sound n \<and> set (entries n) \<subseteq> E" and "calm opts s"
  shows "fold (traverse_from opts t) ns s = print_all out (concat (map (listed opts P Q) ns)) s"
  using assms(2,3)
proof (induction ns arbitrary: s)
  case (Cons n ns)
  then have "traverse_from opts t n s = print_all out (listed opts P Q n) s"
    using visit_all_prints [OF assms(1), of "(None, s)" "[n]" 0] by (simp add: traverse_from_def)
  then show ?case using Cons by (simp add: print_all_append)
qed simp

text \<open>C3: With an expression that prints the files that satisfy \<open>P\<close> and prunes the directories that
  satisfy \<open>Q\<close>, on a hierarchy that can be read, \<open>find\<close> prints the pathnames of the files with \<open>P\<close>
  between the two depths and below no pruned directory, each once, in the order of the walk, a
  directory before or, with \<open>-depth\<close>, after its contents; then it cleans up and exits with status 0,
  without a message.\<close>

theorem find_prints:
  assumes "below opts root (start_list argv)" and "\<forall>arg\<in>set (start_list argv). sound (root arg)"
    and "prints_and_prunes opts t (\<Union>arg\<in>set (start_list argv). set (entries (root arg))) P Q out"
  shows "let s = fstate (find_main opts t argv)
    in actions s = map (Print_line out) (concat (map (listed opts P Q \<circ> root) (start_list argv))) @ [Cleanup] \<and>
       exit_status s = 0 \<and> messages s = []"
proof -
  let ?s = "fstate (initial_walk opts)"
  have calm: "calm opts ?s" by (simp add: calm_def initial_walk_def tidy_def)
  have "fold (\<lambda>arg. traverse_from opts t (root arg)) (start_list argv) ?s =
      fold (traverse_from opts t) (map root (start_list argv)) ?s"
    by (simp add: fold_map comp_def)
  also have "\<dots> = print_all out (concat (map (listed opts P Q \<circ> root) (start_list argv))) ?s"
    using assms(1,2) by (subst fold_prints [OF assms(3) _ calm]) (auto simp: below_def)
  finally have "tidy opts (fstate (find_main opts t argv)) =
      act Cleanup (print_all out (concat (map (listed opts P Q \<circ> root) (start_list argv))) ?s)"
    using find_main_traverses [OF assms(1), of t] by (simp add: Let_def initial_walk_def)
  from arg_cong [OF this, of actions] arg_cong [OF this, of exit_status] arg_cong [OF this, of messages]
  show ?thesis by (simp add: Let_def act_def initial_walk_def)
qed

text \<open>A directory \<open>d\<close> with a file \<open>f\<close> and a directory \<open>x\<close> in which there is a file \<open>g\<close>.\<close>

definition ex_seen :: env where
  "ex_seen = ex_env\<lparr>fnmatch := \<lambda>p s c. p = s, base_name_of := \<lambda>n. rev (takeWhile (\<lambda>c. c \<noteq> CHR ''/'') (rev n))\<rparr>"

definition ex_entry :: "fts_info \<Rightarrow> nat \<Rightarrow> string \<Rightarrow> string \<Rightarrow> mode \<Rightarrow> find_args ftsent" where
  "ex_entry i l path name m = \<lparr>fts_info = i, fts_level = l, fts_path = path, fts_accpath = name,
     fts_name = name, fts_statp = ex_stat\<lparr>st_mode := m\<rparr>, fts_cwd_fd = 5, seen = ex_seen\<rparr>"

definition ex_root :: "find_args node" where
  "ex_root = Folder (ex_entry FTS_D 0 ''d'' ''d'' 0x41ED) True
     [Plain (ex_entry FTS_NSOK 1 ''d/f'' ''f'' 0x8000),
      Folder (ex_entry FTS_D 1 ''d/x'' ''x'' 0x41ED) True [Plain (ex_entry FTS_NSOK 2 ''d/x/g'' ''g'' 0x8000)]]"

definition ex_walk_options :: "find_args walk_options" where
  "ex_walk_options = \<lparr>maxdepth = - 1, mindepth = - 1, dir_first = True, ignore_race = False,
     follow_mode = SYMLINK_NEVER_DEREF, stay_on_filesystem = False,
     fts_open = \<lambda>acts f arg. Some (stream [ex_root] (Fts_end True)), dup_cloexec = \<lambda>fds fd. 7,
     junk_stat = ex_stat\<rparr>"

definition ex_prune :: "int find_pred" where
  "ex_prune = ex_node Pred_prune ''-prune'' PRIMARY_TYPE NO_PREC True True None"

text \<open>The expression \<open>-name x -prune -o -print\<close>.\<close>

definition ex_prune_x :: "(find_args, int) ptree" where
  "ex_prune_x = Node ex_or (Node ex_and (Node ex_name Null Null) (Node ex_prune Null Null))
     (Node ex_print Null Null)"

definition not_x :: "find_args ftsent \<Rightarrow> bool" where "not_x ent \<longleftrightarrow> fts_name ent \<noteq> ''x''"
definition is_x :: "find_args ftsent \<Rightarrow> bool" where "is_x ent \<longleftrightarrow> fts_name ent = ''x''"

lemmas walk_examples = ex_seen_def ex_entry_def ex_root_def ex_walk_options_def ex_prune_def ex_prune_x_def
  not_x_def is_x_def ex_stat_def ex_env_def

lemma ex_below: "below ex_walk_options (\<lambda>arg. ex_root) starts"
  by (auto simp: below_def walk_examples entry_ok_def plain_ok_def S_ISDIR_def S_ISLNK_def S_IFMT_def S_IFDIR_def
    S_IFLNK_def)

theorem find_traverses_witness:
  "tidy ex_walk_options (fstate (find_main ex_walk_options ex_prune_x [''d'', ''-prune''])) =
    (let s = fold (\<lambda>arg. traverse_from ex_walk_options ex_prune_x ex_root) (start_list [''d'', ''-prune''])
       (fstate (initial_walk ex_walk_options))
     in if status s = Running then act Cleanup s else s)"
  by (rule find_traverses [OF ex_below])

lemma ex_seen_simps:
  "fnmatch ex_seen p n c \<longleftrightarrow> p = n"
  "base_name_of ex_seen n = rev (takeWhile (\<lambda>c. c \<noteq> CHR ''/'') (rev n))"
  by (simp_all add: ex_seen_def)

lemma ex_entry_simps:
  "fts_info (ex_entry i l path name m) = i" "fts_level (ex_entry i l path name m) = l"
  "fts_path (ex_entry i l path name m) = path" "fts_name (ex_entry i l path name m) = name"
  "fts_statp (ex_entry i l path name m) = ex_stat\<lparr>st_mode := m\<rparr>" "seen (ex_entry i l path name m) = ex_seen"
  by (simp_all add: ex_entry_def)

lemma ex_look:
  assumes "rev (takeWhile (\<lambda>c. c \<noteq> CHR ''/'') (rev path)) = name"
    and "name = ''x'' \<longrightarrow> i \<in> {FTS_D, FTS_DP} \<and> S_ISDIR m" and "i \<noteq> FTS_NS"
    and "status s = Running" and "tidy ex_walk_options s = s"
  shows "look ex_walk_options ex_prune_x (ex_entry i l path name m) s =
    s\<lparr>actions := actions s @ (if name \<noteq> ''x'' then [Print_line (Printf_vec 1) path] else []),
      stop_at_current_level := stop_at_current_level s \<or> name = ''x''\<rparr>"
proof -
  let ?ent = "ex_entry i l path name m"
  define e where "e = entry_env ex_walk_options ?ent l (fts_accpath ?ent)"
  define a where "a = about ex_walk_options ?ent s"
  have e: "pathname e = path" "do_dir_first e"
    "fnmatch e p n c \<longleftrightarrow> p = n" "base_name_of e path = name" for p n c
    using assms(1) by (simp_all add: e_def entry_env_def ex_entry_simps ex_seen_simps ex_walk_options_def)
  have a: "status a = Running" "actions a = actions s" "tidy ex_walk_options a = s"
    "stop_at_current_level a = stop_at_current_level s"
    using assms(3-5) by (simp_all add: a_def about_def ex_entry_simps Let_def tidy_updates)
  have stat: "have_stat a" "S_ISDIR (st_mode (stat_buf a))" if "name = ''x''"
    using assms(2) that by (auto simp: a_def about_def ex_entry_simps Let_def)
  have "tidy ex_walk_options (snd (apply_predicate (get_info e) (prim e) ex_prune_x a)) =
      (if name = ''x'' then s\<lparr>stop_at_current_level := True\<rparr> else act (Print_line (Printf_vec 1) path) s)"
    using a stat
    by (auto simp: ex_prune_x_def ex_prune_def ex_defs apply_predicate.simps(2) prim.simps needs_nothing_def get_info_def
        info_todo_def get_statinfo_def pred_name_common_def e pred_prune_def pred_print_def tidy_updates)
  then show ?thesis
    using a by (simp add: look_def evaluate_def ex_entry_simps act_def flip: e_def a_def)
qed

lemma ex_prints_and_prunes:
  "prints_and_prunes ex_walk_options ex_prune_x (set (entries ex_root)) not_x is_x (Printf_vec 1)"
proof -
  have "entries ex_root = [ex_entry FTS_D 0 ''d'' ''d'' 0x41ED, ex_entry FTS_NSOK 1 ''d/f'' ''f'' 0x8000,
      ex_entry FTS_D 1 ''d/x'' ''x'' 0x41ED, ex_entry FTS_NSOK 2 ''d/x/g'' ''g'' 0x8000,
      ex_entry FTS_DP 1 ''d/x'' ''x'' 0x41ED, ex_entry FTS_DP 0 ''d'' ''d'' 0x41ED]"
    by (simp add: ex_root_def ex_entry_def with_info_def)
  moreover have "S_ISDIR 0x41ED" by (simp add: S_ISDIR_def S_IFMT_def S_IFDIR_def)
  ultimately show ?thesis
    unfolding prints_and_prunes_def
    by (auto simp: ex_look ex_entry_simps not_x_def is_x_def)
qed

theorem find_prints_witness:
  "let s = fstate (find_main ex_walk_options ex_prune_x [''d'', ''-name''])
   in actions s = [Print_line (Printf_vec 1) ''d'', Print_line (Printf_vec 1) ''d/f'', Cleanup] \<and>
      exit_status s = 0 \<and> messages s = []"
proof -
  have start: "start_list [''d'', ''-name''] = [''d'']"
    by (simp add: start_list_def looks_like_expression_def)
  have "listed ex_walk_options not_x is_x ex_root = [''d'', ''d/f'']"
    by (simp add: walk_examples wanted_def deeper_def with_info_def)
  moreover have "sound ex_root" by (simp add: ex_root_def)
  ultimately show ?thesis
    using find_prints [OF ex_below, of "[''d'', ''-name'']" ex_prune_x not_x is_x "Printf_vec 1"]
      ex_prints_and_prunes
    by (simp add: start)
qed

subsection \<open>Descriptors\<close>

definition one_descriptor :: "'x walk \<Rightarrow> bool" where
  "one_descriptor w \<longleftrightarrow> open_fds w = (if curr_fd w \<ge> 0 then [curr_fd w] else []) \<and> uses_cwdfd w"

lemma one_descriptor_cong:
  "open_fds w' = open_fds w \<Longrightarrow> curr_fd w' = curr_fd w \<Longrightarrow> ftsoptions w' = ftsoptions w \<Longrightarrow>
    one_descriptor w \<Longrightarrow> one_descriptor w'"
  by (simp add: one_descriptor_def uses_cwdfd_def)

lemma one_descriptor_steps:
  fixes w :: "find_args walk"
  assumes "one_descriptor w"
  shows "one_descriptor (left_dir w)" "one_descriptor (inside_dir opts fd w)" "one_descriptor (directories opts ent w)"
proof -
  have left: "one_descriptor (left_dir w)" if "one_descriptor w" for w :: "find_args walk"
    using that by (auto simp: one_descriptor_def left_dir_def uses_cwdfd_def)
  have inside: "one_descriptor (inside_dir opts fd w)" if "one_descriptor w" for w :: "find_args walk" and fd
    using that by (auto simp: one_descriptor_def inside_dir_def uses_cwdfd_def AT_FDCWD_def Let_def)
  show "one_descriptor (left_dir w)" "one_descriptor (inside_dir opts fd w)"
    using assms by (rule left inside)+
  show "one_descriptor (directories opts ent w)"
    using assms unfolding directories_def Let_def
    by (intro one_descriptor_cong [OF _ _ _ inside [OF if_split [THEN iffD2]]]) (auto simp: left)
qed

lemma one_descriptor_state [simp]:
  "one_descriptor (w\<lparr>fstate := s\<rparr>) = one_descriptor w" "one_descriptor (w\<lparr>level := l\<rparr>) = one_descriptor w"
  "one_descriptor (w\<lparr>now_depth := d\<rparr>) = one_descriptor w"
  by (simp_all add: one_descriptor_def uses_cwdfd_def)

lemma consider_one_descriptor:
  "one_descriptor w \<Longrightarrow> one_descriptor (snd (consider_visiting opts t ent (next_entry t ent w)))"
  using one_descriptor_steps(3) [of "next_entry t ent w" opts ent]
  by (simp add: next_entry_def consider_visiting_def Let_def split_beta)

lemma entries_one_descriptor:
  "one_descriptor w \<Longrightarrow> one_descriptor (snd (find_entries opts t arg k w))"
proof (induction k arbitrary: w)
  case (Fts_entry ent rest)
  obtain i v where v: "consider_visiting opts t ent (next_entry t ent w) = (i, v)" by fastforce
  then have "one_descriptor v" using consider_one_descriptor [OF Fts_entry.prems, of opts t ent] by simp
  then show ?case using Fts_entry.IH [OF rangeI rangeI] v by simp
qed simp

lemma or_keeps_flag: "f AND c \<noteq> 0 \<Longrightarrow> (f OR g) AND c \<noteq> 0" for f g c :: "32 word"
  by (simp add: bit.conj_disj_distrib2 or_eq_0_iff)

lemma from_one_descriptor:
  assumes "one_descriptor w"
  shows "one_descriptor (snd (find_from opts t arg w))"
proof -
  let ?w = "inside_dir opts AT_FDCWD w"
  have "f AND FTS_CWDFD \<noteq> 0 \<Longrightarrow> set_fts_options opts f AND FTS_CWDFD \<noteq> 0" for f
    by (simp add: set_fts_options_def Let_def or_keeps_flag)
  then have "one_descriptor (?w\<lparr>ftsoptions := set_fts_options opts (ftsoptions ?w), level := l\<rparr>)"
    "one_descriptor (?w\<lparr>ftsoptions := set_fts_options opts (ftsoptions ?w), fstate := s\<rparr>)" for l s
    using one_descriptor_steps(2) [OF assms, of opts AT_FDCWD]
    by (simp_all add: one_descriptor_def uses_cwdfd_def)
  then show ?thesis
    using one_descriptor_steps(2) [OF assms, of opts AT_FDCWD]
    by (auto simp: find_from_def Let_def simp del: one_descriptor_state intro!: entries_one_descriptor split: option.split)
qed

lemma each_one_descriptor:
  "one_descriptor w \<Longrightarrow> one_descriptor (snd (find_each opts t argv w))"
proof (induction argv arbitrary: w)
  case (Cons arg argv)
  obtain ok v where v: "find_from opts t arg w = (ok, v)" by fastforce
  then have "one_descriptor v" using from_one_descriptor [OF Cons.prems, of opts t arg] by simp
  then show ?case using Cons.IH v by simp
qed simp

text \<open>C37: However fts goes through the hierarchy, at most one duplicate of a directory descriptor is open
  at any time: the one in \<open>curr_fd\<close>. As every stream of entries is considered, also one that ends early,
  this holds after each entry.\<close>

theorem find_one_descriptor:
  "let w = find_main opts t argv
   in open_fds w = (if curr_fd w \<ge> 0 then [curr_fd w] else []) \<and> length (open_fds w) \<le> 1"
proof -
  have "one_descriptor (initial_walk opts)"
    by (simp add: one_descriptor_def initial_walk_def uses_cwdfd_def FTS_NOSTAT_def FTS_TIGHT_CYCLE_CHECK_def
      FTS_CWDFD_def)
  then have "one_descriptor (snd (process_all_startpoints opts t argv (initial_walk opts)))"
    by (simp add: process_all_startpoints_def Let_def from_one_descriptor each_one_descriptor)
  then have "one_descriptor (find_main opts t argv)"
    by (auto simp: find_main_def split: prod.split)
  then show ?thesis by (simp add: one_descriptor_def)
qed

end
