(* ===== verification/FindProgram.thy ===== *)
theory FindProgram
  imports FindCommand FindWalkTheorems
begin

text \<open>
  \<open>main\<close> of \<open>find/ftsfind.c\<close>: the defaults of the options, the options before the starting points, the
  expression, and the walk over the hierarchy with the options that the expression has set.
\<close>

subsection \<open>Defaults\<close>



subsection \<open>Leading options\<close>






subsection \<open>The program\<close>





subsection \<open>Evaluation on the way\<close>













subsection \<open>The properties\<close>
















end
