(* ===== verification/FindPrimTheorems.thy ===== *)
theory FindPrimTheorems
  imports FindCommand
begin

text \<open>What the parsers of some primaries promise: times, depths, and the words of \<open>-exec ... {} +\<close>.\<close>

subsection \<open>Times relative to now\<close>

text \<open>A normalised time, and the age a file has, in nanoseconds.\<close>

definition proper :: "timespec \<Rightarrow> bool" where
  "proper ts \<longleftrightarrow> 0 \<le> tv_nsec ts \<and> tv_nsec ts < 1000000000"

definition day :: int where "day = 86400 * 1000000000"

text \<open>The ages that \<open>n\<close>, \<open>-n\<close> and \<open>+n\<close> select.\<close>

fun age_selected :: "comparison_type \<Rightarrow> nat \<Rightarrow> int \<Rightarrow> bool" where
  "age_selected COMP_EQ n age \<longleftrightarrow> age div day = int n"
| "age_selected COMP_LT n age \<longleftrightarrow> age < int n * day + 1000000000"
| "age_selected COMP_GT n age \<longleftrightarrow> (int n + 1) * day < age"

lemma compare_ts_proper:
  assumes "proper ts1" and "proper ts2"
  shows "compare_ts ts1 ts2 > 0 \<longleftrightarrow> ts_difference ts1 ts2 > 0" "compare_ts ts1 ts2 < 0 \<longleftrightarrow> ts_difference ts1 ts2 < 0"
proof -
  have "ts_difference ts1 ts2 \<noteq> 0 \<or> (tv_sec ts1 = tv_sec ts2 \<and> tv_nsec ts1 = tv_nsec ts2)"
    using assms unfolding ts_difference_def proper_def
    by (cases "tv_sec ts1" "tv_sec ts2" rule: linorder_cases) auto
  then show "compare_ts ts1 ts2 > 0 \<longleftrightarrow> ts_difference ts1 ts2 > 0" "compare_ts ts1 ts2 < 0 \<longleftrightarrow> ts_difference ts1 ts2 < 0"
    by (auto simp: compare_ts_def ts_difference_def)
qed

lemma round_of_int [simp]: "round_to_zero (of_int x) = x"
  by (simp add: round_to_zero_def)

lemma relative_days:
  assumes "get_comp_type str = (kind, rest)" and "xstrtod E rest = Some (Finite (of_nat n))"
    and "proper origin" and "\<bar>tv_sec origin\<bar> < 2 ^ 62" and "int n * 86400 < 2 ^ 62"
  shows "get_relative_timestamp E str origin (of_int DAYSECS) =
    Ok (Some (invert_comp kind, origin\<lparr>tv_sec := tv_sec origin - int n * 86400\<rparr>))"
proof -
  have eq: "(of_nat n :: rat) * of_int DAYSECS = of_int (int n * 86400)" by (simp add: DAYSECS_def)
  have "fits_time_t (tv_sec origin - int n * 86400)" using assms(4,5) by (auto simp: fits_time_t_def)
  then show ?thesis
    using assms(1-3)
    by (simp add: get_relative_timestamp_def eq Let_def proper_def del: of_int_mult) 
qed

lemma last_insert_primary:
  "last (predicates (insert_primary_withpred E e fn arg f b)) =
     f ((new_pred E (interpose_and E b) fn PRIMARY_TYPE NO_PREC arg)\<lparr>p_name := parser_name e\<rparr>)"
  by (simp add: insert_primary_withpred_def append_pred_def Let_def)

text \<open>C26: \<open>-mtime n\<close> selects the files whose age, in whole days with the fraction ignored, is \<open>n\<close>;
  \<open>-mtime -n\<close> those younger than \<open>n\<close> days and one second, and \<open>-mtime +n\<close> those older than \<open>n + 1\<close> days
  (a file of exactly \<open>n + 1\<close> days is not selected). The age is counted from the start of the program.
  The node the parser makes and the test that reads it back are taken together.\<close>

theorem mtime_selects:
  assumes "i < length argv" and "get_comp_type (argv ! i) = (kind, rest)"
    and "xstrtod E rest = Some (Finite (of_nat n))" and "e_pred_func e = Some Pred_mtime"
    and "cur_day_start b = start\<lparr>tv_sec := tv_sec start - DAYSECS\<rparr>"
    and "proper start" and "\<bar>tv_sec start\<bar> < 2 ^ 61" and "int n * 86400 < 2 ^ 62"
  shows "\<exists>b'. parse_time E e argv i b = Ok (True, i + 1, b') \<and> pred_func (last (predicates b')) = Pred_mtime \<and>
    (\<forall>s. proper (stat_mtime (stat_buf s)) \<longrightarrow>
       pred_mtime (args (last (predicates b'))) s =
         (age_selected kind n (ts_difference start (stat_mtime (stat_buf s))), s))"
proof -
  define origin where "origin = (if kind = COMP_LT then start\<lparr>tv_sec := tv_sec start - 1\<rparr>
    else start\<lparr>tv_sec := tv_sec start - DAYSECS\<rparr>)"
  define ref where "ref = origin\<lparr>tv_sec := tv_sec origin - int n * 86400\<rparr>"
  have origin: "(if fst (get_comp_type (argv ! i)) = COMP_LT
      then (cur_day_start b)\<lparr>tv_sec := tv_sec (cur_day_start b) + (DAYSECS - 1)\<rparr> else cur_day_start b) = origin"
    using assms(2,5) by (simp add: origin_def)
  have "proper origin" "\<bar>tv_sec origin\<bar> < 2 ^ 62" using assms(6,7) by (auto simp: origin_def proper_def DAYSECS_def)
  from relative_days [OF assms(2,3) this assms(8)]
  have ts: "get_relative_timestamp E (argv ! i) origin (of_int DAYSECS) = Ok (Some (invert_comp kind, ref))"
    by (simp add: ref_def)
  define b' where "b' = insert_primary_withpred E e Pred_mtime (Some (argv ! i)) (set_reftime (stale_xval E)
    (invert_comp kind) ref (estimate_timestamp_success_rate E b (tv_sec ref))) b"
  have "parse_time E e argv i b = Ok (True, i + 1, b')"
    unfolding parse_time_def Let_def collect_arg_def using assms(1,4)
    by (simp add: origin ts accept_def insert_primary_def b'_def del: One_nat_def)
  moreover have node: "args (last (predicates b')) = Some (Reftime (stale_xval E) (invert_comp kind) ref)"
    "pred_func (last (predicates b')) = Pred_mtime"
    by (simp_all add: b'_def last_insert_primary set_reftime_def new_pred_def)
  moreover have "pred_mtime (args (last (predicates b'))) s =
      (age_selected kind n (ts_difference start (stat_mtime (stat_buf s))), s)"
    if "proper (stat_mtime (stat_buf s))" for s
  proof -
    let ?m = "stat_mtime (stat_buf s)"
    have p: "proper ref" using \<open>proper origin\<close> by (simp add: ref_def proper_def)
    define age where "age = ts_difference start ?m"
    have difference: "ts_difference ?m ref = (if kind = COMP_LT then int n * day + 1000000000 else (int n + 1) * day) - age"
      by (simp add: ref_def origin_def age_def ts_difference_def day_def DAYSECS_def algebra_simps)
    note compare = compare_ts_proper [OF that p, unfolded difference]
    show ?thesis
    proof (cases kind)
      case COMP_EQ
      have "age div day = int n \<longleftrightarrow> int n * day \<le> age \<and> age < (int n + 1) * day"
        by (auto simp: day_def)
      then show ?thesis
        using COMP_EQ by (auto simp: pred_mtime_def node difference Let_def age_def [symmetric] day_def DAYSECS_def algebra_simps)
    qed (use compare in \<open>auto simp: pred_mtime_def node age_def [symmetric]\<close>)
  qed
  ultimately show ?thesis by blast
qed

theorem mtime_selects_witness:
  "\<exists>b'. parse_time ex_parse_env (the (find_parser ''-mtime'')) [''-mtime'', ''+3''] 1 (empty_builder ex_parse_env) =
      Ok (True, 2, b') \<and> fst (pred_mtime (args (last (predicates b'))) (ex_state\<lparr>stat_buf := ex_stat\<rparr>))"
proof -
  let ?start = "\<lparr>tv_sec = 1000000, tv_nsec = 0\<rparr> :: timespec"
  have "e_pred_func (the (find_parser ''-mtime'')) = Some Pred_mtime" by code_simp
  moreover have "get_comp_type ([''-mtime'', ''+3''] ! 1) = (COMP_GT, ''3'')" by code_simp
  moreover have "xstrtod ex_parse_env ''3'' = Some (Finite (of_nat 3))"
    "cur_day_start (empty_builder ex_parse_env) = ?start\<lparr>tv_sec := tv_sec ?start - DAYSECS\<rparr>"
    by (simp_all add: ex_parse_env_def empty_builder_def ex_settings_def DAYSECS_def)
  moreover have "proper (stat_mtime (stat_buf (ex_state\<lparr>stat_buf := ex_stat\<rparr>)))"
    "age_selected COMP_GT 3 (ts_difference ?start (stat_mtime ex_stat))"
    by (simp_all add: proper_def ex_stat_def day_def ts_difference_def)
  ultimately show ?thesis
    using mtime_selects [of 1 "[''-mtime'', ''+3'']" COMP_GT "''3''" ex_parse_env 3 "the (find_parser ''-mtime'')"
        "empty_builder ex_parse_env" ?start]
    by (force simp: proper_def)
qed

subsection \<open>Depths\<close>

lemma digit_facts:
  assumes "is_digit_char c"
  shows "is_digit_in 10 c" "\<not> is_space c" "c \<noteq> CHR ''-''" "c \<noteq> CHR ''+''"
  using assms by (auto simp: is_digit_char_def is_digit_in_def digit_value_def is_space_def)

lemma read_digits:
  assumes "w \<noteq> []" and "list_all is_digit_char w"
  shows "read_int w = (if number_value 10 w \<le> 2147483647 then Ok (int (number_value 10 w))
    else Exit (Bad_number w Number_range))"
proof -
  obtain c r where w: "w = c # r" using assms(1) by (cases w) auto
  have c: "is_digit_char c" using assms(2) w by simp
  have r: "takeWhile (is_digit_in 10) r = r"
    using assms(2) w by (simp add: takeWhile_eq_all_conv list_all_iff digit_facts(1))
  then have "c_number 10 w = (False, number_value 10 w, [])"
    using digit_facts [OF c] by (simp add: c_number_def w r)
  then show ?thesis using assms(1) by (auto simp: read_int_def safe_atoi_def strtol_def Let_def)
qed

text \<open>The argument of \<open>-maxdepth\<close> and \<open>-mindepth\<close> is a string of decimal digits and nothing else, no
  sign and no blank, and its value is at most 2147483647. Then the depth is the value of the digits and
  all other options stay as they were; otherwise the program ends with a message.\<close>

lemma depth_argument:
  assumes "i < length argv" and "argv ! i = w"
  shows "(if w \<noteq> [] \<and> list_all is_digit_char w \<and> number_value 10 w \<le> 2147483647
     then parse_maxdepth E argv i b = parse_noop E (i + 1)
            (set_option (\<lambda>opts. opts\<lparr>opt_maxdepth := int (number_value 10 w)\<rparr>) b) \<and>
          parse_mindepth E argv i b = parse_noop E (i + 1)
            (set_option (\<lambda>opts. opts\<lparr>opt_mindepth := int (number_value 10 w)\<rparr>) b)
     else \<exists>err. parse_maxdepth E argv i b = Exit err \<and> parse_mindepth E argv i b = Exit err)"
proof -
  show ?thesis
    using assms read_digits [of w]
    by (auto simp: parse_maxdepth_def parse_mindepth_def insert_depthspec_def collect_arg_def)
qed

lemma depth_argument_witness:
  "parse_maxdepth ex_parse_env [''-maxdepth'', ''10''] 1 (empty_builder ex_parse_env) =
     parse_noop ex_parse_env (1 + 1) (set_option (\<lambda>opts. opts\<lparr>opt_maxdepth := 10\<rparr>) (empty_builder ex_parse_env))"
proof -
  have "number_value 10 ''10'' = 10" "list_all is_digit_char ''10''" by code_simp+
  then show ?thesis
    using depth_argument [of 1 "[''-maxdepth'', ''10'']" "''10''" ex_parse_env "empty_builder ex_parse_env"] by simp
qed

subsection \<open>The words of a command\<close>

text \<open>\<open>-exec command {} +\<close>: the words of the command are taken into the buffer of \<open>lib/buildcmd.c\<close> if and
  only if they fit the limits that the system and the environment leave, in bytes (each word with
  its end) and in number; otherwise the program ends with a message, and nothing is cut off.\<close>

theorem exec_plus_gathers:
  assumes "exec_control E = Ok ctl"
  shows "(gather_initial ctl words = Ok () \<longleftrightarrow> weight words \<le> arg_max ctl \<and> length words < max_arg_count ctl) \<and>
    (gather_initial ctl words \<noteq> Ok () \<longrightarrow> (\<exists>err. gather_initial ctl words = Exit (Exec_error err)))"
proof (cases "weight words \<le> arg_max ctl \<and> length words < max_arg_count ctl")
  case True
  then show ?thesis using gather_initial_result(1) [OF exec_control_ok [OF assms], of words] by simp
next
  case False
  then obtain err where "gather_initial ctl words = Exit (Exec_error err)"
    using gather_initial_result(2) [OF exec_control_ok [OF assms], of words] by blast
  then show ?thesis using False by auto
qed

theorem exec_plus_gathers_witness:
  "\<exists>ctl. exec_control (ex_parse_env\<lparr>system_arg_max := 4096\<rparr>) = Ok ctl \<and> gather_initial ctl [''ls'', ''-l''] = Ok ()"
proof -
  let ?E = "ex_parse_env\<lparr>system_arg_max := 4096\<rparr>"
  have "bc_init_controlinfo 4096 [] 2048 = Ok (BC_INIT_OK
      \<lparr>exit_if_size_exceeded = False, posix_arg_size_max = 2048, posix_arg_size_min = 4096,
       arg_max = 2048, max_arg_count = 254, replace_pat = None, initial_argc = 0,
       lines_per_exec = 0, args_per_exec = 0\<rparr>)"
    by (simp add: bc_init_controlinfo_def bc_size_of_environment_def)
  then obtain ctl where ctl: "exec_control ?E = Ok ctl" "arg_max ctl = 2048" "max_arg_count ctl = 254"
    by (simp add: exec_control_def bc_use_sensible_arg_max_def ex_parse_env_def)
  then show ?thesis using exec_plus_gathers [OF ctl(1), of "[''ls'', ''-l'']"] by (simp add: weight_def)
qed

end
