(* ===== verification/FindPrintf.thy ===== *)
theory FindPrintf
  imports FindFormat
begin

text \<open>
  The output of \<open>-printf\<close> and \<open>-fprintf\<close> (\<open>find/pred.c\<close>: \<open>pred_fprintf\<close>, \<open>do_fprintf\<close>, \<open>format_date\<close>,
  \<open>ctime_format\<close> and what they call), as the calls of the C library and of \<open>print_quoted\<close> that make it.
\<close>

subsection \<open>Numbers in decimal\<close>

fun decimal :: "nat \<Rightarrow> string" where
  "decimal n = (if n < 10 then [] else decimal (n div 10)) @ [char_of (48 + n mod 10)]"

declare decimal.simps [simp del]

text \<open>The conversions \<open>%0wd\<close>, \<open>%wd\<close> and \<open>%ws\<close>.\<close>

definition zero_pad :: "nat \<Rightarrow> int \<Rightarrow> string" where
  "zero_pad w x =
     (let sign = (if x < 0 then ''-'' else []); ds = decimal (nat \<bar>x\<bar>)
      in sign @ replicate (w - length sign - length ds) (CHR ''0'') @ ds)"

definition blank_pad :: "nat \<Rightarrow> string \<Rightarrow> string" where
  "blank_pad w s = replicate (w - length s) (CHR '' '') @ s"

definition signed_decimal :: "int \<Rightarrow> string" where
  "signed_decimal x = (if x < 0 then ''-'' else []) @ decimal (nat \<bar>x\<bar>)"

subsection \<open>The surroundings\<close>

record tm =
  tm_sec :: int
  tm_min :: int
  tm_hour :: int
  tm_mday :: int
  tm_mon :: int
  tm_year :: int
  tm_wday :: int

text \<open>
  The C library (\<open>localtime\<close>, \<open>strftime\<close> with a buffer that is large enough) and gnulib:
  \<open>human_readable n from to\<close> rounds up, \<open>filemodestring\<close> gives ten characters, \<open>st_nblocks\<close> counts blocks
  of \<open>st_nblocksize\<close> bytes and \<open>file_blocksize\<close> is the size of those \<open>st_blocks\<close> counts.
\<close>

record out_env =
  localtime :: "int \<Rightarrow> tm option"
  strftime :: "string \<Rightarrow> tm \<Rightarrow> string"
  human_readable :: "nat \<Rightarrow> nat \<Rightarrow> nat \<Rightarrow> string"
  filemodestring :: "fstat \<Rightarrow> string"
  st_nblocks :: "fstat \<Rightarrow> nat"
  st_nblocksize :: nat
  st_blocks :: "fstat \<Rightarrow> int"
  file_blocksize :: "fstat \<Rightarrow> nat"

text \<open>
  What is written: bytes as they are, a flush, and a conversion that is given to \<open>fprintf\<close> or, where the
  value may have been chosen by someone else, to \<open>print_quoted\<close>.
\<close>

datatype (plugins only: code size) quotient = Ratio rat | Infinite bool

datatype (plugins only: code size) printed_value = Text string | Number int | Real_number quotient

datatype (plugins only: code size) written =
  Fwrite string
| Fflush
| Fprintf string printed_value
| Print_quoted string string

subsection \<open>Times\<close>

text \<open>
  \<open>seen\<close> is the first sequence of differing digits so far, by its start and its length. The second test
  for a digit in the code looks at the same string as the first. The result is None for false.
\<close>

fun scan_digits :: "string \<Rightarrow> string \<Rightarrow> nat \<Rightarrow> (nat \<times> nat) option \<Rightarrow> (nat \<times> nat) option" where
  "scan_digits (c # p) (d # q) i found =
     (if c \<noteq> d then
        if \<not> is_digit_char d then None
        else (case found of
                None \<Rightarrow> scan_digits p q (i + 1) (Some (i, 1))
              | Some (first, n) \<Rightarrow>
                  if i - first = n then scan_digits p q (i + 1) (Some (first, n + 1)) else None)
      else scan_digits p q (i + 1) found)"
| "scan_digits [] [] i found = Some (case found of None \<Rightarrow> (0, 0) | Some x \<Rightarrow> x)"
| "scan_digits p q i found = None"

definition scan_for_digit_differences :: "string \<Rightarrow> string \<Rightarrow> (nat \<times> nat) option" where
  "scan_for_digit_differences p q = scan_digits p q 0 None"

text \<open>The other time is taken to need no larger buffer than the time itself.\<close>

definition altered_time :: "tm \<Rightarrow> tm" where
  "altered_time p = p\<lparr>tm_sec := (if tm_sec p \<ge> 11 then tm_sec p - 11 else tm_sec p + 11)\<rparr>"

definition do_time_format :: "out_env \<Rightarrow> string \<Rightarrow> tm \<Rightarrow> string \<Rightarrow> string" where
  "do_time_format X fmt p ns =
     (let timefmt = CHR ''_'' # fmt;
          buf = strftime X timefmt p;
          altbuf = strftime X timefmt (altered_time p)
      in case scan_for_digit_differences buf altbuf of
           Some (i, n) \<Rightarrow>
             if n = 2 \<and> \<not> (i + n < length buf \<and> is_digit_char (buf ! (i + n)))
             then tl (take (i + n) buf @ ns @ drop (i + n) buf) else tl buf
         | None \<Rightarrow> tl buf)"

text \<open>The assertions about the sizes of the buffers hold: a \<open>long\<close> has at most 20 characters.\<close>

definition format_date :: "out_env \<Rightarrow> timespec \<Rightarrow> char \<Rightarrow> string" where
  "format_date X ts kind =
     (let fmt = (if kind = CHR ''+'' then ''%F+%T'' else [CHR ''%'', kind]);
          need_ns_suffix = kind \<in> set ''+STX@'';
          ns = (if need_ns_suffix then CHR ''.'' # zero_pad 9 (tv_nsec ts) @ ''0'' else []);
          seconds = (if tv_sec ts < 0 then ''-'' else []) @ human_readable X (nat \<bar>tv_sec ts\<bar>) 1 1 @ ns
      in if kind \<noteq> CHR ''@'' then
           (case localtime X (tv_sec ts) of
              Some tm \<Rightarrow> do_time_format X fmt tm ns
            | None \<Rightarrow> seconds)
         else seconds)"

definition weekdays :: "string list" where
  "weekdays = [''Sun'', ''Mon'', ''Tue'', ''Wed'', ''Thu'', ''Fri'', ''Sat'']"

definition months :: "string list" where
  "months = [''Jan'', ''Feb'', ''Mar'', ''Apr'', ''May'', ''Jun'', ''Jul'', ''Aug'', ''Sep'', ''Oct'', ''Nov'', ''Dec'']"

text \<open>None is a failing assertion.\<close>

definition ctime_format :: "out_env \<Rightarrow> timespec \<Rightarrow> string option" where
  "ctime_format X ts =
     (case localtime X (tv_sec ts) of
        None \<Rightarrow> Some (format_date X ts (CHR ''@''))
      | Some tm \<Rightarrow>
          if tm_wday tm \<ge> 0 \<and> tm_wday tm < 7 \<and> tm_mon tm \<ge> 0 \<and> tm_mon tm < 12 \<and> tm_hour tm \<ge> 0 \<and>
             tm_hour tm < 24 \<and> tm_min tm < 60 \<and> tm_sec tm \<le> 61
          then Some (blank_pad 3 (weekdays ! nat (tm_wday tm)) @ '' '' @ blank_pad 3 (months ! nat (tm_mon tm)) @ '' '' @
            blank_pad 2 (signed_decimal (tm_mday tm)) @ '' '' @ zero_pad 2 (tm_hour tm) @ '':'' @
            zero_pad 2 (tm_min tm) @ '':'' @ zero_pad 2 (tm_sec tm) @ ''.'' @ zero_pad 10 (tv_nsec ts) @ '' '' @
            zero_pad 4 (1900 + tm_year tm))
          else None)"

subsection \<open>Segments\<close>

definition mode_to_filetype :: "mode \<Rightarrow> string" where
  "mode_to_filetype m =
     (if m = S_IFREG then ''f'' else if m = S_IFDIR then ''d'' else if m = S_IFLNK then ''l''
      else if m = S_IFSOCK then ''s'' else if m = S_IFBLK then ''b'' else if m = S_IFCHR then ''c''
      else if m = S_IFIFO then ''p'' else ''U'')"

definition file_sparseness :: "out_env \<Rightarrow> fstat \<Rightarrow> quotient" where
  "file_sparseness X p =
     (if st_size p = 0 then
        (if st_blocks X p = 0 then Ratio 1 else Infinite (st_blocks X p < 0))
      else Ratio (of_nat (file_blocksize X p) * of_int (st_blocks X p) / of_int (st_size p)))"

text \<open>Up to the last slash, and behind the starting point.\<close>

definition leading_dirs :: "string \<Rightarrow> string" where
  "leading_dirs path =
     (if CHR ''/'' \<in> set path then rev (tl (dropWhile (\<lambda>c. c \<noteq> CHR ''/'') (rev path))) else ''.'')"

definition below_start :: "nat \<Rightarrow> nat \<Rightarrow> string \<Rightarrow> string" where
  "below_start depth start path =
     (if depth > 0 then
        (let cp = drop start path in if take 1 cp = ''/'' then tl cp else cp)
      else [])"

text \<open>
  \<open>start\<close> is \<open>state.starting_path_length\<close>, \<open>h\<close> the actions before. The errors that are reported on the way are
  those of \<open>printf_error\<close>.
\<close>

definition link_text :: "env \<Rightarrow> find_args find_action list \<Rightarrow> fstat \<Rightarrow> string" where
  "link_text e h st =
     (if S_ISLNK (st_mode st) then (case readlinkat e h (rel_pathname e) of Some name \<Rightarrow> name | None \<Rightarrow> []) else [])"

definition target_type :: "env \<Rightarrow> fstat \<Rightarrow> string" where
  "target_type e st =
     (if S_ISLNK (st_mode st) then
        (case (if following_links e then optionp_stat e (rel_pathname e) else optionl_stat e (rel_pathname e)) of
           Inr sbuf \<Rightarrow> mode_to_filetype (st_mode sbuf AND S_IFMT)
         | Inl err \<Rightarrow> if err = ENOENT then ''N'' else if err = ELOOP then ''L'' else ''?'')
      else mode_to_filetype (st_mode st AND S_IFMT))"

definition do_fprintf :: "out_env \<Rightarrow> env \<Rightarrow> nat \<Rightarrow> find_args find_action list \<Rightarrow> fstat \<Rightarrow> segment \<Rightarrow>
    written list option" where
  "do_fprintf X e start h st seg =
     (case seg of
        Segment KIND_PLAIN text _ _ \<Rightarrow> Some [Fwrite text]
      | Segment KIND_STOP text _ _ \<Rightarrow> Some [Fwrite text, Fflush]
      | Segment KIND_FORMAT text None _ \<Rightarrow> Some []
      | Segment KIND_FORMAT text (Some c) _ \<Rightarrow>
          (let number = (\<lambda>n. Some [Fprintf text (Text (human_readable X n 1 1))]);
               time = (\<lambda>ts. map_option (\<lambda>t. [Fprintf text (Text t)]) (ctime_format X ts));
               blocks = (\<lambda>size. Some [Fprintf text (Text (human_readable X (st_nblocks X st) (st_nblocksize X) size))])
           in if c = CHR ''a'' then time (stat_atime st)
              else if c = CHR ''b'' then blocks 512
              else if c = CHR ''c'' then time (stat_ctime st)
              else if c = CHR ''d'' then Some [Fprintf text (Number (int (curdepth e)))]
              else if c = CHR ''D'' then number (st_dev st)
              else if c = CHR ''f'' then Some [Print_quoted text (base_name e (pathname e))]
              else if c = CHR ''F'' then Some [Print_quoted text (filesystem_type e st (pathname e))]
              else if c = CHR ''g'' \<or> c = CHR ''G'' then
                (case (if c = CHR ''g'' then getgrgid e (st_gid st) else None) of
                   Some name \<Rightarrow> Some [Fprintf text (Text name)] | None \<Rightarrow> number (st_gid st))
              else if c = CHR ''h'' then Some [Print_quoted text (leading_dirs (pathname e))]
              else if c = CHR ''H'' then Some [Fprintf text (Text (take start (pathname e)))]
              else if c = CHR ''i'' then number (st_ino st)
              else if c = CHR ''k'' then blocks 1024
              else if c = CHR ''l'' then Some [Print_quoted text (link_text e h st)]
              else if c = CHR ''M'' then Some [Fprintf text (Text (take 10 (filemodestring X st)))]
              else if c = CHR ''m'' then Some [Fprintf text (Number (uint (st_mode st AND MODE_ALL)))]
              else if c = CHR ''n'' then number (st_nlink st)
              else if c = CHR ''p'' then Some [Print_quoted text (pathname e)]
              else if c = CHR ''P'' then Some [Print_quoted text (below_start (curdepth e) start (pathname e))]
              else if c = CHR ''s'' then number (nat (st_size st mod 2 ^ 64))
              else if c = CHR ''S'' then Some [Fprintf text (Real_number (file_sparseness X st))]
              else if c = CHR ''t'' then time (stat_mtime st)
              else if c = CHR ''u'' \<or> c = CHR ''U'' then
                (case (if c = CHR ''u'' then getpwuid e (st_uid st) else None) of
                   Some name \<Rightarrow> Some [Fprintf text (Text name)] | None \<Rightarrow> number (st_uid st))
              else if c = CHR ''Y'' then Some [Fprintf text (Text (target_type e st))]
              else if c = CHR ''y'' then Some [Fprintf text (Text (mode_to_filetype (st_mode st AND S_IFMT)))]
              else if c = CHR ''Z'' then
                Some [Fprintf text (Text (case getfilecon e h (rel_pathname e) of Some scontext \<Rightarrow> scontext | None \<Rightarrow> []))]
              else Some []))"

text \<open>A component of a date. Only the birth time may be missing. Another letter is a failing assertion.\<close>

definition print_date :: "out_env \<Rightarrow> fstat \<Rightarrow> string \<Rightarrow> char \<Rightarrow> char \<Rightarrow> written list option" where
  "print_date X st text c kind =
     (let date = (\<lambda>ts. Some [Fprintf text (Text (format_date X ts kind))])
      in if c = CHR ''A'' then date (stat_atime st)
         else if c = CHR ''B'' then
           (if kind = CHR ''@'' \<or> tv_nsec (stat_birthtime st) \<ge> 0 then date (stat_birthtime st)
            else Some [Fprintf text (Text [])])
         else if c = CHR ''C'' then date (stat_ctime st)
         else if c = CHR ''T'' then date (stat_mtime st)
         else None)"

definition print_segment :: "out_env \<Rightarrow> env \<Rightarrow> nat \<Rightarrow> find_args find_action list \<Rightarrow> fstat \<Rightarrow> segment \<Rightarrow>
    written list option" where
  "print_segment X e start h st seg =
     (case seg of
        Segment KIND_FORMAT text (Some c) (Some kind) \<Rightarrow> print_date X st text c kind
      | _ \<Rightarrow> do_fprintf X e start h st seg)"

fun pred_fprintf :: "out_env \<Rightarrow> env \<Rightarrow> nat \<Rightarrow> find_args find_action list \<Rightarrow> fstat \<Rightarrow> segment list \<Rightarrow>
    written list option" where
  "pred_fprintf X e start h st [] = Some []"
| "pred_fprintf X e start h st (seg # segments) =
     (case print_segment X e start h st seg of
        None \<Rightarrow> None
      | Some out \<Rightarrow> map_option ((@) out) (pred_fprintf X e start h st segments))"

definition ex_out :: out_env where
  "ex_out = \<lparr>localtime = (\<lambda>t. Some \<lparr>tm_sec = t mod 60, tm_min = 0, tm_hour = 0, tm_mday = 1, tm_mon = 0, tm_year = 70,
     tm_wday = 4\<rparr>), strftime = (\<lambda>fmt tm. ''_'' @ zero_pad 2 (tm_sec tm)), human_readable = (\<lambda>n from to. decimal n),
     filemodestring = (\<lambda>st. ''----------''), st_nblocks = (\<lambda>st. 0), st_nblocksize = 512, st_blocks = (\<lambda>st. 0),
     file_blocksize = (\<lambda>st. 512)\<rparr>"

subsection \<open>Plain text\<close>

text \<open>How a text is written so that \<open>-printf\<close> prints it as it is.\<close>

definition escape_char :: "char \<Rightarrow> string" where
  "escape_char c = (if c = CHR 0x5C then [CHR 0x5C, CHR 0x5C] else if c = CHR ''%'' then ''%%'' else [c])"

lemma make_plain [simp]: "make_segment text KIND_PLAIN None None = Segment KIND_PLAIN text None None"
  by (simp add: make_segment_def)

lemma scan_escaped:
  "\<exists>texts. scan_format acc (concat (map escape_char w)) = Ok (map (\<lambda>t. Segment KIND_PLAIN t None None) texts) \<and>
     concat texts = acc @ w"
proof (induction w arbitrary: acc)
  case Nil
  have "scan_format acc [] = Ok (map (\<lambda>t. Segment KIND_PLAIN t None None) (if acc \<noteq> [] then [acc] else []))"
    by (simp add: scan_format.simps(1))
  then show ?case by (intro exI [of _ "if acc \<noteq> [] then [acc] else []"]) simp
next
  case (Cons c w)
  obtain texts where texts: "concat texts = w"
    "scan_format [] (concat (map escape_char w)) = Ok (map (\<lambda>t. Segment KIND_PLAIN t None None) texts)"
    using Cons.IH [of "[]"] by auto
  obtain plain where plain: "concat plain = (acc @ [c]) @ w"
    "scan_format (acc @ [c]) (concat (map escape_char w)) = Ok (map (\<lambda>t. Segment KIND_PLAIN t None None) plain)"
    using Cons.IH [of "acc @ [c]"] by auto
  consider "c = CHR 0x5C" | "c = CHR ''%''" | "c \<noteq> CHR 0x5C" "c \<noteq> CHR ''%''" by blast
  then show ?case
  proof cases
    case 1
    have "\<not> is_octal (CHR 0x5C)" "simple_escape (CHR 0x5C) = Some (CHR 0x5C)"
      by (simp_all add: is_octal_def simple_escape_def)
    then have "scan_format acc (concat (map escape_char (c # w))) =
        Ok (map (\<lambda>t. Segment KIND_PLAIN t None None) ((acc @ [c]) # texts))"
      using 1 texts(2) by (simp add: escape_char_def scan_format.simps(2))
    then show ?thesis using texts(1) by (intro exI [of _ "(acc @ [c]) # texts"]) simp
  next
    case 2
    then have "scan_format acc (concat (map escape_char (c # w))) =
        Ok (map (\<lambda>t. Segment KIND_PLAIN t None None) ((acc @ [c]) # texts))"
      using texts(2) by (simp add: escape_char_def scan_format.simps(2))
    then show ?thesis using texts(1) by (intro exI [of _ "(acc @ [c]) # texts"]) simp
  next
    case 3
    then have "scan_format acc (concat (map escape_char (c # w))) =
        scan_format (acc @ [c]) (concat (map escape_char w))"
      by (simp add: escape_char_def scan_format.simps(2))
    then show ?thesis using plain by auto
  qed
qed

lemma fprintf_plain:
  "pred_fprintf X e start h st (map (\<lambda>t. Segment KIND_PLAIN t None None) texts) = Some (map Fwrite texts)"
  by (induction texts) (simp_all add: print_segment_def do_fprintf_def)

text \<open>C28: Any text can be printed: with each backslash and each percent sign written twice, \<open>-printf\<close> divides
  it into plain segments and writes exactly the bytes of the text, in order, whatever the file.\<close>

theorem printf_prints_escaped:
  "\<exists>segments texts. scan_format [] (concat (map escape_char w)) = Ok segments \<and>
     pred_fprintf X e start h st segments = Some (map Fwrite texts) \<and> concat texts = w"
proof -
  obtain texts where "scan_format [] (concat (map escape_char w)) = Ok (map (\<lambda>t. Segment KIND_PLAIN t None None) texts)"
    "concat texts = w" using scan_escaped [of "[]" w] by auto
  then show ?thesis using fprintf_plain by blast
qed

subsection \<open>What a format needs to know\<close>

text \<open>Two buffers agree on what a directive, a segment, and a node ask for.\<close>

definition agree_on :: "bool \<Rightarrow> bool \<Rightarrow> bool \<Rightarrow> fstat \<Rightarrow> fstat \<Rightarrow> bool" where
  "agree_on stat type inum st st' \<longleftrightarrow> (stat \<longrightarrow> st = st') \<and>
     (type \<longrightarrow> st_mode st AND S_IFMT = st_mode st' AND S_IFMT) \<and> (inum \<longrightarrow> st_ino st = st_ino st')"

fun needs_of :: "segment \<Rightarrow> bool \<times> bool \<times> bool" where
  "needs_of (Segment kind text format_char aux) =
     (case Option.bind format_char directive_needs of
        Some (_, stat, type, inum, _) \<Rightarrow> (stat, type, inum) | None \<Rightarrow> (False, False, False))"

lemma segment_needs_flags:
  "need_stat (segment_needs p seg) \<longleftrightarrow> need_stat p \<or> fst (needs_of seg)"
  "need_type (segment_needs p seg) \<longleftrightarrow> need_type p \<or> fst (snd (needs_of seg))"
  "need_inum (segment_needs p seg) \<longleftrightarrow> need_inum p \<or> snd (snd (needs_of seg))"
  by (cases seg; auto split: option.split prod.split)+

lemma fold_needs:
  "need_stat (foldl segment_needs p segments) \<longleftrightarrow> need_stat p \<or> (\<exists>seg\<in>set segments. fst (needs_of seg))"
  "need_type (foldl segment_needs p segments) \<longleftrightarrow> need_type p \<or> (\<exists>seg\<in>set segments. fst (snd (needs_of seg)))"
  "need_inum (foldl segment_needs p segments) \<longleftrightarrow> need_inum p \<or> (\<exists>seg\<in>set segments. snd (snd (needs_of seg)))"
  by (induction segments arbitrary: p) (auto simp: segment_needs_flags)

definition reads_little :: "char \<Rightarrow> fstat \<Rightarrow> fstat \<Rightarrow> bool" where
  "reads_little c st st' \<longleftrightarrow>
     c = CHR ''y'' \<and> st_mode st AND S_IFMT = st_mode st' AND S_IFMT \<or> c = CHR ''i'' \<and> st_ino st = st_ino st' \<or>
     c \<in> set ''dfhHpPZ'' \<or> c \<notin> set ''abcdDfFgGhHiklmMnpPsStuUyYZ''"

lemma do_fprintf_same:
  assumes "reads_little c st st'"
  shows "do_fprintf X e start h st (Segment KIND_FORMAT body (Some c) aux) =
    do_fprintf X e start h st' (Segment KIND_FORMAT body (Some c) aux)"
proof -
  consider "c = CHR ''y''" "st_mode st AND S_IFMT = st_mode st' AND S_IFMT" | "c = CHR ''i''" "st_ino st = st_ino st'"
    | "c \<in> set ''dfhHpPZ''" | "c \<notin> set ''abcdDfFgGhHiklmMnpPsStuUyYZ''"
    using assms unfolding reads_little_def by (elim disjE conjE)
  then show ?thesis
  proof cases
    case 3
    then show ?thesis unfolding list.set by (elim insertE emptyE) (simp_all add: do_fprintf_def)
  qed (simp_all add: do_fprintf_def)
qed

lemma needs_cases:
  assumes "case needs_of (Segment kind body (Some c) aux) of (stat, type, inum) \<Rightarrow> agree_on stat type inum st st'"
  shows "st = st' \<or> reads_little c st st' \<and> c \<notin> set ''ABCT''"
proof (cases "c \<in> set ''abcdDfFgGhHiklmMnpPsStuUyYZABCT''")
  case True
  have all: "list_all (\<lambda>c. case directive_needs c of
        Some (_, stat, type, inum, _) \<Rightarrow>
          stat \<or> (type \<and> c = CHR ''y'' \<or> inum \<and> c = CHR ''i'' \<or> c \<in> set ''dfhHpPZ'') \<and> c \<notin> set ''ABCT''
      | None \<Rightarrow> False) ''abcdDfFgGhHiklmMnpPsStuUyYZABCT''"
    by code_simp
  note found = bspec [OF all [unfolded list_all_iff] True]
  show ?thesis
  proof (cases "directive_needs c")
    case (Some r)
    obtain conv stat type inum cost where r: "r = (conv, stat, type, inum, cost)" by (cases r)
    have "agree_on stat type inum st st'" using assms Some r by simp
    moreover have "stat \<or> (type \<and> c = CHR ''y'' \<or> inum \<and> c = CHR ''i'' \<or> c \<in> set ''dfhHpPZ'') \<and> c \<notin> set ''ABCT''"
      using found unfolding Some r option.case prod.case .
    ultimately show ?thesis unfolding agree_on_def reads_little_def by argo
  qed (use found in \<open>simp del: list.set\<close>)
next
  case False
  then have "c \<notin> set ''abcdDfFgGhHiklmMnpPsStuUyYZ''" "c \<notin> set ''ABCT''" by simp_all
  then show ?thesis unfolding reads_little_def by argo
qed

lemma segment_output_same:
  assumes "case needs_of (Segment kind body fc aux) of (stat, type, inum) \<Rightarrow> agree_on stat type inum st st'"
  shows "do_fprintf X e start h st (Segment kind body fc aux) = do_fprintf X e start h st' (Segment kind body fc aux)"
    and "fc = Some c \<Longrightarrow> print_date X st body c k = print_date X st' body c k"
proof -
  have known: "st = st' \<or> reads_little c st st' \<and> c \<notin> set ''ABCT''" if "fc = Some c" for c
    using needs_cases assms that by metis
  show "do_fprintf X e start h st (Segment kind body fc aux) = do_fprintf X e start h st' (Segment kind body fc aux)"
  proof (cases kind)
    case KIND_FORMAT
    show ?thesis
    proof (cases fc)
      case (Some c)
      then show ?thesis using known [OF Some] do_fprintf_same [of c st st'] KIND_FORMAT by metis
    qed (simp add: KIND_FORMAT do_fprintf_def)
  qed (simp_all add: do_fprintf_def)
  show "print_date X st body c k = print_date X st' body c k" if "fc = Some c"
    using known [OF that] by (auto simp: print_date_def)
qed

lemma print_segment_cases:
  "print_segment X e start h st (Segment kind body fc aux) =
     (if kind = KIND_FORMAT \<and> fc \<noteq> None \<and> aux \<noteq> None then print_date X st body (the fc) (the aux)
      else do_fprintf X e start h st (Segment kind body fc aux))"
  by (cases kind; cases fc; cases aux) (simp_all add: print_segment_def)

text \<open>C27: The flags \<open>make_segment\<close> sets are enough: the node of a format asks for what \<open>pred_fprintf\<close> reads.
  Two \<open>stat\<close> buffers that agree on what the node asks for (all of it, the type of the file, or the inode
  number) give the same output, so that \<open>-printf\<close> may run before the file was given to \<open>stat\<close> if
  \<open>need_stat\<close> is not set.\<close>

theorem printf_needs_suffice:
  assumes "p = set_format vec segments q" and "\<not> need_inum q"
    and "agree_on (need_stat p) (need_type p) (need_inum p) st st'"
  shows "pred_fprintf X e start h st segments = pred_fprintf X e start h st' segments"
proof -
  have flags: "need_stat p \<longleftrightarrow> (\<exists>seg\<in>set segments. fst (needs_of seg))"
    "need_type p \<longleftrightarrow> (\<exists>seg\<in>set segments. fst (snd (needs_of seg)))"
    "need_inum p \<longleftrightarrow> (\<exists>seg\<in>set segments. snd (snd (needs_of seg)))"
    using assms(2) by (simp_all add: assms(1) set_format_def fold_needs Let_def)
  have "\<forall>seg\<in>set segments. case needs_of seg of (stat, type, inum) \<Rightarrow> agree_on stat type inum st st'"
    using assms(3) unfolding flags by (force simp: agree_on_def)
  then show ?thesis
  proof (induction segments)
    case (Cons seg segments)
    obtain kind body fc aux where seg: "seg = Segment kind body fc aux" by (cases seg)
    have agrees: "case needs_of (Segment kind body fc aux) of (stat, type, inum) \<Rightarrow> agree_on stat type inum st st'"
      using Cons.prems seg by simp
    have "print_segment X e start h st seg = print_segment X e start h st' seg"
      unfolding seg print_segment_cases segment_output_same(1) [OF agrees]
      using segment_output_same(2) [OF agrees] by (metis option.collapse)
    moreover have "pred_fprintf X e start h st segments = pred_fprintf X e start h st' segments"
      using Cons.IH Cons.prems by simp
    ultimately show ?case by (simp cong: option.case_cong)
  qed simp
qed

theorem printf_needs_suffice_witness:
  "pred_fprintf ex_out ex_env 0 [] ex_stat [Segment KIND_FORMAT ''%s'' (Some (CHR ''y'')) None] =
   pred_fprintf ex_out ex_env 0 [] (ex_stat\<lparr>st_size := 5\<rparr>) [Segment KIND_FORMAT ''%s'' (Some (CHR ''y'')) None]"
proof (rule printf_needs_suffice [OF refl])
  show "\<not> need_inum ex_print" by (simp add: ex_defs)
  show "agree_on (need_stat (set_format (Printf_vec 0) [Segment KIND_FORMAT ''%s'' (Some (CHR ''y'')) None] ex_print))
      (need_type (set_format (Printf_vec 0) [Segment KIND_FORMAT ''%s'' (Some (CHR ''y'')) None] ex_print))
      (need_inum (set_format (Printf_vec 0) [Segment KIND_FORMAT ''%s'' (Some (CHR ''y'')) None] ex_print))
      ex_stat (ex_stat\<lparr>st_size := 5\<rparr>)"
    by (simp add: agree_on_def set_format_def stops_def directive_needs_def ex_defs Let_def)
qed

subsection \<open>No assertion fails\<close>












subsection \<open>Seconds\<close>

lemma scan_common: "scan_digits (pre @ p) (pre @ q) i found = scan_digits p q (i + length pre) found"
  by (induction pre arbitrary: i) (simp_all add: add.commute)

lemma scan_equal: "scan_digits p p i found = Some (case found of None \<Rightarrow> (0, 0) | Some x \<Rightarrow> x)"
  by (induction p arbitrary: i) simp_all

lemma scan_two:
  assumes "a \<noteq> c" and "b \<noteq> d" and "is_digit_char c" and "is_digit_char d"
  shows "scan_for_digit_differences (pre @ [a, b] @ post) (pre @ [c, d] @ post) = Some (length pre, 2)"
  using assms by (simp add: scan_for_digit_differences_def scan_common scan_equal)

definition digit :: "int \<Rightarrow> char" where
  "digit n = char_of (48 + nat n)"

lemma decimal_simps: "n < 10 \<Longrightarrow> decimal n = [char_of (48 + n)]"
    "10 \<le> n \<Longrightarrow> n < 100 \<Longrightarrow> decimal n = [char_of (48 + n div 10), char_of (48 + n mod 10)]"
proof -
  assume "10 \<le> n" "n < 100"
  then have "n div 10 < 10" by simp
  then show "decimal n = [char_of (48 + n div 10), char_of (48 + n mod 10)]"
    using \<open>10 \<le> n\<close> by (simp add: decimal.simps [of n] decimal.simps [of "n div 10"])
qed (simp add: decimal.simps [of n])

lemma two_digits:
  assumes "0 \<le> s" and "s < 100"
  shows "zero_pad 2 s = [digit (s div 10), digit (s mod 10)]"
proof -
  obtain n where n: "s = int n" "n < 100" using assms nonneg_int_cases by (metis of_nat_less_numeral_iff)
  show ?thesis
  proof (cases "n < 10")
    case True
    moreover have "CHR ''0'' = char_of (48 :: nat)" by code_simp
    ultimately show ?thesis using n
      by (simp add: zero_pad_def Let_def decimal_simps digit_def numeral_2_eq_2 flip: zdiv_int zmod_int)
  next
    case False
    then show ?thesis using n
      by (simp add: zero_pad_def Let_def decimal_simps digit_def nat_div_distrib nat_mod_distrib)
  qed
qed

lemma digit_char_facts:
  assumes "0 \<le> m" and "m < 10" and "0 \<le> n" and "n < 10"
  shows "is_digit_char (digit m)" and "digit m = digit n \<longleftrightarrow> m = n"
proof -
  have "nat m \<in> set [0..<10]" using assms by simp
  moreover have "\<forall>k\<in>set [0..<10]. is_digit_char (char_of (48 + k))" by code_simp
  ultimately show "is_digit_char (digit m)" unfolding digit_def by blast
  have "of_char (digit m) = 48 + nat m" "of_char (digit n) = 48 + nat n"
    using assms by (simp_all add: digit_def of_char_of)
  then show "digit m = digit n \<longleftrightarrow> m = n" using assms by (metis add_left_cancel eq_nat_nat_iff)
qed

text \<open>Both digits of the altered seconds differ.\<close>

definition both_differ :: "int \<Rightarrow> int \<Rightarrow> bool" where
  "both_differ s a \<longleftrightarrow> s div 10 \<noteq> a div 10 \<and> s mod 10 \<noteq> a mod 10 \<and> 0 \<le> a \<and> a < 100"

lemma other_seconds:
  assumes "0 \<le> s" and "s \<le> 60"
  shows "both_differ s (if s \<ge> 11 then s - 11 else s + 11)"
proof -
  have "\<forall>s\<in>set [0..60]. both_differ s (if s \<ge> 11 then s - 11 else s + 11)" by code_simp
  moreover have "s \<in> set [0..60]" using assms by simp
  ultimately show ?thesis by blast
qed

text \<open>C29: \<open>do_time_format\<close> finds the seconds and puts the nanoseconds behind them: when \<open>strftime\<close> writes the
  seconds as two digits, once, and what it writes before and after does not depend on them and does not go
  on with a digit, then the fraction stands directly behind the seconds, and the rest is as it was.\<close>

theorem seconds_get_fraction:
  assumes "0 \<le> tm_sec p" and "tm_sec p \<le> 60"
    and "\<And>t. t \<in> {p, altered_time p} \<Longrightarrow> strftime X (CHR ''_'' # fmt) t = ''_'' @ pre @ zero_pad 2 (tm_sec t) @ post"
    and "post = [] \<or> \<not> is_digit_char (hd post)"
  shows "do_time_format X fmt p ns = pre @ zero_pad 2 (tm_sec p) @ ns @ post"
proof -
  let ?s = "tm_sec p" and ?a = "tm_sec (altered_time p)"
  have a: "?a = (if ?s \<ge> 11 then ?s - 11 else ?s + 11)" by (simp add: altered_time_def)
  have differ: "?s div 10 \<noteq> ?a div 10" "?s mod 10 \<noteq> ?a mod 10" "0 \<le> ?a" "?a < 100"
    using other_seconds [OF assms(1,2)] unfolding a [symmetric] both_differ_def by blast+
  have two: "zero_pad 2 ?s = [digit (?s div 10), digit (?s mod 10)]" "zero_pad 2 ?a = [digit (?a div 10), digit (?a mod 10)]"
    using two_digits [of ?s] two_digits [of ?a] assms(1,2) differ by simp_all
  have range: "0 \<le> ?s div 10" "?s div 10 < 10" "0 \<le> ?a div 10" "?a div 10 < 10" using assms(1,2) differ(3,4) by simp_all
  let ?pre = "CHR ''_'' # pre" and ?ten = "digit (?s div 10)" and ?one = "digit (?s mod 10)"
  have buf: "strftime X (CHR ''_'' # fmt) p = ?pre @ [?ten, ?one] @ post"
    "strftime X (CHR ''_'' # fmt) (altered_time p) = ?pre @ [digit (?a div 10), digit (?a mod 10)] @ post"
    using assms(3) [of p] assms(3) [of "altered_time p"] two by simp_all
  have found: "scan_for_digit_differences (?pre @ [?ten, ?one] @ post) (?pre @ [digit (?a div 10), digit (?a mod 10)] @ post) =
      Some (length ?pre, 2)"
    using digit_char_facts range differ(1,2) by (intro scan_two) simp_all
  have "\<not> (length ?pre + 2 < length (?pre @ [?ten, ?one] @ post) \<and> is_digit_char ((?pre @ [?ten, ?one] @ post) ! (length ?pre + 2)))"
    using assms(4) by (cases post) (simp_all add: nth_append)
  then have "do_time_format X fmt p ns =
      tl (take (length ?pre + 2) (?pre @ [?ten, ?one] @ post) @ ns @ drop (length ?pre + 2) (?pre @ [?ten, ?one] @ post))"
    unfolding do_time_format_def Let_def buf found by (simp only: option.case prod.case simp_thms if_True)
  then show ?thesis unfolding two(1) by simp
qed

theorem seconds_get_fraction_witness:
  "do_time_format ex_out ''S'' \<lparr>tm_sec = 7, tm_min = 0, tm_hour = 0, tm_mday = 1, tm_mon = 0, tm_year = 70, tm_wday = 4\<rparr>
     ''.5'' = [] @ zero_pad 2 7 @ ''.5'' @ []"
  using seconds_get_fraction [of "\<lparr>tm_sec = 7, tm_min = 0, tm_hour = 0, tm_mday = 1, tm_mon = 0, tm_year = 70, tm_wday = 4\<rparr>"
    ex_out "''S''" "[]" "[]" "''.5''"] by (simp add: ex_out_def)

end
