(* ===== verification/ChildStatus.thy ===== *)
theory ChildStatus
  imports Prelude
begin

text \<open>
  The status of a child process, as the macros of \<open>sys/wait.h\<close> read it. A child that ends by \<open>exit\<close>, is
  killed by a signal or is stopped by one; \<open>WEXITSTATUS\<close> is the second byte of the status word, which
  holds the signal of a stopped process.
\<close>

datatype (plugins only: code size) wait_status = Exit_status nat | Killed_by nat | Stopped_by nat

fun WEXITSTATUS :: "wait_status \<Rightarrow> nat" where
  "WEXITSTATUS (Exit_status n) = n mod 256"
| "WEXITSTATUS (Killed_by n) = 0"
| "WEXITSTATUS (Stopped_by n) = n mod 256"

end
