(* ===== verification/FindLaunch.thy ===== *)
theory FindLaunch
  imports FindExec ChildStatus
begin

text \<open>
  Running the commands of \<open>-exec\<close> and \<open>-execdir\<close> (\<open>find/pred.c\<close>: \<open>launch\<close>, \<open>impl_pred_exec\<close>,
  \<open>record_exec_dir\<close>; \<open>find/util.c\<close>: \<open>complete_pending_execs\<close>, \<open>do_exec\<close>), on the buffer of
  \<open>lib/buildcmd.c\<close>. The theory \<open>FindPred\<close> records what is asked for as an action; this one says what is run.
\<close>

subsection \<open>The system\<close>

text \<open>The directory a command runs in; another one is named from the descriptor \<open>state.cwd_dir_fd\<close>.\<close>

datatype (plugins only: code size) work_dir = Initial_wd | Directory int string

text \<open>What has happened: a command that ran and was waited for, and one that \<open>waitpid\<close> did not report.\<close>

datatype (plugins only: code size) exec_event =
  Ran work_dir "string list" wait_status
| Not_reported work_dir "string list"

datatype (plugins only: code size) wait_call = Wait_interrupted | Wait_error | Wait_reported

text \<open>
  The answers may depend on what has happened. \<open>runs\<close> is the way a program ends, and None when \<open>execvp\<close>
  fails; \<open>answers\<close> those of the calls of \<open>waitpid\<close> one after the other.
\<close>

record launch_env =
  forks :: "exec_event list \<Rightarrow> bool"
  closes_stdin :: "exec_event list \<Rightarrow> bool"
  restores_cwd :: "exec_event list \<Rightarrow> work_dir \<Rightarrow> bool"
  runs :: "exec_event list \<Rightarrow> work_dir \<Rightarrow> string list \<Rightarrow> wait_status option"
  answers :: "exec_event list \<Rightarrow> nat \<Rightarrow> wait_call"
  opens_dir :: "int \<Rightarrow> string \<Rightarrow> bool"
  mdir_name :: "string \<Rightarrow> string"
  test_limit :: "string \<Rightarrow> string option"
  read_limit :: "string \<Rightarrow> nat option"

text \<open>What changes of \<open>struct exec_val\<close>, with \<open>state.exit_status\<close> as far as \<open>launch\<close> sets it.\<close>

record exec_user =
  wd_for_exec :: "work_dir option"
  last_child_status :: wait_status
  exec_failed :: bool
  happenings :: "exec_event list"

text \<open>What does not, with the options that \<open>insert_exec_ok\<close> has found.\<close>

record exec_val =
  multiple :: bool
  local :: bool
  close_stdin :: bool
  replace_vec :: "string list"
  exec_ctl :: bc_control

subsection \<open>Starting a command\<close>

definition prep_child_for_exec :: "launch_env \<Rightarrow> exec_event list \<Rightarrow> bool \<Rightarrow> work_dir \<Rightarrow> bool" where
  "prep_child_for_exec L h close wd \<longleftrightarrow> (close \<longrightarrow> closes_stdin L h) \<and> restores_cwd L h wd"

text \<open>
  The child: how it ends. A missing directory fails an assertion (signal 6); a limit for testing that is no
  number ends it like one that is exceeded.
\<close>

definition child_ends :: "launch_env \<Rightarrow> exec_event list \<Rightarrow> bool \<Rightarrow> work_dir option \<Rightarrow> string list \<Rightarrow> wait_status" where
  "child_ends L h close wd argv =
     (case wd of
        None \<Rightarrow> Killed_by 6
      | Some wd \<Rightarrow>
          if \<not> prep_child_for_exec L h close wd then Exit_status 1
          else if bc_args_exceed_testing_limit (test_limit L) (read_limit L) argv \<noteq> Ok False then Exit_status 1
          else (case runs L h wd argv of Some st \<Rightarrow> st | None \<Rightarrow> Exit_status 1))"

text \<open>The loop around \<open>waitpid\<close>, from the call \<open>n\<close> on: whether the child was reported.\<close>

partial_function (option) wait_loop :: "(nat \<Rightarrow> wait_call) \<Rightarrow> nat \<Rightarrow> bool option" where
  "wait_loop calls n =
     (case calls n of
        Wait_interrupted \<Rightarrow> wait_loop calls (n + 1)
      | Wait_error \<Rightarrow> Some False
      | Wait_reported \<Rightarrow> Some True)"

definition failed :: "wait_status \<Rightarrow> bool" where
  "failed st \<longleftrightarrow> (case st of Killed_by n \<Rightarrow> True | _ \<Rightarrow> WEXITSTATUS st \<noteq> 0)"

definition launch :: "launch_env \<Rightarrow> exec_val \<Rightarrow> exec_user bc_callback" where
  "launch L ev built argv u =
     (let h = happenings u in
      if \<not> forks L h then Exit (Client_exit 1, u)
      else
        (let st = child_ends L h (close_stdin ev) (wd_for_exec u) argv;
             wd = (case wd_for_exec u of Some wd \<Rightarrow> wd | None \<Rightarrow> Initial_wd)
         in case wait_loop (answers L h) 0 of
              None \<Rightarrow> Diverge
            | Some False \<Rightarrow> Ok (False, u\<lparr>happenings := h @ [Not_reported wd argv], exec_failed := True\<rparr>)
            | Some True \<Rightarrow>
                Ok (True, u\<lparr>happenings := h @ [Ran wd argv st], last_child_status := st,
                  exec_failed := (exec_failed u \<or> multiple ev \<and> failed st)\<rparr>)))"

subsection \<open>The predicates\<close>

text \<open>
  The directory is recorded unless \<open>todo\<close> says that one is in use. False is a directory that cannot be
  opened.
\<close>

definition record_exec_dir :: "launch_env \<Rightarrow> int \<Rightarrow> string \<Rightarrow> exec_user bc_state \<Rightarrow> bool \<times> exec_user bc_state" where
  "record_exec_dir L cwd_fd rel s =
     (if todo s then (True, s)
      else
        (let dir = (if CHR ''/'' \<in> set rel then mdir_name L rel else ''.'')
         in (opens_dir L cwd_fd dir, s\<lparr>usercontext := (usercontext s)\<lparr>wd_for_exec := Some (Directory cwd_fd dir)\<rparr>\<rparr>)))"

text \<open>\<open>base\<close> is the base name of the entry, \<open>rel\<close> its name from the directory \<open>cwd_fd\<close>.\<close>

definition run_predicate :: "launch_env \<Rightarrow> exec_val \<Rightarrow> int \<Rightarrow> string \<Rightarrow> string \<Rightarrow> string \<Rightarrow> exec_user bc_state \<Rightarrow>
    (exec_user, bool \<times> exec_user bc_state) bc_result" where
  "run_predicate L ev cwd_fd rel base path s =
     (let (ok, s) = (if local ev then record_exec_dir L cwd_fd rel s else (True, s));
          target = (if local ev then base else path);
          prefix = (if local ev \<and> take 1 target \<noteq> ''/'' then Some ''./'' else None);
          cb = launch L ev
      in if \<not> ok then Exit (Client_exit 1, usercontext s)
         else if \<not> local ev \<and> wd_for_exec (usercontext s) \<noteq> Some Initial_wd then Exit (Client_exit 134, usercontext s)
         else if multiple ev then
           obind (bc_push_arg (exec_ctl ev) cb target (length target + 1) prefix
               (case prefix of None \<Rightarrow> 0 | Some p \<Rightarrow> length p) False s) (\<lambda>s. Ok (True, s))
         else
           obind (ofold (\<lambda>w. bc_do_insert (exec_ctl ev) cb w prefix target False) (replace_vec ev) s) (\<lambda>s.
           obind (bc_do_exec (exec_ctl ev) cb s) (\<lambda>s.
           Ok (\<not> failed (last_child_status (usercontext s)), s))))"

text \<open>
  \<open>do_exec\<close> runs what is pending from the directory of the file (\<open>run_in_dir\<close> of \<open>lib/dircallback.c\<close>) and
  closes it. The directory the program is in is saved and restored, which is taken to succeed; without a
  directory a null pointer is read.
\<close>

definition run_in_dir :: "launch_env \<Rightarrow> work_dir option \<Rightarrow>
    (exec_user bc_state \<Rightarrow> (exec_user, exec_user bc_state) bc_result) \<Rightarrow> exec_user bc_state \<Rightarrow>
    (exec_user, exec_user bc_state) bc_result" where
  "run_in_dir L there callback s =
     (case there of
        None \<Rightarrow> Undef
      | Some wd \<Rightarrow>
          if restores_cwd L (happenings (usercontext s)) wd then callback s
          else Exit (Client_exit 1, usercontext s))"

definition do_exec :: "launch_env \<Rightarrow> exec_val \<Rightarrow> exec_user bc_state \<Rightarrow> (exec_user, exec_user bc_state) bc_result" where
  "do_exec L ev s =
     obind (run_in_dir L (wd_for_exec (usercontext s)) (bc_do_exec (exec_ctl ev) (launch L ev)) s) (\<lambda>s.
       Ok (if wd_for_exec (usercontext s) \<noteq> Some Initial_wd
           then s\<lparr>usercontext := (usercontext s)\<lparr>wd_for_exec := None\<rparr>\<rparr> else s))"

text \<open>What \<open>complete_pending_execdirs\<close> and, at the end, \<open>complete_pending_execs\<close> do with one node.\<close>

definition complete_exec :: "launch_env \<Rightarrow> exec_val \<Rightarrow> exec_user bc_state \<Rightarrow> (exec_user, exec_user bc_state) bc_result"
where
  "complete_exec L ev s =
     (if \<not> multiple ev \<or> \<not> todo s then Ok s
      else if local ev then do_exec L ev s
      else bc_do_exec (exec_ctl ev) (launch L ev) s)"

subsection \<open>From the parser to the end\<close>

text \<open>The node that \<open>insert_exec_ok\<close> makes for the words before \<open>;\<close> or \<open>{} +\<close>.\<close>

definition exec_node :: "bc_control \<Rightarrow> pred_func \<Rightarrow> bool \<Rightarrow> string list \<Rightarrow> exec_val" where
  "exec_node ctl func by_plus words =
     \<lparr>multiple = by_plus, local = is_exec_in_local_dir func, close_stdin = (func = Pred_ok \<or> func = Pred_okdir),
      replace_vec = words,
      exec_ctl = (if by_plus then plus_control ctl words
        else ctl\<lparr>replace_pat := Some ''{}'', lines_per_exec := 0, args_per_exec := 0\<rparr>)\<rparr>"

definition exec_user_start :: "exec_val \<Rightarrow> exec_user" where
  "exec_user_start ev =
     \<lparr>wd_for_exec = (if local ev then None else Some Initial_wd), last_child_status = Exit_status 0,
      exec_failed = False, happenings = []\<rparr>"

text \<open>
  A file with the descriptor, the name, the base name and the path. The whole run of one such predicate: the
  files it is applied to, and what is left at the end of the program.
\<close>

type_synonym exec_file = "int \<times> string \<times> string \<times> string"

fun run_files :: "launch_env \<Rightarrow> exec_val \<Rightarrow> exec_file list \<Rightarrow> exec_user bc_state \<Rightarrow>
    (exec_user, bool list \<times> exec_user bc_state) bc_result" where
  "run_files L ev [] s = Ok ([], s)"
| "run_files L ev ((fd, rel, base, path) # files) s =
     obind (run_predicate L ev fd rel base path s) (\<lambda>(r, s).
       obind (run_files L ev files s) (\<lambda>(rs, s). Ok (r # rs, s)))"

end
