(* ===== verification/BuildcmdInsert.thy ===== *)
theory BuildcmdInsert
  imports BuildcmdLog
begin

text \<open>
  The substitution of \<open>bc_do_insert\<close> against a reference, the limits it keeps and when it goes on for
  ever; and that the size limits are guessed without a negative difference.
\<close>

subsection \<open>Substitution\<close>

text \<open>Replace the occurrences of the pattern from left to right; those of an empty pattern count as none.\<close>

lemma find_string_shorter:
  assumes "pat \<noteq> []" and "find_string pat arg = Some n"
  shows "length arg - (n + length pat) < length arg"
proof -
  have "0 < length pat" "n + length pat \<le> length arg" using assms find_string_Some by auto
  then show ?thesis by linarith
qed

function replace_all :: "string \<Rightarrow> string \<Rightarrow> string \<Rightarrow> string" where
  "replace_all pat line arg =
     (if pat = [] then arg
      else case find_string pat arg of
        None \<Rightarrow> arg
      | Some n \<Rightarrow> take n arg @ line @ replace_all pat line (drop (n + length pat) arg))"
  by pat_completeness auto

termination replace_all
  by (relation "measure (\<lambda>(pat, line, arg). length arg)") (auto dest: find_string_shorter)

declare replace_all.simps [simp del]

lemma replace_all_Nil [simp]: "replace_all pat line [] = []"
  by (subst replace_all.simps) (auto simp: find_string.simps split: option.splits if_splits)

lemma insert_loop_replaces:
  assumes "pat \<noteq> []" and "0 < bytes_left"
  shows "insert_loop pat line arg bytes_left out =
    Some (if length (replace_all pat line arg) < bytes_left then Some (out @ replace_all pat line arg) else None)"
  using assms(2)
proof (induction arg arbitrary: bytes_left out rule: measure_induct_rule [of length])
  case (less arg)
  show ?case
  proof (cases "find_string pat arg")
    case None
    have r: "replace_all pat line arg = arg"
      using None assms(1) by (subst replace_all.simps) simp
    show ?thesis unfolding r using None less.prems
      by (subst insert_loop.simps) (auto simp: Let_def)
  next
    case (Some n)
    then have n: "take (length pat) (drop n arg) = pat" "n + length pat \<le> length arg"
      using find_string_Some by blast+
    define rest where "rest = drop (n + length pat) arg"
    have r: "replace_all pat line arg = take n arg @ line @ replace_all pat line rest"
      using Some assms(1) by (subst replace_all.simps) (simp add: rest_def)
    have nil: "drop n arg \<noteq> []" "arg \<noteq> []" using n assms(1) by auto
    have len: "length (replace_all pat line arg) = n + length line + length (replace_all pat line rest)"
      using n(2) by (simp add: r)
    have rest: "drop (length pat) (drop n arg) = rest" by (simp add: rest_def add.commute)
    have less': "length rest < length arg" using find_string_shorter [OF assms(1) Some] by (simp add: rest_def)
    show ?thesis
    proof (cases "bytes_left \<le> n + length line")
      case True
      then show ?thesis using Some nil len by (subst insert_loop.simps) (auto simp: Let_def)
    next
      case False
      then have "insert_loop pat line arg bytes_left out =
          (if rest = [] then Some (Some (out @ take n arg @ line))
           else insert_loop pat line rest (bytes_left - n - length line) (out @ take n arg @ line))"
        using Some rest by (subst insert_loop.simps) (auto simp: Let_def)
      moreover have "0 < bytes_left - n - length line" using False by linarith
      ultimately show ?thesis using less.IH [OF less'] False len r by auto
    qed
  qed
qed

text \<open>With an empty pattern the line is put before the argument until there is no room.\<close>

lemma insert_loop_empty:
  assumes "line \<noteq> []" and "arg \<noteq> []"
  shows "insert_loop [] line arg bytes_left out = Some None"
  using assms(2)
proof (induction bytes_left arbitrary: out rule: less_induct)
  case (less bytes_left)
  then show ?case using assms
    by (subst insert_loop.simps) (auto simp: Let_def)
qed

lemma insert_loop_diverges:
  assumes "arg \<noteq> []" and "0 < bytes_left"
  shows "insert_loop [] [] arg bytes_left out = None"
proof (rule ccontr)
  assume "insert_loop [] [] arg bytes_left out \<noteq> None"
  then obtain r where r: "insert_loop [] [] arg bytes_left out = Some r" by auto
  have "([] :: string) = [] \<longrightarrow> ([] :: string) = [] \<longrightarrow> arg \<noteq> [] \<longrightarrow> 0 < bytes_left \<longrightarrow> False"
  proof (rule insert_loop.raw_induct [where P = "\<lambda>pat line a b out r.
      pat = [] \<longrightarrow> line = [] \<longrightarrow> a \<noteq> [] \<longrightarrow> 0 < b \<longrightarrow> False", OF _ r], intro impI)
    fix f :: "string \<Rightarrow> string \<Rightarrow> string \<Rightarrow> nat \<Rightarrow> string \<Rightarrow> string option option"
      and pat line a out :: string and b :: nat and r
    assume IH: "\<And>pat line a b out r. f pat line a b out = Some r \<Longrightarrow>
        pat = [] \<longrightarrow> line = [] \<longrightarrow> a \<noteq> [] \<longrightarrow> 0 < b \<longrightarrow> False"
      and step: "(let s = find_string pat a; len = (case s of Some n \<Rightarrow> n | None \<Rightarrow> length a) in
        if b \<le> len then Some (if a \<noteq> [] then None else Some out)
        else (let b = b - len; out = out @ take len a; a = drop len a in
           if s \<noteq> None then
             (if b \<le> length line then Some (if a \<noteq> [] then None else Some out)
              else (let a = drop (length pat) a; b = b - length line; out = out @ line in
                 if a = [] then Some (Some out) else f pat line a b out))
           else if a = [] then Some (Some out) else f pat line a b out)) = Some r"
      and c: "pat = []" "line = []" "a \<noteq> []" "0 < b"
    from step c have "f [] [] a b out = Some r" by (simp add: Let_def)
    from IH [OF this] c show False by simp
  qed
  then show False using assms by simp
qed

lemma insert_loop_length:
  assumes r: "insert_loop pat line arg bytes_left out = Some (Some str)"
  shows "length str \<le> length out + bytes_left"
proof (cases "bytes_left = 0")
  case True
  then show ?thesis using r by (subst (asm) insert_loop.simps) (auto simp: Let_def split: if_splits)
next
  case False
  show ?thesis
  proof (cases "pat = []")
    case True
    have "arg = []" using r insert_loop_empty insert_loop_diverges False unfolding True
      by (metis neq0_conv option.distinct(1) option.inject)
    then show ?thesis using r True by (subst (asm) insert_loop.simps) (auto simp: Let_def split: if_splits)
  qed (use r False insert_loop_replaces in \<open>auto split: if_splits\<close>)
qed

subsection \<open>One command for each line\<close>

definition accepts :: "'u bc_callback \<Rightarrow> bool" where
  "accepts cb \<longleftrightarrow> (\<forall>argv args u u'. cb argv args u \<noteq> Ok (False, u'))"

text \<open>The invariant with the count of initial characters, which means nothing here, set to zero.\<close>

definition line_inv :: "bc_control \<Rightarrow> 'u bc_state \<Rightarrow> bool" where
  "line_inv ctl s \<longleftrightarrow> bc_inv ctl (s\<lparr>cmd_initial_argv_chars := 0\<rparr>)"

lemma line_inv_start:
  "length (argbuf s) = arg_max ctl + 1 \<Longrightarrow> initial_argc ctl = 0 \<Longrightarrow>
    line_inv ctl ((bc_clear_args ctl s)\<lparr>cmd_argv_chars := 0\<rparr>)"
  by (simp add: line_inv_def bc_inv_def bc_clear_args_def bc_strings_def bc_initial_def strings_of_def)

lemma line_inv_todo [simp]: "line_inv ctl (s\<lparr>todo := b\<rparr>) = line_inv ctl s"
  by (simp add: line_inv_def bc_inv_def bc_strings_def bc_initial_def)

lemma append_initial:
  assumes "bc_append a s = Ok s'"
  shows "bc_append a (s\<lparr>cmd_initial_argv_chars := n\<rparr>) = Ok (s'\<lparr>cmd_initial_argv_chars := n\<rparr>)"
  using assms
  by (auto simp: bc_append_def bc_store_def bc_put_def bc_grow_def obind_eq_Ok split: if_splits option.splits)

lemma bc_strings_initial [simp]: "bc_strings (s\<lparr>cmd_initial_argv_chars := n\<rparr>) = bc_strings s"
  by (simp add: bc_strings_def)

lemma push_replaced:
  assumes ok: "bc_push_arg ctl cb a (length a + 1) None 0 ini s = Ok s'" and inv: "line_inv ctl s"
    and "replace_pat ctl \<noteq> None" and "args_per_exec ctl = 0" and argc: "cmd_argc s + 1 < max_arg_count ctl"
  shows "line_inv ctl s' \<and> bc_strings s' = bc_strings s @ [c_string a] \<and> usercontext s' = usercontext s \<and>
    cmd_argc s' = cmd_argc s + 1"
    and "\<not> ini \<Longrightarrow> cmd_initial_argv_chars s' = cmd_initial_argv_chars s"
proof -
  define s1 where "s1 = (if ini then s else s\<lparr>todo := True\<rparr>)"
  have s1: "line_inv ctl s1" "bc_strings s1 = bc_strings s" "usercontext s1 = usercontext s" "cmd_argc s1 = cmd_argc s"
    "cmd_argv_chars s1 = cmd_argv_chars s"
    using inv by (simp_all add: s1_def)
  have fits: "cmd_argv_chars s1 + (length a + 1) \<le> arg_max ctl"
    using ok assms(3) unfolding bc_push_append Let_def s1_def [symmetric] by (auto split: if_splits)
  have lim: "\<not> bc_argc_limit_reached ini ctl t" if "cmd_argc t < max_arg_count ctl" for t :: "'a bc_state"
    using that assms(4) by (simp add: bc_argc_limit_reached_def)
  obtain s2 where s2: "bc_append a s1 = Ok s2"
    using ok fits lim [of s1] argc s1(4) unfolding bc_push_append Let_def s1_def [symmetric] by (auto simp: obind_eq_Ok)
  let ?t = "s1\<lparr>cmd_initial_argv_chars := 0\<rparr>" and ?t' = "s2\<lparr>cmd_initial_argv_chars := 0\<rparr>"
  have t: "bc_inv ctl ?t" "cmd_argv_chars ?t + length a + 1 \<le> arg_max ctl" using s1(1) fits by (simp_all add: line_inv_def)
  have t': "bc_inv ctl ?t'" "bc_strings ?t' = bc_strings ?t @ [c_string a]" "usercontext ?t' = usercontext ?t"
    "cmd_argc ?t' = cmd_argc ?t + 1"
    using append_ok [OF t] append_initial [OF s2, of 0] by (metis outcome.inject(1))+
  have s': "s' = (if ini then s2\<lparr>cmd_initial_argv_chars := cmd_argv_chars s2\<rparr> else s2)"
    using ok fits lim [of s1] lim [of s2] argc s1(4) s2 t'(4)
    unfolding bc_push_append Let_def s1_def [symmetric] by auto
  then show "line_inv ctl s' \<and> bc_strings s' = bc_strings s @ [c_string a] \<and> usercontext s' = usercontext s \<and>
      cmd_argc s' = cmd_argc s + 1"
    using t' s1 by (auto simp: line_inv_def)
  have "cmd_initial_argv_chars s2 = cmd_initial_argv_chars s1"
    using s2 by (auto simp: bc_append_def bc_store_def bc_put_def bc_grow_def obind_eq_Ok split: if_splits option.splits)
  then show "\<not> ini \<Longrightarrow> cmd_initial_argv_chars s' = cmd_initial_argv_chars s" by (simp add: s' s1_def)
qed

lemma insert_replaced:
  assumes ok: "bc_do_insert ctl cb a None line False s = Ok s'" and inv: "line_inv ctl s"
    and pat: "replace_pat ctl = Some pat" "pat \<noteq> []" and "args_per_exec ctl = 0"
    and argc: "cmd_argc s + 1 < max_arg_count ctl"
  shows "line_inv ctl s' \<and> bc_strings s' = bc_strings s @ [c_string (replace_all pat line a)] \<and>
    usercontext s' = usercontext s \<and> cmd_argc s' = cmd_argc s + 1"
    and "cmd_initial_argv_chars s' = cmd_initial_argv_chars s"
proof -
  define n where "n = (arg_max ctl + 2 ^ 64 - 1) mod 2 ^ 64"
  obtain str where str: "insert_loop pat line a n [] = Some (Some str)"
    "bc_push_arg ctl cb str (length str + 1) None 0 False s = Ok s'"
    using ok pat(1) unfolding bc_do_insert_def n_def Let_def by (simp split: option.splits)
  have eq: "str = replace_all pat line a"
  proof (cases "n = 0")
    case True
    then show ?thesis using str(1) by (subst (asm) insert_loop.simps) (auto simp: Let_def split: if_splits)
  next
    case False
    then show ?thesis using insert_loop_replaces [OF pat(2)] str(1) by (auto split: if_splits)
  qed
  note push = push_replaced [OF str(2) inv _ assms(5) argc]
  show "line_inv ctl s' \<and> bc_strings s' = bc_strings s @ [c_string (replace_all pat line a)] \<and>
      usercontext s' = usercontext s \<and> cmd_argc s' = cmd_argc s + 1"
    using push(1) pat(1) eq by simp
  show "cmd_initial_argv_chars s' = cmd_initial_argv_chars s" using push(2) pat(1) by simp
qed

lemma inserts_replaced:
  assumes "ofold (\<lambda>a. bc_do_insert ctl cb a None line False) as s = Ok s'" and "line_inv ctl s"
    and "replace_pat ctl = Some pat" "pat \<noteq> []" and "args_per_exec ctl = 0"
    and "cmd_argc s + length as < max_arg_count ctl"
  shows "line_inv ctl s' \<and> bc_strings s' = bc_strings s @ map (\<lambda>a. c_string (replace_all pat line a)) as \<and>
    usercontext s' = usercontext s \<and> cmd_initial_argv_chars s' = cmd_initial_argv_chars s"
  using assms
proof (induction as arbitrary: s)
  case (Cons a as)
  then obtain s1 where s1: "bc_do_insert ctl cb a None line False s = Ok s1"
    "ofold (\<lambda>a. bc_do_insert ctl cb a None line False) as s1 = Ok s'"
    by (auto simp: obind_eq_Ok)
  have "cmd_argc s + 1 < max_arg_count ctl" using Cons.prems(6) by simp
  from insert_replaced [OF s1(1) Cons.prems(2-5) this] show ?case using Cons.IH [OF s1(2)] Cons.prems by simp
qed simp

lemma insert_prefix: "bc_do_insert ctl cb a (Some p) line ini = bc_do_insert ctl cb a None (p @ line) ini"
  by (intro ext) (simp add: bc_do_insert_def)

text \<open>Without initial arguments a callback that accepts everything is called once, with all the arguments.\<close>

lemma exec_whole_call:
  assumes acc: "accepts cb" and inv: "line_inv ctl s" and "initial_argc ctl = 0"
    and ok: "bc_do_exec ctl cb s = Ok s'"
  shows "\<exists>u. cb (bc_strings s) (bc_strings s) (usercontext s) = Ok (True, u) \<and> usercontext s' = u \<and>
    argbuf s' = argbuf s \<and> cmd_argv s' = [] \<and> cmd_argv_chars s' = cmd_initial_argv_chars s \<and>
    cmd_initial_argv_chars s' = cmd_initial_argv_chars s"
proof -
  define s1 where "s1 = (bc_grow (s\<lparr>todo := True\<rparr>))\<lparr>cmd_argv := cmd_argv s @ [None]\<rparr>"
  have alloc: "cmd_argc s \<le> cmd_argv_alloc s" and some: "None \<notin> set (cmd_argv s)"
    using inv inv_Some [of ctl "s\<lparr>cmd_initial_argv_chars := 0\<rparr>"] by (simp_all add: line_inv_def bc_inv_def)
  have s1: "bc_args_complete s = Ok s1"
    using grow_room [of "s\<lparr>todo := True\<rparr>"] alloc by (simp add: bc_args_complete_def bc_store_def s1_def)
  obtain s2 where s2: "bc_exec_loop ctl cb (cmd_argc s1) 0 s1 = Ok s2" "s' = bc_clear_args ctl s2"
    using ok s1 by (auto simp: bc_do_exec_def obind_eq_Ok)
  have args: "copy_args ctl s1 (cmd_argc s1) 0 = cmd_argv s1" using assms(3) by (simp add: copy_args_def)
  have strs: "strings_of (argbuf s1) (cmd_argv s1) = bc_strings s"
    using strings_of_append_None [OF some, of "argbuf s" "[]"] by (simp add: s1_def bc_strings_def)
  obtain ok u where cb: "cb (bc_strings s) (bc_strings s) (usercontext s1) = Ok (ok, u)"
    using s2(1) by (subst (asm) bc_exec_loop.simps) (auto simp: Let_def args strs obind_eq_Ok)
  then have ok: ok using acc by (cases ok) (auto simp: accepts_def)
  have "usercontext s2 = u \<and> argbuf s2 = argbuf s1 \<and> cmd_initial_argv_chars s2 = cmd_initial_argv_chars s1"
    using s2(1) cb ok assms(3) by (subst (asm) bc_exec_loop.simps) (auto simp: Let_def args strs)
  then show ?thesis using cb ok s2(2) assms(3) by (simp add: bc_clear_args_def s1_def)
qed

subsection \<open>The guess of the limit\<close>

text \<open>
  The differences in \<open>update_limit\<close> are of machine integers; none wraps around. After a failure the
  smallest number that failed is at most the one just tried, so that subtracting half of the
  distance to the largest that succeeded leaves a positive number.
\<close>

lemma update_limit_shift:
  assumes "0 < limit"
  shows "let s' = snd (update_limit ctl False limit s) in
    smallest_failed_arg_count s' \<le> limit \<and>
    (largest_successful_arg_count s' < smallest_failed_arg_count s' \<longrightarrow>
      (smallest_failed_arg_count s' - largest_successful_arg_count s') div 2 < limit)"
  using assms by (auto simp: update_limit_def Let_def)

end
