(* ===== verification/FindLaunched.thy ===== *)
theory FindLaunched
  imports FindLaunch FindExecOk BuildcmdInsert
begin

text \<open>
  What \<open>-exec\<close> and \<open>-execdir\<close> run, with \<open>;\<close> and with \<open>+\<close>.
\<close>

subsection \<open>The commands\<close>

definition command_of :: "exec_event \<Rightarrow> string list list" where
  "command_of ev = (case ev of Ran wd argv st \<Rightarrow> [argv] | Not_reported wd argv \<Rightarrow> [])"

definition commands :: "exec_user \<Rightarrow> string list list" where
  "commands u = concat (map command_of (happenings u))"

lemma launch_cases:
  assumes "launch L ev built argv u = r"
  obtains "r = Exit (Client_exit 1, u)" | "r = Diverge"
  | wd where "r = Ok (False, u\<lparr>happenings := happenings u @ [Not_reported wd argv], exec_failed := True\<rparr>)"
      "wait_loop (answers L (happenings u)) 0 = Some False"
  | wd st where "r = Ok (True, u\<lparr>happenings := happenings u @ [Ran wd argv st], last_child_status := st,
        exec_failed := (exec_failed u \<or> multiple ev \<and> failed st)\<rparr>)"
      "wd_for_exec u = Some wd \<or> wd_for_exec u = None"
  using assms by (auto simp: launch_def Let_def split: if_splits option.splits bool.splits)

interpretation find_exec: exec_log "launch L ev" commands for L ev
proof unfold_locales
  fix built argv u u' err
  show "launch L ev built argv u = Ok (True, u') \<Longrightarrow> commands u' = commands u @ [argv]"
    "launch L ev built argv u = Ok (False, u') \<Longrightarrow> commands u' = commands u"
    "launch L ev built argv u = Exit (err, u') \<Longrightarrow> commands u' = commands u"
    by (erule launch_cases; force simp: commands_def command_of_def)+
qed

subsection \<open>What the callback keeps\<close>

text \<open>Whatever the callback keeps when it returns, the operations on the buffer keep.\<close>

definition cb_keeps :: "('u \<Rightarrow> bool) \<Rightarrow> 'u bc_callback \<Rightarrow> bool" where
  "cb_keeps I cb \<longleftrightarrow> (\<forall>built argv u ok u'. I u \<longrightarrow> cb built argv u = Ok (ok, u') \<longrightarrow> I u')"

lemma exec_loop_keeps:
  assumes "cb_keeps I cb" and "I (usercontext s)" and "bc_exec_loop ctl cb limit done s = Ok s'"
  shows "I (usercontext s')"
  using assms
proof (induction ctl cb limit "done" s rule: bc_exec_loop.induct)
  case (1 ctl cb limit "done" s)
  let ?call = "cb (strings_of (argbuf s) (cmd_argv s)) (strings_of (argbuf s) (copy_args ctl s limit done)) (usercontext s)"
  obtain ok u where r: "?call = Ok (ok, u)"
    using 1(5) by (subst (asm) bc_exec_loop.simps) (auto simp: Let_def obind_eq_Ok)
  then have "I u" using 1(3,4) by (auto simp: cb_keeps_def)
  then show ?case using 1(1,2) [OF refl _ refl refl] 1(3,5) r
    by (subst (asm) (3) bc_exec_loop.simps) (auto simp: Let_def split: if_splits)
qed

lemma do_exec_keeps:
  assumes "cb_keeps I cb" and "I (usercontext s)" and "bc_do_exec ctl cb s = Ok s'"
  shows "I (usercontext s')"
proof -
  obtain s1 s2 where s1: "bc_args_complete s = Ok s1" and s2: "bc_exec_loop ctl cb (cmd_argc s1) 0 s1 = Ok s2"
    and s': "s' = bc_clear_args ctl s2"
    using assms(3) by (auto simp: bc_do_exec_def obind_eq_Ok)
  have "usercontext s1 = usercontext s" using s1 by (auto simp: bc_args_complete_def bc_store_def split: if_splits)
  then have "I (usercontext s2)" using exec_loop_keeps [OF assms(1) _ s2] assms(2) by simp
  then show ?thesis by (simp add: s' bc_clear_args_def)
qed

lemma push_arg_keeps:
  assumes keeps: "cb_keeps I cb" and I: "I (usercontext s)"
    and ok: "bc_push_arg ctl cb a n p k ini s = Ok s'"
  shows "I (usercontext s')"
proof -
  let ?lim = "bc_argc_limit_reached ini ctl"
  note exec = do_exec_keeps [OF keeps]
  have put: "usercontext s' = usercontext s" if "bc_put str s = Ok s'" for str and s s' :: "'a bc_state"
    using that by (auto simp: bc_put_def split: option.splits)
  define s0 where "s0 = (if ini then s else s\<lparr>todo := True\<rparr>)"
  obtain s1 s2 s3 s4 s5 s6 where
    s1: "(if cmd_argv_chars s0 + n > arg_max ctl then
           (if ini \<or> cmd_argc s0 = initial_argc ctl then Exit (Cannot_fit_argument, usercontext s0)
            else if replace_pat ctl \<noteq> None \<or>
                exit_if_size_exceeded ctl \<and> (lines_per_exec ctl \<noteq> 0 \<or> args_per_exec ctl \<noteq> 0)
            then Exit (Argument_list_too_long, usercontext s0) else bc_do_exec ctl cb s0)
         else Ok s0) = Ok s1"
    and s2: "(if ?lim s1 then bc_do_exec ctl cb s1 else Ok s1) = Ok s2"
    and s3: "bc_store (Some (cmd_argv_chars s2)) (bc_grow s2) = Ok s3"
    and s4: "(case p of None \<Rightarrow> Ok s3
       | Some pfx \<Rightarrow> obind (bc_put pfx s3) (\<lambda>s. Ok (s\<lparr>cmd_argv_chars := cmd_argv_chars s + k\<rparr>))) = Ok s4"
    and s5: "bc_put a s4 = Ok s5"
    and s6: "(if ?lim (s5\<lparr>cmd_argv_chars := cmd_argv_chars s5 + n\<rparr>)
       then bc_do_exec ctl cb (s5\<lparr>cmd_argv_chars := cmd_argv_chars s5 + n\<rparr>)
       else Ok (s5\<lparr>cmd_argv_chars := cmd_argv_chars s5 + n\<rparr>)) = Ok s6"
    and s': "s' = (if ini then s6\<lparr>cmd_initial_argv_chars := cmd_argv_chars s6\<rparr> else s6)"
    using ok unfolding bc_push_arg_def Let_def obind_eq_Ok s0_def [symmetric] outcome.inject by blast
  have "I (usercontext s0)" using I by (simp add: s0_def)
  then have "I (usercontext s1)" using s1 exec [of s0] by (auto split: if_splits)
  then have "I (usercontext s2)" using s2 exec [of s1] by (auto split: if_splits)
  moreover have "usercontext s3 = usercontext s2" using s3 by (auto simp: bc_store_def split: if_splits)
  moreover have "usercontext s4 = usercontext s3" using s4 put by (auto simp: obind_eq_Ok split: option.splits)
  moreover have "usercontext s5 = usercontext s4" by (rule put [OF s5])
  ultimately have "I (usercontext (s5\<lparr>cmd_argv_chars := cmd_argv_chars s5 + n\<rparr>))" by simp
  then have "I (usercontext s6)" using s6 exec [of "s5\<lparr>cmd_argv_chars := cmd_argv_chars s5 + n\<rparr>"] by (auto split: if_splits)
  then show ?thesis using s' by simp
qed

subsection \<open>Gathering files\<close>

text \<open>\<open>bc_do_exec\<close> forgets that something is to be done, and \<open>bc_push_arg\<close> may call it before it appends.\<close>

context exec_log
begin

lemma push_todo:
  assumes inv: "bc_inv ctl s" "few_pending ctl s" and fits: "cmd_initial_argv_chars s + length arg + 1 \<le> arg_max ctl"
    and ok: "bc_push_arg ctl cb arg (length arg + 1) None 0 False s = Ok s'"
  shows "todo s' \<or> length (bc_pending ctl s') \<le> 1"
proof -
  let ?lim = "bc_argc_limit_reached False ctl"
  have few: "args_per_exec ctl \<noteq> 0 \<longrightarrow> length (bc_pending ctl s) \<le> args_per_exec ctl" if "few_pending ctl s" for s
    using that by (auto simp: few_pending_def)
  define s0 where "s0 = s\<lparr>todo := True\<rparr>"
  have s0: "bc_inv ctl s0" "few_pending ctl s0" "cmd_initial_argv_chars s0 = cmd_initial_argv_chars s" "todo s0"
    using inv by (simp_all add: s0_def)
  obtain s1 s2 s3 where s1: "(if cmd_argv_chars s0 + (length arg + 1) > arg_max ctl then
         (if cmd_argc s0 = initial_argc ctl then Exit (Cannot_fit_argument, usercontext s0)
          else if replace_pat ctl \<noteq> None \<or>
              exit_if_size_exceeded ctl \<and> (lines_per_exec ctl \<noteq> 0 \<or> args_per_exec ctl \<noteq> 0)
          then Exit (Argument_list_too_long, usercontext s0) else bc_do_exec ctl cb s0)
       else Ok s0) = Ok s1"
    and s2: "(if ?lim s1 then bc_do_exec ctl cb s1 else Ok s1) = Ok s2"
    and s3: "bc_append arg s2 = Ok s3" and s': "(if ?lim s3 then bc_do_exec ctl cb s3 else Ok s3) = Ok s'"
    using ok unfolding bc_push_append Let_def if_False obind_eq_Ok s0_def [symmetric] outcome.inject simp_thms by blast
  have 1: "step_log ctl s0 [] s1 \<and> cmd_argv_chars s1 + length arg + 1 \<le> arg_max ctl \<and> (todo s1 \<or> bc_pending ctl s1 = [])"
    using do_exec_log [OF s0(1) few [OF s0(2)]] s1 fits s0 step_log_refl [OF s0(1,2)] by (auto split: if_splits)
  then have i1: "bc_inv ctl s1" "few_pending ctl s1" by (simp_all add: step_log_def)
  have "step_log ctl s1 [] s2" "cmd_argv_chars s2 \<le> cmd_argv_chars s1" using exec_if_log [OF i1(1) few [OF i1(2)] s2] by simp_all
  moreover have "todo s2 \<or> bc_pending ctl s2 = []"
    using 1 s2 do_exec_log [OF i1(1) few [OF i1(2)], of s2] by (auto split: if_splits)
  ultimately have 2: "bc_inv ctl s2" "few_pending ctl s2" "todo s2 \<or> bc_pending ctl s2 = []"
    "cmd_argv_chars s2 + length arg + 1 \<le> arg_max ctl"
    using 1 by (auto simp: step_log_def)
  from append_ok [OF 2(1,4)] s3 have 3: "bc_inv ctl s3" "bc_strings s3 = bc_strings s2 @ [c_string arg]"
    by (metis outcome.inject(1))+
  have "todo s3 = todo s2"
    using s3 by (auto simp: bc_append_def bc_store_def bc_put_def bc_grow_def obind_eq_Ok split: if_splits option.splits)
  moreover have p3: "bc_pending ctl s3 = bc_pending ctl s2 @ [c_string arg]"
    using 2(1) inv_length [OF 2(1)] by (simp add: bc_pending_def 3(2) bc_inv_def)
  ultimately have t3: "todo s3 \<or> length (bc_pending ctl s3) \<le> 1" using 2(3) by auto
  have "args_per_exec ctl \<noteq> 0 \<longrightarrow> length (bc_pending ctl s3) \<le> args_per_exec ctl"
    using 2(2) p3 by (auto simp: few_pending_def)
  then show ?thesis using t3 s' do_exec_log [OF 3(1), of s'] by (auto split: if_splits)
qed

lemma pushes_todo:
  assumes "bc_inv ctl s" and "few_pending ctl s"
    and "\<forall>a\<in>set as. cmd_initial_argv_chars s + length a + 1 \<le> arg_max ctl"
    and "ofold (\<lambda>a. bc_push_arg ctl cb a (length a + 1) None 0 False) as s = Ok s'"
    and "todo s \<or> length (bc_pending ctl s) \<le> 1"
  shows "todo s' \<or> length (bc_pending ctl s') \<le> 1"
  using assms
proof (induction as arbitrary: s)
  case (Cons a as)
  then obtain s1 where s1: "bc_push_arg ctl cb a (length a + 1) None 0 False s = Ok s1"
    "ofold (\<lambda>a. bc_push_arg ctl cb a (length a + 1) None 0 False) as s1 = Ok s'"
    by (auto simp: obind_eq_Ok)
  have fits: "cmd_initial_argv_chars s + length a + 1 \<le> arg_max ctl" using Cons.prems(3) by simp
  have "step_log ctl s [c_string a] s1" by (rule push_log [OF Cons.prems(1,2) fits s1(1)])
  then show ?case using Cons.prems(3) push_todo [OF Cons.prems(1,2) fits s1(1)]
    by (intro Cons.IH [OF _ _ _ s1(2)]) (auto simp: step_log_def)
qed simp

end

text \<open>A predicate with \<open>+\<close> only pushes the pathnames, and is true.\<close>

lemma run_files_plus:
  assumes "multiple ev" and "\<not> local ev" and "run_files L ev files s = Ok (rs, s')"
  shows "False \<notin> set rs \<and>
    ofold (\<lambda>a. bc_push_arg (exec_ctl ev) (launch L ev) a (length a + 1) None 0 False)
      (map (\<lambda>(fd, rel, base, path). path) files) s = Ok s'"
  using assms(3)
proof (induction files arbitrary: s rs)
  case (Cons f files)
  obtain fd rel base path where f: "f = (fd, rel, base, path)" by (cases f)
  obtain r s1 rs' where s1: "run_predicate L ev fd rel base path s = Ok (r, s1)"
    "run_files L ev files s1 = Ok (rs', s')" "rs = r # rs'"
    using Cons.prems by (auto simp: f obind_eq_Ok)
  then have "r" "bc_push_arg (exec_ctl ev) (launch L ev) path (length path + 1) None 0 False s = Ok s1"
    using assms(1,2) by (auto simp: run_predicate_def Let_def obind_eq_Ok split: if_splits)
  then show ?case using Cons.IH [OF s1(2)] s1(3) by (simp add: f)
qed simp

lemma run_files_length: "run_files L ev files s = Ok (rs, s') \<Longrightarrow> length rs = length files"
  by (induction files arbitrary: s rs) (auto simp: obind_eq_Ok)

lemma all_true: "False \<notin> set rs \<Longrightarrow> rs = replicate (length rs) True"
  by (induction rs) auto

lemma exec_node_simps [simp]:
  "multiple (exec_node ctl func by_plus words) = by_plus" "local (exec_node ctl func by_plus words) = is_exec_in_local_dir func"
  "replace_vec (exec_node ctl func by_plus words) = words"
  "exec_ctl (exec_node ctl func True words) = plus_control ctl words"
  by (simp_all add: exec_node_def)

lemma plus_control_simps [simp]:
  "initial_argc (plus_control ctl words) = length words" "arg_max (plus_control ctl words) = arg_max ctl"
  "max_arg_count (plus_control ctl words) = max_arg_count ctl" "args_per_exec (plus_control ctl words) = 0"
  by (simp_all add: plus_control_def)

text \<open>The buffer as the parser leaves it.\<close>

lemma exec_buffer_ready:
  assumes ok: "exec_control E = Ok ctl"
    and fits: "weight words \<le> arg_max ctl" "length words < max_arg_count ctl"
  shows "\<exists>s. exec_buffer (plus_control ctl words) junk cb u words = Ok s \<and> bc_inv (plus_control ctl words) s \<and>
    bc_initial (plus_control ctl words) s = map c_string words \<and> bc_pending (plus_control ctl words) s = [] \<and>
    cmd_initial_argv_chars s \<le> weight words \<and> cmd_argv_chars s = cmd_initial_argv_chars s \<and>
    usercontext s = u \<and> \<not> todo s"
proof -
  let ?ctl = "plus_control ctl words"
  obtain s where s: "bc_init_state ?ctl junk u = Ok s" using init_state_ok exec_control_ok(1) [OF ok] by (metis plus_control_simps(2))
  note start = init_gathering [OF s]
  from push_words_fit [OF start(1), of words cb] fits start(2,3)
  obtain s1 where s1: "ofold (\<lambda>w. bc_push_arg ?ctl cb w (length w + 1) None 0 True) words s = Ok s1"
    "gathering ?ctl s1 words" "usercontext s1 = u" "\<not> todo s1" by auto
  have n: "cmd_argc s1 = length words" and strs: "bc_strings s1 = map c_string words"
    using s1(2) by (simp_all add: gathering_def)
  have i: "bc_initial ?ctl s1 = map c_string words" "bc_pending ?ctl s1 = []" by (simp_all add: bc_initial_def bc_pending_def strs)
  have w: "weight (map c_string words) \<le> weight words"
    by (induction words) (auto simp: length_c_string intro: add_mono)
  have "cmd_initial_argv_chars s1 = weight words" if "words \<noteq> []" using s1(2) that by (simp add: gathering_def)
  moreover have small: "cmd_initial_argv_chars s1 \<le> weight words" "cmd_argv_chars s1 = cmd_initial_argv_chars s1" using s1(2) by (auto simp: gathering_def bc_inv_def)
  ultimately have "bc_inv ?ctl s1"
    unfolding bc_inv_def i(1) strs using s1(2) n w by (cases "words = []") (auto simp: gathering_def bc_inv_def)
  then show ?thesis using s s1 i small
    by (simp add: exec_buffer_def exec_error_def)
qed

subsection \<open>Files in one command\<close>

text \<open>The run of one \<open>-exec ... {} +\<close> over all its files, and the end of the program.\<close>

definition runs_plus :: "launch_env \<Rightarrow> bc_control \<Rightarrow> string list \<Rightarrow> exec_file list \<Rightarrow> bool list \<Rightarrow>
    exec_user bc_state \<Rightarrow> exec_user bc_state \<Rightarrow> bool" where
  "runs_plus L ctl words files results s1 s2 \<longleftrightarrow>
     (let ev = exec_node ctl Pred_exec True words in
      \<exists>junk s. exec_buffer (exec_ctl ev) junk (launch L ev) (exec_user_start ev) words = Ok s \<and>
        run_files L ev files s = Ok (results, s1) \<and> complete_exec L ev s1 = Ok s2)"

lemma few_pending_plus: "few_pending (plus_control ctl words) s"
  by (simp add: few_pending_def)

lemma is_exec_in_local_dir_simps [simp]: "\<not> is_exec_in_local_dir Pred_exec" "is_exec_in_local_dir Pred_execdir"
  by (simp_all add: is_exec_in_local_dir_def)

lemma runs_plus_log:
  assumes control: "exec_control E = Ok ctl" and fit: "weight words \<le> arg_max ctl" "length words < max_arg_count ctl"
    and paths: "\<forall>(fd, rel, base, path)\<in>set files. weight words + length path + 1 \<le> arg_max ctl"
    and run: "runs_plus L ctl words files results s1 s2"
  shows "False \<notin> set results \<and> (\<exists>chunks. commands (usercontext s2) = map (\<lambda>c. map c_string words @ c) chunks \<and>
    concat chunks @ (if todo s1 then [] else bc_pending (plus_control ctl words) s1) =
      map (\<lambda>(fd, rel, base, path). c_string path) files \<and>
    (\<forall>c\<in>set chunks. weight (map c_string words @ c) \<le> arg_max ctl)) \<and>
    (todo s1 \<or> length (bc_pending (plus_control ctl words) s1) \<le> 1)"
proof -
  let ?ctl = "plus_control ctl words" and ?paths = "map (\<lambda>(fd, rel, base, path). path) files"
  define ev where "ev = exec_node ctl Pred_exec True words"
  have ev: "multiple ev" "\<not> local ev" "exec_ctl ev = ?ctl" by (simp_all add: ev_def)
  obtain junk s where s: "exec_buffer ?ctl junk (launch L ev) (exec_user_start ev) words = Ok s"
    and files: "run_files L ev files s = Ok (results, s1)" and complete: "complete_exec L ev s1 = Ok s2"
    using run by (auto simp: runs_plus_def Let_def ev_def)
  have ready: "bc_inv ?ctl s" "bc_initial ?ctl s = map c_string words" "bc_pending ?ctl s = []"
    "cmd_initial_argv_chars s \<le> weight words" "commands (usercontext s) = []"
    using exec_buffer_ready [OF control fit, of junk "launch L ev" "exec_user_start ev"] s
    by (auto simp: exec_user_start_def commands_def)
  note few = few_pending_plus [of ctl words]
  have results: "False \<notin> set results"
    and pushes: "ofold (\<lambda>a. bc_push_arg ?ctl (launch L ev) a (length a + 1) None 0 False) ?paths s = Ok s1"
    using run_files_plus [OF ev(1,2) files] by (simp_all add: ev(3))
  have fits: "\<forall>a\<in>set ?paths. cmd_initial_argv_chars s + length a + 1 \<le> arg_max ?ctl"
    using paths ready(4) by fastforce
  have log: "find_exec.step_log ?ctl s (map c_string ?paths) s1"
    by (rule find_exec.pushes_log [OF ready(1) few fits pushes])
  have todo: "todo s1 \<or> length (bc_pending ?ctl s1) \<le> 1"
    by (rule find_exec.pushes_todo [OF ready(1) few fits pushes]) (simp add: ready(3))
  have s1: "bc_inv ?ctl s1" using log by (simp add: find_exec.step_log_def)
  have "find_exec.step_log ?ctl s1 [] s2 \<and> bc_pending ?ctl s2 = (if todo s1 then [] else bc_pending ?ctl s1)"
    using complete ev find_exec.do_exec_log [OF s1, of L ev s2] find_exec.step_log_refl [OF s1 few]
    by (auto simp: complete_exec_def split: if_splits)
  then have "find_exec.step_log ?ctl s (map c_string ?paths) s2"
    "bc_pending ?ctl s2 = (if todo s1 then [] else bc_pending ?ctl s1)"
    using find_exec.step_log_trans [OF log, of "[]"] by auto
  moreover have "map c_string ?paths = map (\<lambda>(fd, rel, base, path). c_string path) files" by (simp add: case_prod_beta)
  ultimately show ?thesis using results todo ready
    unfolding find_exec.step_log_def by (auto simp: chunk_ok_def)
qed

subsection \<open>The exit status\<close>

definition bad_event :: "exec_event \<Rightarrow> bool" where
  "bad_event ev \<longleftrightarrow> (case ev of Ran wd argv st \<Rightarrow> failed st | Not_reported wd argv \<Rightarrow> True)"

lemma launch_status:
  assumes "multiple ev"
  shows "cb_keeps (\<lambda>u. exec_failed u \<longleftrightarrow> list_ex bad_event (happenings u)) (launch L ev)"
  unfolding cb_keeps_def
proof (intro allI impI)
  fix built argv u ok u'
  assume u: "exec_failed u \<longleftrightarrow> list_ex bad_event (happenings u)" and r: "launch L ev built argv u = Ok (ok, u')"
  show "exec_failed u' \<longleftrightarrow> list_ex bad_event (happenings u')"
    using u assms by (rule_tac launch_cases [OF r]) (auto simp: bad_event_def)
qed

lemma pushes_keep:
  assumes "cb_keeps I cb" and "I (usercontext s)"
    and "ofold (\<lambda>a. bc_push_arg ctl cb a (length a + 1) None 0 False) as s = Ok s'"
  shows "I (usercontext s')"
  using assms(2,3)
proof (induction as arbitrary: s)
  case (Cons a as)
  then obtain s1 where s1: "bc_push_arg ctl cb a (length a + 1) None 0 False s = Ok s1"
    "ofold (\<lambda>a. bc_push_arg ctl cb a (length a + 1) None 0 False) as s1 = Ok s'"
    by (auto simp: obind_eq_Ok)
  show ?case by (rule Cons.IH [OF push_arg_keeps [OF assms(1) Cons.prems(1) s1(1)] s1(2)])
qed simp

subsection \<open>The program gets through\<close>

text \<open>Every command can be started and is waited for.\<close>

definition cb_works :: "'u bc_callback \<Rightarrow> bool" where
  "cb_works cb \<longleftrightarrow> (\<forall>built argv u. \<exists>u'. cb built argv u = Ok (True, u'))"

lemma exec_loop_works: "cb_works cb \<Longrightarrow> \<exists>s'. bc_exec_loop ctl cb limit done s = Ok s'"
proof (induction ctl cb limit "done" s rule: bc_exec_loop.induct)
  case (1 ctl cb limit "done" s)
  obtain u where u: "cb (strings_of (argbuf s) (cmd_argv s)) (strings_of (argbuf s) (copy_args ctl s limit done))
      (usercontext s) = Ok (True, u)"
    using 1(3) unfolding cb_works_def by blast
  then show ?case using 1(1) [OF refl _ refl refl] 1(3) by (subst bc_exec_loop.simps) (auto simp: Let_def)
qed

lemma do_exec_works:
  assumes "cb_works cb" and "cmd_argc s \<le> cmd_argv_alloc s"
  shows "\<exists>s'. bc_do_exec ctl cb s = Ok s'"
proof -
  have "cmd_argc s < cmd_argv_alloc (bc_grow (s\<lparr>todo := True\<rparr>))"
    using grow_room [of "s\<lparr>todo := True\<rparr>"] assms(2) by simp
  then obtain s1 where "bc_args_complete s = Ok s1" by (simp add: bc_args_complete_def bc_store_def)
  then show ?thesis using exec_loop_works [OF assms(1), of ctl "cmd_argc s1" 0 s1] by (auto simp: bc_do_exec_def)
qed

context exec_log
begin

definition tight :: "bc_control \<Rightarrow> 'u bc_state \<Rightarrow> bool" where
  "tight ctl s \<longleftrightarrow> (bc_pending ctl s = [] \<longrightarrow> cmd_argv_chars s = cmd_initial_argv_chars s)"

lemma exec_if_works:
  assumes works: "cb_works cb" and inv: "bc_inv ctl s" "args_per_exec ctl = 0"
  shows "\<exists>s'. (if b then bc_do_exec ctl cb s else Ok s) = Ok s' \<and> bc_inv ctl s' \<and>
    cmd_initial_argv_chars s' = cmd_initial_argv_chars s \<and> cmd_argv_chars s' \<le> cmd_argv_chars s \<and>
    (tight ctl s \<or> b \<longrightarrow> tight ctl s') \<and> (b \<longrightarrow> cmd_argv_chars s' = cmd_initial_argv_chars s)"
proof (cases b)
  case True
  obtain s' where s': "bc_do_exec ctl cb s = Ok s'" using do_exec_works [OF works, of s ctl] inv by (auto simp: bc_inv_def)
  then show ?thesis using do_exec_log [OF inv(1) _ s'] inv True by (auto simp: tight_def step_log_def bc_inv_def)
qed (use inv in auto)

lemma push_works:
  assumes works: "cb_works cb" and inv: "bc_inv ctl s" "tight ctl s"
    and fits: "cmd_initial_argv_chars s + length arg + 1 \<le> arg_max ctl"
    and ctl: "replace_pat ctl = None" "args_per_exec ctl = 0" "lines_per_exec ctl = 0"
  shows "\<exists>s'. bc_push_arg ctl cb arg (length arg + 1) None 0 False s = Ok s' \<and> bc_inv ctl s' \<and> tight ctl s' \<and>
    cmd_initial_argv_chars s' = cmd_initial_argv_chars s"
proof -
  let ?lim = "bc_argc_limit_reached False ctl"
  define s0 where "s0 = s\<lparr>todo := True\<rparr>"
  define big where "big \<longleftrightarrow> cmd_argv_chars s0 + (length arg + 1) > arg_max ctl"
  have s0: "bc_inv ctl s0" "tight ctl s0" "cmd_initial_argv_chars s0 = cmd_initial_argv_chars s"
    using inv by (simp_all add: s0_def tight_def)
  from exec_if_works [OF works s0(1) ctl(2), of big] obtain s1 where
    s1: "(if big then bc_do_exec ctl cb s0 else Ok s0) = Ok s1" "bc_inv ctl s1" "tight ctl s1"
      "cmd_initial_argv_chars s1 = cmd_initial_argv_chars s" "cmd_argv_chars s1 + length arg + 1 \<le> arg_max ctl"
    using s0 fits by (auto simp: big_def split: if_splits)
  have "cmd_argc s0 \<noteq> initial_argc ctl" if big
  proof
    assume "cmd_argc s0 = initial_argc ctl"
    then have "bc_pending ctl s0 = []" using inv_pending [OF s0(1)] by simp
    then show False using s0 fits that by (simp add: tight_def big_def)
  qed
  then have first: "(if cmd_argv_chars s0 + (length arg + 1) > arg_max ctl then
      (if False \<or> cmd_argc s0 = initial_argc ctl then Exit (Cannot_fit_argument, usercontext s0)
       else if replace_pat ctl \<noteq> None \<or> exit_if_size_exceeded ctl \<and> (lines_per_exec ctl \<noteq> 0 \<or> args_per_exec ctl \<noteq> 0)
       then Exit (Argument_list_too_long, usercontext s0) else bc_do_exec ctl cb s0) else Ok s0) = Ok s1"
    using s1(1) ctl by (auto simp: big_def)
  from exec_if_works [OF works s1(2) ctl(2), of "?lim s1"] obtain s2 where
    s2: "(if ?lim s1 then bc_do_exec ctl cb s1 else Ok s1) = Ok s2" "bc_inv ctl s2"
      "cmd_initial_argv_chars s2 = cmd_initial_argv_chars s" "cmd_argv_chars s2 + length arg + 1 \<le> arg_max ctl"
    using s1 by auto
  from append_ok [OF s2(2,4)] obtain s3 where s3: "bc_append arg s2 = Ok s3" "bc_inv ctl s3"
    "cmd_initial_argv_chars s3 = cmd_initial_argv_chars s2" "cmd_argc s3 = cmd_argc s2 + 1" by metis
  have "bc_pending ctl s3 \<noteq> []"
    using inv_pending [OF s3(2)] s3(4) s2(2) by (auto simp: bc_inv_def)
  then have "tight ctl s3" by (simp add: tight_def)
  with exec_if_works [OF works s3(2) ctl(2), of "?lim s3"] obtain s4 where
    s4: "(if ?lim s3 then bc_do_exec ctl cb s3 else Ok s3) = Ok s4" "bc_inv ctl s4" "tight ctl s4"
      "cmd_initial_argv_chars s4 = cmd_initial_argv_chars s"
    using s3(3) s2(3) by auto
  have "bc_push_arg ctl cb arg (length arg + 1) None 0 False s = Ok s4"
    unfolding bc_push_append Let_def if_False s0_def [symmetric] first obind.simps s2(1) s3(1) s4(1) by (rule refl)
  then show ?thesis using s4 by blast
qed

lemma pushes_work:
  assumes "cb_works cb" and "bc_inv ctl s" and "tight ctl s"
    and "\<forall>a\<in>set as. cmd_initial_argv_chars s + length a + 1 \<le> arg_max ctl"
    and "replace_pat ctl = None" and "args_per_exec ctl = 0" and "lines_per_exec ctl = 0"
  shows "\<exists>s'. ofold (\<lambda>a. bc_push_arg ctl cb a (length a + 1) None 0 False) as s = Ok s' \<and> bc_inv ctl s'"
  using assms(2-4)
proof (induction as arbitrary: s)
  case (Cons a as)
  from push_works [OF assms(1) Cons.prems(1,2) _ assms(5-7), of a] Cons.prems(3)
  obtain s1 where s1: "bc_push_arg ctl cb a (length a + 1) None 0 False s = Ok s1" "bc_inv ctl s1" "tight ctl s1"
    "cmd_initial_argv_chars s1 = cmd_initial_argv_chars s" by auto
  from Cons.IH [OF s1(2,3)] Cons.prems(3) s1 show ?case by auto
qed simp

end

lemma run_predicate_plus:
  assumes "multiple ev" and "\<not> local ev" and "wd_for_exec (usercontext s) = Some Initial_wd"
  shows "run_predicate L ev fd rel base path s =
    obind (bc_push_arg (exec_ctl ev) (launch L ev) path (length path + 1) None 0 False s) (\<lambda>s. Ok (True, s))"
  using assms by (simp add: run_predicate_def Let_def)

lemma launch_keeps_wd: "cb_keeps (\<lambda>u. wd_for_exec u = wd) (launch L ev)"
  unfolding cb_keeps_def
proof (intro allI impI)
  fix built argv u ok u'
  assume "wd_for_exec u = wd" and r: "launch L ev built argv u = Ok (ok, u')"
  then show "wd_for_exec u' = wd" by (rule_tac launch_cases [OF r]) auto
qed

lemma run_files_works:
  assumes "multiple ev" and "\<not> local ev" and "wd_for_exec (usercontext s) = Some Initial_wd"
    and "ofold (\<lambda>a. bc_push_arg (exec_ctl ev) (launch L ev) a (length a + 1) None 0 False)
      (map (\<lambda>(fd, rel, base, path). path) files) s = Ok s'"
  shows "\<exists>rs. run_files L ev files s = Ok (rs, s')"
  using assms(3,4)
proof (induction files arbitrary: s)
  case (Cons f files)
  obtain fd rel base path where f: "f = (fd, rel, base, path)" by (cases f)
  then obtain s1 where s1: "bc_push_arg (exec_ctl ev) (launch L ev) path (length path + 1) None 0 False s = Ok s1"
    "ofold (\<lambda>a. bc_push_arg (exec_ctl ev) (launch L ev) a (length a + 1) None 0 False)
      (map (\<lambda>(fd, rel, base, path). path) files) s1 = Ok s'"
    using Cons.prems(2) by (auto simp: obind_eq_Ok)
  have "wd_for_exec (usercontext s1) = Some Initial_wd"
    by (rule push_arg_keeps [OF launch_keeps_wd Cons.prems(1) s1(1)])
  from Cons.IH [OF this s1(2)] show ?case
    using s1(1) by (auto simp: f run_predicate_plus [OF assms(1,2) Cons.prems(1)])
qed simp

text \<open>The system answers: every process can be started, and every child is reported in the end.\<close>

definition answers_all :: "launch_env \<Rightarrow> bool" where
  "answers_all L \<longleftrightarrow> (\<forall>h. forks L h \<and> wait_loop (answers L h) 0 = Some True)"

lemma launch_works: "answers_all L \<Longrightarrow> cb_works (launch L ev)"
  by (auto simp: cb_works_def answers_all_def launch_def Let_def)

lemma runs_plus_exists:
  assumes control: "exec_control E = Ok ctl" and fit: "weight words \<le> arg_max ctl" "length words < max_arg_count ctl"
    and paths: "\<forall>(fd, rel, base, path)\<in>set files. weight words + length path + 1 \<le> arg_max ctl"
    and system: "answers_all L"
  shows "\<exists>s1 s2. runs_plus L ctl words files (replicate (length files) True) s1 s2"
proof -
  let ?ctl = "plus_control ctl words" and ?paths = "map (\<lambda>(fd, rel, base, path). path) files"
  define ev where "ev = exec_node ctl Pred_exec True words"
  have ev: "multiple ev" "\<not> local ev" "exec_ctl ev = ?ctl" by (simp_all add: ev_def)
  have works: "cb_works (launch L ev)" by (rule launch_works [OF system])
  from exec_buffer_ready [OF control fit, of "\<lambda>n. CHR 0x00" "launch L ev" "exec_user_start ev"]
  obtain s where s: "exec_buffer ?ctl (\<lambda>n. CHR 0x00) (launch L ev) (exec_user_start ev) words = Ok s" "bc_inv ?ctl s"
    "bc_pending ?ctl s = []" "cmd_initial_argv_chars s \<le> weight words" "usercontext s = exec_user_start ev"
    "cmd_argv_chars s = cmd_initial_argv_chars s" by blast
  have tight: "find_exec.tight ?ctl s" using s(6) by (simp add: find_exec.tight_def)
  have wd: "wd_for_exec (usercontext s) = Some Initial_wd" by (simp add: s(5) exec_user_start_def ev(2))
  have fits: "\<forall>a\<in>set ?paths. cmd_initial_argv_chars s + length a + 1 \<le> arg_max ?ctl" using paths s(4) by fastforce
  from find_exec.pushes_work [OF works s(2) tight fits] obtain s1 where
    s1: "ofold (\<lambda>a. bc_push_arg ?ctl (launch L ev) a (length a + 1) None 0 False) ?paths s = Ok s1" "bc_inv ?ctl s1"
    by (auto simp: plus_control_def)
  obtain rs where rs: "run_files L ev files s = Ok (rs, s1)"
    using run_files_works [OF ev(1,2) wd, of L files s1] s1(1) by (auto simp: ev(3))
  then have results: "rs = replicate (length files) True"
    using run_files_plus [OF ev(1,2) rs] run_files_length [OF rs] all_true [of rs] by metis
  obtain s3 where s3: "bc_do_exec ?ctl (launch L ev) s1 = Ok s3"
    using do_exec_works [OF works, of s1 ?ctl] s1(2) by (auto simp: bc_inv_def)
  then obtain s2 where "complete_exec L ev s1 = Ok s2"
    using that ev by (cases "todo s1") (simp_all add: complete_exec_def)
  then show ?thesis using s(1) rs results unfolding runs_plus_def Let_def ev_def [symmetric] ev(3) by blast
qed

subsection \<open>One command for each file\<close>

lemma launch_accepts:
  assumes "\<forall>h. wait_loop (answers L h) 0 \<noteq> Some False"
  shows "accepts (launch L ev)"
  unfolding accepts_def
proof (intro allI notI)
  fix argv args u u'
  assume r: "launch L ev argv args u = Ok (False, u')"
  show False by (rule launch_cases [OF r]) (use assms in auto)
qed

text \<open>The buffer between two files, as \<open>bc_init_state\<close> and \<open>bc_clear_args\<close> leave it.\<close>

definition empty_buffer :: "bc_control \<Rightarrow> 'u bc_state \<Rightarrow> bool" where
  "empty_buffer ctl s \<longleftrightarrow> length (argbuf s) = arg_max ctl + 1 \<and> cmd_argv s = [] \<and> cmd_argv_chars s = 0 \<and>
     cmd_initial_argv_chars s = 0"

lemma empty_buffer_init: "bc_init_state ctl junk u = Ok s \<Longrightarrow> empty_buffer ctl s"
  by (auto simp: bc_init_state_def empty_buffer_def split: if_splits)


end
