(* ===== verification/FindLaunchTheorems.thy ===== *)
theory FindLaunchTheorems
  imports FindCommand FindLaunched "HOL-Library.Code_Target_Nat"
begin

text \<open>
  The properties of \<open>-exec\<close> and its kin, with \<open>+\<close> and with \<open>;\<close>.
\<close>

subsection \<open>Examples\<close>

definition ex_launch :: launch_env where
  "ex_launch = \<lparr>forks = (\<lambda>h. True), closes_stdin = (\<lambda>h. True), restores_cwd = (\<lambda>h wd. True),
     runs = (\<lambda>h wd argv. Some (Exit_status 0)), answers = (\<lambda>h n. Wait_reported), opens_dir = (\<lambda>fd dir. True),
     mdir_name = (\<lambda>name. name), test_limit = (\<lambda>name. None), read_limit = (\<lambda>w. None)\<rparr>"

definition ex_files :: "exec_file list" where
  "ex_files = [(3, ''a'', ''a'', ''d/a''), (3, ''b'', ''b'', ''d/b'')]"

lemma ex_launch_answers: "answers_all ex_launch"
  by (simp add: answers_all_def ex_launch_def wait_loop.simps)

lemma ex_control:
  obtains ctl where "exec_control (ex_parse_env\<lparr>system_arg_max := 4096\<rparr>) = Ok ctl" "arg_max ctl = 2048" "max_arg_count ctl = 254"
proof -
  have "bc_init_controlinfo 4096 [] 2048 = Ok (BC_INIT_OK
      \<lparr>exit_if_size_exceeded = False, posix_arg_size_max = 2048, posix_arg_size_min = 4096,
       arg_max = 2048, max_arg_count = 254, replace_pat = None, initial_argc = 0,
       lines_per_exec = 0, args_per_exec = 0\<rparr>)"
    by (simp add: bc_init_controlinfo_def bc_size_of_environment_def)
  then show thesis using that by (simp add: exec_control_def bc_use_sensible_arg_max_def ex_parse_env_def)
qed

lemma ex_runs_plus:
  obtains ctl s1 s2 where "exec_control (ex_parse_env\<lparr>system_arg_max := 4096\<rparr>) = Ok ctl" "weight [''ls''] \<le> arg_max ctl"
    "length [''ls''] < max_arg_count ctl"
    "\<forall>(fd, rel, base, path)\<in>set ex_files. weight [''ls''] + length path + 1 \<le> arg_max ctl"
    "runs_plus ex_launch ctl [''ls''] ex_files [True, True] s1 s2"
proof -
  obtain ctl where ctl: "exec_control (ex_parse_env\<lparr>system_arg_max := 4096\<rparr>) = Ok ctl" "arg_max ctl = 2048"
    "max_arg_count ctl = 254" by (rule ex_control)
  have fits: "weight [''ls''] \<le> arg_max ctl" "length [''ls''] < max_arg_count ctl"
    "\<forall>(fd, rel, base, path)\<in>set ex_files. weight [''ls''] + length path + 1 \<le> arg_max ctl"
    using ctl by (simp_all add: ex_files_def weight_def)
  moreover obtain s1 s2 where "runs_plus ex_launch ctl [''ls''] ex_files [True, True] s1 s2"
    using runs_plus_exists [OF ctl(1) fits ex_launch_answers] by (auto simp: ex_files_def numeral_2_eq_2)
  ultimately show thesis using that ctl(1) by blast
qed

subsection \<open>Files in one command\<close>

text \<open>C18: With \<open>-exec command {} +\<close> the pathnames go to the command in the order they were found, each in one
  command that was run and waited for, in commands within the limits, with the words in front; the
  predicate is always true. At most the last pathname may be missing: \<open>bc_push_arg\<close> runs the command
  before it appends a pathname that does not fit, which clears the note that something is left to be done.\<close>

theorem exec_plus_hands_over:
  assumes "exec_control E = Ok ctl" and "weight words \<le> arg_max ctl" and "length words < max_arg_count ctl"
    and "\<forall>(fd, rel, base, path)\<in>set files. weight words + length path + 1 \<le> arg_max ctl"
    and "runs_plus L ctl words files results s1 s2"
  shows "False \<notin> set results \<and> (\<exists>chunks lost.
    commands (usercontext s2) = map (\<lambda>c. map c_string words @ c) chunks \<and>
    concat chunks @ lost = map (\<lambda>(fd, rel, base, path). c_string path) files \<and>
    (\<forall>c\<in>set chunks. weight (map c_string words @ c) \<le> arg_max ctl) \<and>
    length lost \<le> 1 \<and> (todo s1 \<longrightarrow> lost = []))"
  using runs_plus_log [OF assms] by (intro conjI) (auto split: if_splits)

theorem exec_plus_hands_over_witness:
  "\<exists>ctl s1 s2 chunks lost. runs_plus ex_launch ctl [''ls''] ex_files [True, True] s1 s2 \<and>
    commands (usercontext s2) = map (\<lambda>c. map c_string [''ls''] @ c) chunks \<and>
    concat chunks @ lost = map (\<lambda>(fd, rel, base, path). c_string path) ex_files \<and> length lost \<le> 1"
proof -
  obtain ctl s1 s2 where run: "exec_control (ex_parse_env\<lparr>system_arg_max := 4096\<rparr>) = Ok ctl" "weight [''ls''] \<le> arg_max ctl"
    "length [''ls''] < max_arg_count ctl"
    "\<forall>(fd, rel, base, path)\<in>set ex_files. weight [''ls''] + length path + 1 \<le> arg_max ctl"
    "runs_plus ex_launch ctl [''ls''] ex_files [True, True] s1 s2" by (rule ex_runs_plus)
  from exec_plus_hands_over [OF run] run(5) show ?thesis by blast
qed

text \<open>C23: With \<open>-exec command {} +\<close> the exit status of \<open>find\<close> is set to 1 by a command if and only if one of the
  commands ended with a status other than 0 or by a signal, or could not be waited for.\<close>

theorem exec_plus_status:
  assumes "exec_control E = Ok ctl" and "weight words \<le> arg_max ctl" and "length words < max_arg_count ctl"
    and "runs_plus L ctl words files results s1 s2"
  shows "exec_failed (usercontext s2) \<longleftrightarrow> (\<exists>ev\<in>set (happenings (usercontext s2)). bad_event ev)"
proof -
  define ev where "ev = exec_node ctl Pred_exec True words"
  let ?I = "\<lambda>u. exec_failed u \<longleftrightarrow> list_ex bad_event (happenings u)"
  have ev: "multiple ev" "\<not> local ev" "exec_ctl ev = plus_control ctl words" by (simp_all add: ev_def)
  obtain junk s where s: "exec_buffer (exec_ctl ev) junk (launch L ev) (exec_user_start ev) words = Ok s"
    and files: "run_files L ev files s = Ok (results, s1)" and complete: "complete_exec L ev s1 = Ok s2"
    using assms(4) by (auto simp: runs_plus_def Let_def ev_def)
  note keeps = launch_status [OF ev(1), of L]
  have "usercontext s = exec_user_start ev"
    using exec_buffer_ready [OF assms(1-3), of junk "launch L ev" "exec_user_start ev"] s ev(3) by auto
  then have "?I (usercontext s)" by (simp add: exec_user_start_def)
  from pushes_keep [OF keeps this] run_files_plus [OF ev(1,2) files] have "?I (usercontext s1)" by blast
  then have "?I (usercontext s2)"
    using complete ev(1,2) do_exec_keeps [OF keeps, of s1] by (auto simp: complete_exec_def split: if_splits)
  then show ?thesis by (simp add: list_ex_iff)
qed

theorem exec_plus_status_witness:
  "\<exists>ctl s1 s2. runs_plus ex_launch ctl [''ls''] ex_files [True, True] s1 s2 \<and>
    (exec_failed (usercontext s2) \<longleftrightarrow> (\<exists>ev\<in>set (happenings (usercontext s2)). bad_event ev))"
proof -
  obtain ctl s1 s2 where run: "exec_control (ex_parse_env\<lparr>system_arg_max := 4096\<rparr>) = Ok ctl" "weight [''ls''] \<le> arg_max ctl"
    "length [''ls''] < max_arg_count ctl"
    "\<forall>(fd, rel, base, path)\<in>set ex_files. weight [''ls''] + length path + 1 \<le> arg_max ctl"
    "runs_plus ex_launch ctl [''ls''] ex_files [True, True] s1 s2" by (rule ex_runs_plus)
  from exec_plus_status [OF run(1-3,5)] run(5) show ?thesis by blast
qed

text \<open>C21: \<open>-exec command {} +\<close> gets through: when the words fit the limits, each pathname fits behind them, and
  the system starts every process and reports every child, then all files are processed and the commands that
  are left are run at the end, without an error and without going on for ever, whatever the commands return;
  and every file but at most the last one has been given to a command that ended.\<close>

theorem exec_plus_completes:
  assumes "exec_control E = Ok ctl" and "weight words \<le> arg_max ctl" and "length words < max_arg_count ctl"
    and "\<forall>(fd, rel, base, path)\<in>set files. weight words + length path + 1 \<le> arg_max ctl" and "answers_all L"
  shows "\<exists>s1 s2. runs_plus L ctl words files (replicate (length files) True) s1 s2 \<and>
    (\<forall>(fd, rel, base, path)\<in>set (butlast files). \<exists>argv\<in>set (commands (usercontext s2)). c_string path \<in> set argv)"
proof -
  obtain s1 s2 where run: "runs_plus L ctl words files (replicate (length files) True) s1 s2"
    using runs_plus_exists [OF assms] by blast
  let ?names = "map (\<lambda>(fd, rel, base, path). c_string path) files"
  from runs_plus_log [OF assms(1-4) run] obtain chunks lost where
    c: "commands (usercontext s2) = map (\<lambda>c. map c_string words @ c) chunks" "concat chunks @ lost = ?names" "length lost \<le> 1"
    by (auto split: if_splits)
  have "butlast ?names = butlast (concat chunks @ lost)" using c(2) by simp
  also have "set (butlast (concat chunks @ lost)) \<subseteq> set (concat chunks)"
    using c(3) by (cases lost) (auto dest: in_set_butlastD)
  finally have "set (butlast ?names) \<subseteq> set (concat chunks)" .
  then have "\<forall>(fd, rel, base, path)\<in>set (butlast files). c_string path \<in> set (concat chunks)"
    by (force simp flip: map_butlast)
  then show ?thesis using run c(1) by (intro exI [of _ s1] exI [of _ s2]) fastforce
qed

theorem exec_plus_completes_witness:
  "\<exists>ctl s1 s2. runs_plus ex_launch ctl [''ls''] ex_files [True, True] s1 s2 \<and>
    (\<exists>argv\<in>set (commands (usercontext s2)). ''d/a'' \<in> set argv)"
proof -
  obtain ctl where ctl: "exec_control (ex_parse_env\<lparr>system_arg_max := 4096\<rparr>) = Ok ctl" "arg_max ctl = 2048"
    "max_arg_count ctl = 254" by (rule ex_control)
  have "c_string ''d/a'' = ''d/a''" by code_simp
  then show ?thesis
    using exec_plus_completes [OF ctl(1) _ _ _ ex_launch_answers, of "[''ls'']" ex_files] ctl(2,3)
    by (auto simp: ex_files_def weight_def numeral_2_eq_2)
qed

subsection \<open>The last file\<close>

text \<open>C19: A pathname that does not fit behind those gathered makes \<open>bc_push_arg\<close> run the command for these, and is
  then put into the empty buffer without a note that something is left to be done. When it is the last one,
  nothing is run for it at the end of the program: the file is silently left out.\<close>

theorem exec_plus_loses_last:
  assumes "ev = exec_node ctl Pred_exec True words" and "bc_inv (exec_ctl ev) s"
    and "bc_pending (exec_ctl ev) s \<noteq> []" and "length words + 1 < max_arg_count ctl"
    and "cmd_argv_chars s + length path + 1 > arg_max ctl"
    and "cmd_initial_argv_chars s + length path + 1 \<le> arg_max ctl"
    and "run_predicate L ev fd rel base path s = Ok (r, s1)"
  shows "complete_exec L ev s1 = Ok s1 \<and> bc_pending (exec_ctl ev) s1 = [c_string path] \<and>
    (\<exists>chunks. commands (usercontext s1) =
        commands (usercontext s) @ map (\<lambda>c. bc_initial (exec_ctl ev) s @ c) chunks \<and>
      concat chunks = bc_pending (exec_ctl ev) s)"
proof -
  let ?ctl = "plus_control ctl words" and ?lim = "bc_argc_limit_reached False (plus_control ctl words)"
  have ev: "multiple ev" "\<not> local ev" "exec_ctl ev = ?ctl" by (simp_all add: assms(1))
  define s0 where "s0 = s\<lparr>todo := True\<rparr>"
  have s0: "bc_inv ?ctl s0" "cmd_initial_argv_chars s0 = cmd_initial_argv_chars s" "bc_pending ?ctl s0 = bc_pending ?ctl s"
    using assms(2) ev(3) by (simp_all add: s0_def)
  have wd: "wd_for_exec (usercontext s) = Some Initial_wd"
    using assms(7) ev by (auto simp: run_predicate_def Let_def split: if_splits)
  then have push: "bc_push_arg ?ctl (launch L ev) path (length path + 1) None 0 False s = Ok s1"
    using assms(7) run_predicate_plus [OF ev(1,2) wd] ev(3) by (auto simp: obind_eq_Ok)
  have full: "cmd_argv_chars s0 + (length path + 1) > arg_max ?ctl" using assms(5) by (simp add: s0_def)
  obtain s2 s3 s4 where s2: "(if cmd_argc s0 = initial_argc ?ctl then Exit (Cannot_fit_argument, usercontext s0)
          else if replace_pat ?ctl \<noteq> None \<or>
              exit_if_size_exceeded ?ctl \<and> (lines_per_exec ?ctl \<noteq> 0 \<or> args_per_exec ?ctl \<noteq> 0)
          then Exit (Argument_list_too_long, usercontext s0) else bc_do_exec ?ctl (launch L ev) s0) = Ok s2"
    and s3: "(if ?lim s2 then bc_do_exec ?ctl (launch L ev) s2 else Ok s2) = Ok s3"
    and s4: "bc_append path s3 = Ok s4" and s1: "(if ?lim s4 then bc_do_exec ?ctl (launch L ev) s4 else Ok s4) = Ok s1"
    using push full
    unfolding bc_push_append Let_def if_False obind_eq_Ok s0_def [symmetric] outcome.inject simp_thms if_P [OF full] by blast
  then have exec: "bc_do_exec ?ctl (launch L ev) s0 = Ok s2" by (auto split: if_splits)
  from find_exec.do_exec_log [OF s0(1) _ exec]
  have log: "find_exec.step_log ?ctl s0 [] s2" "bc_pending ?ctl s2 = []" "cmd_argv_chars s2 = cmd_initial_argv_chars s0"
    by (simp_all add: plus_control_def)
  then have inv2: "bc_inv ?ctl s2" by (simp add: find_exec.step_log_def)
  have argc: "cmd_argc s2 = length words" using inv_pending [OF inv2] log(2) inv2 by (auto simp: bc_inv_def)
  then have s3: "s3 = s2" using s3 assms(4) by (simp add: bc_argc_limit_reached_def)
  have "cmd_argv_chars s2 + length path + 1 \<le> arg_max ?ctl" using assms(6) log(3) s0(2) by simp
  from append_ok [OF inv2 this] s4 have s4': "bc_strings s4 = bc_strings s2 @ [c_string path]"
    "usercontext s4 = usercontext s2" "cmd_argc s4 = cmd_argc s2 + 1"
    unfolding s3 by (metis outcome.inject(1))+
  then have "s1 = s4" using s1 argc assms(4) by (simp add: bc_argc_limit_reached_def)
  moreover have "todo s4 = todo s2" using s4 unfolding s3
    by (auto simp: bc_append_def bc_store_def bc_put_def bc_grow_def obind_eq_Ok split: if_splits option.splits)
  moreover have "\<not> todo s2" using exec by (auto simp: bc_do_exec_def obind_eq_Ok bc_clear_args_def)
  ultimately have "complete_exec L ev s1 = Ok s1" "bc_pending ?ctl s1 = [c_string path]" "usercontext s1 = usercontext s2"
    using s4' log(2) inv_length [OF inv2] argc by (simp_all add: complete_exec_def bc_pending_def)
  moreover have "usercontext s0 = usercontext s" "bc_initial ?ctl s0 = bc_initial ?ctl s" by (simp_all add: s0_def)
  ultimately show ?thesis using log(1,2) s0(3) unfolding ev(3) find_exec.step_log_def by auto
qed

text \<open>A buffer of nine bytes with the word \<open>c\<close> and the pathname \<open>aaa\<close>.\<close>

definition ex_small :: bc_control where
  "ex_small = \<lparr>exit_if_size_exceeded = False, posix_arg_size_max = 9, posix_arg_size_min = 9, arg_max = 9,
     max_arg_count = 9, replace_pat = None, initial_argc = 0, lines_per_exec = 0, args_per_exec = 0\<rparr>"

definition ex_gathered :: "exec_user bc_state" where
  "ex_gathered = \<lparr>cmd_argv = [Some 0, Some 2], cmd_argv_alloc = 64,
     argbuf = ''c'' @ [NUL] @ ''aaa'' @ replicate 4 NUL @ ''x'',
     cmd_argv_chars = 6, cmd_initial_argv_chars = 2,
     usercontext = \<lparr>wd_for_exec = Some Initial_wd, last_child_status = Exit_status 0, exec_failed = False, happenings = []\<rparr>,
     todo = True, dir_fd = - 1, largest_successful_arg_count = 0, smallest_failed_arg_count = 0\<rparr>"

declare wait_loop.simps [code]

theorem exec_plus_loses_last_witness:
  "\<exists>r s1. run_predicate ex_launch (exec_node ex_small Pred_exec True [''c'']) 3 ''b'' ''b'' ''bbbb'' ex_gathered = Ok (r, s1) \<and>
    complete_exec ex_launch (exec_node ex_small Pred_exec True [''c'']) s1 = Ok s1 \<and>
    (\<exists>chunks. commands (usercontext s1) = map (\<lambda>c. [''c''] @ c) chunks \<and> concat chunks = [''aaa''])"
proof -
  let ?ev = "exec_node ex_small Pred_exec True [''c'']"
  have "case run_predicate ex_launch ?ev 3 ''b'' ''b'' ''bbbb'' ex_gathered of Ok r \<Rightarrow> True | _ \<Rightarrow> False" by code_simp
  then obtain r s1 where run: "run_predicate ex_launch ?ev 3 ''b'' ''b'' ''bbbb'' ex_gathered = Ok (r, s1)"
    by (auto split: outcome.splits)
  have strs: "bc_strings ex_gathered = [''c'', ''aaa'']" "bc_initial (exec_ctl ?ev) ex_gathered = [''c'']"
    "bc_pending (exec_ctl ?ev) ex_gathered = [''aaa'']" by code_simp+
  have "bc_inv (exec_ctl ?ev) ex_gathered"
    unfolding bc_inv_def strs by (simp add: ex_gathered_def ex_small_def plus_control_def ptr_ok_def string_ends_def string_at_def weight_def)
  moreover have "commands (usercontext ex_gathered) = []" by code_simp
  moreover have "length [''c''] + 1 < max_arg_count ex_small"
    "cmd_argv_chars ex_gathered + length ''bbbb'' + 1 > arg_max ex_small"
    "cmd_initial_argv_chars ex_gathered + length ''bbbb'' + 1 \<le> arg_max ex_small"
    by (simp_all add: ex_small_def ex_gathered_def)
  ultimately show ?thesis using exec_plus_loses_last [OF refl _ _ _ _ _ run] run strs by (simp del: exec_node_simps)
qed

subsection \<open>One command for each file\<close>

text \<open>C20: With \<open>;\<close> each of \<open>-exec\<close>, \<open>-execdir\<close>, \<open>-ok\<close> and \<open>-okdir\<close> runs one command for a file: its words,
  each \<open>{}\<close> in them replaced by the pathname, or by the base name with \<open>./\<close> before it. The predicate is
  true if and only if that command ended with the status 0, and the buffer is empty again.\<close>

theorem exec_runs_one_command:
  assumes "ev = exec_node ctl func False words" and "empty_buffer ctl s" and "initial_argc ctl = 0"
    and "length words < max_arg_count ctl" and "\<forall>h. wait_loop (answers L h) 0 \<noteq> Some False"
    and "run_predicate L ev fd rel base path s = Ok (r, s')"
  shows "let target = (if is_exec_in_local_dir func then if take 1 base = ''/'' then base else ''./'' @ base else path);
      argv = map (\<lambda>w. c_string (replace_all ''{}'' target w)) words
    in \<exists>wd st. happenings (usercontext s') = happenings (usercontext s) @ [Ran wd argv st] \<and>
      (r \<longleftrightarrow> \<not> failed st) \<and> empty_buffer ctl s'"
proof -
  define local_ctl where "local_ctl = exec_ctl ev"
  define target where "target = (if is_exec_in_local_dir func
    then if take 1 base = ''/'' then base else ''./'' @ base else path)"
  have ctl: "replace_pat local_ctl = Some ''{}''" "args_per_exec local_ctl = 0" "initial_argc local_ctl = 0"
    "max_arg_count local_ctl = max_arg_count ctl" "arg_max local_ctl = arg_max ctl"
    using assms(3) by (simp_all add: local_ctl_def assms(1) exec_node_def)
  have ev: "\<not> multiple ev" "local ev = is_exec_in_local_dir func" "replace_vec ev = words" by (simp_all add: assms(1))
  define cb where "cb = launch L ev"
  define prefix where "prefix = (if local ev \<and> take 1 (if local ev then base else path) \<noteq> ''/'' then Some ''./'' else None)"
  have insert: "bc_do_insert local_ctl cb w prefix (if local ev then base else path) False =
      bc_do_insert local_ctl cb w None target False" for w
    by (simp add: prefix_def target_def ev(2) insert_prefix)
  obtain ok s0 where recorded: "(if local ev then record_exec_dir L fd rel s else (True, s)) = (ok, s0)" by fastforce
  then have s0: "cmd_argv s0 = cmd_argv s" "argbuf s0 = argbuf s" "cmd_argv_chars s0 = cmd_argv_chars s"
    "cmd_initial_argv_chars s0 = cmd_initial_argv_chars s" "cmd_argv_alloc s0 = cmd_argv_alloc s"
    "happenings (usercontext s0) = happenings (usercontext s)"
    by (auto simp: record_exec_dir_def Let_def split: if_splits)
  obtain s1 s2 where s1: "ofold (\<lambda>w. bc_do_insert local_ctl (launch L ev) w None target False) words s0 = Ok s1"
    and s2: "bc_do_exec local_ctl (launch L ev) s1 = Ok s2"
    and r: "s' = s2" "r \<longleftrightarrow> \<not> failed (last_child_status (usercontext s2))"
    using assms(6) unfolding run_predicate_def recorded Let_def prod.case prefix_def [symmetric] cb_def [symmetric]
      local_ctl_def [symmetric] ev(3) insert
    by (auto simp: obind_eq_Ok ev(1) split: if_splits)
  have empty: "line_inv local_ctl s0" "bc_strings s0 = []" "cmd_argc s0 = 0" "cmd_initial_argv_chars s0 = 0"
    "length (argbuf s0) = arg_max ctl + 1"
    using assms(2) s0 ctl
    by (simp_all add: empty_buffer_def line_inv_def bc_inv_def bc_strings_def bc_initial_def strings_of_def)
  let ?argv = "map (\<lambda>w. c_string (replace_all ''{}'' target w)) words"
  from inserts_replaced [OF s1 empty(1) ctl(1) _ ctl(2)] empty assms(4) ctl(4)
  have 1: "line_inv local_ctl s1" "bc_strings s1 = ?argv" "usercontext s1 = usercontext s0"
    "cmd_initial_argv_chars s1 = 0" by simp_all
  from exec_whole_call [OF launch_accepts [OF assms(5)] 1(1) ctl(3) s2]
  obtain u where u: "launch L ev ?argv ?argv (usercontext s0) = Ok (True, u)" "usercontext s2 = u"
    "argbuf s2 = argbuf s1" "cmd_argv s2 = []" "cmd_argv_chars s2 = 0" "cmd_initial_argv_chars s2 = 0"
    using 1 by auto
  have "length (argbuf s1) = arg_max ctl + 1" using 1(1) ctl(5) by (simp add: line_inv_def bc_inv_def)
  then have "empty_buffer ctl s'" using u r(1) by (simp add: empty_buffer_def)
  moreover obtain wd st where "u = (usercontext s0)\<lparr>happenings := happenings (usercontext s0) @ [Ran wd ?argv st],
      last_child_status := st, exec_failed := (exec_failed (usercontext s0) \<or> multiple ev \<and> failed st)\<rparr>"
    by (rule launch_cases [OF u(1)]) auto
  ultimately show ?thesis using r u(2) s0(6) by (auto simp: Let_def target_def)
qed

theorem exec_runs_one_command_witness:
  "\<exists>r s'. run_predicate ex_launch (exec_node ex_small Pred_execdir False [''c'', ''{}'']) 3 ''b'' ''b'' ''d/b''
      (ex_gathered\<lparr>cmd_argv := [], cmd_argv_chars := 0, cmd_initial_argv_chars := 0\<rparr>) = Ok (r, s') \<and>
    (\<exists>wd st. happenings (usercontext s') = [Ran wd [''c'', ''./b''] st] \<and> (r \<longleftrightarrow> \<not> failed st))"
proof -
  let ?ev = "exec_node ex_small Pred_execdir False [''c'', ''{}'']"
  let ?s = "ex_gathered\<lparr>cmd_argv := [], cmd_argv_chars := 0, cmd_initial_argv_chars := 0\<rparr>"
  have "case run_predicate ex_launch ?ev 3 ''b'' ''b'' ''d/b'' ?s of Ok r \<Rightarrow> True | _ \<Rightarrow> False" by code_simp
  then obtain r s' where run: "run_predicate ex_launch ?ev 3 ''b'' ''b'' ''d/b'' ?s = Ok (r, s')"
    by (auto split: outcome.splits)
  have "map (\<lambda>w. c_string (replace_all ''{}'' ''./b'' w)) [''c'', ''{}''] = [''c'', ''./b'']" by code_simp
  moreover have "empty_buffer ex_small ?s" "happenings (usercontext ?s) = []"
    by (simp_all add: empty_buffer_def ex_gathered_def ex_small_def)
  moreover have "\<forall>h. wait_loop (answers ex_launch h) 0 \<noteq> Some False"
    using ex_launch_answers by (simp add: answers_all_def)
  ultimately show ?thesis
    using exec_runs_one_command [OF refl _ _ _ _ run] run by (auto simp: ex_small_def)
qed

subsection \<open>The prefix of -execdir\<close>

text \<open>C39: With \<open>-execdir command {} +\<close> the prefix \<open>./\<close> is written past the end of the buffer when the base name
  just fits behind the names gathered: \<open>bc_push_arg\<close> compares the size without the prefix.\<close>

theorem execdir_overflow:
  assumes "ev = exec_node ctl Pred_execdir True words" and "length (argbuf s) = arg_max ctl + 1"
    and "cmd_argc s < max_arg_count ctl" and "NUL \<notin> set base" and "take 1 base \<noteq> ''/''"
    and "cmd_argv_chars s + length base + 1 = arg_max ctl" and "todo s"
  shows "run_predicate L ev fd rel base path s = Undef"
proof -
  let ?ctl = "plus_control ctl words"
  have ev: "multiple ev" "local ev" "exec_ctl ev = ?ctl" by (simp_all add: assms(1))
  have base: "c_string base = base" by (rule c_string_id [OF assms(4)])
  have too_long: "bc_put base t = Undef" if "length (argbuf t) = length (argbuf s)" "cmd_argv_chars t = cmd_argv_chars s + 2"
    for t :: "exec_user bc_state"
    using that assms(2,6) by (simp add: bc_put_def strcpy_def base)
  have "bc_push_arg ?ctl (launch L ev) base (length base + 1) (Some ''./'') 2 False s = Undef"
  proof -
    define s0 where "s0 = s\<lparr>todo := True\<rparr>"
    have s0: "argbuf s0 = argbuf s" "cmd_argv_chars s0 = cmd_argv_chars s" "cmd_argv s0 = cmd_argv s" by (simp_all add: s0_def)
    have fits: "\<not> cmd_argv_chars s0 + (length base + 1) > arg_max ?ctl" using assms(6) s0 by simp
    have lim: "\<not> bc_argc_limit_reached False ?ctl s0" using assms(3) s0 by (simp add: bc_argc_limit_reached_def)
    have "obind (bc_store (Some (cmd_argv_chars s0)) (bc_grow s0)) (\<lambda>t.
      obind (obind (bc_put ''./'' t) (\<lambda>s. Ok (s\<lparr>cmd_argv_chars := cmd_argv_chars s + 2\<rparr>))) (\<lambda>t.
      obind (bc_put base t) g)) = Undef" for g :: "exec_user bc_state \<Rightarrow> (exec_user, exec_user bc_state) bc_result"
    proof (cases "bc_store (Some (cmd_argv_chars s0)) (bc_grow s0)")
      case (Ok t)
      then have t: "argbuf t = argbuf s" "cmd_argv_chars t = cmd_argv_chars s"
        using s0 by (auto simp: bc_store_def split: if_splits)
      show ?thesis
      proof (cases "strcpy (cmd_argv_chars t) ''./'' (argbuf t)")
        case (Some buf)
        then show ?thesis
          using too_long [of "t\<lparr>argbuf := buf, cmd_argv_chars := cmd_argv_chars t + 2\<rparr>"] strcpy_length [OF Some] t Ok
          by (simp add: bc_put_def)
      qed (simp add: bc_put_def Ok)
    qed (simp_all add: bc_store_def split: if_splits)
    then show ?thesis
      unfolding bc_push_arg_def Let_def if_False s0_def [symmetric] if_not_P [OF fits] obind.simps if_not_P [OF lim]
        option.case by blast
  qed
  then show ?thesis using ev assms(5,7) by (simp add: run_predicate_def record_exec_dir_def Let_def numeral_2_eq_2)
qed

theorem execdir_overflow_witness:
  "run_predicate ex_launch (exec_node ex_small Pred_execdir True [''c'']) 3 ''bb'' ''bb'' ''d/bb'' ex_gathered = Undef"
  by (rule execdir_overflow [OF refl]) (simp_all add: ex_gathered_def ex_small_def)


end
