(* ===== verification/LibTheorems.thy ===== *)
theory LibTheorems
  imports LibUtil
begin

text \<open>
  What the functions of \<open>lib/\<close> promise: \<open>next_element\<close> splits a path, a growing buffer is large enough
  and keeps its contents, and a name that was quoted for \<open>-ls\<close> can be read back.
\<close>

subsection \<open>The elements of a path\<close>

text \<open>A string cut at every occurrence of a character; there is one more element than there are cuts.\<close>

fun cut_at :: "char \<Rightarrow> string \<Rightarrow> string list" where
  "cut_at d [] = [[]]"
| "cut_at d (x # s) =
     (if x = d then [] # cut_at d s else (case cut_at d s of [] \<Rightarrow> [[x]] | e # es \<Rightarrow> (x # e) # es))"

lemma cut_at_not_Nil [simp]: "cut_at d s \<noteq> []"
  by (induction s) (auto split: list.splits)

lemma cut_at_span: "cut_at d s = takeWhile (\<lambda>x. x \<noteq> d) s #
   (case dropWhile (\<lambda>x. x \<noteq> d) s of [] \<Rightarrow> [] | x # r \<Rightarrow> cut_at d r)"
  by (induction s) auto

lemma drop_takeWhile: "drop (length (takeWhile P s)) s = dropWhile P s"
  by (metis dropWhile_eq_drop)

text \<open>What a state has left: after a colon there is one more element, which may be empty.\<close>

definition left_elements :: "path_state \<Rightarrow> string list" where
  "left_elements st = (if path_end st = [] \<and> \<not> final_colon st then [] else cut_at (CHR '':'') (path_end st))"

lemma next_element_cut:
  "left_elements st = [] \<Longrightarrow> next_element curdir_ok st = (None, st)"
  "left_elements st = e # es \<Longrightarrow> \<exists>st'. left_elements st' = es \<and>
     next_element curdir_ok st = (Some (if e = [] then (if curdir_ok then ''.'' else []) else e), st')"
proof -
  let ?P = "\<lambda>x. x \<noteq> CHR '':''"
  show "left_elements st = [] \<Longrightarrow> next_element curdir_ok st = (None, st)"
    by (simp add: left_elements_def next_element_def split: if_splits)
  assume l: "left_elements st = e # es"
  show "\<exists>st'. left_elements st' = es \<and>
     next_element curdir_ok st = (Some (if e = [] then (if curdir_ok then ''.'' else []) else e), st')"
  proof (cases "path_end st = []")
    case True
    then have "final_colon st" "e = []" "es = []" using l by (simp_all add: left_elements_def split: if_splits)
    then show ?thesis using True by (simp add: next_element_def left_elements_def)
  next
    case False
    have "e # es = cut_at (CHR '':'') (path_end st)" using l False by (simp add: left_elements_def)
    then have e: "e = takeWhile ?P (path_end st)"
      and es: "es = (case dropWhile ?P (path_end st) of [] \<Rightarrow> [] | x # r \<Rightarrow> cut_at (CHR '':'') r)"
      by (simp_all add: cut_at_span [of "CHR '':''" "path_end st"])
    show ?thesis
    proof (cases "dropWhile ?P (path_end st)")
      case Nil
      then have "e \<noteq> []" using e False by (metis append_Nil takeWhile_dropWhile_id)
      moreover from Nil have "es = []" using es by (simp only: list.case)
      ultimately show ?thesis using Nil False e
        by (simp add: next_element_def Let_def drop_takeWhile left_elements_def)
    next
      case (Cons x r)
      then have "es = cut_at (CHR '':'') r" using es by simp
      moreover have "e = [] \<Longrightarrow> path_end st = x # r" using Cons e by (metis append_Nil takeWhile_dropWhile_id)
      ultimately show ?thesis using Cons False e
        by (auto simp: next_element_def Let_def drop_takeWhile left_elements_def)
    qed
  qed
qed

lemma path_elements_left:
  "path_elements curdir_ok st = map (\<lambda>e. if e = [] then (if curdir_ok then ''.'' else []) else e) (left_elements st)"
proof (induction curdir_ok st rule: path_elements.induct)
  case (1 curdir_ok st)
  show ?case
  proof (cases "left_elements st")
    case Nil
    then show ?thesis using next_element_cut(1) [of st curdir_ok] by (subst path_elements.simps) simp
  next
    case (Cons e es)
    then obtain st' where n: "next_element curdir_ok st =
        (Some (if e = [] then (if curdir_ok then ''.'' else []) else e), st')" and "left_elements st' = es"
      using next_element_cut(2) [of st e es curdir_ok] by blast
    then show ?thesis using 1 [OF n [symmetric] refl] Cons
      by (subst path_elements.simps) (simp add: n)
  qed
qed

text \<open>\<open>next_element\<close> gives the elements of a path that is not empty in order: the path cut at its colons,
  with the current directory in place of each empty element, the one after a colon at the end too.\<close>

lemma next_element_cuts:
  "path_elements curdir_ok (init_path path) =
     (if c_string path = [] then []
      else map (\<lambda>e. if e = [] then (if curdir_ok then ''.'' else []) else e) (cut_at (CHR '':'') (c_string path)))"
  by (simp add: path_elements_left left_elements_def init_path_def)

subsection \<open>Growing buffers\<close>

lemma double_word:
  fixes n :: "64 word"
  assumes "\<not> 2 * n < n"
  shows "unat (2 * n) = 2 * unat n"
proof (cases "2 * unat n < 2 ^ 64")
  case True
  then show ?thesis by (simp add: unat_word_ariths)
next
  case False
  have u: "unat n < 2 ^ 64" using unsigned_less [of n, where ?'a = nat] by simp
  have "unat (2 * n) = 2 * unat n - 2 ^ 64"
    using False u by (simp add: unat_word_ariths le_mod_geq)
  then have "2 * n < n" using u False unfolding word_less_nat_alt by linarith
  then show ?thesis using assms by contradiction
qed

lemma double_up_enough:
  assumes "n \<noteq> 0"
  shows "\<exists>m. double_up n wanted = Some m \<and> wanted \<le> m \<and> n \<le> m"
  using assms
proof (induction "unat wanted - unat n" arbitrary: n rule: less_induct)
  case less
  show ?case
  proof (cases "n < wanted")
    case False
    then show ?thesis by (subst double_up.simps) simp
  next
    case True
    show ?thesis
    proof (cases "2 * n < n")
      case True
      with \<open>n < wanted\<close> show ?thesis by (subst double_up.simps) auto
    next
      case False
      have pos: "0 < unat n" using less.prems by (simp add: unat_gt_0)
      have d: "unat (2 * n) = 2 * unat n" by (rule double_word [OF False])
      have lt: "unat n < unat wanted" using True by (simp add: word_less_nat_alt)
      have "unat wanted - unat (2 * n) < unat wanted - unat n" using d pos lt by linarith
      moreover have "2 * n \<noteq> 0" using d pos by (metis mult_is_0 not_gr_zero unat_0 zero_neq_numeral)
      ultimately obtain m where "double_up (2 * n) wanted = Some m" "wanted \<le> m" "2 * n \<le> m"
        using less.hyps by blast
      moreover have "n \<le> 2 * n" using False by simp
      ultimately show ?thesis using True False by (subst double_up.simps) auto
    qed
  qed
qed

text \<open>A buffer and the size that is recorded for it.\<close>

definition buffer_ok :: "string option \<Rightarrow> 64 word \<Rightarrow> bool" where
  "buffer_ok existing allocated \<longleftrightarrow>
     (case existing of None \<Rightarrow> allocated = 0 | Some b \<Rightarrow> allocated \<noteq> 0 \<and> length b = unat allocated)"

text \<open>\<open>extendbuf\<close> ends for every size that is wanted, however large: the new size is the wanted one at
  least, the buffer has it, and it begins with what was in the old one.\<close>

lemma extendbuf_extends:
  assumes "buffer_ok existing allocated" and "0 < wanted"
  shows "\<exists>buf n. extendbuf junk existing wanted allocated = Ok (buf, n) \<and> wanted \<le> n \<and> buffer_ok (Some buf) n \<and>
     (\<forall>b. existing = Some b \<longrightarrow> take (length b) buf = b)"
proof -
  define size0 where "size0 = (if allocated = 0 then 16 else allocated)"
  have "size0 \<noteq> 0" by (simp add: size0_def)
  then obtain n where n: "double_up size0 wanted = Some n" "wanted \<le> n" "size0 \<le> n"
    using double_up_enough by blast
  have dec: "decide_size allocated wanted = Some n" using n(1) by (simp add: decide_size_def size0_def)
  have n0: "n \<noteq> 0" using n(2) assms(2) by auto
  show ?thesis
  proof (cases existing)
    case None
    then show ?thesis using assms dec n(2) n0
      by (auto simp: extendbuf_def buffer_ok_def Let_def)
  next
    case (Some b)
    then have b: "allocated \<noteq> 0" "length b = unat allocated" using assms(1) by (simp_all add: buffer_ok_def)
    then have "length b \<le> unat n" using n(3) by (simp add: size0_def word_le_nat_alt)
    then show ?thesis using Some assms(2) dec n(2) n0 b
      by (auto simp: extendbuf_def buffer_ok_def Let_def)
  qed
qed

subsection \<open>Names in lists\<close>

text \<open>How a reader takes back what \<open>print_name_with_quoting\<close> wrote.\<close>

definition octal_of :: "char \<Rightarrow> char \<Rightarrow> char \<Rightarrow> char" where
  "octal_of a b c' = char_of ((of_char a - 48) * 64 + (of_char b - 48) * 8 + (of_char c' - 48) :: nat)"

function unquote_name :: "string \<Rightarrow> string" where
  "unquote_name s =
     (case s of
        [] \<Rightarrow> []
      | x # r \<Rightarrow>
          (if x \<noteq> CHR 0x5C then x # unquote_name r
           else (case r of
                   [] \<Rightarrow> []
                 | y # t \<Rightarrow>
                     (if y \<in> {CHR 0x5C, CHR '' '', CHR 0x22} then y # unquote_name t
                      else if y = CHR ''n'' then CHR 0x0A # unquote_name t
                      else if y = CHR ''b'' then CHR 0x08 # unquote_name t
                      else if y = CHR ''r'' then CHR 0x0D # unquote_name t
                      else if y = CHR ''t'' then CHR 0x09 # unquote_name t
                      else if y = CHR ''f'' then CHR 0x0C # unquote_name t
                      else (case t of p # q # u \<Rightarrow> octal_of y p q # unquote_name u | _ \<Rightarrow> [])))))"
  by pat_completeness auto

termination unquote_name
  by (relation "measure length") auto

declare unquote_name.simps [simp del]

lemma unquote_simps:
  "unquote_name [] = []"
  "x \<noteq> CHR 0x5C \<Longrightarrow> unquote_name (x # r) = x # unquote_name r"
  by (subst unquote_name.simps, simp)+

lemma unquote_backslash:
  "unquote_name (CHR 0x5C # y # t) =
     (if y \<in> {CHR 0x5C, CHR '' '', CHR 0x22} then y # unquote_name t
      else if y = CHR ''n'' then CHR 0x0A # unquote_name t
      else if y = CHR ''b'' then CHR 0x08 # unquote_name t
      else if y = CHR ''r'' then CHR 0x0D # unquote_name t
      else if y = CHR ''t'' then CHR 0x09 # unquote_name t
      else if y = CHR ''f'' then CHR 0x0C # unquote_name t
      else (case t of p # q # u \<Rightarrow> octal_of y p q # unquote_name u | _ \<Rightarrow> []))"
  by (subst unquote_name.simps) (simp only: list.case if_False refl not_True_eq_False)

lemma of_octal_digit: "of_char (char_of (48 + k mod 8 :: nat)) = (48 + k mod 8 :: nat)"
proof -
  have "k mod 8 < 8" by simp
  then have "(48 + k mod 8) mod 256 = 48 + k mod 8" by (intro mod_less) linarith
  then show ?thesis by (simp add: of_char_of)
qed

lemma octal_digit:
  assumes "x = char_of (48 + k mod 8 :: nat)"
  shows "x \<noteq> CHR 0x5C" "x \<notin> {CHR '' '', CHR 0x22}" "x \<notin> {CHR ''n'', CHR ''b'', CHR ''r'', CHR ''t'', CHR ''f''}"
proof -
  have "k mod 8 < 8" by simp
  then have "of_char x < (56 :: nat)" "48 \<le> (of_char x :: nat)" unfolding assms of_octal_digit by linarith+
  then show "x \<noteq> CHR 0x5C" "x \<notin> {CHR '' '', CHR 0x22}" "x \<notin> {CHR ''n'', CHR ''b'', CHR ''r'', CHR ''t'', CHR ''f''}"
    by auto
qed

lemma octal3_inverse:
  fixes n :: nat
  assumes "n < 256"
  shows "octal_of (char_of (48 + n div 64 mod 8)) (char_of (48 + n div 8 mod 8)) (char_of (48 + n mod 8)) = char_of n"
proof -
  have "n div 64 = n div 8 div 8" by (simp add: div_mult2_eq [of n 8 8, symmetric])
  then have "n div 64 * 64 + n div 8 mod 8 * 8 + n mod 8 = n"
    using div_mult_mod_eq [of "n div 8" 8] div_mult_mod_eq [of n 8] by linarith
  moreover have "n div 64 mod 8 = n div 64" using assms by (intro mod_less) simp
  ultimately show ?thesis unfolding octal_of_def of_octal_digit by simp
qed

lemma unquote_quote_char: "unquote_name (quote_char x @ r) = x # unquote_name r"
proof -
  let ?n = "of_char x :: nat"
  consider "?n \<in> {92, 10, 8, 13, 9, 12, 32, 34}" | "?n \<notin> {92, 10, 8, 13, 9, 12, 32, 34}" "32 < ?n \<and> ?n < 127"
    | "?n \<notin> {92, 10, 8, 13, 9, 12, 32, 34}" "\<not> (32 < ?n \<and> ?n < 127)" by blast
  then show ?thesis
  proof cases
    case 1
    have "x = char_of ?n" by simp
    moreover have "char_of (92 :: nat) = CHR 0x5C" "char_of (10 :: nat) = CHR 0x0A" "char_of (8 :: nat) = CHR 0x08"
      "char_of (13 :: nat) = CHR 0x0D" "char_of (9 :: nat) = CHR 0x09" "char_of (12 :: nat) = CHR 0x0C"
      "char_of (32 :: nat) = CHR '' ''" "char_of (34 :: nat) = CHR 0x22" by code_simp+
    ultimately have "x = CHR 0x5C \<or> x = CHR 0x0A \<or> x = CHR 0x08 \<or> x = CHR 0x0D \<or> x = CHR 0x09 \<or>
        x = CHR 0x0C \<or> x = CHR '' '' \<or> x = CHR 0x22"
      using 1 by (elim insertE) simp_all
    then show ?thesis
      by (elim disjE) (simp_all add: quote_char_def Let_def unquote_backslash)
  next
    case 2
    then have "x \<noteq> CHR 0x5C" by auto
    then show ?thesis using 2 by (simp add: quote_char_def Let_def unquote_simps)
  next
    case 3
    let ?a = "char_of (48 + ?n div 64 mod 8)"
    note a = octal_digit [OF refl, of "?n div 64"]
    have "quote_char x = CHR 0x5C # ?a # char_of (48 + ?n div 8 mod 8) # char_of (48 + ?n mod 8) # []"
      using 3 by (simp add: quote_char_def Let_def octal3_def)
    moreover have "octal_of ?a (char_of (48 + ?n div 8 mod 8)) (char_of (48 + ?n mod 8)) = x"
      using octal3_inverse [of ?n] by simp
    ultimately show ?thesis using a by (simp add: unquote_backslash)
  qed
qed

text \<open>C36: What \<open>-ls\<close> prints for a name can be read back: no two names are printed alike, whatever control
  characters, blanks, backslashes or bytes above 127 they have.\<close>

theorem quoted_name_reads_back: "unquote_name (print_name False name) = c_string name"
proof -
  have "unquote_name (concat (map quote_char s)) = s" for s
    by (induction s) (simp_all add: unquote_simps(1) unquote_quote_char)
  then show ?thesis by (simp add: print_name_def print_name_with_quoting_def)
qed

end
