(* ===== verification/FdLeak.thy ===== *)
theory FdLeak
  imports LibTheorems
begin

unbundle bit_operations_syntax

text \<open>
  The check for leaking file descriptors (\<open>lib/fdleak.c\<close>): which descriptors a child process would inherit is
  noted at the start and compared at the end, and \<open>open_cloexec\<close> opens files that no child inherits.
\<close>

subsection \<open>The largest descriptor\<close>

text \<open>
  What the system answers: the entries of \<open>/proc/self/fd\<close> in the order of \<open>readdir\<close>, or None when it cannot
  be opened; the limits; the \<open>revents\<close> of \<open>poll\<close>, or None when it fails; the flags of a descriptor.
  \<open>getrlimit\<close> is there, None when it fails, and \<open>rlim_t\<close> has 64 bits.
\<close>

record fd_system =
  proc_self_fd :: "string list option"
  sysconf_open_max :: int
  rlimit_nofile :: "64 word option"
  poll :: "int list \<Rightarrow> int list option"
  fcntl_getfd :: "int \<Rightarrow> int"

text \<open>How the program ends: a strange entry in \<open>/proc/self/fd\<close>, or the message about a leak and the failed
  assertion behind it.\<close>

datatype (plugins only: code size) fd_error = Strange_entry atoi_error | Will_leak int

abbreviation (input) POLLNVAL :: int where "POLLNVAL \<equiv> 32"
abbreviation (input) FD_CLOEXEC :: int where "FD_CLOEXEC \<equiv> 1"
abbreviation (input) INT_MAX :: int where "INT_MAX \<equiv> 2147483647"
abbreviation (input) POSIX_OPEN_MAX :: int where "POSIX_OPEN_MAX \<equiv> 20"
abbreviation (input) RLIM_INFINITY :: "64 word" where "RLIM_INFINITY \<equiv> - 1"

definition char_at :: "string \<Rightarrow> nat \<Rightarrow> char" where
  "char_at s i = (if i < length s then s ! i else NUL)"

definition names_fd :: "string \<Rightarrow> bool" where
  "names_fd d_name \<longleftrightarrow> char_at d_name 0 \<noteq> CHR ''.'' \<or>
     (char_at d_name 0 \<noteq> NUL \<and> char_at d_name 1 \<noteq> NUL \<and> char_at d_name 1 \<noteq> CHR ''.'')"

fun read_fd_names :: "string list \<Rightarrow> int \<Rightarrow> bool \<Rightarrow> (fd_error, int \<times> bool) outcome" where
  "read_fd_names [] maxfd good = Ok (maxfd, good)"
| "read_fd_names (d_name # names) maxfd good =
     (if names_fd d_name then
        (case safe_atoi d_name of
           Ok fd \<Rightarrow> read_fd_names names (if fd > maxfd then fd else maxfd) True
         | Exit e \<Rightarrow> Exit (Strange_entry e)
         | Undef \<Rightarrow> Undef
         | Diverge \<Rightarrow> Diverge)
      else read_fd_names names maxfd good)"

definition get_proc_max_fd :: "fd_system \<Rightarrow> (fd_error, int) outcome" where
  "get_proc_max_fd S =
     (case proc_self_fd S of
        None \<Rightarrow> Ok (- 1)
      | Some names \<Rightarrow>
          obind (read_fd_names names (- 1) False) (\<lambda>(maxfd, good). Ok (if good then maxfd else - 1)))"

definition get_max_fd :: "fd_system \<Rightarrow> (fd_error, int) outcome" where
  "get_max_fd S =
     obind (get_proc_max_fd S) (\<lambda>open_max.
       if open_max \<ge> 0 then Ok open_max
       else
         (let open_max = (if sysconf_open_max S = - 1 then POSIX_OPEN_MAX else sysconf_open_max S)
          in case rlimit_nofile S of
               None \<Rightarrow> Ok open_max
             | Some rlim_cur \<Rightarrow>
                 if rlim_cur = RLIM_INFINITY then Ok open_max else Ok (sint (ucast rlim_cur :: 32 word))))"

subsection \<open>Visiting the open descriptors\<close>

text \<open>A callback gets a descriptor and its context, and gives 0 to go on.\<close>

type_synonym 'c fd_callback = "int \<Rightarrow> 'c \<Rightarrow> (fd_error, int \<times> 'c) outcome"

fun visit_polled :: "'c fd_callback \<Rightarrow> (int \<times> int) list \<Rightarrow> 'c \<Rightarrow> (fd_error, int \<times> 'c) outcome" where
  "visit_polled callback [] ctx = Ok (0, ctx)"
| "visit_polled callback ((fd, revents) # pf) ctx =
     (if revents \<noteq> POLLNVAL then
        obind (callback fd ctx) (\<lambda>(rv, ctx).
          if rv \<noteq> 0 then Ok (rv, ctx) else visit_polled callback pf ctx)
      else visit_polled callback pf ctx)"

function visit_open_fds :: "fd_system \<Rightarrow> int \<Rightarrow> int \<Rightarrow> 'c fd_callback \<Rightarrow> 'c \<Rightarrow> (fd_error, int \<times> 'c) outcome" where
  "visit_open_fds S fd_min fd_max callback ctx =
     (if fd_min < fd_max then
        (let limit = (if fd_max - fd_min > 64 then 64 else fd_max - fd_min);
             fds = [fd_min..fd_min + limit - 1]
         in case poll S fds of
              None \<Rightarrow> Ok (- 1, ctx)
            | Some revents \<Rightarrow>
                obind (visit_polled callback (zip fds revents) ctx) (\<lambda>(rv, ctx).
                  if rv \<noteq> 0 then Ok (rv, ctx)
                  else visit_open_fds S (fd_min + limit) fd_max callback ctx))
      else Ok (0, ctx))"
  by pat_completeness auto

termination visit_open_fds
  by (relation "measure (\<lambda>(S, fd_min, fd_max, callback, ctx). nat (fd_max - fd_min))") auto

declare visit_open_fds.simps [simp del]

definition fd_is_cloexec :: "fd_system \<Rightarrow> int \<Rightarrow> bool" where
  "fd_is_cloexec S fd \<longleftrightarrow> fcntl_getfd S fd AND FD_CLOEXEC \<noteq> 0"

subsection \<open>Remembering\<close>

text \<open>An \<open>int\<close> has four bytes, the lowest one first. New memory holds \<open>junk\<close>.\<close>

definition int_bytes :: "int \<Rightarrow> string" where
  "int_bytes n = map (\<lambda>k. char_of (nat (n mod 2 ^ 32) div 256 ^ k mod 256)) [0, 1, 2, 3]"

definition bytes_int :: "string \<Rightarrow> int" where
  "bytes_int b =
     (let n = (\<Sum>k\<leftarrow>[0, 1, 2, 3]. (of_char (b ! k) :: nat) * 256 ^ k)
      in if n < 2 ^ 31 then int n else int n - 2 ^ 32)"

definition store_int :: "string \<Rightarrow> nat \<Rightarrow> int \<Rightarrow> ('e, string) outcome" where
  "store_int buf k n =
     (if 4 * k + 4 \<le> length buf then Ok (take (4 * k) buf @ int_bytes n @ drop (4 * k + 4) buf) else Undef)"

definition load_int :: "string option \<Rightarrow> nat \<Rightarrow> ('e, int) outcome" where
  "load_int buf k =
     (case buf of
        None \<Rightarrow> Undef
      | Some b \<Rightarrow> if 4 * k + 4 \<le> length b then Ok (bytes_int (take 4 (drop (4 * k) b))) else Undef)"

record remember_fd_context =
  rc_buf :: "string option"
  rc_used :: nat
  rc_allocated :: "64 word"

definition remember_fd_if_non_cloexec :: "(nat \<Rightarrow> char) \<Rightarrow> fd_system \<Rightarrow> remember_fd_context fd_callback" where
  "remember_fd_if_non_cloexec junk S fd p =
     (if fd_is_cloexec S fd then Ok (0, p)
      else
        (case extendbuf junk (rc_buf p) (of_nat (4 * (rc_used p + 1))) (rc_allocated p) of
           Ok (newbuf, allocated) \<Rightarrow>
             obind (store_int newbuf (rc_used p) fd) (\<lambda>newbuf.
               Ok (0, p\<lparr>rc_buf := Some newbuf, rc_used := rc_used p + 1, rc_allocated := allocated\<rparr>))
         | Exit e \<Rightarrow> Undef
         | Undef \<Rightarrow> Undef
         | Diverge \<Rightarrow> Diverge))"

text \<open>The static variables \<open>non_cloexec_fds\<close> and \<open>num_cloexec_fds\<close>.\<close>

type_synonym fd_snapshot = "string option \<times> nat"

definition remember_non_cloexec_fds :: "(nat \<Rightarrow> char) \<Rightarrow> fd_system \<Rightarrow> (fd_error, fd_snapshot) outcome" where
  "remember_non_cloexec_fds junk S =
     obind (get_max_fd S) (\<lambda>max_fd.
       let max_fd = (if max_fd < INT_MAX then max_fd + 1 else max_fd);
           cb_data = \<lparr>rc_buf = None, rc_used = 0, rc_allocated = 0\<rparr>
       in obind (visit_open_fds S 0 max_fd (remember_fd_if_non_cloexec junk S) cb_data) (\<lambda>(rv, cb_data).
            Ok (rc_buf cb_data, rc_used cb_data)))"

definition forget_non_cloexec_fds :: "fd_snapshot \<Rightarrow> fd_snapshot" where
  "forget_non_cloexec_fds snapshot = (None, 0)"

subsection \<open>Finding a leak\<close>

record fd_leak_context =
  prev_buf :: "string option"
  lc_used :: nat
  lookup_pos :: nat
  leaked_fd :: int

text \<open>The loop of the callback: the result says whether the descriptor was there before.\<close>

function look_up_fd :: "int \<Rightarrow> fd_leak_context \<Rightarrow> (fd_error, bool \<times> fd_leak_context) outcome" where
  "look_up_fd fd p =
     (if lookup_pos p < lc_used p then
        obind (load_int (prev_buf p) (lookup_pos p)) (\<lambda>prev.
          if prev < fd then look_up_fd fd (p\<lparr>lookup_pos := lookup_pos p + 1\<rparr>)
          else Ok (prev = fd, p))
      else Ok (False, p))"
  by pat_completeness auto

termination look_up_fd
  by (relation "measure (\<lambda>(fd, p). lc_used p - lookup_pos p)") auto

declare look_up_fd.simps [simp del]

definition find_first_leak_callback :: "fd_system \<Rightarrow> fd_leak_context fd_callback" where
  "find_first_leak_callback S fd p =
     (if \<not> fd_is_cloexec S fd then
        obind (look_up_fd fd p) (\<lambda>(present, p). if present then Ok (0, p) else Ok (- 1, p\<lparr>leaked_fd := fd\<rparr>))
      else Ok (0, p))"

definition find_first_leaked_fd :: "fd_system \<Rightarrow> fd_snapshot \<Rightarrow> (fd_error, int) outcome" where
  "find_first_leaked_fd S snapshot =
     obind (get_max_fd S) (\<lambda>max_fd.
       let max_fd = (if max_fd < INT_MAX then max_fd + 1 else max_fd);
           context0 = \<lparr>prev_buf = fst snapshot, lc_used = snd snapshot, lookup_pos = 0, leaked_fd = - 1\<rparr>
       in obind (visit_open_fds S 0 max_fd (find_first_leak_callback S) context0) (\<lambda>(rv, p). Ok (leaked_fd p)))"

definition complain_about_leaky_fds :: "fd_system \<Rightarrow> fd_snapshot \<Rightarrow> (fd_error, unit) outcome" where
  "complain_about_leaky_fds S snapshot =
     obind (find_first_leaked_fd S snapshot) (\<lambda>leaking_fd.
       if leaking_fd \<ge> 0 then Exit (Will_leak leaking_fd) else Ok ())"

subsection \<open>Opening without leaks\<close>

text \<open>
  The descriptors of a process, each with its close-on-exec flag. \<open>open\<close> takes the lowest free number;
  \<open>O_CLOEXEC\<close> may be missing from the headers, and a kernel may ignore it.
\<close>

type_synonym fd_table = "(int \<times> bool) list"

record fd_kernel =
  opens :: "string \<Rightarrow> bool"
  o_cloexec_defined :: bool
  o_cloexec_honoured :: bool

definition lowest_free :: "fd_table \<Rightarrow> int" where
  "lowest_free t = the (find (\<lambda>fd. fd \<notin> fst ` set t) [0..int (length t)])"

definition sys_open :: "fd_kernel \<Rightarrow> string \<Rightarrow> fd_table \<Rightarrow> int \<times> fd_table" where
  "sys_open K path t =
     (if opens K path then (lowest_free t, (lowest_free t, o_cloexec_defined K \<and> o_cloexec_honoured K) # t)
      else (- 1, t))"

definition sys_close :: "int \<Rightarrow> fd_table \<Rightarrow> fd_table" where
  "sys_close fd t = filter (\<lambda>(k, c). k \<noteq> fd) t"

definition set_cloexec_flag :: "int \<Rightarrow> fd_table \<Rightarrow> fd_table" where
  "set_cloexec_flag fd t = map (\<lambda>(k, c). (k, if k = fd then True else c)) t"

definition o_cloexec_works :: "fd_kernel \<Rightarrow> fd_table \<Rightarrow> bool \<times> fd_table" where
  "o_cloexec_works K t =
     (let (fd, t) = sys_open K ''/'' t
      in if fd \<ge> 0 then ((fd, True) \<in> set t, sys_close fd t) else (False, t))"

text \<open>The static variables: \<open>cloexec_works\<close> and \<open>cloexec_status_known\<close>.\<close>

record cloexec_status =
  cloexec_works :: bool
  cloexec_status_known :: bool

definition open_cloexec :: "fd_kernel \<Rightarrow> string \<Rightarrow> cloexec_status \<Rightarrow> fd_table \<Rightarrow>
    int \<times> cloexec_status \<times> fd_table" where
  "open_cloexec K path st t =
     (let (st, t) =
            (if \<not> cloexec_status_known st then
               (let (works, t) = o_cloexec_works K t in (\<lparr>cloexec_works = works, cloexec_status_known = True\<rparr>, t))
             else (st, t));
          (fd, t) = sys_open K path t;
          t = (if fd \<ge> 0 \<and> \<not> (o_cloexec_defined K \<and> cloexec_works st) then set_cloexec_flag fd t else t)
      in (fd, st, t))"

end
