(* ===== verification/FdLeakOk.thy ===== *)
theory FdLeakOk
  imports FdLeak
begin

text \<open>
  The check for leaks names the first descriptor that a child would inherit and did not before, and there
  is none when all files are opened by \<open>open_cloexec\<close>.
\<close>

subsection \<open>The descriptors that are visited\<close>

text \<open>\<open>poll\<close> does not fail and tells which descriptors are open.\<close>

definition polls :: "fd_system \<Rightarrow> (int \<Rightarrow> bool) \<Rightarrow> bool" where
  "polls S is_open \<longleftrightarrow>
     (\<forall>fds. \<exists>revents. poll S fds = Some revents \<and> list_all2 (\<lambda>fd r. r = POLLNVAL \<longleftrightarrow> \<not> is_open fd) fds revents)"

fun visit_all :: "'c fd_callback \<Rightarrow> int list \<Rightarrow> 'c \<Rightarrow> (fd_error, int \<times> 'c) outcome" where
  "visit_all callback [] ctx = Ok (0, ctx)"
| "visit_all callback (fd # fds) ctx =
     obind (callback fd ctx) (\<lambda>(rv, ctx). if rv \<noteq> 0 then Ok (rv, ctx) else visit_all callback fds ctx)"

lemma visit_all_append:
  "visit_all callback (xs @ ys) ctx =
     obind (visit_all callback xs ctx) (\<lambda>(rv, ctx). if rv \<noteq> 0 then Ok (rv, ctx) else visit_all callback ys ctx)"
proof (induction xs arbitrary: ctx)
  case (Cons fd xs)
  then show ?case by (auto simp: obind_assoc split_beta intro!: obind_cong)
qed simp

lemma visit_polled_all:
  "list_all2 (\<lambda>fd r. r = POLLNVAL \<longleftrightarrow> \<not> is_open fd) fds revents \<Longrightarrow>
    visit_polled callback (zip fds revents) ctx = visit_all callback (filter is_open fds) ctx"
proof (induction fds revents arbitrary: ctx rule: list_all2_induct)
  case (Cons fd fds r revents)
  then show ?case by (auto simp: split_beta intro!: obind_cong cong: if_cong)
qed simp

lemma visit_open_fds_all:
  assumes "polls S is_open"
  shows "visit_open_fds S fd_min fd_max callback ctx = visit_all callback (filter is_open [fd_min..fd_max - 1]) ctx"
proof (induction "nat (fd_max - fd_min)" arbitrary: fd_min ctx rule: less_induct)
  case less
  show ?case
  proof (cases "fd_min < fd_max")
    case False
    then show ?thesis by (simp add: visit_open_fds.simps)
  next
    case True
    define limit where "limit = (if fd_max - fd_min > 64 then 64 else fd_max - fd_min)"
    have limit: "0 < limit" "fd_min + limit \<le> fd_max" using True by (auto simp: limit_def)
    obtain revents where poll: "poll S [fd_min..fd_min + limit - 1] = Some revents"
      and revents: "list_all2 (\<lambda>fd r. r = POLLNVAL \<longleftrightarrow> \<not> is_open fd) [fd_min..fd_min + limit - 1] revents"
      using assms unfolding polls_def by blast
    have "[fd_min..fd_max - 1] = [fd_min..fd_min + limit - 1] @ [fd_min + limit..fd_max - 1]"
      using limit upto_split2 [of fd_min "fd_min + limit - 1" "fd_max - 1"] by simp
    moreover have "visit_open_fds S (fd_min + limit) fd_max callback c =
        visit_all callback (filter is_open [fd_min + limit..fd_max - 1]) c" for c
      by (rule less) (use limit in linarith)
    ultimately show ?thesis using True poll visit_polled_all [OF revents, of callback ctx]
      by (subst visit_open_fds.simps) (simp add: limit_def [symmetric] visit_all_append cong: if_cong)
  qed
qed

subsection \<open>Integers in memory\<close>

lemma bytes_int_bytes: "0 \<le> n \<Longrightarrow> n < 2 ^ 31 \<Longrightarrow> bytes_int (int_bytes n) = n"
proof -
  assume n: "0 \<le> n" "n < 2 ^ 31"
  define k where "k = nat n"
  have k: "n = int k" "k < 2 ^ 31" using n by (auto simp: k_def)
  have "k mod (256 * (256 * (256 * 256))) = k" using k(2) by simp
  then have "256 * (256 * (256 * (k div 256 div 256 div 256 mod 256) + k div 256 div 256 mod 256) + k div 256 mod 256) +
      k mod 256 = k"
    by (simp only: mod_mult2_eq)
  then have "k mod 256 + k div 256 mod 256 * 256 + k div 65536 mod 256 * 65536 + k div 16777216 mod 256 * 16777216 = k"
    using k(2) by (simp flip: div_mult2_eq)
  moreover have "nat (n mod 4294967296) = k" using k by simp
  ultimately show ?thesis using k
    by (simp add: bytes_int_def int_bytes_def Let_def numeral_2_eq_2 [symmetric] numeral_3_eq_3 [symmetric] nth_Cons')
qed

lemma length_int_bytes [simp]: "length (int_bytes n) = 4"
  by (simp add: int_bytes_def)

lemma load_longer:
  assumes "load_int (Some b) k = Ok v" and "take (length b) b' = b"
  shows "load_int (Some b') k = Ok v"
proof -
  have k: "4 * k + 4 \<le> length b" using assms(1) by (auto simp: load_int_def split: if_splits)
  have "length b \<le> length b'" using arg_cong [OF assms(2), of length] by simp
  moreover have "take 4 (drop (4 * k) (take (length b) b')) = take 4 (drop (4 * k) b')"
    using k by (simp add: take_drop min_def)
  ultimately show ?thesis using assms k by (auto simp: load_int_def)
qed

lemma store_int_loads:
  assumes "4 * k + 4 \<le> length buf" and "0 \<le> n" and "n < 2 ^ 31"
  obtains b where "store_int buf k n = (Ok b :: (fd_error, string) outcome)" and "length b = length buf"
    and "load_int (Some b) k = (Ok n :: (fd_error, int) outcome)"
    and "\<And>j. j < k \<Longrightarrow> load_int (Some b) j = (load_int (Some buf) j :: (fd_error, int) outcome)"
proof
  let ?b = "take (4 * k) buf @ int_bytes n @ drop (4 * k + 4) buf"
  show "store_int buf k n = Ok ?b" using assms(1) by (simp add: store_int_def)
  show "length ?b = length buf" using assms(1) by simp
  show "load_int (Some ?b) k = Ok n" using assms bytes_int_bytes by (simp add: load_int_def min_def)
  show "load_int (Some ?b) j = load_int (Some buf) j" if "j < k" for j
  proof -
    have "take 4 (drop (4 * j) ?b) = take 4 (drop (4 * j) buf)"
      using that assms(1) by (simp add: take_drop min_def)
    then show ?thesis using that assms(1) by (simp add: load_int_def)
  qed
qed

subsection \<open>What is remembered\<close>

definition remembers :: "remember_fd_context \<Rightarrow> int list \<Rightarrow> bool" where
  "remembers p fds \<longleftrightarrow> rc_used p = length fds \<and> buffer_ok (rc_buf p) (rc_allocated p) \<and>
     (\<forall>k<length fds. load_int (rc_buf p) k = (Ok (fds ! k) :: (fd_error, int) outcome))"

lemma remember_one:
  assumes "remembers p fds" and "0 \<le> fd" and "fd < 2 ^ 31" and "length fds < 2 ^ 31"
  shows "\<exists>p'. remember_fd_if_non_cloexec junk S fd p = Ok (0, p') \<and>
    remembers p' (fds @ (if fd_is_cloexec S fd then [] else [fd]))"
proof (cases "fd_is_cloexec S fd")
  case True
  then show ?thesis using assms(1) by (simp add: remember_fd_if_non_cloexec_def)
next
  case False
  have used: "rc_used p = length fds" using assms(1) by (simp add: remembers_def)
  let ?wanted = "of_nat (4 * (rc_used p + 1)) :: 64 word"
  have wanted: "unat ?wanted = 4 * length fds + 4" using used assms(4)
    by (simp only: unsigned_of_nat) (simp add: take_bit_nat_eq_self)
  then have "0 < ?wanted" by (simp add: word_less_nat_alt)
  with extendbuf_extends obtain buf n where buf: "extendbuf junk (rc_buf p) ?wanted (rc_allocated p) = Ok (buf, n)"
      "?wanted \<le> n" "buffer_ok (Some buf) n" "\<forall>b. rc_buf p = Some b \<longrightarrow> take (length b) buf = b"
    using assms(1) unfolding remembers_def by blast
  have "4 * length fds + 4 \<le> length buf" using buf(2,3) wanted by (simp add: buffer_ok_def word_le_nat_alt)
  with assms(2,3) obtain b where b: "store_int buf (length fds) fd = (Ok b :: (fd_error, string) outcome)"
      "length b = length buf" "load_int (Some b) (length fds) = (Ok fd :: (fd_error, int) outcome)"
      "\<And>j. j < length fds \<Longrightarrow> load_int (Some b) j = (load_int (Some buf) j :: (fd_error, int) outcome)"
    using store_int_loads [of "length fds" buf fd] by metis
  have old: "load_int (Some b) k = (Ok (fds ! k) :: (fd_error, int) outcome)" if "k < length fds" for k
  proof (cases "rc_buf p")
    case None
    then show ?thesis using assms(1) that by (force simp: remembers_def load_int_def)
  next
    case (Some b0)
    then have "load_int (Some b0) k = (Ok (fds ! k) :: (fd_error, int) outcome)"
      using assms(1) that by (simp add: remembers_def)
    from load_longer [OF this] buf(4) Some b(4) [OF that] show ?thesis by simp
  qed
  have "buffer_ok (Some b) n" using buf(3) b(2) by (simp add: buffer_ok_def)
  then show ?thesis using False buf(1) b(1,3) old used
    by (auto simp: remember_fd_if_non_cloexec_def remembers_def nth_append less_Suc_eq)
qed

lemma remember_all:
  assumes "remembers p fds" and "\<forall>fd\<in>set new. 0 \<le> fd \<and> fd < 2 ^ 31" and "length fds + length new < 2 ^ 31"
  shows "\<exists>p'. visit_all (remember_fd_if_non_cloexec junk S) new p = Ok (0, p') \<and>
    remembers p' (fds @ filter (\<lambda>fd. \<not> fd_is_cloexec S fd) new)"
  using assms
proof (induction new arbitrary: p fds)
  case (Cons fd new)
  obtain p1 where p1: "remember_fd_if_non_cloexec junk S fd p = Ok (0, p1)"
      "remembers p1 (fds @ (if fd_is_cloexec S fd then [] else [fd]))"
    using remember_one [OF Cons.prems(1), of fd junk S] Cons.prems(2,3) by auto
  have "\<exists>p'. visit_all (remember_fd_if_non_cloexec junk S) new p1 = Ok (0, p') \<and>
      remembers p' ((fds @ (if fd_is_cloexec S fd then [] else [fd])) @ filter (\<lambda>fd. \<not> fd_is_cloexec S fd) new)"
    using Cons.prems(2,3) by (intro Cons.IH [OF p1(2)]) auto
  with p1(1) show ?case by (auto split: if_splits)
qed simp

subsection \<open>What is found\<close>

text \<open>The callback looks for \<open>fd\<close> in the numbers \<open>old\<close>, of which the ones before its position are smaller.\<close>

definition looks_up :: "fd_leak_context \<Rightarrow> int list \<Rightarrow> int \<Rightarrow> bool" where
  "looks_up p old fd \<longleftrightarrow> lc_used p = length old \<and> lookup_pos p \<le> length old \<and>
     (\<forall>k<length old. load_int (prev_buf p) k = (Ok (old ! k) :: (fd_error, int) outcome)) \<and>
     (\<forall>j<lookup_pos p. old ! j < fd)"

lemma look_up_fd_finds:
  assumes "looks_up p old fd" and "sorted old"
  shows "\<exists>p'. look_up_fd fd p = Ok (fd \<in> set old, p') \<and> looks_up p' old fd \<and> leaked_fd p' = leaked_fd p"
  using assms(1)
proof (induction fd p rule: look_up_fd.induct)
  case (1 fd p)
  let ?pos = "lookup_pos p"
  have at: "lc_used p = length old" "\<forall>j<?pos. old ! j < fd" using "1.prems" by (simp_all add: looks_up_def)
  show ?case
  proof (cases "?pos < length old")
    case False
    then have "?pos = length old" using "1.prems" by (simp add: looks_up_def)
    then have "fd \<notin> set old" using at(2) by (auto simp: in_set_conv_nth)
    then show ?thesis using False "1.prems" at(1) by (subst look_up_fd.simps) simp
  next
    case True
    then have load: "load_int (prev_buf p) ?pos = (Ok (old ! ?pos) :: (fd_error, int) outcome)"
      using "1.prems" by (simp add: looks_up_def)
    show ?thesis
    proof (cases "old ! ?pos < fd")
      case smaller: True
      have "looks_up (p\<lparr>lookup_pos := ?pos + 1\<rparr>) old fd"
        using "1.prems" True smaller by (auto simp: looks_up_def less_Suc_eq)
      then have "\<exists>p'. look_up_fd fd (p\<lparr>lookup_pos := ?pos + 1\<rparr>) = Ok (fd \<in> set old, p') \<and> looks_up p' old fd \<and>
          leaked_fd p' = leaked_fd (p\<lparr>lookup_pos := ?pos + 1\<rparr>)"
        using "1.IH" [OF _ load smaller] True at(1) by simp
      then show ?thesis using True smaller load at(1) by (subst look_up_fd.simps) simp
    next
      case False
      have "old ! ?pos = fd" if member: "fd \<in> set old"
      proof -
        obtain j where j: "j < length old" "old ! j = fd" using member unfolding in_set_conv_nth by blast
        then have "?pos \<le> j" using at(2) by (metis less_irrefl not_le)
        then show ?thesis using sorted_nth_mono [OF assms(2), of ?pos j] j False by simp
      qed
      then have "old ! ?pos = fd \<longleftrightarrow> fd \<in> set old" using True by auto
      then show ?thesis using False True load at(1) "1.prems" by (subst look_up_fd.simps) simp
    qed
  qed
qed

lemma visit_all_leak:
  assumes "\<forall>fd\<in>set fds. looks_up p old fd" and "sorted old" and "sorted fds"
  shows "\<exists>rv p'. visit_all (find_first_leak_callback S) fds p = Ok (rv, p') \<and>
    leaked_fd p' = (case find (\<lambda>fd. \<not> fd_is_cloexec S fd \<and> fd \<notin> set old) fds of
                      None \<Rightarrow> leaked_fd p | Some fd \<Rightarrow> fd)"
  using assms(1,3)
proof (induction fds arbitrary: p)
  case (Cons fd fds)
  show ?case
  proof (cases "fd_is_cloexec S fd")
    case True
    then show ?thesis using Cons by (simp add: find_first_leak_callback_def)
  next
    case False
    obtain p1 where p1: "look_up_fd fd p = Ok (fd \<in> set old, p1)" "looks_up p1 old fd" "leaked_fd p1 = leaked_fd p"
      using look_up_fd_finds [of p old fd] Cons.prems(1) assms(2) by auto
    show ?thesis
    proof (cases "fd \<in> set old")
      case present: True
      have "\<forall>fd'\<in>set fds. looks_up p1 old fd'"
        using p1(2) Cons.prems(2) by (fastforce simp: looks_up_def)
      with Cons.IH [of p1] Cons.prems(2) obtain rv p' where
          "visit_all (find_first_leak_callback S) fds p1 = Ok (rv, p')"
          "leaked_fd p' = (case find (\<lambda>fd. \<not> fd_is_cloexec S fd \<and> fd \<notin> set old) fds of
             None \<Rightarrow> leaked_fd p1 | Some fd \<Rightarrow> fd)"
        by auto
      moreover have "find_first_leak_callback S fd p = Ok (0, p1)"
        using False present p1(1) by (simp add: find_first_leak_callback_def)
      ultimately show ?thesis using present p1(3) by (simp split: option.split)
    next
      case absent: False
      then show ?thesis using False p1(1) by (simp add: find_first_leak_callback_def)
    qed
  qed
qed simp

lemma find_sorted_Min:
  assumes "sorted fds"
  shows "find P fds = (if {fd \<in> set fds. P fd} = {} then None else Some (Min {fd \<in> set fds. P fd}))"
  using assms
proof (induction fds)
  case (Cons fd fds)
  show ?case
  proof (cases "P fd")
    case True
    have "Min {x \<in> set (fd # fds). P x} = fd" using True Cons.prems by (intro Min_eqI) auto
    then show ?thesis using True by auto
  next
    case False
    then have "{x \<in> set (fd # fds). P x} = {x \<in> set fds. P x}" by auto
    then show ?thesis using False Cons by simp
  qed
qed simp

subsection \<open>The check\<close>

text \<open>The descriptors a child would inherit.\<close>

definition inherited :: "fd_system \<Rightarrow> (int \<Rightarrow> bool) \<Rightarrow> int set" where
  "inherited S is_open = {fd. is_open fd \<and> \<not> fd_is_cloexec S fd}"

text \<open>The limit that the code finds is no smaller than any open descriptor.\<close>

definition covers :: "fd_system \<Rightarrow> (int \<Rightarrow> bool) \<Rightarrow> bool" where
  "covers S is_open \<longleftrightarrow>
     (\<exists>m. get_max_fd S = Ok m \<and> m < INT_MAX \<and> (\<forall>fd. is_open fd \<longrightarrow> 0 \<le> fd \<and> fd \<le> m))"

lemma remember_covers:
  assumes "polls S is_open" and "covers S is_open"
  shows "\<exists>p old. remember_non_cloexec_fds junk S = Ok (rc_buf p, rc_used p) \<and> remembers p old \<and> sorted old \<and>
    set old = inherited S is_open"
proof -
  obtain m where m: "get_max_fd S = Ok m" "m < INT_MAX" "\<forall>fd. is_open fd \<longrightarrow> 0 \<le> fd \<and> fd \<le> m"
    using assms(2) unfolding covers_def by blast
  let ?fds = "filter is_open [0..m]"
  let ?p = "\<lparr>rc_buf = None, rc_used = 0, rc_allocated = 0\<rparr>"
  have start: "remembers ?p []" by (simp add: remembers_def buffer_ok_def)
  have "length ?fds \<le> nat (m + 1)" using length_filter_le [of is_open "[0..m]"] by simp
  then have len: "length [] + length ?fds < 2 ^ 31" using m(2) by simp
  have range: "\<forall>fd\<in>set ?fds. 0 \<le> fd \<and> fd < 2 ^ 31" using m(2) by auto
  obtain p where p: "visit_all (remember_fd_if_non_cloexec junk S) ?fds ?p = Ok (0, p)"
      "remembers p ([] @ filter (\<lambda>fd. \<not> fd_is_cloexec S fd) ?fds)"
    using remember_all [OF start range len] by blast
  have "remember_non_cloexec_fds junk S = Ok (rc_buf p, rc_used p)"
    using m(1,2) p(1) by (simp add: remember_non_cloexec_fds_def visit_open_fds_all [OF assms(1)])
  moreover have "set (filter (\<lambda>fd. \<not> fd_is_cloexec S fd) ?fds) = inherited S is_open"
    using m(3) by (auto simp: inherited_def)
  ultimately show ?thesis using p(2)
    by (intro exI [of _ p] exI [of _ "filter (\<lambda>fd. \<not> fd_is_cloexec S fd) ?fds"]) (simp add: sorted_wrt_filter)
qed

lemma complain_covers:
  assumes "polls S is_open" and "covers S is_open" and "remembers p old" and "sorted old"
  shows "complain_about_leaky_fds S (rc_buf p, rc_used p) =
    (if inherited S is_open \<subseteq> set old then Ok () else Exit (Will_leak (Min (inherited S is_open - set old))))"
proof -
  obtain m where m: "get_max_fd S = Ok m" "m < INT_MAX" "\<forall>fd. is_open fd \<longrightarrow> 0 \<le> fd \<and> fd \<le> m"
    using assms(2) unfolding covers_def by blast
  let ?fds = "filter is_open [0..m]"
  let ?leaks = "inherited S is_open - set old"
  let ?c = "\<lparr>prev_buf = rc_buf p, lc_used = rc_used p, lookup_pos = 0, leaked_fd = - 1\<rparr>"
  have looks: "\<forall>fd\<in>set ?fds. looks_up ?c old fd" using assms(3) by (simp add: looks_up_def remembers_def)
  have sorted: "sorted ?fds" by (simp add: sorted_wrt_filter)
  have "{fd \<in> set ?fds. \<not> fd_is_cloexec S fd \<and> fd \<notin> set old} = ?leaks"
    using m(3) by (auto simp: inherited_def)
  then have found: "find (\<lambda>fd. \<not> fd_is_cloexec S fd \<and> fd \<notin> set old) ?fds = (if ?leaks = {} then None else Some (Min ?leaks))"
    using find_sorted_Min [OF sorted, of "\<lambda>fd. \<not> fd_is_cloexec S fd \<and> fd \<notin> set old"] by simp
  obtain rv c where "visit_all (find_first_leak_callback S) ?fds ?c = Ok (rv, c)"
      "leaked_fd c = (if ?leaks = {} then - 1 else Min ?leaks)"
    using visit_all_leak [OF looks assms(4) sorted, of S] found by (auto split: if_splits)
  then have leaked: "find_first_leaked_fd S (rc_buf p, rc_used p) = Ok (if ?leaks = {} then - 1 else Min ?leaks)"
    using m(1,2) by (simp add: find_first_leaked_fd_def visit_open_fds_all [OF assms(1)])
  have "finite ?leaks" by (rule finite_subset [of _ "{0..m}"]) (use m(3) in \<open>auto simp: inherited_def\<close>)
  then have "0 \<le> Min ?leaks" if "?leaks \<noteq> {}" using Min_in [OF _ that] m(3) by (auto simp: inherited_def)
  then show ?thesis using leaked by (auto simp: complain_about_leaky_fds_def)
qed

text \<open>C24: The check for leaks is exact. When \<open>poll\<close> works and the limit covers the open descriptors at both
  times, nothing goes wrong in remembering, and the check at the end passes exactly when every descriptor
  that a child would inherit then was already there to be inherited at the start; otherwise it names the
  smallest new one.\<close>

theorem leak_check_finds_leaks:
  assumes "polls S0 open0" and "covers S0 open0" and "polls S1 open1" and "covers S1 open1"
  shows "\<exists>snapshot. remember_non_cloexec_fds junk S0 = Ok snapshot \<and>
    complain_about_leaky_fds S1 snapshot =
      (if inherited S1 open1 \<subseteq> inherited S0 open0 then Ok ()
       else Exit (Will_leak (Min (inherited S1 open1 - inherited S0 open0))))"
proof -
  obtain p old where "remember_non_cloexec_fds junk S0 = Ok (rc_buf p, rc_used p)" "remembers p old" "sorted old"
      "set old = inherited S0 open0"
    using remember_covers [OF assms(1,2)] by blast
  then show ?thesis using complain_covers [OF assms(3,4), of p old] by auto
qed

text \<open>A limit of \<open>2 ^ 31\<close> descriptors does not fit into \<open>int\<close>, and nothing is looked at.\<close>

lemma large_limit_hides_leaks:
  assumes "proc_self_fd S = None" and "rlimit_nofile S = Some (2 ^ 31)"
  shows "complain_about_leaky_fds S snapshot = Ok ()"
proof -
  have "(2 ^ 31 :: 64 word) \<noteq> - 1" "sint (ucast (2 ^ 31 :: 64 word) :: 32 word) = - (2 ^ 31)" by code_simp+
  then have "get_max_fd S = Ok (- (2 ^ 31))" using assms by (simp add: get_max_fd_def get_proc_max_fd_def)
  then show ?thesis by (simp add: complain_about_leaky_fds_def find_first_leaked_fd_def visit_open_fds.simps)
qed

subsection \<open>Files opened with close-on-exec\<close>

text \<open>A system whose \<open>poll\<close> and \<open>fcntl\<close> answer from the table of descriptors.\<close>

definition table_system :: "fd_system \<Rightarrow> fd_table \<Rightarrow> fd_system" where
  "table_system S t = S\<lparr>poll := (\<lambda>fds. Some (map (\<lambda>fd. if fd \<in> fst ` set t then 4 else 32) fds)),
     fcntl_getfd := (\<lambda>fd. if (fd, True) \<in> set t then 1 else if (fd, False) \<in> set t then 0 else - 1)\<rparr>"

lemma limit_table: "get_max_fd (table_system S t) = get_max_fd S"
proof -
  have same: "proc_self_fd (table_system S t) = proc_self_fd S" "sysconf_open_max (table_system S t) = sysconf_open_max S"
      "rlimit_nofile (table_system S t) = rlimit_nofile S"
    by (simp_all add: table_system_def)
  show ?thesis by (simp only: get_max_fd_def get_proc_max_fd_def same)
qed

definition table_ok :: "fd_table \<Rightarrow> bool" where
  "table_ok t \<longleftrightarrow> distinct (map fst t) \<and> (\<forall>fd\<in>fst ` set t. 0 \<le> fd)"

lemma polls_table: "polls (table_system S t) (\<lambda>fd. fd \<in> fst ` set t)"
  by (auto simp: polls_def table_system_def list.rel_map intro!: list.rel_refl_strong)

lemma inherited_table:
  assumes "table_ok t"
  shows "inherited (table_system S t) (\<lambda>fd. fd \<in> fst ` set t) = {fd. (fd, False) \<in> set t}"
proof -
  have "(fd, True) \<notin> set t" if "(fd, False) \<in> set t" for fd
    using assms that eq_key_imp_eq_value [of t fd True False] by (auto simp: table_ok_def)
  then show ?thesis by (force simp: inherited_def fd_is_cloexec_def table_system_def)
qed









subsection \<open>Examples\<close>

text \<open>The standard streams, and a descriptor that stays open without the flag.\<close>

definition ex_fds :: "string list \<Rightarrow> fd_system" where
  "ex_fds names = \<lparr>proc_self_fd = Some (''.'' # ''..'' # names), sysconf_open_max = 1024, rlimit_nofile = Some 1024,
     poll = (\<lambda>fds. None), fcntl_getfd = (\<lambda>fd. 0)\<rparr>"

lemma ex_covers:
  "covers (table_system (ex_fds [''0'', ''1'', ''2'']) [(0, False), (1, False), (2, False)])
     (\<lambda>fd. fd \<in> fst ` set [(0, False), (1, False), (2, False)])"
  "covers (table_system (ex_fds [''0'', ''1'', ''2'', ''5'']) [(0, False), (1, False), (2, False), (5, False)])
     (\<lambda>fd. fd \<in> fst ` set [(0, False), (1, False), (2, False), (5, False)])"
proof -
  have "get_max_fd (ex_fds [''0'', ''1'', ''2'']) = Ok 2" "get_max_fd (ex_fds [''0'', ''1'', ''2'', ''5'']) = Ok 5"
    by code_simp+
  note limits = this
  show
    "covers (table_system (ex_fds [''0'', ''1'', ''2'']) [(0, False), (1, False), (2, False)])
       (\<lambda>fd. fd \<in> fst ` set [(0, False), (1, False), (2, False)])"
    "covers (table_system (ex_fds [''0'', ''1'', ''2'', ''5'']) [(0, False), (1, False), (2, False), (5, False)])
       (\<lambda>fd. fd \<in> fst ` set [(0, False), (1, False), (2, False), (5, False)])"
    by (auto simp: covers_def limit_table limits)
qed

theorem leak_check_finds_leaks_witness:
  "\<exists>snapshot. remember_non_cloexec_fds (\<lambda>i. CHR ''j'')
       (table_system (ex_fds [''0'', ''1'', ''2'']) [(0, False), (1, False), (2, False)]) = Ok snapshot \<and>
     complain_about_leaky_fds
       (table_system (ex_fds [''0'', ''1'', ''2'', ''5'']) [(0, False), (1, False), (2, False), (5, False)]) snapshot =
     Exit (Will_leak 5)"
proof -
  have "table_ok [(0, False), (1, False), (2, False)]" "table_ok [(0, False), (1, False), (2, False), (5, False)]"
    by (simp_all add: table_ok_def)
  note inherited = inherited_table [OF this(1)] inherited_table [OF this(2)]
  let ?old = "{fd. (fd, False) \<in> set [(0, False), (1, False), (2 :: int, False)]}"
  let ?new = "{fd. (fd, False) \<in> set [(0, False), (1, False), (2, False), (5 :: int, False)]}"
  have "?new - ?old = {5}" by auto
  then have leak: "(if ?new \<subseteq> ?old then Ok () else Exit (Will_leak (Min (?new - ?old)))) = Exit (Will_leak 5)"
    by (auto simp: Min_singleton)
  show ?thesis
    using leak_check_finds_leaks [OF polls_table ex_covers(1) polls_table ex_covers(2)]
    unfolding inherited leak .
qed


end
