(* ===== verification/XargsInput.thy ===== *)
theory XargsInput
  imports BuildcmdInsert CNumber
begin

text \<open>
  How \<open>xargs\<close> (\<open>xargs/xargs.c\<close>) reads: the numbers and delimiters in its options, and the two
  functions that take arguments from the input.
\<close>

subsection \<open>Characters\<close>

text \<open>The C locale.\<close>

definition is_blank :: "char \<Rightarrow> bool" where
  "is_blank c \<longleftrightarrow> c = CHR '' '' \<or> c = CHR 0x09"

abbreviation (input) NL :: char where "NL \<equiv> CHR 0x0A"
abbreviation (input) BSL :: char where "BSL \<equiv> CHR 0x5C"

subsection \<open>The delimiter\<close>

datatype (plugins only: code size) xargs_error =
  Build bc_error
| Invalid_escape string
| Escape_too_large string
| Escape_trailing string string
| Invalid_delimiter string
| Unmatched_quote char
| Argument_line_too_long
| Invalid_number char
| Value_too_small char int
| Value_too_large char int
| Environment_too_large
| Usage
| Status nat
| Command_255
| Command_signal

definition get_char_oct_or_hex_escape :: "string \<Rightarrow> (xargs_error, char) outcome" where
  "get_char_oct_or_hex_escape s =
     (if s = [] \<or> hd s \<noteq> BSL then Undef
      else
        (let convert = (\<lambda>base p.
               let (val, endp) = strtoul base p in
               if val > 255 then Exit (Escape_too_large s)
               else if endp \<noteq> [] then Exit (Escape_trailing s endp)
               else Ok (char_of val :: char))
         in if length s \<ge> 2 \<and> s ! 1 = CHR ''x'' then convert 16 (drop 2 s)
            else if length s \<ge> 2 \<and> is_digit_in 10 (s ! 1) then convert 8 (drop 1 s)
            else Exit (Invalid_escape s)))"

definition get_input_delimiter :: "string \<Rightarrow> (xargs_error, char) outcome" where
  "get_input_delimiter s =
     (if length s = 1 then Ok (hd s)
      else if s \<noteq> [] \<and> hd s = BSL then
        (if s ! 1 = CHR ''a'' then Ok (CHR 0x07)
         else if s ! 1 = CHR ''b'' then Ok (CHR 0x08)
         else if s ! 1 = CHR ''f'' then Ok (CHR 0x0C)
         else if s ! 1 = CHR ''n'' then Ok NL
         else if s ! 1 = CHR ''r'' then Ok (CHR 0x0D)
         else if s ! 1 = CHR ''t'' then Ok (CHR 0x09)
         else if s ! 1 = CHR ''v'' then Ok (CHR 0x0B)
         else if s ! 1 = BSL then Ok BSL
         else get_char_oct_or_hex_escape s)
      else Exit (Invalid_delimiter s))"

text \<open>A negative upper bound is none. \<open>fatal\<close> says whether a value out of range ends the program.\<close>

definition parse_num :: "string \<Rightarrow> char \<Rightarrow> int \<Rightarrow> int \<Rightarrow> bool \<Rightarrow> (xargs_error, int) outcome" where
  "parse_num str option lo hi fatal =
     (let (val, eptr) = strtol 10 str in
      if eptr = str \<or> eptr \<noteq> [] then Exit (Invalid_number option)
      else if val < lo then (if fatal then Exit (Value_too_small option lo) else Ok lo)
      else if hi \<ge> 0 \<and> val > hi then (if fatal then Exit (Value_too_large option hi) else Ok hi)
      else Ok val)"

subsection \<open>The state of reading\<close>

text \<open>
  The command line being built, what is left of the input, the static flag \<open>eof\<close> of the reading
  functions, the lines read since the last command and whether a null character was warned about.
\<close>

record 'u xargs_state =
  bc :: "'u bc_state"
  input_stream :: string
  eof :: bool
  lineno :: nat
  nullwarning_given :: bool

type_synonym ('u, 'a) x_result = "(xargs_error \<times> 'u, 'a) outcome"

definition lift_bc :: "('u, 'u bc_state) bc_result \<Rightarrow> 'u xargs_state \<Rightarrow> ('u, 'u xargs_state) x_result" where
  "lift_bc r s = (case r of
     Ok b \<Rightarrow> Ok (s\<lparr>bc := b\<rparr>) | Exit (e, u) \<Rightarrow> Exit (Build e, u) | Undef \<Rightarrow> Undef | Diverge \<Rightarrow> Diverge)"

definition exec_if_possible :: "bc_control \<Rightarrow> 'u bc_callback \<Rightarrow> bool \<Rightarrow> 'u xargs_state \<Rightarrow>
    ('u, 'u xargs_state) x_result" where
  "exec_if_possible ctl cb initial_args s =
     (if replace_pat ctl \<noteq> None \<or> initial_args \<or> cmd_argc (bc s) = initial_argc ctl \<or> exit_if_size_exceeded ctl
      then Ok s else lift_bc (bc_do_exec ctl cb (bc s)) s)"

text \<open>The ways the reading functions act on the rest of the program.\<close>

definition push_line :: "bc_control \<Rightarrow> 'u bc_callback \<Rightarrow> string \<Rightarrow> 'u xargs_state \<Rightarrow>
    ('u, 'u xargs_state) x_result" where
  "push_line ctl cb p s =
     (if replace_pat ctl = None
      then lift_bc (bc_push_arg ctl cb p (length p + 1) None 0 False (bc s)) s else Ok s)"

definition give_up :: "bc_control \<Rightarrow> 'u bc_callback \<Rightarrow> bool \<Rightarrow> xargs_error \<Rightarrow> 'u xargs_state \<Rightarrow>
    ('u, 'b) x_result" where
  "give_up ctl cb initial_args err s =
     obind (exec_if_possible ctl cb initial_args s) (\<lambda>s. Exit (err, usercontext (bc s)))"

definition is_eof_str :: "string option \<Rightarrow> string \<Rightarrow> bool" where
  "is_eof_str eof_str p \<longleftrightarrow> eof_str = Some (c_string p)"

subsection \<open>Lines\<close>

datatype (plugins only: code size) read_line_state = NORM | SPACE | QUOTE | BACKSLASH

text \<open>
  The variables of \<open>read_line\<close>: the state, the previous character, the last quote, whether this is the
  first argument on the line, whether (a part of) an argument was seen, and the characters in
  \<open>linebuf\<close> up to \<open>p\<close>. A null character in it makes what follows invisible, as in C.
\<close>

record line_vars =
  rl_state :: read_line_state
  prevc :: "char option"
  quotc :: char
  first :: bool
  seen_arg :: bool
  linebuf :: string

text \<open>What an iteration of the loop says: go on, or return the line (\<open>None\<close> for \<open>- 1\<close>).\<close>

datatype (plugins only: code size) 'u line_step = Go_on line_vars "'u xargs_state" | Return "string option" "'u xargs_state"

definition line_buffer_end :: "bc_control \<Rightarrow> 'u xargs_state \<Rightarrow> nat" where
  "line_buffer_end ctl s = arg_max ctl - cmd_initial_argv_chars (bc s) - 1"

definition line_append :: "bc_control \<Rightarrow> 'u bc_callback \<Rightarrow> bool \<Rightarrow> nat \<Rightarrow> char \<Rightarrow> line_vars \<Rightarrow> 'u xargs_state \<Rightarrow>
    ('u, 'u line_step) x_result" where
  "line_append ctl cb ini endbuf c v s =
     (let s = (if c = NUL then s\<lparr>nullwarning_given := True\<rparr> else s) in
      if length (linebuf v) \<ge> endbuf then give_up ctl cb ini Argument_line_too_long s
      else Ok (Go_on (v\<lparr>linebuf := linebuf v @ [c], prevc := Some c\<rparr>) s))"

text \<open>The end of an argument: the end of the input was marked by \<open>eof_str\<close>, or the argument is pushed.\<close>

definition line_norm :: "string option \<Rightarrow> bc_control \<Rightarrow> 'u bc_callback \<Rightarrow> bool \<Rightarrow> nat \<Rightarrow> char \<Rightarrow> line_vars \<Rightarrow>
    'u xargs_state \<Rightarrow> ('u, 'u line_step) x_result" where
  "line_norm eof_str ctl cb ini endbuf c v s =
     (if c = NL then
        (let s = (if \<not> (case prevc v of Some d \<Rightarrow> is_blank d | None \<Rightarrow> False) then s\<lparr>lineno := lineno s + 1\<rparr> else s) in
         if linebuf v = [] \<and> \<not> seen_arg v then Ok (Go_on (v\<lparr>rl_state := SPACE, prevc := Some c\<rparr>) s)
         else if is_eof_str eof_str (linebuf v) then
           Ok (Return (if first v then None else Some (linebuf v)) (s\<lparr>eof := True\<rparr>))
         else obind (push_line ctl cb (linebuf v) s) (\<lambda>s. Ok (Return (Some (linebuf v)) s)))
      else
        (let v = v\<lparr>seen_arg := True\<rparr> in
         if replace_pat ctl = None \<and> is_blank c then
           (if is_eof_str eof_str (linebuf v) then
              Ok (Return (if first v then None else Some (linebuf v)) (s\<lparr>eof := True\<rparr>))
            else obind (push_line ctl cb (linebuf v) s) (\<lambda>s.
              Ok (Go_on (v\<lparr>linebuf := [], rl_state := SPACE, first := False, prevc := Some c\<rparr>) s)))
         else if c = BSL then Ok (Go_on (v\<lparr>rl_state := BACKSLASH, prevc := Some c\<rparr>) s)
         else if c = CHR 0x27 \<or> c = CHR 0x22 then
           Ok (Go_on (v\<lparr>rl_state := QUOTE, quotc := c, prevc := Some c\<rparr>) s)
         else line_append ctl cb ini endbuf c v s))"

definition line_char :: "string option \<Rightarrow> bc_control \<Rightarrow> 'u bc_callback \<Rightarrow> bool \<Rightarrow> nat \<Rightarrow> char \<Rightarrow> line_vars \<Rightarrow>
    'u xargs_state \<Rightarrow> ('u, 'u line_step) x_result" where
  "line_char eof_str ctl cb ini endbuf c v s =
     (case rl_state v of
        SPACE \<Rightarrow>
          (if is_space c then Ok (Go_on (v\<lparr>prevc := Some c\<rparr>) s)
           else line_norm eof_str ctl cb ini endbuf c (v\<lparr>rl_state := NORM\<rparr>) s)
      | NORM \<Rightarrow> line_norm eof_str ctl cb ini endbuf c v s
      | QUOTE \<Rightarrow>
          (if c = NL then give_up ctl cb ini (Unmatched_quote (quotc v)) s
           else if c = quotc v then Ok (Go_on (v\<lparr>rl_state := NORM, seen_arg := True, prevc := Some c\<rparr>) s)
           else line_append ctl cb ini endbuf c v s)
      | BACKSLASH \<Rightarrow> line_append ctl cb ini endbuf c (v\<lparr>rl_state := NORM\<rparr>) s)"

definition line_eof :: "string option \<Rightarrow> bc_control \<Rightarrow> 'u bc_callback \<Rightarrow> bool \<Rightarrow> line_vars \<Rightarrow> 'u xargs_state \<Rightarrow>
    ('u, string option \<times> 'u xargs_state) x_result" where
  "line_eof eof_str ctl cb ini v s =
     (let s = s\<lparr>eof := True, input_stream := []\<rparr> in
      if linebuf v = [] then Ok (None, s)
      else if rl_state v = QUOTE then give_up ctl cb ini (Unmatched_quote (quotc v)) s
      else if first v \<and> is_eof_str eof_str (linebuf v) then Ok (None, s)
      else obind (push_line ctl cb (linebuf v) s) (\<lambda>s. Ok (Some (linebuf v), s)))"

fun line_loop :: "string option \<Rightarrow> bc_control \<Rightarrow> 'u bc_callback \<Rightarrow> bool \<Rightarrow> nat \<Rightarrow> line_vars \<Rightarrow> string \<Rightarrow>
    'u xargs_state \<Rightarrow> ('u, string option \<times> 'u xargs_state) x_result" where
  "line_loop eof_str ctl cb ini endbuf v [] s = line_eof eof_str ctl cb ini v s"
| "line_loop eof_str ctl cb ini endbuf v (c # cs) s =
     obind (line_char eof_str ctl cb ini endbuf c v s) (\<lambda>r. case r of
       Go_on v s \<Rightarrow> line_loop eof_str ctl cb ini endbuf v cs s
     | Return line s \<Rightarrow> Ok (line, s\<lparr>input_stream := cs\<rparr>))"

definition start_line :: line_vars where
  "start_line = \<lparr>rl_state = SPACE, prevc = None, quotc = NUL, first = True, seen_arg = False, linebuf = []\<rparr>"

text \<open>\<open>read_line\<close>: the bytes of the last string read; the length it returns is one more than theirs.\<close>

definition read_line :: "string option \<Rightarrow> bc_control \<Rightarrow> 'u bc_callback \<Rightarrow> bool \<Rightarrow> 'u xargs_state \<Rightarrow>
    ('u, string option \<times> 'u xargs_state) x_result" where
  "read_line eof_str ctl cb ini s =
     (if eof s then Ok (None, s)
      else line_loop eof_str ctl cb ini (line_buffer_end ctl s) start_line (input_stream s) s)"

subsection \<open>Strings that end in a delimiter\<close>

text \<open>
  The character that was read is an \<open>int\<close> from 0 to 255 and is compared with a \<open>char\<close>, which is signed
  with the compilers for the common processors.
\<close>

definition signed_char :: "char \<Rightarrow> int" where
  "signed_char c = (let n = (of_char c :: int) in if n < 128 then n else n - 256)"

fun string_loop :: "char \<Rightarrow> bc_control \<Rightarrow> 'u bc_callback \<Rightarrow> bool \<Rightarrow> nat \<Rightarrow> string \<Rightarrow> string \<Rightarrow> 'u xargs_state \<Rightarrow>
    ('u, string option \<times> 'u xargs_state) x_result" where
  "string_loop delim ctl cb ini endbuf p [] s =
     (let s = s\<lparr>eof := True, input_stream := []\<rparr> in
      if p = [] then Ok (None, s) else obind (push_line ctl cb p s) (\<lambda>s. Ok (Some p, s)))"
| "string_loop delim ctl cb ini endbuf p (c # cs) s =
     (if (of_char c :: int) = signed_char delim then
        obind (push_line ctl cb p (s\<lparr>lineno := lineno s + 1, input_stream := cs\<rparr>)) (\<lambda>s. Ok (Some p, s))
      else if length p \<ge> endbuf then give_up ctl cb ini Argument_line_too_long s
      else string_loop delim ctl cb ini endbuf (p @ [c]) cs s)"

definition read_string :: "char \<Rightarrow> bc_control \<Rightarrow> 'u bc_callback \<Rightarrow> bool \<Rightarrow> 'u xargs_state \<Rightarrow>
    ('u, string option \<times> 'u xargs_state) x_result" where
  "read_string delim ctl cb ini s =
     (if eof s then Ok (None, s)
      else string_loop delim ctl cb ini (line_buffer_end ctl s) [] (input_stream s) s)"

end
