(* ===== verification/XargsProc.thy ===== *)
theory XargsProc
  imports XargsInput ChildStatus
begin

text \<open>
  The child processes of \<open>xargs\<close> (\<open>xargs/xargs.c\<close>): starting a command, the table of running
  processes, waiting, and the exit status.
\<close>

subsection \<open>The system\<close>

datatype (plugins only: code size) exec_errno = E2BIG | ENOENT_exec | Other_exec_errno nat

datatype (plugins only: code size) user_signal = SIGUSR1 | SIGUSR2 | Other_signal

text \<open>
  What \<open>waitpid (-1, ...)\<close> may say: a child with its status, that no child has exited (\<open>0\<close>), that a
  signal came, or another error. \<open>fork\<close> gives a process, says EAGAIN or fails.
\<close>

datatype (plugins only: code size) wait_answer =
  Child nat wait_status | No_child_yet | Interrupted user_signal | Wait_failed

datatype (plugins only: code size) fork_answer = Forked nat | Fork_again | Fork_failed

text \<open>What happened so far, in order; the answers of the system depend on it.\<close>

datatype (plugins only: code size) xargs_event =
  Started nat "string list"
| Declined "string list"
| Not_started "string list" exec_errno
| Shown "string list" bool
| Waited wait_answer
| Fork_refused

record xargs_env =
  query_before_executing :: bool
  print_command :: bool
  waitpid :: "xargs_event list \<Rightarrow> bool \<Rightarrow> wait_answer"
  fork :: "xargs_event list \<Rightarrow> fork_answer"
  execvp :: "xargs_event list \<Rightarrow> string list \<Rightarrow> exec_errno option"
  tty_answer :: "xargs_event list \<Rightarrow> string"
  xgetenv :: "string \<Rightarrow> string option"
  x_xstrtoul :: "string \<Rightarrow> nat option"

text \<open>The static variables; the elements of \<open>pids\<close> are the \<open>pids_alloc\<close> slots, 0 for a free one.\<close>

record xargs_proc =
  proc_max :: int
  procs_executed :: bool
  procs_executing :: nat
  pids :: "nat list"
  stop_waiting :: bool
  child_error :: nat
  events :: "xargs_event list"

abbreviation happened :: "xargs_event \<Rightarrow> xargs_proc \<Rightarrow> xargs_proc" where
  "happened ev u \<equiv> u\<lparr>events := events u @ [ev]\<rparr>"

type_synonym 'a p_result = "(xargs_proc, 'a) bc_result"

text \<open>\<open>proc_max\<close> is an \<open>int\<close> that is compared with an \<open>unsigned long\<close>.\<close>

definition proc_limit :: "int \<Rightarrow> nat" where
  "proc_limit n = nat (n mod 2 ^ 64)"

subsection \<open>The table of processes\<close>

text \<open>The new number of elements that \<open>x2nrealloc\<close> chooses for elements of 4 bytes.\<close>

definition x2nrealloc_size :: "nat \<Rightarrow> nat" where
  "x2nrealloc_size n = (if n = 0 then 32 else n + n div 2 + 1)"

fun free_slot :: "nat list \<Rightarrow> nat" where
  "free_slot [] = 0"
| "free_slot (p # ps) = (if p = 0 then 0 else Suc (free_slot ps))"

definition add_proc :: "nat \<Rightarrow> xargs_proc \<Rightarrow> xargs_proc p_result" where
  "add_proc pid u =
     (let i = free_slot (pids u);
          slots = (if i = length (pids u) then pids u @ replicate (x2nrealloc_size i - i) 0 else pids u)
      in if slots ! i \<noteq> 0 then Undef
         else Ok (u\<lparr>pids := slots[i := pid], procs_executing := procs_executing u + 1, procs_executed := True\<rparr>))"

text \<open>The index of a process in the table: the first slot with it.\<close>

fun find_proc :: "nat \<Rightarrow> nat list \<Rightarrow> nat option" where
  "find_proc pid [] = None"
| "find_proc pid (p # ps) = (if pid = p then Some 0 else map_option Suc (find_proc pid ps))"

subsection \<open>Signals and statuses\<close>

definition increment_proc_max :: "xargs_proc \<Rightarrow> xargs_proc" where
  "increment_proc_max u = u\<lparr>proc_max := proc_max u + 1, stop_waiting := True\<rparr>"

definition decrement_proc_max :: "xargs_proc \<Rightarrow> xargs_proc" where
  "decrement_proc_max u = (if proc_max u > 1 then u\<lparr>proc_max := proc_max u - 1\<rparr> else u)"

fun handle_signal :: "user_signal \<Rightarrow> xargs_proc \<Rightarrow> xargs_proc" where
  "handle_signal SIGUSR1 u = increment_proc_max u"
| "handle_signal SIGUSR2 u = decrement_proc_max u"
| "handle_signal Other_signal u = u"

definition child_status :: "wait_status \<Rightarrow> xargs_proc \<Rightarrow> xargs_proc p_result" where
  "child_status st u =
     (if WEXITSTATUS st = 255 then Exit (Client_exit 124, u)
      else case st of
        Stopped_by n \<Rightarrow> Exit (Client_exit 125, u)
      | Killed_by n \<Rightarrow> Exit (Client_exit 125, u)
      | Exit_status n \<Rightarrow> Ok (if WEXITSTATUS st \<noteq> 0 then u\<lparr>child_error := 123\<rparr> else u))"

subsection \<open>Waiting\<close>

text \<open>
  The loops of \<open>wait_for_proc\<close>, one call of \<open>waitpid\<close> at a time: \<open>nohang\<close> is \<open>wflags\<close>. The fuel bounds
  the number of calls.
\<close>

fun wait_calls :: "xargs_env \<Rightarrow> nat \<Rightarrow> bool \<Rightarrow> nat \<Rightarrow> nat \<Rightarrow> bool \<Rightarrow> xargs_proc \<Rightarrow> xargs_proc p_result" where
  "wait_calls e 0 all minreap reaped nohang u = Diverge"
| "wait_calls e (Suc n) all minreap reaped nohang u =
     (let answer = waitpid e (events u) nohang; u = happened (Waited answer) u in
      case answer of
        Wait_failed \<Rightarrow> Exit (Client_exit 1, u)
      | Interrupted sig \<Rightarrow>
          (let u = handle_signal sig u
           in wait_calls e n all minreap reaped (if stop_waiting u \<and> \<not> all then True else nohang) u)
      | No_child_yet \<Rightarrow> Ok u
      | Child pid st \<Rightarrow>
          (case find_proc pid (pids u) of
             None \<Rightarrow> wait_calls e n all minreap reaped nohang u
           | Some i \<Rightarrow>
               obind (child_status st (u\<lparr>pids := (pids u)[i := 0], procs_executing := procs_executing u - 1\<rparr>))
                 (\<lambda>u. if procs_executing u = 0 then Ok u
                      else wait_calls e n all minreap (reaped + 1) (\<not> all \<and> reaped + 1 \<ge> minreap)
                        (u\<lparr>stop_waiting := False\<rparr>))))"

definition wait_for_proc :: "xargs_env \<Rightarrow> nat \<Rightarrow> bool \<Rightarrow> nat \<Rightarrow> xargs_proc \<Rightarrow> xargs_proc p_result" where
  "wait_for_proc e n all minreap u =
     (if procs_executing u = 0 then Ok u
      else wait_calls e n all minreap 0 (\<not> all \<and> 0 \<ge> minreap) (u\<lparr>stop_waiting := False\<rparr>))"

text \<open>
  \<open>wait_for_proc_all\<close> at the end of the program with the status given to \<open>exit\<close>: the status that the
  process ends with. When waiting itself ends the program, its status is the last one given.
\<close>

definition wait_for_proc_all :: "xargs_env \<Rightarrow> nat \<Rightarrow> nat \<Rightarrow> nat \<Rightarrow> xargs_proc \<Rightarrow> (unit, nat \<times> xargs_proc) outcome"
where
  "wait_for_proc_all e n original_exit_value status u =
     (case wait_for_proc e n True 0 u of
        Ok u \<Rightarrow> Ok (if original_exit_value \<noteq> child_error u then child_error u else status, u)
      | Exit (Client_exit st, u) \<Rightarrow> Ok (st, u)
      | Exit (_, u) \<Rightarrow> Ok (1, u)
      | Undef \<Rightarrow> Undef
      | Diverge \<Rightarrow> Diverge)"

subsection \<open>Starting a command\<close>

text \<open>\<open>while (procs_executing >= proc_max) wait_for_proc (false, 1u)\<close>.\<close>

fun wait_for_slot :: "xargs_env \<Rightarrow> nat \<Rightarrow> xargs_proc \<Rightarrow> xargs_proc p_result" where
  "wait_for_slot e 0 u = Diverge"
| "wait_for_slot e (Suc n) u =
     (if procs_executing u \<ge> proc_limit (proc_max u) then
        obind (wait_for_proc e (Suc n) False 1 u) (\<lambda>u. wait_for_slot e n u)
      else Ok u)"

text \<open>\<open>fork\<close>, again after waiting for a child when the system has no process left.\<close>

fun fork_child :: "xargs_env \<Rightarrow> nat \<Rightarrow> xargs_proc \<Rightarrow> (nat \<times> xargs_proc) p_result" where
  "fork_child e 0 u = Diverge"
| "fork_child e (Suc n) u =
     (case fork e (events u) of
        Forked pid \<Rightarrow> Ok (pid, u)
      | Fork_again \<Rightarrow>
          (let u = happened Fork_refused u in
           if procs_executing u \<noteq> 0 then obind (wait_for_proc e (Suc n) False 1 u) (\<lambda>u. fork_child e n u)
           else Exit (Client_exit 1, u))
      | Fork_failed \<Rightarrow> Exit (Client_exit 1, u))"

text \<open>
  The child: the number it sends through the pipe, or None when the command runs. A limit for testing
  that is no number makes the child exit without sending one.
\<close>

definition child_errno :: "xargs_env \<Rightarrow> string list \<Rightarrow> xargs_proc \<Rightarrow> exec_errno option" where
  "child_errno e args u =
     (case bc_args_exceed_testing_limit (xgetenv e) (x_xstrtoul e) args of
        Ok True \<Rightarrow> Some E2BIG
      | Ok False \<Rightarrow> execvp e (events u) args
      | _ \<Rightarrow> None)"

text \<open>\<open>print_args\<close> shows the command that is built, also when a part of it is run.\<close>

definition print_args :: "xargs_env \<Rightarrow> bool \<Rightarrow> string list \<Rightarrow> xargs_proc \<Rightarrow> bool \<times> xargs_proc" where
  "print_args e ask argv u =
     (let answer = tty_answer e (events u) in
      (ask \<and> answer \<noteq> [] \<and> (hd answer = CHR ''y'' \<or> hd answer = CHR ''Y''), happened (Shown argv ask) u))"

definition start_command :: "xargs_env \<Rightarrow> nat \<Rightarrow> string list \<Rightarrow> string list \<Rightarrow> xargs_proc \<Rightarrow>
    (bool \<times> xargs_proc) p_result" where
  "start_command e n argv args u =
     obind (if proc_max u \<noteq> 0 then wait_for_slot e n u else Ok u) (\<lambda>u.
     let u = (if \<not> query_before_executing e \<and> print_command e then snd (print_args e False argv u) else u) in
     obind (wait_for_proc e n False 0 u) (\<lambda>u.
     obind (fork_child e n u) (\<lambda>(child, u).
     case child_errno e args u of
       None \<Rightarrow> obind (add_proc child u) (\<lambda>u. Ok (True, happened (Started child args) u))
     | Some err \<Rightarrow>
         (let u = happened (Not_started args err) u in
          case err of
            E2BIG \<Rightarrow> Ok (False, u)
          | ENOENT_exec \<Rightarrow> Exit (Client_exit 127, u)
          | Other_exec_errno _ \<Rightarrow> Exit (Client_exit 126, u)))))"

definition xargs_do_exec :: "xargs_env \<Rightarrow> nat \<Rightarrow> xargs_proc bc_callback" where
  "xargs_do_exec e n argv args u =
     (if query_before_executing e then
        (let (yes, u) = print_args e True argv u in
         if yes then start_command e n argv args u else Ok (True, happened (Declined args) u))
      else start_command e n argv args u)"

end
