(* ===== verification/XargsMain.thy ===== *)
theory XargsMain
  imports XargsProc
begin

text \<open>
  The program \<open>xargs\<close> (\<open>main\<close> in \<open>xargs/xargs.c\<close>): its limits, its options, the loops that read
  arguments and run commands, and the exit status.
\<close>

subsection \<open>The limits\<close>

abbreviation (input) XARGS_POSIX_HEADROOM :: nat where "XARGS_POSIX_HEADROOM \<equiv> 2048"
abbreviation (input) LINE_MAX :: nat where "LINE_MAX \<equiv> 2048"

text \<open>None when the environment leaves no room: \<open>act_on_init_result\<close> then is \<open>fail_due_to_env_size\<close>.\<close>

definition xargs_limits :: "int \<Rightarrow> int option \<Rightarrow> string list \<Rightarrow> (unit, bc_control option) outcome" where
  "xargs_limits sc_arg_max arg_max_const environ =
     obind (bc_init_controlinfo (bc_get_arg_max sc_arg_max arg_max_const) environ XARGS_POSIX_HEADROOM) (\<lambda>st.
     case st of
       BC_INIT_OK ctl \<Rightarrow>
         (let limit = (if sc_arg_max > 0 then Some sc_arg_max else arg_max_const) in
          if (case limit of Some v \<Rightarrow> v \<le> int XARGS_POSIX_HEADROOM | None \<Rightarrow> False) then Undef
          else
            (let ctl = (case limit of
                 Some v \<Rightarrow> ctl\<lparr>arg_max := min (arg_max ctl) (nat v - XARGS_POSIX_HEADROOM)\<rparr>
               | None \<Rightarrow> ctl) in
             if arg_max ctl < LINE_MAX then Undef else Ok (Some (bc_use_sensible_arg_max ctl))))
     | _ \<Rightarrow> Ok None)"

text \<open>The static control block, before it is filled in.\<close>

definition zero_control :: bc_control where
  "zero_control = \<lparr>exit_if_size_exceeded = False, posix_arg_size_max = 0, posix_arg_size_min = 0, arg_max = 0,
     max_arg_count = 0, replace_pat = None, initial_argc = 0, lines_per_exec = 0, args_per_exec = 0\<rparr>"

subsection \<open>The options\<close>

text \<open>\<open>delimiter\<close> is None when \<open>read_args\<close> is \<open>read_line\<close>.\<close>

record xargs_opts =
  ctl_of :: bc_control
  delimiter :: "char option"
  eof_str_of :: "string option"
  input_file :: string
  always_run_command :: bool
  opt_query :: bool
  opt_print :: bool
  opt_proc_max :: int
  show_limits :: bool

definition default_opts :: "bc_control \<Rightarrow> xargs_opts" where
  "default_opts ctl = \<lparr>ctl_of = ctl, delimiter = None, eof_str_of = None, input_file = ''-'', always_run_command = True,
     opt_query = False, opt_print = False, opt_proc_max = 1, show_limits = False\<rparr>"

text \<open>The value of \<open>optarg\<close> where the option requires one.\<close>

definition required :: "string option \<Rightarrow> (string \<Rightarrow> (xargs_error, 'a) outcome) \<Rightarrow> (xargs_error, 'a) outcome" where
  "required arg f = (case arg of None \<Rightarrow> Undef | Some a \<Rightarrow> f a)"

definition positive_num :: "string \<Rightarrow> char \<Rightarrow> (xargs_error, nat) outcome" where
  "positive_num a opt = obind (parse_num a opt 1 (- 1) True) (\<lambda>v. Ok (nat v))"

definition opt_replace :: "string option \<Rightarrow> bc_control \<Rightarrow> bc_control" where
  "opt_replace arg ctl =
     ctl\<lparr>replace_pat := Some (case arg of Some a \<Rightarrow> a | None \<Rightarrow> ''{}''), args_per_exec := 0, lines_per_exec := 0\<rparr>"

definition opt_lines :: "nat \<Rightarrow> bc_control \<Rightarrow> bc_control" where
  "opt_lines n ctl = ctl\<lparr>lines_per_exec := n, args_per_exec := 0, replace_pat := None\<rparr>"

definition opt_args :: "nat \<Rightarrow> bc_control \<Rightarrow> bc_control" where
  "opt_args n ctl =
     (let ctl = ctl\<lparr>args_per_exec := n, lines_per_exec := 0\<rparr> in
      if n = 1 \<and> replace_pat ctl \<noteq> None then ctl\<lparr>args_per_exec := 0\<rparr> else ctl\<lparr>replace_pat := None\<rparr>)"

definition opt_size :: "string \<Rightarrow> bc_control \<Rightarrow> (xargs_error, bc_control) outcome" where
  "opt_size a ctl =
     obind (parse_num a (CHR ''s'') 1 (int (posix_arg_size_max ctl)) False) (\<lambda>v.
       Ok (ctl\<lparr>arg_max := (if nat v > posix_arg_size_max ctl then posix_arg_size_max ctl else nat v)\<rparr>))"

text \<open>One round of the loop around \<open>getopt_long\<close>; \<open>proc_max\<close> is an \<open>int\<close> that is given a \<open>long\<close>.\<close>

definition xargs_option :: "bool \<Rightarrow> char \<times> string option \<Rightarrow> xargs_opts \<Rightarrow> (xargs_error, xargs_opts) outcome" where
  "xargs_option env_too_large opt o1 =
     (let (c, arg) = opt in
      if c = CHR ''0'' then Ok (o1\<lparr>delimiter := Some NUL\<rparr>)
      else if c = CHR ''d'' then
        required arg (\<lambda>a. obind (get_input_delimiter a) (\<lambda>d. Ok (o1\<lparr>delimiter := Some d\<rparr>)))
      else if c = CHR ''E'' \<or> c = CHR ''e'' then
        Ok (o1\<lparr>eof_str_of := (if arg = Some [] then None else arg)\<rparr>)
      else if c = CHR ''h'' then Exit (Status 0)
      else if c = CHR ''I'' \<or> c = CHR ''i'' then Ok (o1\<lparr>ctl_of := opt_replace arg (ctl_of o1)\<rparr>)
      else if c = CHR ''L'' then
        required arg (\<lambda>a. obind (positive_num a c) (\<lambda>n. Ok (o1\<lparr>ctl_of := opt_lines n (ctl_of o1)\<rparr>)))
      else if c = CHR ''l'' then
        (case arg of
           None \<Rightarrow> Ok (o1\<lparr>ctl_of := opt_lines 1 (ctl_of o1)\<rparr>)
         | Some a \<Rightarrow> obind (positive_num a c) (\<lambda>n. Ok (o1\<lparr>ctl_of := opt_lines n (ctl_of o1)\<rparr>)))
      else if c = CHR ''n'' then
        required arg (\<lambda>a. obind (positive_num a c) (\<lambda>n. Ok (o1\<lparr>ctl_of := opt_args n (ctl_of o1)\<rparr>)))
      else if c = CHR ''s'' then
        (if env_too_large then Exit Environment_too_large
         else required arg (\<lambda>a. obind (opt_size a (ctl_of o1)) (\<lambda>ctl. Ok (o1\<lparr>ctl_of := ctl\<rparr>))))
      else if c = CHR ''S'' then Ok (o1\<lparr>show_limits := True\<rparr>)
      else if c = CHR ''t'' then Ok (o1\<lparr>opt_print := True\<rparr>)
      else if c = CHR ''x'' then Ok (o1\<lparr>ctl_of := (ctl_of o1)\<lparr>exit_if_size_exceeded := True\<rparr>\<rparr>)
      else if c = CHR ''p'' then Ok (o1\<lparr>opt_query := True, opt_print := True\<rparr>)
      else if c = CHR ''r'' then Ok (o1\<lparr>always_run_command := False\<rparr>)
      else if c = CHR ''P'' then
        required arg (\<lambda>a. obind (parse_num a c 0 (int LONG_MAX) True) (\<lambda>v.
          Ok (o1\<lparr>opt_proc_max := sint (word_of_int v :: 32 word)\<rparr>)))
      else if c = CHR ''a'' then required arg (\<lambda>a. Ok (o1\<lparr>input_file := a\<rparr>))
      else if c = CHR ''v'' then Exit (Status 0)
      else Exit Usage)"

definition xargs_options :: "bool \<Rightarrow> (char \<times> string option) list \<Rightarrow> bc_control \<Rightarrow> (xargs_error, xargs_opts) outcome" where
  "xargs_options env_too_large opts ctl =
     obind (ofold (xargs_option env_too_large) opts (default_opts ctl)) (\<lambda>o1.
       if env_too_large then Exit Environment_too_large
       else if replace_pat (ctl_of o1) \<noteq> None \<or> lines_per_exec (ctl_of o1) \<noteq> 0
       then Ok (o1\<lparr>ctl_of := (ctl_of o1)\<lparr>exit_if_size_exceeded := True\<rparr>\<rparr>)
       else Ok o1)"

subsection \<open>Reading\<close>

definition read_args :: "char option \<Rightarrow> string option \<Rightarrow> bc_control \<Rightarrow> 'u bc_callback \<Rightarrow> bool \<Rightarrow> 'u xargs_state \<Rightarrow>
    ('u, string option \<times> 'u xargs_state) x_result" where
  "read_args delim eof_str ctl cb ini s =
     (case delim of None \<Rightarrow> read_line eof_str ctl cb ini s | Some d \<Rightarrow> read_string d ctl cb ini s)"

text \<open>What is left to read; the end of the input is one thing to read, too.\<close>

definition unread :: "'u xargs_state \<Rightarrow> nat" where
  "unread s = (if eof s then 0 else Suc (length (input_stream s)))"

lemma lift_bc_Ok: "lift_bc r s = Ok s' \<longleftrightarrow> (\<exists>b. r = Ok b \<and> s' = s\<lparr>bc := b\<rparr>)"
  by (cases r) (auto simp: lift_bc_def)

lemma push_line_keeps:
  "push_line ctl cb p s = Ok s' \<Longrightarrow> input_stream s' = input_stream s \<and> eof s' = eof s"
  by (auto simp: push_line_def lift_bc_Ok split: if_splits)

lemma give_up_not_Ok [simp]: "give_up ctl cb ini err s \<noteq> Ok r"
  by (simp add: give_up_def obind_eq_Ok)

lemma line_append_Ok:
  "line_append ctl cb ini endbuf c v s = Ok r \<Longrightarrow> \<exists>v' s'. r = Go_on v' s' \<and> eof s' = eof s"
  by (auto simp: line_append_def Let_def split: if_splits)

lemma line_char_keeps:
  assumes "line_char eof_str ctl cb ini endbuf c v s = Ok (Go_on v' s')"
  shows "eof s' = eof s"
  using assms unfolding line_char_def line_norm_def
  by (auto simp: Let_def obind_eq_Ok dest: line_append_Ok push_line_keeps split: if_splits read_line_state.splits)

lemma line_eof_Some: "line_eof eof_str ctl cb ini v s = Ok (Some p, s') \<Longrightarrow> eof s'"
  by (auto simp: line_eof_def Let_def obind_eq_Ok dest: push_line_keeps split: if_splits)

lemma line_loop_unread:
  "line_loop eof_str ctl cb ini endbuf v cs s = Ok (Some p, s') \<Longrightarrow> unread s' \<le> length cs"
proof (induction cs arbitrary: v s)
  case Nil
  then show ?case using line_eof_Some by (fastforce simp: unread_def)
next
  case (Cons c cs)
  then obtain r where r: "line_char eof_str ctl cb ini endbuf c v s = Ok r"
    "(case r of Go_on v s \<Rightarrow> line_loop eof_str ctl cb ini endbuf v cs s
      | Return line s \<Rightarrow> Ok (line, s\<lparr>input_stream := cs\<rparr>)) = Ok (Some p, s')"
    by (auto simp: obind_eq_Ok)
  show ?case
  proof (cases r)
    case (Go_on v1 s1)
    then show ?thesis using Cons.IH [of v1 s1] r(2) by simp
  qed (use r(2) in \<open>auto simp: unread_def\<close>)
qed

lemma string_loop_unread:
  "string_loop d ctl cb ini endbuf p cs s = Ok (Some q, s') \<Longrightarrow> unread s' \<le> length cs"
proof (induction cs arbitrary: p)
  case Nil
  then show ?case by (auto simp: unread_def Let_def obind_eq_Ok dest: push_line_keeps split: if_splits)
next
  case (Cons c cs)
  show ?case
  proof (cases "(of_char c :: int) = signed_char d")
    case True
    then show ?thesis using Cons.prems by (auto simp: unread_def obind_eq_Ok dest!: push_line_keeps)
  next
    case False
    then show ?thesis using Cons.prems Cons.IH [of "p @ [c]"] by (auto split: if_splits)
  qed
qed

lemma read_args_unread:
  assumes "read_args delim eof_str ctl cb ini s = Ok (Some p, s')"
  shows "unread s' < unread s"
proof -
  have "\<not> eof s" using assms by (auto simp: read_args_def read_line_def read_string_def split: option.splits)
  then show ?thesis
    using assms line_loop_unread string_loop_unread
    by (fastforce simp: read_args_def read_line_def read_string_def unread_def split: option.splits)
qed


subsection \<open>The loops\<close>

text \<open>A command after every \<open>lines_per_exec\<close> lines.\<close>

definition exec_lines :: "bc_control \<Rightarrow> 'u bc_callback \<Rightarrow> 'u xargs_state \<Rightarrow> ('u, 'u xargs_state) x_result" where
  "exec_lines ctl cb s =
     (if lines_per_exec ctl \<noteq> 0 \<and> lineno s \<ge> lines_per_exec ctl
      then obind (lift_bc (bc_do_exec ctl cb (bc s)) s) (\<lambda>s. Ok (s\<lparr>lineno := 0\<rparr>))
      else Ok s)"

lemma exec_lines_unread: "exec_lines ctl cb s = Ok s' \<Longrightarrow> unread s' = unread s"
  by (auto simp: exec_lines_def obind_eq_Ok lift_bc_Ok unread_def split: if_splits)

text \<open>\<open>while ((*read_args) () != -1)\<close> without a pattern to replace.\<close>

function read_all :: "char option \<Rightarrow> string option \<Rightarrow> bc_control \<Rightarrow> 'u bc_callback \<Rightarrow> 'u xargs_state \<Rightarrow>
    ('u, 'u xargs_state) x_result" where
  "read_all delim eof_str ctl cb s =
     obind (read_args delim eof_str ctl cb False s) (\<lambda>r. case r of
       (None, s1) \<Rightarrow> Ok s1
     | (Some p, s1) \<Rightarrow> obind (exec_lines ctl cb s1) (\<lambda>s2. read_all delim eof_str ctl cb s2))"
  by pat_completeness auto

termination read_all
  by (relation "measure (\<lambda>(delim, eof_str, ctl, cb, s). unread s)")
    (auto simp: exec_lines_unread dest!: read_args_unread)

declare read_all.simps [simp del]

definition push_initial :: "bc_control \<Rightarrow> 'u bc_callback \<Rightarrow> string list \<Rightarrow> 'u bc_state \<Rightarrow> ('u, 'u bc_state) bc_result"
where
  "push_initial ctl cb args s = ofold (\<lambda>a. bc_push_arg ctl cb a (length a + 1) None 0 True) args s"

definition run_append :: "xargs_opts \<Rightarrow> xargs_proc bc_callback \<Rightarrow> string list \<Rightarrow> xargs_proc xargs_state \<Rightarrow>
    (xargs_proc, xargs_proc xargs_state) x_result" where
  "run_append o1 cb command s =
     (let ctl = ctl_of o1 in
      obind (lift_bc (push_initial ctl cb command (bc s)) s) (\<lambda>s.
      let s = s\<lparr>bc := (bc s)\<lparr>cmd_initial_argv_chars := cmd_argv_chars (bc s)\<rparr>\<rparr>;
          ctl = ctl\<lparr>initial_argc := cmd_argc (bc s)\<rparr> in
      obind (read_all (delimiter o1) (eof_str_of o1) ctl cb s) (\<lambda>s.
      if cmd_argc (bc s) \<noteq> initial_argc ctl \<or>
         always_run_command o1 \<and> \<not> procs_executed (usercontext (bc s))
      then lift_bc (bc_do_exec ctl cb (bc s)) s else Ok s)))"

text \<open>The loop with a pattern to replace: \<open>line\<close> is what \<open>linebuf\<close> holds.\<close>

definition insert_line :: "bc_control \<Rightarrow> 'u bc_callback \<Rightarrow> string \<Rightarrow> string list \<Rightarrow> bool \<Rightarrow> string \<Rightarrow> 'u bc_state \<Rightarrow>
    ('u, 'u bc_state) bc_result" where
  "insert_line ctl cb cmd args ini line s =
     obind (bc_push_arg ctl cb cmd (length cmd + 1) None 0 ini ((bc_clear_args ctl s)\<lparr>cmd_argv_chars := 0\<rparr>)) (\<lambda>s.
     obind (ofold (\<lambda>a. bc_do_insert ctl cb a None line False) args s) (\<lambda>s.
     bc_do_exec ctl cb s))"

function insert_all :: "char option \<Rightarrow> string option \<Rightarrow> bc_control \<Rightarrow> 'u bc_callback \<Rightarrow> string \<Rightarrow> string list \<Rightarrow> bool \<Rightarrow>
    'u xargs_state \<Rightarrow> ('u, 'u xargs_state) x_result" where
  "insert_all delim eof_str ctl cb cmd args ini s =
     obind (read_args delim eof_str ctl cb ini s) (\<lambda>r. case r of
       (None, s1) \<Rightarrow> Ok s1
     | (Some line, s1) \<Rightarrow>
         obind (lift_bc (insert_line ctl cb cmd args ini line (bc s1)) s1) (\<lambda>s2.
           insert_all delim eof_str ctl cb cmd args False s2))"
  by pat_completeness auto

lemma lift_bc_unread: "lift_bc r s = Ok s' \<Longrightarrow> unread s' = unread s"
  by (auto simp: lift_bc_Ok unread_def)

termination insert_all
  by (relation "measure (\<lambda>(delim, eof_str, ctl, cb, cmd, args, ini, s). unread s)")
    (auto simp: lift_bc_unread dest!: read_args_unread)

declare insert_all.simps [simp del]

subsection \<open>The program\<close>

definition start_state :: "bc_control \<Rightarrow> (nat \<Rightarrow> char) \<Rightarrow> 'u \<Rightarrow> string \<Rightarrow> 'u xargs_state" where
  "start_state ctl junk u input =
     \<lparr>bc = \<lparr>cmd_argv = [], cmd_argv_alloc = 0, argbuf = map junk [0..<arg_max ctl + 1], cmd_argv_chars = 0,
        cmd_initial_argv_chars = 0, usercontext = u, todo = False, dir_fd = 0,
        largest_successful_arg_count = 0, smallest_failed_arg_count = 0\<rparr>,
      input_stream = input, eof = False, lineno = 0, nullwarning_given = False\<rparr>"

definition start_proc :: "int \<Rightarrow> xargs_proc" where
  "start_proc n = \<lparr>proc_max = n, procs_executed = False, procs_executing = 0, pids = [], stop_waiting = False,
     child_error = 0, events = []\<rparr>"

definition xargs_commands :: "xargs_env \<Rightarrow> nat \<Rightarrow> (nat \<Rightarrow> char) \<Rightarrow> xargs_opts \<Rightarrow> string list \<Rightarrow> string \<Rightarrow>
    (xargs_proc, xargs_proc) x_result" where
  "xargs_commands e n junk o1 args input =
     (let cb = xargs_do_exec (e\<lparr>query_before_executing := opt_query o1, print_command := opt_print o1\<rparr>) n;
          command = (if args = [] then [''/bin/echo''] else args);
          s = start_state (ctl_of o1) junk (start_proc (opt_proc_max o1)) input in
      obind
        (if replace_pat (ctl_of o1) = None then run_append o1 cb command s
         else insert_all (delimiter o1) (eof_str_of o1) (ctl_of o1) cb (hd command) (tl command) True s)
        (\<lambda>s. Ok (usercontext (bc s))))"

text \<open>The status that an error gives to \<open>exit\<close>.\<close>

fun error_status :: "xargs_error \<Rightarrow> nat" where
  "error_status (Build (Client_exit n)) = n"
| "error_status (Status n) = n"
| "error_status _ = 1"

text \<open>
  The whole run, with the exit status and what happened. \<open>stdin\<close> is the standard input and \<open>fopen\<close>
  gives the contents of a file.
\<close>

definition xargs_main :: "xargs_env \<Rightarrow> nat \<Rightarrow> (nat \<Rightarrow> char) \<Rightarrow> int \<Rightarrow> int option \<Rightarrow> string list \<Rightarrow>
    (char \<times> string option) list \<Rightarrow> string list \<Rightarrow> (string \<Rightarrow> string option) \<Rightarrow> string \<Rightarrow>
    (unit, nat \<times> xargs_proc) outcome" where
  "xargs_main e n junk sc_arg_max arg_max_const environ opts args fopen stdin =
     obind (xargs_limits sc_arg_max arg_max_const environ) (\<lambda>limits.
     case xargs_options (limits = None) opts (case limits of Some ctl \<Rightarrow> ctl | None \<Rightarrow> zero_control) of
       Exit err \<Rightarrow> Ok (error_status err, start_proc 1)
     | Undef \<Rightarrow> Undef
     | Diverge \<Rightarrow> Diverge
     | Ok o1 \<Rightarrow>
         (case (if input_file o1 = ''-'' then Some stdin else fopen (input_file o1)) of
            None \<Rightarrow> Ok (1, start_proc (opt_proc_max o1))
          | Some input \<Rightarrow>
              (case xargs_commands e n junk o1 args input of
                 Ok u \<Rightarrow> wait_for_proc_all e n (child_error u) (child_error u) u
               | Exit (err, u) \<Rightarrow> wait_for_proc_all e n 0 (error_status err) u
               | Undef \<Rightarrow> Undef
               | Diverge \<Rightarrow> Diverge)))"

end
