(* ===== verification/XargsRead.thy ===== *)
theory XargsRead
  imports XargsMain XargsProcOk
begin

text \<open>
  What reading promises: the arguments that \<open>read_line\<close> and \<open>read_string\<close> push are those that a
  description of the two input formats gives, and a quoted argument is read back as it was.
\<close>

subsection \<open>The input formats\<close>

text \<open>The pieces between delimiters; what follows the last one counts unless it is empty.\<close>

fun pieces :: "char \<Rightarrow> string \<Rightarrow> string \<Rightarrow> string list" where
  "pieces d p [] = (if p = [] then [] else [p])"
| "pieces d p (c # cs) = (if c = d then p # pieces d [] cs else pieces d (p @ [c]) cs)"

text \<open>
  Words with quotes and backslashes, separated by newlines and, with \<open>b\<close>, blanks. None stands for a quote
  that is not closed on its line; a lone quote at the end of the input is ignored, as is an empty
  word there.
\<close>

definition separates :: "bool \<Rightarrow> char \<Rightarrow> bool" where
  "separates b c \<longleftrightarrow> c = NL \<or> b \<and> is_blank c"

definition is_quote :: "char \<Rightarrow> bool" where
  "is_quote c \<longleftrightarrow> c = CHR 0x27 \<or> c = CHR 0x22"

lemma behind_quote: "2 * (length (dropWhile P cs) - Suc 0) \<le> Suc (2 * length cs)"
  using length_dropWhile_le [of P cs] by linarith

function words :: "bool \<Rightarrow> string \<Rightarrow> string list option"
  and word :: "bool \<Rightarrow> string \<Rightarrow> string \<Rightarrow> string list option" where
  "words b [] = Some []"
| "words b (c # cs) = (if is_space c then words b cs else word b [] (c # cs))"
| "word b acc [] = Some (if acc = [] then [] else [acc])"
| "word b acc (c # cs) =
     (if separates b c then map_option (Cons acc) (words b cs)
      else if c = BSL then (if cs = [] then word b acc [] else word b (acc @ [hd cs]) (tl cs))
      else if is_quote c then
        (if c \<in> set cs \<and> NL \<notin> set (takeWhile (\<lambda>d. d \<noteq> c) cs)
         then word b (acc @ takeWhile (\<lambda>d. d \<noteq> c) cs) (tl (dropWhile (\<lambda>d. d \<noteq> c) cs))
         else if acc = [] \<and> cs = [] then Some [] else None)
      else word b (acc @ [c]) cs)"
  by pat_completeness auto

termination words
  by (relation "measure (\<lambda>x. case x of Inl (b, s) \<Rightarrow> 2 * length s + 1 | Inr (b, acc, s) \<Rightarrow> 2 * length s)")
    (auto simp: less_Suc_eq_le behind_quote)

declare word.simps(2) [simp del]

text \<open>What remains behind an opening quote.\<close>

definition quoted :: "bool \<Rightarrow> char \<Rightarrow> string \<Rightarrow> string \<Rightarrow> string list option" where
  "quoted b q acc cs =
     (if q \<in> set cs \<and> NL \<notin> set (takeWhile (\<lambda>d. d \<noteq> q) cs)
      then word b (acc @ takeWhile (\<lambda>d. d \<noteq> q) cs) (tl (dropWhile (\<lambda>d. d \<noteq> q) cs))
      else if acc = [] \<and> cs = [] then Some [] else None)"

lemma quoted_simps:
  assumes "q \<noteq> NL"
  shows "quoted b q acc [] = (if acc = [] then Some [] else None)"
    "quoted b q acc (c # cs) = (if c = q then word b acc cs else if c = NL then None else quoted b q (acc @ [c]) cs)"
  using assms by (auto simp: quoted_def)

text \<open>The words that the state of \<open>read_line\<close> and the rest of the input stand for.\<close>

definition expected :: "bool \<Rightarrow> line_vars \<Rightarrow> string \<Rightarrow> string list option" where
  "expected b v cs = (case rl_state v of
     SPACE \<Rightarrow> words b cs
   | NORM \<Rightarrow> word b (linebuf v) cs
   | QUOTE \<Rightarrow> quoted b (quotc v) (linebuf v) cs
   | BACKSLASH \<Rightarrow> (if cs = [] then word b (linebuf v) [] else word b (linebuf v @ [hd cs]) (tl cs)))"

definition line_ok :: "nat \<Rightarrow> line_vars \<Rightarrow> bool" where
  "line_ok endbuf v \<longleftrightarrow> length (linebuf v) \<le> endbuf \<and> (rl_state v = SPACE \<longrightarrow> linebuf v = []) \<and>
     (rl_state v \<noteq> SPACE \<longrightarrow> seen_arg v) \<and> (rl_state v = QUOTE \<longrightarrow> quotc v \<noteq> NL)"

definition rest :: "bool \<Rightarrow> 'u xargs_state \<Rightarrow> string list option" where
  "rest b s = (if eof s then Some [] else words b (input_stream s))"

definition push_all :: "bc_control \<Rightarrow> 'u bc_callback \<Rightarrow> string list \<Rightarrow> 'u bc_state \<Rightarrow> ('u, 'u bc_state) bc_result" where
  "push_all ctl cb as s = ofold (\<lambda>a. bc_push_arg ctl cb a (length a + 1) None 0 False) as s"

lemma push_line_Ok:
  assumes "push_line ctl cb p s = Ok s'"
  shows "(if replace_pat ctl = None then push_all ctl cb [p] (bc s) = Ok (bc s') else bc s' = bc s) \<and>
    input_stream s' = input_stream s \<and> eof s' = eof s \<and> lineno s' = lineno s"
  using assms by (auto simp: push_line_def push_all_def lift_bc_Ok obind_eq_Ok split: if_splits)

lemma map_append [simp]:
  "map_option ((@) []) W = W" "map_option ((@) [a]) W = map_option ((#) a) W"
  "map_option ((@) xs) (map_option ((@) ys) W) = map_option ((@) (xs @ ys)) W"
  by (cases W; simp)+

subsection \<open>Steps of \<open>read_line\<close>\<close>

text \<open>
  A step that goes on pushes the words \<open>ws\<close>, and so does one that returns; without a pattern to
  replace a step that goes on pushes none.
\<close>

fun step_ok :: "bc_control \<Rightarrow> 'u bc_callback \<Rightarrow> nat \<Rightarrow> string list option \<Rightarrow> string \<Rightarrow> 'u xargs_state \<Rightarrow> 'u line_step \<Rightarrow> bool"
where
  "step_ok ctl cb endbuf W cs s (Go_on v s') \<longleftrightarrow>
     line_ok endbuf v \<and> eof s' = eof s \<and>
     (\<exists>ws. W = map_option (\<lambda>xs. ws @ xs) (expected (replace_pat ctl = None) v cs) \<and>
        (if replace_pat ctl = None then push_all ctl cb ws (bc s) = Ok (bc s') else ws = [] \<and> bc s' = bc s) \<and>
        (\<forall>w\<in>set ws. length w \<le> endbuf))"
| "step_ok ctl cb endbuf W cs s (Return line s') \<longleftrightarrow>
     (\<exists>p. line = Some p \<and> W = map_option (Cons p) (words (replace_pat ctl = None) cs) \<and> length p \<le> endbuf \<and>
        eof s' = eof s \<and>
        (if replace_pat ctl = None then push_all ctl cb [p] (bc s) = Ok (bc s') else bc s' = bc s))"

lemma line_append_step:
  assumes ok: "line_append ctl cb ini endbuf c v s = Ok r" and v: "line_ok endbuf v" "rl_state v = st" "st \<noteq> SPACE"
    and W: "W = expected (replace_pat ctl = None) (v\<lparr>linebuf := linebuf v @ [c], prevc := Some c\<rparr>) cs"
  shows "step_ok ctl cb endbuf W cs s r"
proof -
  let ?v = "v\<lparr>linebuf := linebuf v @ [c], prevc := Some c\<rparr>"
  have "length (linebuf v) < endbuf" "r = Go_on ?v (if c = NUL then s\<lparr>nullwarning_given := True\<rparr> else s)"
    using ok by (auto simp: line_append_def Let_def split: if_splits)
  then show ?thesis using v W
    by (auto simp: line_ok_def push_all_def option.map_id intro!: exI [of _ "[]"] split: option.split)
qed

lemma line_norm_step:
  assumes ok: "line_norm None ctl cb ini endbuf c v s = Ok r" and v: "line_ok endbuf (v\<lparr>seen_arg := True\<rparr>)" "rl_state v = NORM"
    and seen: "c = NL \<Longrightarrow> seen_arg v"
  shows "step_ok ctl cb endbuf (word (replace_pat ctl = None) (linebuf v) (c # cs)) cs s r"
proof -
  let ?b = "replace_pat ctl = None"
  consider (nl) "c = NL" | (blank) "c \<noteq> NL" "?b" "is_blank c" | (other) "\<not> separates ?b c"
    by (auto simp: separates_def)
  then show ?thesis
  proof cases
    case nl
    then obtain t s' where "t = s \<or> t = s\<lparr>lineno := lineno s + 1\<rparr>" "push_line ctl cb (linebuf v) t = Ok s'"
      "r = Return (Some (linebuf v)) s'"
      using ok seen by (auto simp: line_norm_def is_eof_str_def Let_def obind_eq_Ok split: if_splits)
    then show ?thesis
      using push_line_Ok [of ctl cb "linebuf v" t s'] v nl
      by (auto simp: word.simps separates_def line_ok_def)
  next
    case blank
    then obtain s' where s': "push_line ctl cb (linebuf v) s = Ok s'"
      "r = Go_on (v\<lparr>seen_arg := True, linebuf := [], rl_state := SPACE, first := False, prevc := Some c\<rparr>) s'"
      using ok by (auto simp: line_norm_def is_eof_str_def Let_def obind_eq_Ok split: if_splits)
    then show ?thesis
      using push_line_Ok [OF s'(1)] v blank
      by (auto simp: word.simps separates_def line_ok_def expected_def intro!: exI [of _ "[linebuf v]"]
        split: option.split)
  next
    case other
    then have c: "c \<noteq> NL" "\<not> (?b \<and> is_blank c)" by (auto simp: separates_def)
    consider (bsl) "c = BSL" | (quote) "c \<noteq> BSL" "is_quote c" | (char) "c \<noteq> BSL" "\<not> is_quote c" by blast
    then show ?thesis
    proof cases
      case bsl
      then have "r = Go_on (v\<lparr>seen_arg := True, rl_state := BACKSLASH, prevc := Some c\<rparr>) s"
        using ok c by (auto simp: line_norm_def Let_def split: if_splits)
      then show ?thesis using v other bsl
        by (auto simp: word.simps line_ok_def expected_def push_all_def option.map_id intro!: exI [of _ "[]"]
          split: option.split)
    next
      case quote
      then have "r = Go_on (v\<lparr>seen_arg := True, rl_state := QUOTE, quotc := c, prevc := Some c\<rparr>) s"
        using ok c by (auto simp: line_norm_def is_quote_def Let_def split: if_splits)
      then show ?thesis using v other quote
        by (auto simp: word.simps line_ok_def expected_def quoted_def push_all_def is_quote_def
          intro!: exI [of _ "[]"] split: option.split)
    next
      case char
      then have "line_append ctl cb ini endbuf c (v\<lparr>seen_arg := True\<rparr>) s = Ok r"
        using ok c by (auto simp: line_norm_def is_quote_def Let_def split: if_splits)
      from line_append_step [OF this v(1) _ _ refl, of NORM cs] v(2) other char
      show ?thesis by (simp add: word.simps expected_def)
    qed
  qed
qed


lemma line_char_step:
  assumes ok: "line_char None ctl cb ini endbuf c v s = Ok r" and v: "line_ok endbuf v"
  shows "step_ok ctl cb endbuf (expected (replace_pat ctl = None) v (c # cs)) cs s r"
proof (cases "rl_state v")
  case SPACE
  show ?thesis
  proof (cases "is_space c")
    case True
    then have "r = Go_on (v\<lparr>prevc := Some c\<rparr>) s" using ok SPACE by (simp add: line_char_def)
    then show ?thesis using v SPACE True
      by (auto simp: line_ok_def expected_def push_all_def intro!: exI [of _ "[]"])
  next
    case False
    then have n: "line_norm None ctl cb ini endbuf c (v\<lparr>rl_state := NORM\<rparr>) s = Ok r"
      using ok SPACE by (simp add: line_char_def)
    have "is_space NL" by (simp add: is_space_def)
    then have "step_ok ctl cb endbuf (word (replace_pat ctl = None) [] (c # cs)) cs s r"
      using line_norm_step [OF n, of cs] v SPACE False by (auto simp: line_ok_def)
    then show ?thesis using SPACE False by (simp add: expected_def)
  qed
next
  case NORM
  then have "line_norm None ctl cb ini endbuf c v s = Ok r" using ok by (simp add: line_char_def)
  from line_norm_step [OF this _ NORM, of cs] v NORM show ?thesis
    by (auto simp: line_ok_def expected_def)
next
  case QUOTE
  have q: "quotc v \<noteq> NL" using v QUOTE by (simp add: line_ok_def)
  have nl: "c \<noteq> NL" using ok QUOTE by (auto simp: line_char_def)
  show ?thesis
  proof (cases "c = quotc v")
    case True
    then have "r = Go_on (v\<lparr>rl_state := NORM, seen_arg := True, prevc := Some c\<rparr>) s"
      using ok QUOTE nl by (simp add: line_char_def)
    then show ?thesis using v QUOTE True q
      by (auto simp: line_ok_def expected_def quoted_simps push_all_def intro!: exI [of _ "[]"])
  next
    case False
    then have "line_append ctl cb ini endbuf c v s = Ok r" using ok QUOTE nl by (simp add: line_char_def)
    from line_append_step [OF this v QUOTE _ refl, of cs] show ?thesis
      using QUOTE False q nl by (simp add: expected_def quoted_simps)
  qed
next
  case BACKSLASH
  then have "line_append ctl cb ini endbuf c (v\<lparr>rl_state := NORM\<rparr>) s = Ok r" using ok by (simp add: line_char_def)
  from line_append_step [OF this _ _ _ refl, of NORM cs] v BACKSLASH show ?thesis
    by (simp add: line_ok_def expected_def)
qed

text \<open>What a call of a reading function has read: \<open>W\<close> was to come before, \<open>W'\<close> is to come.\<close>

definition has_read :: "bc_control \<Rightarrow> 'u bc_callback \<Rightarrow> nat \<Rightarrow> string list option \<Rightarrow> 'u bc_state \<Rightarrow> string option \<Rightarrow>
    'u bc_state \<Rightarrow> string list option \<Rightarrow> bool" where
  "has_read ctl cb endbuf W b line b' W' \<longleftrightarrow>
     (if replace_pat ctl = None then
        \<exists>ws. W = map_option (append ws) W' \<and> push_all ctl cb ws b = Ok b' \<and> (\<forall>w\<in>set ws. length w \<le> endbuf)
      else b' = b \<and> (case line of None \<Rightarrow> W = W' | Some p \<Rightarrow> W = map_option (Cons p) W' \<and> length p \<le> endbuf))"

lemma push_all_append: "push_all ctl cb (xs @ ys) s = obind (push_all ctl cb xs s) (push_all ctl cb ys)"
  by (auto simp: push_all_def ofold_append intro!: arg_cong [where f = "obind _"])

lemma has_read_none: "has_read ctl cb endbuf W b None b W"
  by (auto simp: has_read_def push_all_def intro!: exI [of _ "[]"])

lemma has_read_one:
  assumes "if replace_pat ctl = None then push_all ctl cb [p] b = Ok b' else b' = b" and "length p \<le> endbuf"
  shows "has_read ctl cb endbuf (map_option (Cons p) W) b (Some p) b' W"
  using assms by (auto simp: has_read_def split: if_splits intro!: exI [of _ "[p]"])

lemma has_read_push:
  assumes "if replace_pat ctl = None then push_all ctl cb ws b = Ok b1 else ws = [] \<and> b1 = b"
    and "\<forall>w\<in>set ws. length w \<le> endbuf" and "has_read ctl cb endbuf W b1 line b' W'"
  shows "has_read ctl cb endbuf (map_option (append ws) W) b line b' W'"
proof (cases "replace_pat ctl = None")
  case True
  then obtain ws' where "W = map_option (append ws') W'" "push_all ctl cb ws' b1 = Ok b'"
    "\<forall>w\<in>set ws'. length w \<le> endbuf"
    using assms(3) by (auto simp: has_read_def)
  then show ?thesis using assms True
    by (auto simp: has_read_def push_all_append intro!: exI [of _ "ws @ ws'"])
qed (use assms in \<open>auto simp: has_read_def\<close>)

lemma line_eof_read:
  assumes ok: "line_eof None ctl cb ini v s = Ok (line, s')" and v: "line_ok endbuf v"
  shows "has_read ctl cb endbuf (expected (replace_pat ctl = None) v []) (bc s) line (bc s')
      (rest (replace_pat ctl = None) s') \<and> eof s'"
proof (cases "linebuf v = []")
  case True
  then have "line = None" "s' = s\<lparr>eof := True, input_stream := []\<rparr>"
    using ok by (simp_all add: line_eof_def Let_def)
  moreover have "expected (replace_pat ctl = None) v [] = Some []"
    using True v by (auto simp: expected_def quoted_simps line_ok_def split: read_line_state.split)
  ultimately show ?thesis using has_read_none by (simp add: rest_def)
next
  case False
  then have "rl_state v = NORM \<or> rl_state v = BACKSLASH"
    using ok v by (cases "rl_state v") (auto simp: line_eof_def Let_def line_ok_def)
  then have w: "expected (replace_pat ctl = None) v [] = map_option (Cons (linebuf v)) (Some [])"
    using False by (auto simp: expected_def)
  from ok False obtain t where t: "push_line ctl cb (linebuf v) (s\<lparr>eof := True, input_stream := []\<rparr>) = Ok s'"
    "line = Some (linebuf v)"
    by (auto simp: line_eof_def Let_def is_eof_str_def obind_eq_Ok split: if_splits)
  have "has_read ctl cb endbuf (map_option (Cons (linebuf v)) (Some [])) (bc s) line (bc s') (Some [])"
    unfolding t(2) by (rule has_read_one) (use push_line_Ok [OF t(1)] v in \<open>auto simp: line_ok_def\<close>)
  then show ?thesis unfolding w using push_line_Ok [OF t(1)] by (simp add: rest_def)
qed

lemma line_loop_read:
  assumes "line_loop None ctl cb ini endbuf v cs s = Ok (line, s')" and "line_ok endbuf v" and "\<not> eof s"
  shows "has_read ctl cb endbuf (expected (replace_pat ctl = None) v cs) (bc s) line (bc s')
      (rest (replace_pat ctl = None) s') \<and> (line = None \<longrightarrow> eof s')"
  using assms
proof (induction cs arbitrary: v s)
  case Nil
  then show ?case using line_eof_read by fastforce
next
  case (Cons c cs)
  then obtain r where r: "line_char None ctl cb ini endbuf c v s = Ok r"
    "(case r of Go_on v s \<Rightarrow> line_loop None ctl cb ini endbuf v cs s
      | Return line s \<Rightarrow> Ok (line, s\<lparr>input_stream := cs\<rparr>)) = Ok (line, s')"
    by (auto simp: obind_eq_Ok)
  note step = line_char_step [OF r(1) Cons.prems(2), of cs]
  show ?case
  proof (cases r)
    case (Go_on v1 s1)
    then have "has_read ctl cb endbuf (expected (replace_pat ctl = None) v1 cs) (bc s1) line (bc s')
      (rest (replace_pat ctl = None) s') \<and> (line = None \<longrightarrow> eof s')"
      using Cons.IH [of v1 s1] r(2) step Cons.prems(3) by simp
    then show ?thesis using step Go_on has_read_push by auto
  next
    case (Return line1 s1)
    then have "line1 = line" "s' = s1\<lparr>input_stream := cs\<rparr>" using r(2) by simp_all
    then show ?thesis using step Return Cons.prems(3) has_read_one by (auto simp: rest_def)
  qed
qed

lemma read_line_read:
  assumes "read_line None ctl cb ini s = Ok (line, s')"
  shows "has_read ctl cb (line_buffer_end ctl s) (rest (replace_pat ctl = None) s) (bc s) line (bc s')
      (rest (replace_pat ctl = None) s') \<and> (line = None \<longrightarrow> eof s')"
proof (cases "eof s")
  case True
  then show ?thesis using assms has_read_none by (auto simp: read_line_def)
next
  case False
  have "line_ok (line_buffer_end ctl s) start_line" by (simp add: line_ok_def start_line_def)
  from line_loop_read [OF _ this False] False assms show ?thesis
    by (simp add: read_line_def rest_def expected_def start_line_def)
qed


subsection \<open>Delimited strings and the loop\<close>

definition rest_string :: "char \<Rightarrow> 'u xargs_state \<Rightarrow> string list option" where
  "rest_string d s = Some (if eof s then [] else pieces d [] (input_stream s))"

text \<open>The delimiters that \<open>read_string\<close> can find.\<close>

definition plain_char :: "char \<Rightarrow> bool" where
  "plain_char d \<longleftrightarrow> (of_char d :: nat) < 128"

lemma plain_char_signed: "plain_char d \<Longrightarrow> ((of_char c :: int) = signed_char d) = (c = d)"
proof -
  assume "plain_char d"
  then have "(of_nat (of_char d :: nat) :: int) < 128" unfolding plain_char_def by linarith
  then have "signed_char d = of_char d" by (simp add: signed_char_def of_char_def)
  then show ?thesis by simp
qed

lemma string_loop_read:
  assumes "string_loop d ctl cb ini endbuf p cs s = Ok (line, s')" and "length p \<le> endbuf" and "\<not> eof s"
    and "plain_char d"
  shows "has_read ctl cb endbuf (Some (pieces d p cs)) (bc s) line (bc s') (rest_string d s') \<and>
    (line = None \<longrightarrow> eof s')"
  using assms
proof (induction cs arbitrary: p)
  case Nil
  show ?case
  proof (cases "p = []")
    case True
    then show ?thesis using Nil has_read_none by (auto simp: rest_string_def)
  next
    case False
    then have t: "push_line ctl cb p (s\<lparr>eof := True, input_stream := []\<rparr>) = Ok s'" "line = Some p"
      using Nil by (auto simp: obind_eq_Ok)
    have "has_read ctl cb endbuf (map_option (Cons p) (Some [])) (bc s) line (bc s') (Some [])"
      unfolding t(2) by (rule has_read_one) (use push_line_Ok [OF t(1)] Nil in auto)
    then show ?thesis using push_line_Ok [OF t(1)] False by (simp add: rest_string_def)
  qed
next
  case (Cons c cs)
  show ?case
  proof (cases "c = d")
    case True
    then have t: "push_line ctl cb p (s\<lparr>lineno := lineno s + 1, input_stream := cs\<rparr>) = Ok s'" "line = Some p"
      using Cons.prems plain_char_signed by (auto simp: obind_eq_Ok)
    have "has_read ctl cb endbuf (map_option (Cons p) (Some (pieces d [] cs))) (bc s) line (bc s')
        (Some (pieces d [] cs))"
      unfolding t(2) by (rule has_read_one) (use push_line_Ok [OF t(1)] Cons.prems in auto)
    then show ?thesis using push_line_Ok [OF t(1)] True Cons.prems(3) t(2) by (simp add: rest_string_def)
  next
    case False
    then show ?thesis using Cons.prems Cons.IH [of "p @ [c]"] plain_char_signed by (auto split: if_splits)
  qed
qed

text \<open>What is left to read, as arguments.\<close>

definition to_read :: "char option \<Rightarrow> bool \<Rightarrow> 'u xargs_state \<Rightarrow> string list option" where
  "to_read delim b s = (case delim of None \<Rightarrow> rest b s | Some d \<Rightarrow> rest_string d s)"

lemma to_read_cong: "eof s' = eof s \<Longrightarrow> input_stream s' = input_stream s \<Longrightarrow> to_read delim b s' = to_read delim b s"
  by (simp add: to_read_def rest_def rest_string_def split: option.split)

lemma to_read_eof: "eof s \<Longrightarrow> to_read delim b s = Some []"
  by (simp add: to_read_def rest_def rest_string_def split: option.split)

lemma read_args_read:
  assumes "read_args delim None ctl cb ini s = Ok (line, s')" and "\<forall>d. delim = Some d \<longrightarrow> plain_char d"
  shows "has_read ctl cb (line_buffer_end ctl s) (to_read delim (replace_pat ctl = None) s) (bc s) line (bc s')
      (to_read delim (replace_pat ctl = None) s') \<and> (line = None \<longrightarrow> eof s')"
proof (cases delim)
  case None
  then show ?thesis using assms read_line_read by (simp add: read_args_def to_read_def)
next
  case (Some d)
  show ?thesis
  proof (cases "eof s")
    case True
    then show ?thesis using assms Some has_read_none by (auto simp: read_args_def read_string_def to_read_def)
  next
    case False
    then show ?thesis
      using assms Some string_loop_read [of d ctl cb ini "line_buffer_end ctl s" "[]" "input_stream s" s line s']
      by (simp add: read_args_def read_string_def to_read_def rest_string_def)
  qed
qed

context exec_log
begin

lemma push_all_log:
  assumes "bc_inv ctl s" and "few_pending ctl s" and "cmd_initial_argv_chars s < arg_max ctl"
    and "\<forall>w\<in>set ws. length w \<le> arg_max ctl - cmd_initial_argv_chars s - 1"
    and "push_all ctl cb ws s = Ok s'"
  shows "step_log ctl s (map c_string ws) s'"
proof (rule pushes_log)
  have "length w + cmd_initial_argv_chars s + 1 \<le> arg_max ctl" if "w \<in> set ws" for w
    using assms(3,4) that by fastforce
  then show "\<forall>a\<in>set ws. cmd_initial_argv_chars s + length a + 1 \<le> arg_max ctl" by (auto simp: add.commute)
qed (use assms in \<open>simp_all add: push_all_def\<close>)

lemma exec_lines_log:
  assumes "bc_inv ctl (bc s)" and "few_pending ctl (bc s)" and "exec_lines ctl cb s = Ok s'"
  shows "step_log ctl (bc s) [] (bc s')"
proof (cases "lines_per_exec ctl \<noteq> 0 \<and> lineno s \<ge> lines_per_exec ctl")
  case True
  then obtain b where b: "bc_do_exec ctl cb (bc s) = Ok b" "bc s' = b"
    using assms(3) by (auto simp: exec_lines_def obind_eq_Ok lift_bc_Ok)
  have "args_per_exec ctl \<noteq> 0 \<longrightarrow> length (bc_pending ctl (bc s)) \<le> args_per_exec ctl"
    using assms(2) by (auto simp: few_pending_def)
  from do_exec_log [OF assms(1) this b(1)] b(2) show ?thesis by simp
next
  case False
  then show ?thesis using assms step_log_refl by (auto simp: exec_lines_def)
qed

lemma read_all_log:
  assumes "read_all delim None ctl cb s = Ok s'" and "\<forall>d. delim = Some d \<longrightarrow> plain_char d"
    and "replace_pat ctl = None" and "bc_inv ctl (bc s)" and "few_pending ctl (bc s)"
    and "cmd_initial_argv_chars (bc s) < arg_max ctl"
  shows "\<exists>ws. to_read delim True s = Some ws \<and> step_log ctl (bc s) (map c_string ws) (bc s')"
  using assms(1,4,5,6)
proof (induction "unread s" arbitrary: s rule: less_induct)
  case less
  obtain line s1 where r: "read_args delim None ctl cb False s = Ok (line, s1)"
    "(case line of None \<Rightarrow> Ok s1 | Some p \<Rightarrow> obind (exec_lines ctl cb s1) (read_all delim None ctl cb)) = Ok s'"
    using less.prems(1) by (subst (asm) read_all.simps) (auto simp: obind_eq_Ok split: option.splits)
  from read_args_read [OF r(1) assms(2)] assms(3) obtain ws where
    ws: "to_read delim True s = map_option (append ws) (to_read delim True s1)"
      "push_all ctl cb ws (bc s) = Ok (bc s1)" "\<forall>w\<in>set ws. length w \<le> line_buffer_end ctl s"
      "line = None \<longrightarrow> eof s1"
    by (auto simp: has_read_def)
  have 1: "step_log ctl (bc s) (map c_string ws) (bc s1)"
    by (rule push_all_log) (use less.prems ws in \<open>simp_all add: line_buffer_end_def\<close>)
  then have s1: "bc_inv ctl (bc s1)" "few_pending ctl (bc s1)" "cmd_initial_argv_chars (bc s1) < arg_max ctl"
    using less.prems by (simp_all add: step_log_def)
  show ?case
  proof (cases line)
    case None
    then show ?thesis using ws 1 r(2) by (auto simp: to_read_eof)
  next
    case (Some p)
    then obtain s2 where s2: "exec_lines ctl cb s1 = Ok s2" "read_all delim None ctl cb s2 = Ok s'"
      using r(2) by (auto simp: obind_eq_Ok)
    have 2: "step_log ctl (bc s1) [] (bc s2)" by (rule exec_lines_log [OF s1(1,2) s2(1)])
    then have i2: "bc_inv ctl (bc s2)" "few_pending ctl (bc s2)" "cmd_initial_argv_chars (bc s2) < arg_max ctl"
      using s1 by (simp_all add: step_log_def)
    have "unread s2 < unread s" using exec_lines_unread [OF s2(1)] read_args_unread r(1) Some by fastforce
    from less.hyps [OF this s2(2) i2] obtain ws' where
      ws': "to_read delim True s2 = Some ws'" "step_log ctl (bc s2) (map c_string ws') (bc s')" by blast
    have "to_read delim True s2 = to_read delim True s1"
      by (rule to_read_cong) (use s2(1) in \<open>auto simp: exec_lines_def obind_eq_Ok lift_bc_Ok split: if_splits\<close>)
    then have "to_read delim True s = Some (ws @ ws')" using ws(1) ws'(1) by simp
    moreover have "step_log ctl (bc s) (map c_string (ws @ ws')) (bc s')"
      using step_log_trans [OF step_log_trans [OF 1 2] ws'(2)] by simp
    ultimately show ?thesis by blast
  qed
qed

end

end
