(* ===== verification/XargsTable.thy ===== *)
theory XargsTable
  imports XargsProcOk "HOL-Library.Multiset"
begin

text \<open>
  The table of processes: it holds the children that run, \<open>procs_executing\<close> counts them, and
  \<open>child_error\<close> tells whether one of them failed; waiting ends, and no more than \<open>proc_max\<close> commands
  run at a time.
\<close>

subsection \<open>The running children\<close>

fun run_step :: "xargs_event \<Rightarrow> nat list \<Rightarrow> nat list" where
  "run_step (Started p a) r = p # r"
| "run_step (Waited (Child p st)) r = remove1 p r"
| "run_step _ r = r"

definition running :: "xargs_event list \<Rightarrow> nat list" where
  "running h = fold run_step h []"

lemma running_simps [simp]: "running [] = []" "running (h @ [ev]) = run_step ev (running h)"
  by (simp_all add: running_def)

fun child_failed :: "xargs_event \<Rightarrow> bool" where
  "child_failed (Waited (Child p (Exit_status k))) = (k mod 256 \<noteq> 0)"
| "child_failed _ = False"

text \<open>
  What \<open>fork\<close> and \<open>waitpid\<close> are documented to do for a process without other children and without
  signals: a new child has a process number of its own, \<open>waitpid\<close> speaks of running children, and
  without \<open>WNOHANG\<close> it waits for one.
\<close>

definition child_system :: "xargs_env \<Rightarrow> bool" where
  "child_system e \<longleftrightarrow>
     (\<forall>h p. fork e h = Forked p \<longrightarrow> p \<noteq> 0 \<and> p \<notin> set (running h)) \<and>
     (\<forall>h b p st. waitpid e h b = Child p st \<longrightarrow> p \<in> set (running h)) \<and>
     (\<forall>h. running h \<noteq> [] \<longrightarrow> waitpid e h False \<noteq> No_child_yet) \<and>
     (\<forall>h b. running h \<noteq> [] \<longrightarrow> waitpid e h b \<noteq> Wait_failed) \<and>
     (\<forall>h b sig. waitpid e h b \<noteq> Interrupted sig)"

text \<open>No more than \<open>n\<close> children at any time.\<close>

definition bounded :: "nat \<Rightarrow> xargs_event list \<Rightarrow> bool" where
  "bounded n h \<longleftrightarrow> (\<forall>k. length (running (take k h)) \<le> n)"

lemma bounded_snoc: "bounded n (h @ [ev]) \<longleftrightarrow> bounded n h \<and> length (run_step ev (running h)) \<le> n"
proof
  assume b: "bounded n (h @ [ev])"
  have "take k h = take (min k (length h)) (h @ [ev])" for k by (simp add: min_def)
  then have "bounded n h" using b unfolding bounded_def by metis
  moreover have "length (running (take (Suc (length h)) (h @ [ev]))) \<le> n" using b unfolding bounded_def by blast
  ultimately show "bounded n h \<and> length (run_step ev (running h)) \<le> n" by simp
next
  assume b: "bounded n h \<and> length (run_step ev (running h)) \<le> n"
  have "length (running (take k (h @ [ev]))) \<le> n" for k
    using b by (cases "k \<le> length h") (auto simp: bounded_def)
  then show "bounded n (h @ [ev])" by (simp add: bounded_def)
qed

lemma bounded_now: "bounded n h \<Longrightarrow> length (running h) \<le> n"
  unfolding bounded_def by (metis order_refl take_all)

lemma bounded_simps [simp]:
  "bounded n []" "bounded n (h @ [Declined a]) = bounded n h" "bounded n (h @ [Not_started a err]) = bounded n h"
  "bounded n (h @ [Shown a b]) = bounded n h" "bounded n (h @ [Fork_refused]) = bounded n h"
  "bounded n (h @ [Waited r]) = bounded n h"
proof -
  show "bounded n (h @ [Waited r]) = bounded n h"
    using bounded_now [of n h] by (cases r) (auto simp: bounded_snoc length_remove1)
  show "bounded n []" by (simp add: bounded_def)
qed (use bounded_now [of n h] in \<open>auto simp: bounded_snoc\<close>)

definition proc_inv :: "xargs_proc \<Rightarrow> bool" where
  "proc_inv u \<longleftrightarrow>
     mset (filter (\<lambda>p. p \<noteq> 0) (pids u)) = mset (running (events u)) \<and>
     procs_executing u = length (running (events u)) \<and> 0 \<notin> set (running (events u)) \<and>
     child_error u = (if list_ex child_failed (events u) then 123 else 0) \<and>
     (proc_max u \<noteq> 0 \<longrightarrow> bounded (proc_limit (proc_max u)) (events u))"

lemma proc_inv_running:
  assumes "proc_inv u"
  shows "set (running (events u)) = set (pids u) - {0}"
proof -
  have "mset (running (events u)) = mset (filter (\<lambda>p. p \<noteq> 0) (pids u))"
    using assms by (simp add: proc_inv_def)
  then have "set (running (events u)) = set (filter (\<lambda>p. p \<noteq> 0) (pids u))" by (rule mset_eq_setD)
  also have "\<dots> = set (pids u) - {0}" by auto
  finally show ?thesis .
qed

lemma find_proc_None [simp]: "find_proc p ps = None \<longleftrightarrow> p \<notin> set ps"
  by (induction ps) auto

lemma find_proc_Some: "find_proc p ps = Some i \<Longrightarrow> i < length ps \<and> ps ! i = p"
  by (induction ps arbitrary: i) (auto split: if_splits)

lemma clear_slot:
  assumes "find_proc p ps = Some i" and "p \<noteq> 0"
  shows "mset (filter (\<lambda>p. p \<noteq> 0) (ps[i := 0])) = mset (filter (\<lambda>p. p \<noteq> 0) ps) - {#p#}"
  using assms
proof (induction ps arbitrary: i)
  case (Cons q ps)
  show ?case
  proof (cases "p = q")
    case False
    then obtain j where j: "find_proc p ps = Some j" "i = Suc j" using Cons.prems by auto
    have "p \<in># mset (filter (\<lambda>p. p \<noteq> 0) ps)" using find_proc_Some [OF j(1)] Cons.prems(2) by auto
    then show ?thesis using Cons.IH [OF j(1) Cons.prems(2)] j(2) by simp
  qed (use Cons.prems in auto)
qed simp

lemma free_slot_le: "free_slot ps \<le> length ps"
  by (induction ps) auto

lemma free_slot_zero: "free_slot ps < length ps \<Longrightarrow> ps ! free_slot ps = 0"
  by (induction ps) auto

lemma fill_slot:
  assumes "i < length ps" and "ps ! i = 0" and "p \<noteq> 0"
  shows "mset (filter (\<lambda>p. p \<noteq> 0) (ps[i := p])) = add_mset p (mset (filter (\<lambda>p. p \<noteq> 0) ps))"
  using assms by (induction ps arbitrary: i) (auto simp: nth_Cons split: nat.splits)

lemma x2nrealloc_grows: "n < x2nrealloc_size n"
  by (simp add: x2nrealloc_size_def)

lemma add_proc_started:
  assumes inv: "proc_inv u" and p: "p \<noteq> 0" and room: "proc_max u \<noteq> 0 \<longrightarrow> procs_executing u < proc_limit (proc_max u)"
  obtains u' where "add_proc p u = Ok u'" "proc_inv (happened (Started p args) u')"
    "procs_executing u' = procs_executing u + 1" "proc_max u' = proc_max u" "events u' = events u"
proof -
  let ?i = "free_slot (pids u)"
  let ?slots = "if ?i = length (pids u) then pids u @ replicate (x2nrealloc_size ?i - ?i) 0 else pids u"
  have slot: "?i < length ?slots" "?slots ! ?i = 0"
    using free_slot_le [of "pids u"] free_slot_zero [of "pids u"] x2nrealloc_grows [of ?i]
    by (auto simp: nth_append)
  let ?u = "u\<lparr>pids := ?slots[?i := p], procs_executing := procs_executing u + 1, procs_executed := True\<rparr>"
  have add: "add_proc p u = Ok ?u" unfolding add_proc_def Let_def using slot(2) by simp
  have "mset (filter (\<lambda>p. p \<noteq> 0) ?slots) = mset (filter (\<lambda>p. p \<noteq> 0) (pids u))"
    by simp
  then have "mset (filter (\<lambda>p. p \<noteq> 0) (?slots[?i := p])) = add_mset p (mset (running (events u)))"
    using fill_slot [OF slot p] inv by (simp add: proc_inv_def)
  then have "proc_inv (happened (Started p args) ?u)"
    using inv p room by (simp add: proc_inv_def bounded_snoc Suc_le_eq)
  then show ?thesis using add that by simp
qed


lemma reap_inv:
  assumes inv: "proc_inv u" and p: "p \<in> set (running (events u))" and i: "find_proc p (pids u) = Some i"
    and ok: "child_status st ((happened (Waited (Child p st)) u)\<lparr>pids := (pids u)[i := 0],
      procs_executing := procs_executing u - 1\<rparr>) = Ok u'"
  shows "proc_inv u' \<and> proc_max u' = proc_max u \<and> procs_executing u' < procs_executing u"
proof -
  have nz: "p \<noteq> 0" using inv p unfolding proc_inv_def by metis
  then have m: "mset (filter (\<lambda>p. p \<noteq> 0) ((pids u)[i := 0])) = mset (running (events u)) - {#p#}"
    using clear_slot [OF i nz] inv by (simp add: proc_inv_def)
  have n: "length (remove1 p (running (events u))) = procs_executing u - 1" "procs_executing u \<noteq> 0"
    using inv p by (auto simp: proc_inv_def length_remove1)
  show ?thesis
    using ok inv m n p by (auto simp: child_status_def proc_inv_def split: wait_status.splits if_splits
      dest: set_remove1_subset [THEN subsetD])
qed

text \<open>The statuses of a child that end \<open>xargs\<close>.\<close>

definition fatal_status :: "wait_status \<Rightarrow> nat option" where
  "fatal_status st = (if WEXITSTATUS st = 255 then Some 124
     else case st of Exit_status n \<Rightarrow> None | _ \<Rightarrow> Some 125)"

definition ended_by_child :: "bc_error \<Rightarrow> xargs_proc \<Rightarrow> bool" where
  "ended_by_child err u \<longleftrightarrow>
     (\<exists>h p st n. events u = h @ [Waited (Child p st)] \<and> fatal_status st = Some n \<and> err = Client_exit n)"

fun waited :: "xargs_proc \<Rightarrow> xargs_proc p_result \<Rightarrow> bool" where
  "waited u (Ok u') = (proc_inv u' \<and> proc_max u' = proc_max u \<and> procs_executing u' \<le> procs_executing u)"
| "waited u (Exit (err, u')) = ended_by_child err u'"
| "waited u _ = False"

lemma waited_bind:
  assumes "waited u m" and "\<And>a. m = Ok a \<Longrightarrow> waited u (Ok a) \<Longrightarrow> waited u (f a)"
  shows "waited u (obind m f)"
  using assms by (cases m) auto

lemma waited_trans: "waited v r \<Longrightarrow> waited u (Ok v) \<Longrightarrow> waited u r"
  by (cases r) (auto elim!: waited.elims)

lemma child_status_exit:
  "child_status st u = Exit (err, u') \<Longrightarrow> u' = u \<and> (\<exists>n. fatal_status st = Some n \<and> err = Client_exit n)"
  by (auto simp: child_status_def fatal_status_def split: if_splits wait_status.splits)

lemma wait_calls_waited:
  assumes "child_system e" and "proc_inv u" and "procs_executing u \<noteq> 0" and "procs_executing u \<le> n"
  shows "waited u (wait_calls e n all minreap reaped nohang u) \<and>
    (\<forall>u'. wait_calls e n all minreap reaped nohang u = Ok u' \<longrightarrow> \<not> nohang \<longrightarrow>
       procs_executing u' < procs_executing u \<and> (all \<longrightarrow> procs_executing u' = 0))"
  using assms
proof (induction e n all minreap reaped nohang u rule: wait_calls.induct)
  case (2 e n all minreap reaped nohang u)
  let ?u = "happened (Waited (waitpid e (events u) nohang)) u"
  have run: "running (events u) \<noteq> []" using 2(5,6) by (auto simp: proc_inv_def)
  show ?case
  proof (cases "waitpid e (events u) nohang")
    case (Child p st)
    then have p: "p \<in> set (running (events u))" using 2(4) unfolding child_system_def by blast
    then have "p \<in> set (pids u)" using proc_inv_running [OF 2(5)] by blast
    then obtain i where i: "find_proc p (pids u) = Some i" by (metis find_proc_None not_None_eq)
    let ?v = "?u\<lparr>pids := (pids u)[i := 0], procs_executing := procs_executing u - 1\<rparr>"
    let ?r = "child_status st ?v" and ?flag = "\<not> all \<and> reaped + 1 \<ge> minreap"
    have eq: "wait_calls e (Suc n) all minreap reaped nohang u = obind ?r
      (\<lambda>u. if procs_executing u = 0 then Ok u
           else wait_calls e n all minreap (reaped + 1) ?flag (u\<lparr>stop_waiting := False\<rparr>))"
      using Child i by (simp add: Let_def)
    show ?thesis
    proof (cases ?r)
      case (Ok a)
      have a: "proc_inv a" "proc_max a = proc_max u" "procs_executing a < procs_executing u"
        using reap_inv [OF 2(5) p i] Ok Child by simp_all
      show ?thesis
      proof (cases "procs_executing a = 0")
        case False
        let ?w = "a\<lparr>stop_waiting := False\<rparr>"
        have w: "proc_inv ?w" "procs_executing ?w \<noteq> 0" "procs_executing ?w \<le> n"
          using a False 2(7) by (simp_all add: proc_inv_def)
        let ?next = "wait_calls e n all minreap (reaped + 1) ?flag ?w"
        have "child_status st ?v = Ok a" "find_proc p (pids ?u) = Some i" using Ok i by simp_all
        moreover have "pids ?u = pids u" "procs_executing ?u = procs_executing u" by simp_all
        ultimately have "waited ?w ?next \<and> (\<forall>u'. ?next = Ok u' \<longrightarrow> \<not> ?flag \<longrightarrow>
             procs_executing u' < procs_executing ?w \<and> (all \<longrightarrow> procs_executing u' = 0))"
          by (intro 2(2) [OF refl refl Child _ _ False 2(4) w]) (simp_all only: Child)
        then have IH: "waited ?w ?next" "\<And>u'. ?next = Ok u' \<Longrightarrow> \<not> ?flag \<Longrightarrow>
             procs_executing u' < procs_executing ?w \<and> (all \<longrightarrow> procs_executing u' = 0)" by blast+
        have r: "wait_calls e (Suc n) all minreap reaped nohang u = ?next"
          unfolding eq Ok using False by simp
        have u: "waited u (Ok ?w)" using a w(1) by simp
        from waited_trans [OF IH(1) u] have 1: "waited u ?next" .
        have "procs_executing u' < procs_executing u" if "?next = Ok u'" for u'
          using IH(1) a(3) unfolding that by simp
        moreover have "procs_executing u' = 0" if "?next = Ok u'" "all" for u'
          using IH(2) that by simp
        ultimately show ?thesis unfolding r using 1 by blast
      qed (use a Ok eq in simp)
    next
      case (Exit eu)
      obtain err u' where eu: "eu = (err, u')" by fastforce
      have "ended_by_child err u'"
        using child_status_exit [OF Exit [unfolded eu]] Child by (auto simp: ended_by_child_def)
      then show ?thesis unfolding eq Exit eu by simp
    qed (auto simp: child_status_def split: wait_status.splits if_splits)
  next
    case No_child_yet
    have "\<forall>h. running h \<noteq> [] \<longrightarrow> waitpid e h False \<noteq> No_child_yet"
      using 2(4) by (simp add: child_system_def)
    then have "nohang" using No_child_yet run by metis
    then show ?thesis using No_child_yet 2(5) by (simp add: Let_def proc_inv_def)
  qed (use 2(4) run in \<open>auto simp: Let_def child_system_def\<close>)
qed auto


lemma wait_for_proc_waited:
  assumes "child_system e" and "proc_inv u" and "procs_executing u \<le> n"
  shows "waited u (wait_for_proc e n all minreap u)"
proof (cases "procs_executing u = 0")
  case False
  have "waited (u\<lparr>stop_waiting := False\<rparr>)
      (wait_calls e n all minreap 0 (\<not> all \<and> 0 \<ge> minreap) (u\<lparr>stop_waiting := False\<rparr>))"
    using wait_calls_waited [of e "u\<lparr>stop_waiting := False\<rparr>" n] assms False by (simp add: proc_inv_def)
  then have "waited u (wait_calls e n all minreap 0 (\<not> all \<and> 0 \<ge> minreap) (u\<lparr>stop_waiting := False\<rparr>))"
    by (rule waited_trans) (use assms in \<open>simp add: proc_inv_def\<close>)
  then show ?thesis using False by (simp add: wait_for_proc_def)
qed (use assms in \<open>simp add: wait_for_proc_def\<close>)

text \<open>A call that does not only poll waits for a child, or for all of them.\<close>

lemma wait_for_proc_reaps:
  assumes "child_system e" and "proc_inv u" and "procs_executing u \<le> n" and "all \<or> 0 < minreap"
    and "wait_for_proc e n all minreap u = Ok u'" and "procs_executing u \<noteq> 0"
  shows "procs_executing u' < procs_executing u" "all \<Longrightarrow> procs_executing u' = 0"
  using wait_calls_waited [of e "u\<lparr>stop_waiting := False\<rparr>" n all minreap 0 "\<not> all \<and> 0 \<ge> minreap"] assms
  by (auto simp: wait_for_proc_def proc_inv_def)

lemma wait_for_slot_waited:
  assumes "child_system e" and "proc_inv u" and "procs_executing u < n" and "proc_limit (proc_max u) \<noteq> 0"
  shows "waited u (wait_for_slot e n u) \<and>
    (\<forall>u'. wait_for_slot e n u = Ok u' \<longrightarrow> procs_executing u' < proc_limit (proc_max u'))"
  using assms
proof (induction n arbitrary: u)
  case (Suc n)
  show ?case
  proof (cases "procs_executing u \<ge> proc_limit (proc_max u)")
    case True
    note w = wait_for_proc_waited [OF Suc.prems(1,2), of "Suc n" False 1]
    show ?thesis
    proof (cases "wait_for_proc e (Suc n) False 1 u")
      case (Ok a)
      have "procs_executing a < procs_executing u"
        using wait_for_proc_reaps(1) [OF Suc.prems(1,2) _ _ Ok] Suc.prems True by simp
      moreover have a: "waited u (Ok a)" using w Ok Suc.prems by simp
      ultimately have "waited a (wait_for_slot e n a) \<and>
          (\<forall>u'. wait_for_slot e n a = Ok u' \<longrightarrow> procs_executing u' < proc_limit (proc_max u'))"
        using Suc.IH [of a] Suc.prems by simp
      then show ?thesis using True Ok waited_trans [OF _ a] by auto
    next
      case (Exit eu)
      then show ?thesis using w Suc.prems True by (cases eu) auto
    qed (use w Suc.prems in auto)
  qed (use Suc.prems in auto)
qed simp

lemma ended_by_child_exit: "ended_by_child err u \<Longrightarrow> \<exists>st. err = Client_exit st"
  by (auto simp: ended_by_child_def)

fun forked :: "xargs_proc \<Rightarrow> (nat \<times> xargs_proc) p_result \<Rightarrow> bool" where
  "forked u (Ok (p, u')) = (p \<noteq> 0 \<and> waited u (Ok u'))"
| "forked u (Exit (err, u')) = (\<exists>st. err = Client_exit st)"
| "forked u _ = False"

lemma forked_trans: "forked v r \<Longrightarrow> waited u (Ok v) \<Longrightarrow> forked u r"
  by (cases r) (auto elim!: forked.elims)

lemma fork_child_forked:
  assumes "child_system e" and "proc_inv u" and "procs_executing u < n"
  shows "forked u (fork_child e n u)"
  using assms
proof (induction n arbitrary: u)
  case (Suc n)
  let ?u = "happened Fork_refused u"
  have u: "proc_inv ?u" using Suc.prems(2) by (simp add: proc_inv_def)
  note w = wait_for_proc_waited [OF Suc.prems(1) u, of "Suc n" False 1]
  have again: "forked ?u (obind (wait_for_proc e (Suc n) False 1 ?u) (fork_child e n))"
    if nz: "procs_executing u \<noteq> 0"
  proof (cases "wait_for_proc e (Suc n) False 1 ?u")
    case (Ok a)
    have "procs_executing a < procs_executing u"
      using wait_for_proc_reaps(1) [OF Suc.prems(1) u _ _ Ok] Suc.prems nz by simp
    moreover have a: "waited ?u (Ok a)" using w Ok Suc.prems by simp
    ultimately have "forked a (fork_child e n a)" using Suc.IH [of a] Suc.prems by simp
    then show ?thesis using Ok forked_trans [OF _ a] by simp
  next
    case (Exit eu)
    then show ?thesis using w Suc.prems ended_by_child_exit by (cases eu) auto
  qed (use w Suc.prems in auto)
  have "waited u (Ok ?u)" using u by simp
  from forked_trans [OF again this] show ?case
    using Suc.prems by (auto simp: Let_def child_system_def split: fork_answer.split)
qed simp

text \<open>After a command has been started there is room for it, and for one more when it failed to run.\<close>

definition within :: "xargs_proc \<Rightarrow> bool" where
  "within u \<longleftrightarrow> proc_inv u \<and> - (2 ^ 31) \<le> proc_max u \<and> proc_max u < 2 ^ 31 \<and>
     (proc_max u \<noteq> 0 \<longrightarrow> procs_executing u \<le> proc_limit (proc_max u))"

lemma proc_limit_positive:
  assumes "within u" and "proc_max u \<noteq> 0"
  shows "proc_limit (proc_max u) \<noteq> 0"
proof -
  have "proc_max u mod 2 ^ 64 \<noteq> 0"
  proof (cases "proc_max u < 0")
    case True
    have "(proc_max u + 2 ^ 64) mod 2 ^ 64 = proc_max u + 2 ^ 64"
      by (rule mod_pos_pos_trivial) (use assms True in \<open>simp_all add: within_def\<close>)
    then show ?thesis using assms(1) by (simp add: within_def)
  next
    case False
    then have "proc_max u mod 2 ^ 64 = proc_max u"
      by (intro mod_pos_pos_trivial) (use assms in \<open>simp_all add: within_def\<close>)
    then show ?thesis using assms(2) by simp
  qed
  moreover have "0 \<le> proc_max u mod 2 ^ 64" by simp
  ultimately show ?thesis unfolding proc_limit_def by linarith
qed

fun started :: "xargs_proc \<Rightarrow> (bool \<times> xargs_proc) p_result \<Rightarrow> bool" where
  "started u (Ok (b, u')) = (within u' \<and> proc_max u' = proc_max u \<and> procs_executing u' \<le> procs_executing u + 1)"
| "started u (Exit (err, u')) = (\<exists>st. err = Client_exit st)"
| "started u _ = False"

lemma started_bind:
  assumes "waited u m" and "\<And>a. m = Ok a \<Longrightarrow> waited u (Ok a) \<Longrightarrow> started a (f a)"
  shows "started u (obind m f)"
proof (cases m)
  case (Ok a)
  then have "waited u (Ok a)" "started a (f a)" using assms by simp_all
  then show ?thesis using Ok by (cases "f a") (auto elim!: started.elims)
next
  case (Exit eu)
  then show ?thesis using assms(1) ended_by_child_exit by (cases eu) auto
qed (use assms in auto)


lemma start_command_started:
  assumes "child_system e" and "within u" and "procs_executing u < n"
  shows "started u (start_command e n argv args u)"
  unfolding start_command_def
proof (rule started_bind)
  have u: "proc_inv u" using assms by (simp add: within_def)
  note w = wait_for_slot_waited [OF assms(1) u assms(3)]
  note pos = proc_limit_positive [OF assms(2)]
  have range: "- (2 ^ 31) \<le> proc_max u \<and> proc_max u < 2 ^ 31" using assms(2) by (simp add: within_def)
  show "waited u (if proc_max u \<noteq> 0 then wait_for_slot e n u else Ok u)"
    using w u pos by simp
  fix a
  assume a: "(if proc_max u \<noteq> 0 then wait_for_slot e n u else Ok u) = Ok a" "waited u (Ok a)"
  then have room: "proc_max a \<noteq> 0 \<longrightarrow> procs_executing a < proc_limit (proc_max a)"
    using w pos by (auto split: if_splits)
  let ?b = "if \<not> query_before_executing e \<and> print_command e then snd (print_args e False argv a) else a"
  have b: "proc_inv ?b" "proc_max ?b = proc_max a" "procs_executing ?b = procs_executing a"
    using a by (auto simp: print_args_def Let_def proc_inv_def)
  have "started ?b (obind (wait_for_proc e n False 0 ?b) (\<lambda>u.
     obind (fork_child e n u) (\<lambda>(child, u).
     case child_errno e args u of
       None \<Rightarrow> obind (add_proc child u) (\<lambda>u. Ok (True, happened (Started child args) u))
     | Some err \<Rightarrow>
         (let u = happened (Not_started args err) u in
          case err of
            E2BIG \<Rightarrow> Ok (False, u)
          | ENOENT_exec \<Rightarrow> Exit (Client_exit 127, u)
          | Other_exec_errno _ \<Rightarrow> Exit (Client_exit 126, u)))))"
  proof (rule started_bind)
    show "waited ?b (wait_for_proc e n False 0 ?b)"
      by (rule wait_for_proc_waited [OF assms(1) b(1)]) (use a b assms(3) in simp)
    fix c
    assume c: "wait_for_proc e n False 0 ?b = Ok c" "waited ?b (Ok c)"
    have f: "forked c (fork_child e n c)"
      by (rule fork_child_forked [OF assms(1)]) (use a b c assms(3) in simp_all)
    show "started c (obind (fork_child e n c) (\<lambda>(child, u).
       case child_errno e args u of
         None \<Rightarrow> obind (add_proc child u) (\<lambda>u. Ok (True, happened (Started child args) u))
       | Some err \<Rightarrow>
         (let u = happened (Not_started args err) u in
          case err of
            E2BIG \<Rightarrow> Ok (False, u)
          | ENOENT_exec \<Rightarrow> Exit (Client_exit 127, u)
          | Other_exec_errno _ \<Rightarrow> Exit (Client_exit 126, u))))"
    proof (cases "fork_child e n c")
      case (Ok pu)
      obtain p d where pu: "pu = (p, d)" by fastforce
      have d: "p \<noteq> 0" "proc_inv d" "proc_max d = proc_max a" "procs_executing d \<le> procs_executing c"
        "procs_executing d \<le> procs_executing a"
        using f Ok pu c b by simp_all
      have "proc_max d \<noteq> 0 \<longrightarrow> procs_executing d < proc_limit (proc_max d)" using d room by auto
      then obtain d' where d': "add_proc p d = Ok d'" "proc_inv (happened (Started p args) d')"
        "procs_executing d' = procs_executing d + 1" "proc_max d' = proc_max d"
        using add_proc_started [OF d(2,1)] by metis
      have "within (happened (Not_started args err) d)" for err
        using d room a range by (auto simp: within_def proc_inv_def)
      moreover have "within (happened (Started p args) d')"
        using d d' room a range by (auto simp: within_def)
      ultimately show ?thesis
        using Ok pu d(3,4) d'(1,3,4) c(2) b(2) by (auto simp: Let_def split: option.split exec_errno.split)
    next
      case (Exit eu)
      then show ?thesis using f by (cases eu) auto
    qed (use f in auto)
  qed
  then show "started a (let u = ?b in obind (wait_for_proc e n False 0 u) (\<lambda>u.
     obind (fork_child e n u) (\<lambda>(child, u).
     case child_errno e args u of
       None \<Rightarrow> obind (add_proc child u) (\<lambda>u. Ok (True, happened (Started child args) u))
     | Some err \<Rightarrow>
         (let u = happened (Not_started args err) u in
          case err of
            E2BIG \<Rightarrow> Ok (False, u)
          | ENOENT_exec \<Rightarrow> Exit (Client_exit 127, u)
          | Other_exec_errno _ \<Rightarrow> Exit (Client_exit 126, u)))))"
    using b unfolding Let_def by (auto elim!: started.elims)
qed

lemma xargs_do_exec_started:
  assumes "child_system e" and "within u" and "procs_executing u < n"
  shows "started u (xargs_do_exec e n argv args u)"
proof (cases "query_before_executing e")
  case True
  obtain yes v where v: "print_args e True argv u = (yes, v)" by fastforce
  then have v': "within v" "procs_executing v = procs_executing u" "proc_max v = proc_max u"
    using assms(2) by (auto simp: print_args_def Let_def within_def proc_inv_def)
  then have "started v (start_command e n argv args v)"
    using start_command_started assms by simp
  then have "started u (start_command e n argv args v)" using v' by (auto elim!: started.elims)
  moreover have "proc_inv (happened (Declined args) v)" using v'(1) by (auto simp: within_def proc_inv_def)
  then have "within (happened (Declined args) v)" using v' by (simp add: within_def)
  ultimately show ?thesis using True v v' by (auto simp: xargs_do_exec_def)
qed (use start_command_started assms in \<open>simp add: xargs_do_exec_def\<close>)

end
