(* ===== verification/XargsSafe.thy ===== *)
theory XargsSafe
  imports XargsRead XargsTable
begin

text \<open>
  \<open>xargs\<close> never fails an assertion, writes outside its buffers or goes on for ever, whatever it reads
  and whatever its limits are, as long as the system answers as documented.
\<close>

locale exec_safe = exec_log cb log for cb :: "'u bc_callback" and log :: "'u \<Rightarrow> string list list" +
  fixes I :: "'u \<Rightarrow> bool"
  assumes safe: "cb_safe I cb"
begin

definition fine :: "bc_control \<Rightarrow> nat \<Rightarrow> 'u bc_state \<Rightarrow> bool" where
  "fine ctl k b \<longleftrightarrow> bc_inv ctl b \<and> few_pending ctl b \<and> cmd_initial_argv_chars b = k \<and> k < arg_max ctl \<and>
     I (usercontext b)"

lemma fine_exec:
  assumes "fine ctl k b"
  shows "safely (fine ctl k) (bc_do_exec ctl cb b)"
proof (rule safely_mono [OF do_exec_safe [OF safe]])
  fix b' assume ok: "bc_do_exec ctl cb b = Ok b'" and I: "I (usercontext b')"
  have "args_per_exec ctl \<noteq> 0 \<longrightarrow> length (bc_pending ctl b) \<le> args_per_exec ctl"
    using assms by (auto simp: fine_def few_pending_def)
  from do_exec_log [OF _ this ok] I assms show "fine ctl k b'" by (auto simp: fine_def step_log_def)
qed (use assms in \<open>auto simp: fine_def\<close>)

lemma fine_push:
  assumes "fine ctl k b" and "length p \<le> arg_max ctl - k - 1"
  shows "safely (fine ctl k) (bc_push_arg ctl cb p (length p + 1) None 0 False b)"
proof -
  have fits: "cmd_initial_argv_chars b + length p + 1 \<le> arg_max ctl" using assms by (auto simp: fine_def)
  have b: "bc_inv ctl b" "few_pending ctl b" "I (usercontext b)" using assms(1) by (simp_all add: fine_def)
  show ?thesis
  proof (rule safely_mono [OF push_safe [OF safe b(1,2) fits b(3)]])
    fix b' assume "bc_push_arg ctl cb p (length p + 1) None 0 False b = Ok b'" "I (usercontext b')"
    then show "fine ctl k b'" using push_log [OF b(1,2) fits] assms(1) by (auto simp: fine_def step_log_def)
  qed
qed

lemma fine_lift: "safely (fine ctl k) r \<Longrightarrow> safely (\<lambda>s'. fine ctl k (bc s')) (lift_bc r s)"
  by (cases r) (auto simp: lift_bc_def)

lemma push_line_safe:
  assumes "fine ctl k (bc s)" and "length p \<le> arg_max ctl - k - 1"
  shows "safely (\<lambda>s'. fine ctl k (bc s')) (push_line ctl cb p s)"
  using fine_lift [OF fine_push [OF assms]] assms by (simp add: push_line_def)

lemma give_up_safe:
  assumes "fine ctl k (bc s)"
  shows "safely P (give_up ctl cb ini err s)"
proof -
  have "safely (\<lambda>s'. True) (exec_if_possible ctl cb ini s)"
    using safely_mono [OF fine_lift [OF fine_exec [OF assms]]] by (simp add: exec_if_possible_def)
  then show ?thesis unfolding give_up_def by (rule safely_bind) simp
qed

fun fine_step :: "bc_control \<Rightarrow> nat \<Rightarrow> 'u line_step \<Rightarrow> bool" where
  "fine_step ctl k (Go_on v s) = (fine ctl k (bc s) \<and> length (linebuf v) \<le> arg_max ctl - k - 1)"
| "fine_step ctl k (Return line s) = fine ctl k (bc s)"

lemma line_append_safe:
  assumes "fine ctl k (bc s)"
  shows "safely (fine_step ctl k) (line_append ctl cb ini (arg_max ctl - k - 1) c v s)"
  using assms by (auto simp: line_append_def Let_def intro!: give_up_safe [of ctl k])

lemma line_norm_safe:
  assumes "fine ctl k (bc s)" and "length (linebuf v) \<le> arg_max ctl - k - 1"
  shows "safely (fine_step ctl k) (line_norm eof_str ctl cb ini (arg_max ctl - k - 1) c v s)"
proof -
  have ret: "safely (fine_step ctl k) (obind (push_line ctl cb (linebuf v) t) (\<lambda>s. Ok (Return line s)))"
    if "bc t = bc s" for t line
    by (rule safely_bind [OF push_line_safe]) (use assms that in simp_all)
  have go: "safely (fine_step ctl k) (obind (push_line ctl cb (linebuf v) t) (\<lambda>s. Ok (Go_on v' s)))"
    if "bc t = bc s" "length (linebuf v') \<le> arg_max ctl - k - 1" for t v'
    by (rule safely_bind [OF push_line_safe]) (use assms that in simp_all)
  have app: "safely (fine_step ctl k) (line_append ctl cb ini (arg_max ctl - k - 1) c v' s)" for v'
    by (rule line_append_safe [OF assms(1)])
  show ?thesis
  proof (cases "c = NL")
    case True
    then show ?thesis using assms ret by (simp add: line_norm_def Let_def)
  next
    case False
    then show ?thesis using assms go app by (simp add: line_norm_def Let_def)
  qed
qed

lemma line_char_safe:
  assumes "fine ctl k (bc s)" and "length (linebuf v) \<le> arg_max ctl - k - 1"
  shows "safely (fine_step ctl k) (line_char eof_str ctl cb ini (arg_max ctl - k - 1) c v s)"
  using assms line_norm_safe [of ctl k s] line_append_safe [OF assms(1)]
  by (auto simp: line_char_def intro!: give_up_safe [of ctl k] split: read_line_state.split)

lemma line_loop_safe:
  assumes "fine ctl k (bc s)" and "length (linebuf v) \<le> arg_max ctl - k - 1"
  shows "safely (\<lambda>r. fine ctl k (bc (snd r))) (line_loop eof_str ctl cb ini (arg_max ctl - k - 1) v cs s)"
  using assms
proof (induction cs arbitrary: v s)
  case Nil
  have "safely (\<lambda>r. fine ctl k (bc (snd r)))
      (obind (push_line ctl cb (linebuf v) t) (\<lambda>s. Ok (Some (linebuf v), s)))" if "bc t = bc s" for t
    by (rule safely_bind [OF push_line_safe]) (use Nil that in auto)
  then show ?case using Nil by (auto simp: line_eof_def Let_def intro!: give_up_safe [of ctl k])
next
  case (Cons c cs)
  show ?case unfolding line_loop.simps
    by (rule safely_bind [OF line_char_safe]) (use Cons in \<open>auto split: line_step.split\<close>)
qed

lemma string_loop_safe:
  assumes "fine ctl k (bc s)" and "length p \<le> arg_max ctl - k - 1"
  shows "safely (\<lambda>r. fine ctl k (bc (snd r))) (string_loop d ctl cb ini (arg_max ctl - k - 1) p cs s)"
  using assms
proof (induction cs arbitrary: p)
  case Nil
  have "safely (\<lambda>r. fine ctl k (bc (snd r))) (obind (push_line ctl cb p t) (\<lambda>s. Ok (Some p, s)))"
    if "bc t = bc s" for t
    by (rule safely_bind [OF push_line_safe]) (use Nil that in auto)
  then show ?case using Nil by (auto simp: Let_def)
next
  case (Cons c cs)
  have "safely (\<lambda>r. fine ctl k (bc (snd r))) (obind (push_line ctl cb p t) (\<lambda>s. Ok (Some p, s)))"
    if "bc t = bc s" for t
    by (rule safely_bind [OF push_line_safe]) (use Cons.prems that in auto)
  then show ?case using Cons by (auto intro!: give_up_safe [of ctl k])
qed

lemma read_args_safe:
  assumes "fine ctl k (bc s)"
  shows "safely (\<lambda>r. fine ctl k (bc (snd r))) (read_args delim eof_str ctl cb ini s)"
proof -
  have "line_buffer_end ctl s = arg_max ctl - k - 1" using assms by (simp add: line_buffer_end_def fine_def)
  then show ?thesis
    using assms line_loop_safe [OF assms, of start_line] string_loop_safe [OF assms, of "[]"]
    by (auto simp: read_args_def read_line_def read_string_def start_line_def split: option.split)
qed

lemma exec_lines_safe:
  assumes "fine ctl k (bc s)"
  shows "safely (\<lambda>s. fine ctl k (bc s)) (exec_lines ctl cb s)"
  using safely_bind [OF fine_lift [OF fine_exec [OF assms]], where f = "\<lambda>s. Ok (s\<lparr>lineno := 0\<rparr>)"] assms
  by (simp add: exec_lines_def)

lemma read_all_safe:
  assumes "fine ctl k (bc s)"
  shows "safely (\<lambda>s. fine ctl k (bc s)) (read_all delim eof_str ctl cb s)"
  using assms
proof (induction "unread s" arbitrary: s rule: less_induct)
  case less
  show ?case
    unfolding read_all.simps [of delim eof_str ctl cb s]
  proof (rule safely_bind [OF read_args_safe [OF less.prems]], goal_cases)
    case (1 r)
    obtain line s1 where r: "r = (line, s1)" by fastforce
    show ?case
    proof (cases line)
      case (Some p)
      have "safely (\<lambda>s. fine ctl k (bc s)) (obind (exec_lines ctl cb s1) (read_all delim eof_str ctl cb))"
      proof (rule safely_bind [OF exec_lines_safe])
        fix s2 assume s2: "exec_lines ctl cb s1 = Ok s2" "fine ctl k (bc s2)"
        have "unread s2 < unread s" using exec_lines_unread [OF s2(1)] read_args_unread 1(1) r Some by fastforce
        then show "safely (\<lambda>s. fine ctl k (bc s)) (read_all delim eof_str ctl cb s2)"
          by (rule less.hyps [OF _ s2(2)])
      qed (use 1 r in simp)
      then show ?thesis using r Some by simp
    qed (use 1 r in simp)
  qed
qed

end


text \<open>The processes of \<open>xargs\<close> with a limit on their number: \<open>n\<close>, the fuel for waiting, is above it.\<close>

definition proc_ok :: "xargs_env \<Rightarrow> nat \<Rightarrow> xargs_proc \<Rightarrow> bool" where
  "proc_ok e n u \<longleftrightarrow> child_system e \<and> within u \<and> proc_max u \<noteq> 0 \<and> proc_limit (proc_max u) < n"

lemma xargs_do_exec_safe: "cb_safe (proc_ok e n) (xargs_do_exec e n)"
proof -
  have "safely (\<lambda>r. proc_ok e n (snd r)) (xargs_do_exec e n argv args u)" if u: "proc_ok e n u" for argv args u
  proof -
    have "procs_executing u < n" using u by (auto simp: proc_ok_def within_def)
    then have s: "started u (xargs_do_exec e n argv args u)"
      using xargs_do_exec_started u by (simp add: proc_ok_def)
    then show ?thesis using u
      by (cases "xargs_do_exec e n argv args u") (auto simp: proc_ok_def)
  qed
  then show ?thesis by (simp add: cb_safe_def)
qed

interpretation xargs_safe: exec_safe "xargs_do_exec e n" "\<lambda>u. handled (events u)" "proc_ok e n" for e n
  by unfold_locales (rule xargs_do_exec_safe)

end
