(* ===== verification/XargsRun.thy ===== *)
theory XargsRun
  imports XargsSafe
begin

text \<open>
  The whole program: its options, the initial arguments, the loops and the end.
\<close>

subsection \<open>Options\<close>

text \<open>\<open>-I\<close>, \<open>-L\<close> and \<open>-n\<close> exclude each other, and the size stays within what the system has.\<close>

definition ctl_ok :: "bc_control \<Rightarrow> bool" where
  "ctl_ok ctl \<longleftrightarrow> initial_argc ctl = 0 \<and> arg_max ctl \<le> posix_arg_size_max ctl \<and> arg_max ctl \<noteq> 0 \<and>
     (replace_pat ctl \<noteq> None \<longrightarrow> lines_per_exec ctl = 0 \<and> args_per_exec ctl = 0) \<and>
     (lines_per_exec ctl \<noteq> 0 \<longrightarrow> args_per_exec ctl = 0)"

lemma init_controlinfo_ok:
  assumes "bc_init_controlinfo m environ headroom = Ok (BC_INIT_OK ctl)"
  shows "initial_argc ctl = 0 \<and> arg_max ctl = posix_arg_size_max ctl \<and> replace_pat ctl = None \<and>
    lines_per_exec ctl = 0 \<and> args_per_exec ctl = 0 \<and> posix_arg_size_min ctl = 4096"
  using assms by (auto simp: bc_init_controlinfo_def Let_def split: if_splits)

lemma xargs_limits_ok:
  assumes "xargs_limits sc am environ = Ok (Some ctl)"
  shows "ctl_ok ctl"
proof -
  obtain st where st: "bc_init_controlinfo (bc_get_arg_max sc am) environ XARGS_POSIX_HEADROOM = Ok st"
    using assms by (auto simp: xargs_limits_def obind_eq_Ok)
  then obtain c where c: "st = BC_INIT_OK c" using assms by (cases st) (auto simp: xargs_limits_def)
  have "\<exists>m. ctl = bc_use_sensible_arg_max (c\<lparr>arg_max := m\<rparr>) \<and> m \<noteq> 0 \<and> m \<le> arg_max c"
  proof (cases "if sc > 0 then Some sc else am")
    case None
    then have "ctl = bc_use_sensible_arg_max (c\<lparr>arg_max := arg_max c\<rparr>)" "arg_max c \<noteq> 0"
      using assms st unfolding c by (auto simp: xargs_limits_def Let_def split: if_splits)
    then show ?thesis by blast
  next
    case (Some v)
    let ?m = "min (arg_max c) (nat v - XARGS_POSIX_HEADROOM)"
    have "ctl = bc_use_sensible_arg_max (c\<lparr>arg_max := ?m\<rparr>)" "\<not> ?m < LINE_MAX"
      using assms st Some unfolding c xargs_limits_def Let_def by (simp_all split: if_splits)
    moreover from this(2) have "?m \<noteq> 0" by linarith
    ultimately show ?thesis by (intro exI [of _ ?m]) simp
  qed
  then show ?thesis
    using init_controlinfo_ok [of _ environ] st unfolding c
    by (auto simp: bc_use_sensible_arg_max_def ctl_ok_def Let_def)
qed

lemma parse_num_range:
  "parse_num a c lo hi fatal = Ok v \<Longrightarrow> lo \<le> v \<or> hi < lo \<and> 0 \<le> hi"
  by (auto simp: parse_num_def Let_def split: prod.splits if_splits)

lemma parse_num_upper: "parse_num a c lo hi fatal = Ok v \<Longrightarrow> lo \<le> hi \<Longrightarrow> 0 \<le> hi \<Longrightarrow> v \<le> hi"
  by (auto simp: parse_num_def Let_def split: prod.splits if_splits)

lemma opt_size_ok: "ctl_ok ctl \<Longrightarrow> opt_size a ctl = Ok ctl' \<Longrightarrow> ctl_ok ctl'"
  using parse_num_range [of a "CHR ''s''" 1 "int (posix_arg_size_max ctl)" False]
  by (auto simp: opt_size_def obind_eq_Ok ctl_ok_def)

lemma opt_ctl_ok:
  "ctl_ok ctl \<Longrightarrow> ctl_ok (opt_replace arg ctl)" "ctl_ok ctl \<Longrightarrow> ctl_ok (opt_lines n ctl)"
  "ctl_ok ctl \<Longrightarrow> ctl_ok (opt_args n ctl)"
  by (auto simp: ctl_ok_def opt_replace_def opt_lines_def opt_args_def Let_def)

definition if_ok :: "('a \<Rightarrow> bool) \<Rightarrow> ('e, 'a) outcome \<Rightarrow> bool" where
  "if_ok P r \<longleftrightarrow> (\<forall>a. r = Ok a \<longrightarrow> P a)"

lemma if_ok_simps [simp]: "if_ok P (Ok a) = P a" "if_ok P (Exit e)" "if_ok P Undef" "if_ok P Diverge"
  by (simp_all add: if_ok_def)

lemma if_ok_if: "if_ok P x \<Longrightarrow> if_ok P y \<Longrightarrow> if_ok P (if b then x else y)"
  by simp

lemma if_ok_required: "(\<And>a. if_ok P (f a)) \<Longrightarrow> if_ok P (required arg f)"
  by (simp add: required_def split: option.split)

lemma if_ok_option: "if_ok P x \<Longrightarrow> (\<And>a. if_ok P (f a)) \<Longrightarrow> if_ok P (case arg of None \<Rightarrow> x | Some a \<Rightarrow> f a)"
  by (cases arg) simp_all

lemma if_ok_bind: "(\<And>a. m = Ok a \<Longrightarrow> if_ok P (f a)) \<Longrightarrow> if_ok P (obind m f)"
  by (cases m) simp_all

lemma xargs_option_ok:
  assumes "ctl_ok (ctl_of o1)" and "xargs_option b opt o1 = Ok o2"
  shows "ctl_ok (ctl_of o2)"
proof -
  obtain c arg where opt: "opt = (c, arg)" by fastforce
  have x: "ctl_ok ((ctl_of o1)\<lparr>exit_if_size_exceeded := True\<rparr>)" using assms(1) by (simp add: ctl_ok_def)
  have "if_ok (\<lambda>o2. ctl_ok (ctl_of o2)) (xargs_option b opt o1)"
    unfolding xargs_option_def opt prod.case Let_def
    by (intro if_ok_if if_ok_required if_ok_bind if_ok_option)
      (simp_all add: assms(1) x opt_ctl_ok [OF assms(1)] opt_size_ok [OF assms(1)])
  then show ?thesis using assms(2) by (simp add: if_ok_def)
qed

lemma xargs_options_ok:
  assumes "xargs_options b opts ctl = Ok o1" and "ctl_ok ctl"
  shows "ctl_ok (ctl_of o1)"
proof -
  have "ctl_ok (ctl_of o3)" if "ofold (xargs_option b) opts o2 = Ok o3" "ctl_ok (ctl_of o2)" for o2 o3
    using that
  proof (induction opts arbitrary: o2)
    case (Cons a opts)
    then obtain o4 where "xargs_option b a o2 = Ok o4" "ofold (xargs_option b) opts o4 = Ok o3"
      by (auto simp: obind_eq_Ok)
    then show ?case using Cons xargs_option_ok by blast
  qed simp
  moreover have "ctl_ok (ctl_of (default_opts ctl))" using assms(2) by (simp add: default_opts_def)
  ultimately show ?thesis
    using assms(1) by (fastforce simp: xargs_options_def obind_eq_Ok ctl_ok_def split: if_splits)
qed

subsection \<open>The initial arguments\<close>

lemma push_initial_step:
  assumes "bc_inv ctl s" and "initial_argc ctl = 0" and "cmd_argc s + 1 < max_arg_count ctl"
  shows "safely (\<lambda>s'. bc_inv ctl s' \<and> bc_strings s' = bc_strings s @ [c_string a] \<and> usercontext s' = usercontext s \<and>
      cmd_argc s' = cmd_argc s + 1 \<and> cmd_argv_chars s' = cmd_argv_chars s + length a + 1)
    (bc_push_arg ctl cb a (length a + 1) None 0 True s)"
proof (cases "cmd_argv_chars s + (length a + 1) > arg_max ctl")
  case True
  then show ?thesis unfolding bc_push_append Let_def if_True by simp
next
  case False
  then have "cmd_argv_chars s + length a + 1 \<le> arg_max ctl" by simp
  from append_ok [OF assms(1) this] obtain s1 where s1: "bc_append a s = Ok s1" "bc_inv ctl s1"
    "bc_strings s1 = bc_strings s @ [c_string a]" "usercontext s1 = usercontext s" "cmd_argc s1 = cmd_argc s + 1"
    "cmd_argv_chars s1 = cmd_argv_chars s + length a + 1" by metis
  have lim: "\<not> bc_argc_limit_reached True ctl s" "\<not> bc_argc_limit_reached True ctl s1"
    using assms(3) s1(5) by (simp_all add: bc_argc_limit_reached_def)
  have push: "bc_push_arg ctl cb a (length a + 1) None 0 True s = Ok (s1\<lparr>cmd_initial_argv_chars := cmd_argv_chars s1\<rparr>)"
    unfolding bc_push_append Let_def if_True using False lim s1(1) by simp
  have "bc_inv ctl (s1\<lparr>cmd_initial_argv_chars := cmd_argv_chars s1\<rparr>)"
    using s1(2) assms(2) by (simp add: bc_inv_def bc_strings_def bc_initial_def)
  then show ?thesis unfolding push using s1 by (simp add: bc_strings_def)
qed

lemma push_initial_safe:
  assumes "bc_inv ctl s" and "initial_argc ctl = 0" and "cmd_argc s + length args < max_arg_count ctl"
  shows "safely (\<lambda>s'. bc_inv ctl s' \<and> bc_strings s' = bc_strings s @ map c_string args \<and>
      usercontext s' = usercontext s \<and> cmd_argv_chars s' = cmd_argv_chars s + weight args)
    (push_initial ctl cb args s)"
  using assms unfolding push_initial_def
proof (induction args arbitrary: s)
  case (Cons a args)
  have "cmd_argc s + 1 < max_arg_count ctl \<or> args = [] \<and> cmd_argc s + 1 < max_arg_count ctl"
    using Cons.prems(3) by auto
  then have "cmd_argc s + 1 < max_arg_count ctl" by blast
  from push_initial_step [OF Cons.prems(1,2) this, of a cb] show ?case unfolding ofold.simps
  proof (rule safely_bind, goal_cases)
    case (1 s1)
    then show ?case using safely_mono [OF Cons.IH [of s1]] Cons.prems by auto
  qed
qed simp

lemma start_inv: "initial_argc ctl = 0 \<Longrightarrow> bc_inv ctl (bc (start_state ctl junk u input))"
  by (simp add: bc_inv_def start_state_def bc_strings_def bc_initial_def strings_of_def)

text \<open>The state when the command and its initial arguments have been copied.\<close>

definition started_with :: "bc_control \<Rightarrow> string list \<Rightarrow> 'u \<Rightarrow> 'u bc_state \<Rightarrow> bool" where
  "started_with ctl command u b \<longleftrightarrow> bc_inv ctl b \<and> bc_initial ctl b = map c_string command \<and> bc_pending ctl b = [] \<and>
     few_pending ctl b \<and> usercontext b = u \<and> cmd_initial_argv_chars b = weight command"

lemma start_append:
  assumes "initial_argc ctl = 0" and "length command < max_arg_count ctl"
  shows "safely (\<lambda>b. started_with (ctl\<lparr>initial_argc := cmd_argc b\<rparr>) command u
      (b\<lparr>cmd_initial_argv_chars := cmd_argv_chars b\<rparr>))
    (push_initial ctl cb command (bc (start_state ctl junk u input)))"
proof (rule safely_mono [OF push_initial_safe [OF start_inv [OF assms(1)] assms(1)]])
  show "cmd_argc (bc (start_state ctl junk u input)) + length command < max_arg_count ctl"
    using assms(2) by (simp add: start_state_def)
next
  fix b :: "'a bc_state"
  let ?s = "bc (start_state ctl junk u input)"
  let ?ctl = "ctl\<lparr>initial_argc := cmd_argc b\<rparr>" and ?b = "b\<lparr>cmd_initial_argv_chars := cmd_argv_chars b\<rparr>"
  assume "bc_inv ctl b \<and> bc_strings b = bc_strings ?s @ map c_string command \<and> usercontext b = usercontext ?s \<and>
    cmd_argv_chars b = cmd_argv_chars ?s + weight command"
  then have b: "bc_inv ctl b" "bc_strings b = map c_string command" "usercontext b = u"
    "cmd_argv_chars b = weight command"
    by (simp_all add: start_state_def bc_strings_def strings_of_def)
  have n: "cmd_argc b = length (bc_strings b)" using inv_length [OF b(1)] by simp
  have strs: "bc_strings ?b = bc_strings b" by (simp add: bc_strings_def)
  have i: "bc_initial ?ctl ?b = map c_string command" "bc_pending ?ctl ?b = []"
    using n by (simp_all add: bc_initial_def bc_pending_def strs b(2))
  have w: "weight (map c_string command) \<le> weight command"
    by (induction command) (auto simp: length_c_string intro: add_mono)
  have "bc_inv ?ctl ?b"
    unfolding bc_inv_def i(1) strs using b w by (simp add: bc_inv_def)
  then show "started_with ?ctl command u ?b"
    using i b by (simp add: started_with_def few_pending_def)
qed


subsection \<open>The run without a pattern\<close>

definition arguments_of :: "char option \<Rightarrow> bool \<Rightarrow> string \<Rightarrow> string list option" where
  "arguments_of delim b input = (case delim of None \<Rightarrow> words b input | Some d \<Rightarrow> Some (pieces d [] input))"

lemma to_read_start: "to_read delim b (start_state ctl junk u input) = arguments_of delim b input"
  by (simp add: to_read_def rest_def rest_string_def arguments_of_def start_state_def split: option.split)

text \<open>The commands \<open>log\<close>: the initial arguments and chunks of the arguments \<open>args\<close>, within the limits.\<close>

definition runs_in_chunks :: "bc_control \<Rightarrow> string list \<Rightarrow> string list \<Rightarrow> string list list \<Rightarrow> bool" where
  "runs_in_chunks ctl command args log \<longleftrightarrow>
     (\<exists>chunks. log = map (\<lambda>c. command @ c) chunks \<and> concat chunks = args \<and> (\<forall>c\<in>set chunks. chunk_ok ctl command c))"

lemma run_append_Ok:
  assumes "run_append o1 cb command (start_state (ctl_of o1) junk u input) = Ok s'"
    and "initial_argc (ctl_of o1) = 0" and "length command < max_arg_count (ctl_of o1)"
  obtains s1 s2 ctl where "ctl = (ctl_of o1)\<lparr>initial_argc := length command\<rparr>"
    "started_with ctl command u (bc s1)" "to_read (delimiter o1) True s1 = arguments_of (delimiter o1) True input"
    "read_all (delimiter o1) (eof_str_of o1) ctl cb s1 = Ok s2"
    "(if cmd_argc (bc s2) \<noteq> initial_argc ctl \<or> always_run_command o1 \<and> \<not> procs_executed (usercontext (bc s2))
      then lift_bc (bc_do_exec ctl cb (bc s2)) s2 else Ok s2) = Ok s'"
proof -
  let ?s = "start_state (ctl_of o1) junk u input"
  obtain b where b: "push_initial (ctl_of o1) cb command (bc ?s) = Ok b"
    using assms(1) by (auto simp: run_append_def Let_def obind_eq_Ok lift_bc_Ok)
  let ?t = "?s\<lparr>bc := b\<rparr>"
  let ?t' = "?t\<lparr>bc := (bc ?t)\<lparr>cmd_initial_argv_chars := cmd_argv_chars (bc ?t)\<rparr>\<rparr>"
  let ?ctl = "(ctl_of o1)\<lparr>initial_argc := cmd_argc (bc ?t')\<rparr>"
  have lift: "lift_bc (push_initial (ctl_of o1) cb command (bc ?s)) ?s = Ok ?t" using b by (simp add: lift_bc_def)
  obtain s2 where s2: "read_all (delimiter o1) (eof_str_of o1) ?ctl cb ?t' = Ok s2"
    "(if cmd_argc (bc s2) \<noteq> initial_argc ?ctl \<or> always_run_command o1 \<and> \<not> procs_executed (usercontext (bc s2))
      then lift_bc (bc_do_exec ?ctl cb (bc s2)) s2 else Ok s2) = Ok s'"
    using assms(1) unfolding run_append_def Let_def lift obind.simps obind_eq_Ok by blast
  have st: "started_with ?ctl command u (bc ?t')"
    using start_append [OF assms(2,3), of u cb junk input] b by simp
  then have "cmd_argc (bc ?t') = length command"
    using inv_length [of ?ctl "bc ?t'"]
    by (auto simp: started_with_def bc_initial_def dest!: arg_cong [where f = length])
  then have "?ctl = (ctl_of o1)\<lparr>initial_argc := length command\<rparr>" by simp
  moreover have "to_read (delimiter o1) True ?t' = arguments_of (delimiter o1) True input"
    using to_read_cong [of ?t' ?s] to_read_start [where ctl = "ctl_of o1" and junk = junk and u = u] by simp
  ultimately show thesis using that [of ?ctl ?t'] st s2 by blast
qed

lemma run_append_log:
  assumes run: "run_append o1 (xargs_do_exec e n) command (start_state (ctl_of o1) junk u input) = Ok s'"
    and ctl0: "initial_argc (ctl_of o1) = 0" "length command < max_arg_count (ctl_of o1)"
    and room: "weight command < arg_max (ctl_of o1)" and plain: "\<forall>d. delimiter o1 = Some d \<longrightarrow> plain_char d"
    and opts: "eof_str_of o1 = None" "replace_pat (ctl_of o1) = None"
  shows "\<exists>args log. arguments_of (delimiter o1) True input = Some args \<and>
    handled (events (usercontext (bc s'))) = handled (events u) @ log \<and>
    runs_in_chunks (ctl_of o1) (map c_string command) (map c_string args) log"
proof -
  obtain s1 s2 ctl where c: "ctl = (ctl_of o1)\<lparr>initial_argc := length command\<rparr>"
    and s1: "started_with ctl command u (bc s1)" "to_read (delimiter o1) True s1 = arguments_of (delimiter o1) True input"
    and s2: "read_all (delimiter o1) None ctl (xargs_do_exec e n) s1 = Ok s2"
    and s': "(if cmd_argc (bc s2) \<noteq> initial_argc ctl \<or> always_run_command o1 \<and> \<not> procs_executed (usercontext (bc s2))
      then lift_bc (bc_do_exec ctl (xargs_do_exec e n) (bc s2)) s2 else Ok s2) = Ok s'"
    using run_append_Ok [OF run ctl0] opts(1) by metis
  have i1: "bc_inv ctl (bc s1)" "few_pending ctl (bc s1)" "cmd_initial_argv_chars (bc s1) < arg_max ctl"
    "bc_initial ctl (bc s1) = map c_string command" "bc_pending ctl (bc s1) = []" "usercontext (bc s1) = u"
    using s1(1) room by (simp_all add: started_with_def c)
  obtain args where args: "arguments_of (delimiter o1) True input = Some args"
    and step: "xargs.step_log ctl (bc s1) (map c_string args) (bc s2)"
    using xargs.read_all_log [OF s2 plain _ i1(1-3)] opts(2) s1(2) by (auto simp: c)
  have i2: "bc_inv ctl (bc s2)" "few_pending ctl (bc s2)" using step by (simp_all add: xargs.step_log_def)
  have "xargs.step_log ctl (bc s2) [] (bc s') \<and> bc_pending ctl (bc s') = []"
  proof (cases "cmd_argc (bc s2) \<noteq> initial_argc ctl \<or> always_run_command o1 \<and> \<not> procs_executed (usercontext (bc s2))")
    case True
    have "args_per_exec ctl \<noteq> 0 \<longrightarrow> length (bc_pending ctl (bc s2)) \<le> args_per_exec ctl"
      using i2(2) by (auto simp: few_pending_def)
    then show ?thesis using xargs.do_exec_log [OF i2(1)] True s' by (auto simp: lift_bc_Ok)
  next
    case False
    then show ?thesis using s' xargs.step_log_refl [OF i2] inv_pending [OF i2(1)] by auto
  qed
  then have "xargs.step_log ctl (bc s1) (map c_string args) (bc s')" "bc_pending ctl (bc s') = []"
    using xargs.step_log_trans [OF step, of "[]"] by simp_all
  then obtain chunks where
    "handled (events (usercontext (bc s'))) = handled (events u) @ map (\<lambda>k. map c_string command @ k) chunks"
    "concat chunks = map c_string args" "\<forall>k\<in>set chunks. chunk_ok ctl (map c_string command) k"
    using i1 by (auto simp: xargs.step_log_def)
  then show ?thesis using args by (auto simp: runs_in_chunks_def chunk_ok_def c)
qed

lemma started_fine:
  "started_with ctl command u b \<Longrightarrow> proc_ok e n u \<Longrightarrow> weight command < arg_max ctl \<Longrightarrow>
    xargs_safe.fine e n ctl (weight command) b"
  by (simp add: xargs_safe.fine_def started_with_def)

lemma run_append_safe:
  assumes u: "proc_ok e n u"
    and ctl0: "initial_argc (ctl_of o1) = 0" "length command < max_arg_count (ctl_of o1)"
    and room: "weight command < arg_max (ctl_of o1)"
  shows "safely (\<lambda>s'. proc_ok e n (usercontext (bc s'))) (run_append o1 (xargs_do_exec e n) command
    (start_state (ctl_of o1) junk u input))"
proof -
  let ?s = "start_state (ctl_of o1) junk u input" and ?cb = "xargs_do_exec e n"
  have last: "safely (\<lambda>s'. proc_ok e n (usercontext (bc s'))) (if b then lift_bc (bc_do_exec ctl ?cb (bc s)) s else Ok s)"
    if s: "xargs_safe.fine e n ctl k (bc s)" for b ctl k and s :: "xargs_proc xargs_state"
    using safely_mono [OF xargs_safe.fine_lift [OF xargs_safe.fine_exec [OF s]]] s by (auto simp: xargs_safe.fine_def)
  have lift: "safely (\<lambda>s. P (bc s)) (lift_bc r s)" if "safely P r" for P r and s :: "xargs_proc xargs_state"
    using that by (cases r) (auto simp: lift_bc_def)
  show ?thesis
    unfolding run_append_def Let_def
  proof (rule safely_bind [OF lift [OF start_append [OF ctl0]]], goal_cases)
    case (1 s)
    let ?t' = "s\<lparr>bc := (bc s)\<lparr>cmd_initial_argv_chars := cmd_argv_chars (bc s)\<rparr>\<rparr>"
    let ?ctl = "(ctl_of o1)\<lparr>initial_argc := cmd_argc (bc ?t')\<rparr>"
    have t: "started_with ?ctl command u (bc ?t')" using 1(2) by simp
    have "xargs_safe.fine e n ?ctl (weight command) (bc ?t')"
      by (rule started_fine [OF t u]) (use room in simp)
    from xargs_safe.read_all_safe [OF this] show ?case
      by (rule safely_bind) (rule last)
  qed
qed

end
