(* ===== verification/XargsInsert.thy ===== *)
theory XargsInsert
  imports XargsRun BuildcmdInsert
begin

text \<open>
  \<open>xargs -I\<close>: every line becomes one command, the pattern replaced in each argument. The buffer is
  used from its beginning for every line, so that only its length matters from one to the next.
\<close>

subsection \<open>One command\<close>

context exec_log
begin

lemma exec_whole:
  assumes acc: "accepts cb" and inv: "line_inv ctl s" and "initial_argc ctl = 0"
    and ok: "bc_do_exec ctl cb s = Ok s'"
  shows "log (usercontext s') = log (usercontext s) @ [bc_strings s] \<and> argbuf s' = argbuf s"
  using exec_whole_call [OF assms] run by blast

lemma insert_line_log:
  assumes acc: "accepts cb" and ok: "insert_line ctl cb cmd as ini line s = Ok s'"
    and len: "length (argbuf s) = arg_max ctl + 1" and "initial_argc ctl = 0"
    and pat: "replace_pat ctl = Some pat" "pat \<noteq> []" "args_per_exec ctl = 0"
    and argc: "length as + 1 < max_arg_count ctl"
  shows "log (usercontext s') = log (usercontext s) @
      [c_string cmd # map (\<lambda>a. c_string (replace_all pat line a)) as] \<and>
    length (argbuf s') = arg_max ctl + 1"
proof -
  let ?t = "(bc_clear_args ctl s)\<lparr>cmd_argv_chars := 0\<rparr>"
  obtain s1 s2 where s1: "bc_push_arg ctl cb cmd (length cmd + 1) None 0 ini ?t = Ok s1"
    and s2: "ofold (\<lambda>a. bc_do_insert ctl cb a None line False) as s1 = Ok s2" and s': "bc_do_exec ctl cb s2 = Ok s'"
    using ok by (auto simp: insert_line_def obind_eq_Ok)
  have t: "line_inv ctl ?t" by (rule line_inv_start [OF len assms(4)])
  have t': "cmd_argc ?t = 0" "bc_strings ?t = []" "usercontext ?t = usercontext s"
    using assms(4) by (simp_all add: bc_clear_args_def bc_strings_def strings_of_def)
  have 1: "line_inv ctl s1 \<and> bc_strings s1 = bc_strings ?t @ [c_string cmd] \<and> usercontext s1 = usercontext ?t \<and>
      cmd_argc s1 = cmd_argc ?t + 1"
    by (rule push_replaced [OF s1 t]) (use pat argc t' in auto)
  have 2: "line_inv ctl s2 \<and> bc_strings s2 = bc_strings s1 @ map (\<lambda>a. c_string (replace_all pat line a)) as \<and>
      usercontext s2 = usercontext s1"
    using inserts_replaced [OF s2, of pat] 1 pat argc t' by auto
  then have i2: "line_inv ctl s2" ..
  from exec_whole [OF acc i2 assms(4) s'] 1 2 t' show ?thesis
    by (simp add: line_inv_def bc_inv_def)
qed

lemma insert_all_log:
  assumes "accepts cb" and "insert_all delim None ctl cb cmd as ini s = Ok s'"
    and "length (argbuf (bc s)) = arg_max ctl + 1" and "initial_argc ctl = 0"
    and "replace_pat ctl = Some pat" "pat \<noteq> []" "args_per_exec ctl = 0"
    and "length as + 1 < max_arg_count ctl" and "\<forall>d. delim = Some d \<longrightarrow> plain_char d"
  shows "\<exists>lines. to_read delim False s = Some lines \<and> log (usercontext (bc s')) = log (usercontext (bc s)) @
      map (\<lambda>line. c_string cmd # map (\<lambda>a. c_string (replace_all pat line a)) as) lines"
  using assms(2,3)
proof (induction "unread s" arbitrary: s ini rule: less_induct)
  case less
  obtain line s1 where r: "read_args delim None ctl cb ini s = Ok (line, s1)"
    "(case line of None \<Rightarrow> Ok s1
      | Some l \<Rightarrow> obind (lift_bc (insert_line ctl cb cmd as ini l (bc s1)) s1)
          (insert_all delim None ctl cb cmd as False)) = Ok s'"
    using less.prems(1) by (subst (asm) insert_all.simps) (auto simp: obind_eq_Ok split: option.splits)
  from read_args_read [OF r(1) assms(9)] assms(5)
  have read: "bc s1 = bc s" "line = None \<Longrightarrow> eof s1 \<and> to_read delim False s = to_read delim False s1"
    "\<And>p. line = Some p \<Longrightarrow> to_read delim False s = map_option (Cons p) (to_read delim False s1)"
    by (auto simp: has_read_def)
  show ?case
  proof (cases line)
    case None
    then show ?thesis using read r(2) by (auto simp: to_read_eof)
  next
    case (Some p)
    then obtain b s2 where b: "insert_line ctl cb cmd as ini p (bc s) = Ok b" "s2 = s1\<lparr>bc := b\<rparr>"
      "insert_all delim None ctl cb cmd as False s2 = Ok s'"
      using r(2) read(1) by (auto simp: obind_eq_Ok lift_bc_Ok)
    note one = insert_line_log [OF assms(1) b(1) less.prems(2) assms(4-8)]
    have "unread s2 < unread s" using read_args_unread r(1) Some b(2) by (fastforce simp: unread_def)
    from less.hyps [OF this b(3)] one b(2) obtain lines where
      l: "to_read delim False s2 = Some lines" "log (usercontext (bc s')) = log (usercontext b) @
        map (\<lambda>line. c_string cmd # map (\<lambda>a. c_string (replace_all pat line a)) as) lines"
      by auto
    have "to_read delim False s2 = to_read delim False s1" by (rule to_read_cong) (simp_all add: b(2))
    then have "to_read delim False s = Some (p # lines)" using l(1) read(3) [OF Some] by simp
    then show ?thesis using l(2) one by (intro exI [of _ "p # lines"]) simp
  qed
qed

end

end
