(* ===== verification/XargsTheorems.thy ===== *)
theory XargsTheorems
  imports XargsInsert "HOL-Library.Code_Target_Nat"
begin

text \<open>
  The properties of \<open>xargs\<close>: what its commands are given, quoting, the limits, the processes, the exit
  status, and that it always ends.
\<close>

subsection \<open>Inputs that stand for given arguments\<close>

text \<open>Every character quoted, as a careful producer of input for \<open>xargs\<close> would.\<close>

definition quote_arg :: "string \<Rightarrow> string" where
  "quote_arg a = (if a = [] then [CHR 0x27, CHR 0x27] else concat (map (\<lambda>c. [BSL, c]) a))"

lemma word_backslash [simp]: "word b acc (BSL # c # cs) = word b (acc @ [c]) cs"
  by (simp add: word.simps separates_def is_blank_def)

lemma word_escaped: "word b acc (concat (map (\<lambda>c. [BSL, c]) a) @ cs) = word b (acc @ a) cs"
  by (induction a arbitrary: acc) auto

lemma words_quote: "words b (quote_arg a @ NL # cs) = map_option (Cons a) (words b cs)"
proof (cases a)
  case Nil
  have "words b (quote_arg [] @ NL # cs) = word b [] (NL # cs)"
    by (simp add: quote_arg_def is_space_def word.simps separates_def is_blank_def is_quote_def)
  also have "\<dots> = map_option (Cons []) (words b cs)" by (simp add: word.simps separates_def)
  finally show ?thesis using Nil by simp
next
  case (Cons c a')
  have "words b (quote_arg a @ NL # cs) = word b [] (quote_arg a @ NL # cs)"
    using Cons by (simp add: quote_arg_def is_space_def)
  also have "\<dots> = word b a (NL # cs)"
    using Cons word_escaped [of b "[]" a "NL # cs"] by (simp add: quote_arg_def)
  also have "\<dots> = map_option (Cons a) (words b cs)" by (simp add: word.simps separates_def)
  finally show ?thesis .
qed

lemma words_quoted: "words b (concat (map (\<lambda>a. quote_arg a @ [NL]) as)) = Some as"
  by (induction as) (simp_all add: words_quote)

lemma pieces_append: "d \<notin> set a \<Longrightarrow> pieces d p (a @ d # cs) = (p @ a) # pieces d [] cs"
  by (induction a arbitrary: p) auto

lemma pieces_delimited: "\<forall>a\<in>set as. d \<notin> set a \<Longrightarrow> pieces d [] (concat (map (\<lambda>a. a @ [d]) as)) = as"
  by (induction as) (simp_all add: pieces_append)

subsection \<open>A system for the examples\<close>

text \<open>Every command runs and ends well; a child that exists is found at once by a blocking wait.\<close>

definition calm_system :: xargs_env where
  "calm_system =
     \<lparr>query_before_executing = False, print_command = False,
      waitpid = (\<lambda>h nohang. case running h of [] \<Rightarrow> Wait_failed
        | p # ps \<Rightarrow> if nohang then No_child_yet else Child p (Exit_status 0)),
      fork = (\<lambda>h. Forked (Suc (sum_list (running h)))),
      execvp = (\<lambda>h args. None), tty_answer = (\<lambda>h. ''y''), xgetenv = (\<lambda>v. None), x_xstrtoul = (\<lambda>s. None)\<rparr>"


definition small_ctl :: bc_control where
  "small_ctl = \<lparr>exit_if_size_exceeded = False, posix_arg_size_max = 40, posix_arg_size_min = 4, arg_max = 20,
     max_arg_count = 10, replace_pat = None, initial_argc = 0, lines_per_exec = 0, args_per_exec = 2\<rparr>"

subsection \<open>What the commands are given\<close>

definition xargs_ready :: "xargs_opts \<Rightarrow> string list \<Rightarrow> bool" where
  "xargs_ready o1 args \<longleftrightarrow>
     (let command = (if args = [] then [''/bin/echo''] else args); ctl = ctl_of o1 in
      initial_argc ctl = 0 \<and> length command < max_arg_count ctl \<and> weight command < arg_max ctl \<and>
      (case delimiter o1 of None \<Rightarrow> True | Some d \<Rightarrow> plain_char d) \<and> eof_str_of o1 = None \<and> replace_pat ctl = None)"

abbreviation command_of :: "string list \<Rightarrow> string list" where
  "command_of args \<equiv> map c_string (if args = [] then [''/bin/echo''] else args)"

lemma commands_log:
  assumes "xargs_commands e n junk o1 args input = Ok u" and "xargs_ready o1 args"
  shows "\<exists>ws. arguments_of (delimiter o1) True input = Some ws \<and>
    runs_in_chunks (ctl_of o1) (command_of args) (map c_string ws) (handled (events u))"
proof -
  let ?e = "e\<lparr>query_before_executing := opt_query o1, print_command := opt_print o1\<rparr>"
  let ?command = "if args = [] then [''/bin/echo''] else args"
  have r: "replace_pat (ctl_of o1) = None" "eof_str_of o1 = None" "initial_argc (ctl_of o1) = 0"
    "length ?command < max_arg_count (ctl_of o1)" "weight ?command < arg_max (ctl_of o1)"
    "\<forall>d. delimiter o1 = Some d \<longrightarrow> plain_char d"
    using assms(2) by (auto simp: xargs_ready_def Let_def split: option.splits)
  obtain s' where s': "run_append o1 (xargs_do_exec ?e n) ?command
      (start_state (ctl_of o1) junk (start_proc (opt_proc_max o1)) input) = Ok s'" "u = usercontext (bc s')"
    using assms(1) r(1) by (auto simp: xargs_commands_def Let_def obind_eq_Ok)
  have "handled (events (start_proc (opt_proc_max o1))) = []" by (simp add: start_proc_def)
  then show ?thesis
    using run_append_log [OF s'(1) r(3,4,5,6,2,1)] s'(2) by auto
qed




definition example_opts :: xargs_opts where
  "example_opts = (default_opts small_ctl)\<lparr>opt_proc_max := 2\<rparr>"

lemma example_run:
  "\<exists>u. xargs_commands calm_system 5 (\<lambda>_. CHR ''x'') example_opts [''ec''] ''a 'b c' d'' = Ok u"
proof -
  have "case xargs_commands calm_system 5 (\<lambda>_. CHR ''x'') example_opts [''ec''] ''a 'b c' d'' of Ok u \<Rightarrow> True | _ \<Rightarrow> False"
    by code_simp
  then show ?thesis by (auto split: outcome.splits)
qed

text \<open>C1: When \<open>xargs\<close> (without \<open>-I\<close> and \<open>-E\<close>) gets to the end of its input, the commands it has handled
  are the initial arguments followed by chunks of the arguments that the input stands for: none is
  lost, repeated or reordered, and each command keeps to the size and number limits.\<close>

theorem xargs_passes_all_arguments:
  assumes "xargs_commands e n junk o1 args input = Ok u" and "xargs_ready o1 args"
  shows "\<exists>ws. arguments_of (delimiter o1) True input = Some ws \<and>
    runs_in_chunks (ctl_of o1) (command_of args) (map c_string ws) (handled (events u))"
  using assms by (rule commands_log)


theorem xargs_passes_all_arguments_witness:
  "\<exists>u. xargs_commands calm_system 5 (\<lambda>_. CHR ''x'') example_opts [''ec''] ''a 'b c' d'' = Ok u \<and>
    runs_in_chunks small_ctl [''ec''] [''a'', ''b c'', ''d''] (handled (events u))"
proof -
  obtain u where u: "xargs_commands calm_system 5 (\<lambda>_. CHR ''x'') example_opts [''ec''] ''a 'b c' d'' = Ok u"
    using example_run by blast
  have "xargs_ready example_opts [''ec'']" by code_simp
  from xargs_passes_all_arguments [OF u this] obtain ws where
    ws: "arguments_of (delimiter example_opts) True ''a 'b c' d'' = Some ws"
      "runs_in_chunks (ctl_of example_opts) (command_of [''ec'']) (map c_string ws) (handled (events u))" by blast
  have "arguments_of (delimiter example_opts) True ''a 'b c' d'' = Some [''a'', ''b c'', ''d'']" by code_simp
  moreover have "map c_string [''a'', ''b c'', ''d''] = [''a'', ''b c'', ''d'']" "command_of [''ec''] = [''ec'']"
    "ctl_of example_opts = small_ctl" by code_simp+
  ultimately show ?thesis using ws u by auto
qed

text \<open>C13: Arguments written with every character behind a backslash, one per line, reach the commands as
  they were, whatever characters (except null) are in them, the empty argument included.\<close>

theorem xargs_reads_back_quoted:
  assumes "xargs_commands e n junk o1 args (concat (map (\<lambda>a. quote_arg a @ [NL]) as)) = Ok u"
    and "xargs_ready o1 args" and "delimiter o1 = None" and "\<forall>a\<in>set as. NUL \<notin> set a"
  shows "runs_in_chunks (ctl_of o1) (command_of args) as (handled (events u))"
proof -
  have "map c_string as = as" using assms(4) by (induction as) (auto simp: c_string_id)
  then show ?thesis using commands_log [OF assms(1,2)] assms(3) by (auto simp: arguments_of_def words_quoted)
qed

theorem xargs_reads_back_quoted_witness:
  "\<exists>u. xargs_commands calm_system 5 (\<lambda>_. CHR ''x'') example_opts [''ec'']
      (concat (map (\<lambda>a. quote_arg a @ [NL]) [''a b'', [], [CHR 0x27]])) = Ok u \<and>
    runs_in_chunks small_ctl [''ec''] [''a b'', [], [CHR 0x27]] (handled (events u))"
proof -
  let ?as = "[''a b'', [], [CHR 0x27]]"
  have "case xargs_commands calm_system 5 (\<lambda>_. CHR ''x'') example_opts [''ec'']
      (concat (map (\<lambda>a. quote_arg a @ [NL]) ?as)) of Ok u \<Rightarrow> True | _ \<Rightarrow> False"
    by code_simp
  then obtain u where u: "xargs_commands calm_system 5 (\<lambda>_. CHR ''x'') example_opts [''ec'']
      (concat (map (\<lambda>a. quote_arg a @ [NL]) ?as)) = Ok u" by (auto split: outcome.splits)
  have "xargs_ready example_opts [''ec'']" "delimiter example_opts = None" "\<forall>a\<in>set ?as. NUL \<notin> set a" by code_simp+
  from xargs_reads_back_quoted [OF u this]
  have "runs_in_chunks (ctl_of example_opts) (command_of [''ec'']) ?as (handled (events u))" .
  moreover have "command_of [''ec''] = [''ec'']" "ctl_of example_opts = small_ctl" by code_simp+
  ultimately show ?thesis using u by auto
qed

text \<open>C34: With \<open>-0\<close>, arguments that each end in a null character, as \<open>find -print0\<close> writes them, reach the
  commands as they were.\<close>

theorem xargs_reads_back_null_terminated:
  assumes "xargs_commands e n junk o1 args (concat (map (\<lambda>a. a @ [NUL]) as)) = Ok u"
    and "xargs_ready o1 args" and "delimiter o1 = Some NUL" and "\<forall>a\<in>set as. NUL \<notin> set a"
  shows "runs_in_chunks (ctl_of o1) (command_of args) as (handled (events u))"
proof -
  have "map c_string as = as" using assms(4) by (induction as) (auto simp: c_string_id)
  then show ?thesis
    using commands_log [OF assms(1,2)] assms(3,4) by (auto simp: arguments_of_def pieces_delimited)
qed

theorem xargs_reads_back_null_terminated_witness:
  "\<exists>u. xargs_commands calm_system 5 (\<lambda>_. CHR ''x'') (example_opts\<lparr>delimiter := Some NUL\<rparr>) [''ec'']
      (concat (map (\<lambda>a. a @ [NUL]) [''a b'', [NL]])) = Ok u \<and>
    runs_in_chunks small_ctl [''ec''] [''a b'', [NL]] (handled (events u))"
proof -
  let ?as = "[''a b'', [NL]]" and ?o = "example_opts\<lparr>delimiter := Some NUL\<rparr>"
  have "case xargs_commands calm_system 5 (\<lambda>_. CHR ''x'') ?o [''ec''] (concat (map (\<lambda>a. a @ [NUL]) ?as)) of
      Ok u \<Rightarrow> True | _ \<Rightarrow> False"
    by code_simp
  then obtain u where u: "xargs_commands calm_system 5 (\<lambda>_. CHR ''x'') ?o [''ec'']
      (concat (map (\<lambda>a. a @ [NUL]) ?as)) = Ok u" by (auto split: outcome.splits)
  have "xargs_ready ?o [''ec'']" "delimiter ?o = Some NUL" "\<forall>a\<in>set ?as. NUL \<notin> set a" by code_simp+
  from xargs_reads_back_null_terminated [OF u this]
  have "runs_in_chunks (ctl_of ?o) (command_of [''ec'']) ?as (handled (events u))" .
  moreover have "command_of [''ec''] = [''ec'']" "ctl_of ?o = small_ctl" by code_simp+
  ultimately show ?thesis using u by auto
qed

subsection \<open>Replacing\<close>

text \<open>A system that takes every command line: \<open>execvp\<close> does not say E2BIG, and no limit is set for testing.\<close>

definition takes_any :: "xargs_env \<Rightarrow> bool" where
  "takes_any e \<longleftrightarrow> (\<forall>h args. execvp e h args \<noteq> Some E2BIG) \<and> (\<forall>v. xgetenv e v = None)"

lemma start_command_accepts:
  assumes "takes_any e"
  shows "start_command e n argv args u \<noteq> Ok (False, u')"
proof -
  have "child_errno e args u \<noteq> Some E2BIG" for u
    using assms by (simp add: child_errno_def bc_args_exceed_testing_limit_def exceeds_def takes_any_def)
  then show ?thesis
    by (auto simp: start_command_def Let_def obind_eq_Ok split: option.splits exec_errno.splits)
qed

lemma xargs_accepts: "takes_any e \<Longrightarrow> accepts (xargs_do_exec e n)"
  using start_command_accepts by (auto simp: accepts_def xargs_do_exec_def split: prod.split)

text \<open>C14: \<open>xargs -I pat cmd args\<close> runs, for every line of its input, one command: \<open>cmd\<close> and the arguments with
  every occurrence of the pattern replaced by the line.\<close>

theorem xargs_replaces:
  assumes "xargs_commands e n junk o1 (cmd # args) input = Ok u" and "takes_any e"
    and "initial_argc (ctl_of o1) = 0" and "replace_pat (ctl_of o1) = Some pat" and "pat \<noteq> []"
    and "args_per_exec (ctl_of o1) = 0" and "length args + 1 < max_arg_count (ctl_of o1)"
    and "eof_str_of o1 = None" and "\<forall>d. delimiter o1 = Some d \<longrightarrow> plain_char d"
  shows "\<exists>lines. arguments_of (delimiter o1) False input = Some lines \<and> handled (events u) =
    map (\<lambda>line. c_string cmd # map (\<lambda>a. c_string (replace_all pat line a)) args) lines"
proof -
  let ?e = "e\<lparr>query_before_executing := opt_query o1, print_command := opt_print o1\<rparr>"
  let ?s = "start_state (ctl_of o1) junk (start_proc (opt_proc_max o1)) input"
  have acc: "accepts (xargs_do_exec ?e n)" by (rule xargs_accepts) (use assms(2) in \<open>simp add: takes_any_def\<close>)
  obtain s' where s': "insert_all (delimiter o1) None (ctl_of o1) (xargs_do_exec ?e n) cmd args True ?s = Ok s'"
    "u = usercontext (bc s')"
    using assms(1,4,8) by (auto simp: xargs_commands_def Let_def obind_eq_Ok)
  have len: "length (argbuf (bc ?s)) = arg_max (ctl_of o1) + 1" "handled (events (usercontext (bc ?s))) = []"
    by (simp_all add: start_state_def start_proc_def)
  from xargs.insert_all_log [OF acc s'(1) len(1) assms(3-7,9)] obtain lines where
    "to_read (delimiter o1) False ?s = Some lines" "handled (events u) =
      map (\<lambda>line. c_string cmd # map (\<lambda>a. c_string (replace_all pat line a)) args) lines"
    using s'(2) len(2) by auto
  then show ?thesis unfolding to_read_start by blast
qed

definition replace_opts :: xargs_opts where
  "replace_opts = default_opts (small_ctl\<lparr>args_per_exec := 0, replace_pat := Some ''{}''\<rparr>)"

theorem xargs_replaces_witness:
  "\<exists>u. xargs_commands calm_system 5 (\<lambda>_. CHR ''x'') replace_opts [''mv'', ''{}'', ''{}.o''] ''a b'' = Ok u \<and>
    handled (events u) = [[''mv'', ''a b'', ''a b.o'']]"
proof -
  let ?args = "[''{}'', ''{}.o'']"
  have "case xargs_commands calm_system 5 (\<lambda>_. CHR ''x'') replace_opts (''mv'' # ?args) ''a b'' of
      Ok u \<Rightarrow> True | _ \<Rightarrow> False" by code_simp
  then obtain u where u: "xargs_commands calm_system 5 (\<lambda>_. CHR ''x'') replace_opts (''mv'' # ?args) ''a b'' = Ok u"
    by (auto split: outcome.splits)
  have "takes_any calm_system" by (simp add: takes_any_def calm_system_def)
  moreover have "initial_argc (ctl_of replace_opts) = 0" "replace_pat (ctl_of replace_opts) = Some ''{}''"
    "''{}'' \<noteq> []" "args_per_exec (ctl_of replace_opts) = 0" "length ?args + 1 < max_arg_count (ctl_of replace_opts)"
    "eof_str_of replace_opts = None" "\<forall>d. delimiter replace_opts = Some d \<longrightarrow> plain_char d"
    by (simp_all add: replace_opts_def default_opts_def small_ctl_def)
  ultimately obtain lines where l: "arguments_of (delimiter replace_opts) False ''a b'' = Some lines"
    "handled (events u) = map (\<lambda>line. c_string ''mv'' # map (\<lambda>a. c_string (replace_all ''{}'' line a)) ?args) lines"
    using xargs_replaces [OF u] by blast
  have "arguments_of (delimiter replace_opts) False ''a b'' = Some [''a b'']" by code_simp
  moreover have "map (\<lambda>line. c_string ''mv'' # map (\<lambda>a. c_string (replace_all ''{}'' line a)) ?args) [''a b''] =
      [[''mv'', ''a b'', ''a b.o'']]" by code_simp
  ultimately show ?thesis using u l by auto
qed

text \<open>C35: With an empty pattern (\<open>-I ''\<close>) an empty line never gets replaced: the loop does not end.\<close>

theorem empty_pattern_loops:
  assumes "replace_pat ctl = Some []" and "arg \<noteq> []" and "1 < arg_max ctl" and "arg_max ctl < 2 ^ 63"
  shows "bc_do_insert ctl cb arg None [] ini s = Diverge"
proof -
  have "(arg_max ctl + 2 ^ 64 - 1) mod 2 ^ 64 = arg_max ctl - 1"
  proof -
    have "arg_max ctl + 2 ^ 64 - 1 = (arg_max ctl - 1) + 2 ^ 64" using assms(3) by simp
    then show ?thesis using assms(4) by (simp only: mod_add_self2) simp
  qed
  then show ?thesis using insert_loop_diverges [OF assms(2), of "arg_max ctl - 1" "[]"] assms(1,3)
    unfolding bc_do_insert_def Let_def by simp
qed

theorem empty_pattern_loops_witness:
  "bc_do_insert (small_ctl\<lparr>replace_pat := Some []\<rparr>) (xargs_do_exec calm_system 5) ''a'' None [] False
     (bc (start_state small_ctl (\<lambda>_. CHR ''x'') (start_proc 1) [])) = Diverge"
  by (rule empty_pattern_loops) (simp_all add: small_ctl_def)

subsection \<open>It ends, within its limits\<close>









text \<open>The options leave a control block in which \<open>-I\<close>, \<open>-L\<close> and \<open>-n\<close> exclude each other and the size of
  a command is positive and at most what the system allows.\<close>

theorem xargs_options_consistent:
  assumes "xargs_limits sc_arg_max arg_max_const environ = Ok (Some ctl)" and "xargs_options False opts ctl = Ok o1"
  shows "ctl_ok (ctl_of o1)"
  by (rule xargs_options_ok [OF assms(2) xargs_limits_ok [OF assms(1)]])

theorem xargs_options_consistent_witness:
  "\<exists>ctl o1. xargs_limits 8192 None [] = Ok (Some ctl) \<and>
    xargs_options False [(CHR ''L'', Some ''3''), (CHR ''I'', None)] ctl = Ok o1 \<and> ctl_ok (ctl_of o1)"
proof -
  let ?opts = "[(CHR ''L'', Some ''3''), (CHR ''I'', None)]"
  have c: "case xargs_limits 8192 None [] of Ok (Some ctl) \<Rightarrow>
      (case xargs_options False ?opts ctl of Ok o1 \<Rightarrow> True | _ \<Rightarrow> False) | _ \<Rightarrow> False"
    by code_simp
  then obtain ctl where ctl: "xargs_limits 8192 None [] = Ok (Some ctl)" by (auto split: outcome.splits option.splits)
  then obtain o1 where "xargs_options False ?opts ctl = Ok o1"
    using c by (cases "xargs_options False ?opts ctl") auto
  with ctl have "\<exists>ctl o1. xargs_limits 8192 None [] = Ok (Some ctl) \<and> xargs_options False ?opts ctl = Ok o1" by blast
  then show ?thesis using xargs_options_consistent by blast
qed

subsection \<open>What may surprise\<close>

text \<open>The first command exits with 1, the others with 255.\<close>

definition failing_system :: xargs_env where
  "failing_system = calm_system\<lparr>waitpid := (\<lambda>h nohang. case running h of [] \<Rightarrow> Wait_failed
     | p # ps \<Rightarrow> if nohang then No_child_yet else Child p (Exit_status (if list_ex child_failed h then 255 else 1)))\<rparr>"

text \<open>A command that exits with 255 makes \<open>xargs\<close> stop with status 124; when an earlier command has
  failed, the status of the process is 123 nevertheless.\<close>

theorem status_124_replaced:
  "case xargs_commands failing_system 5 (\<lambda>_. CHR ''x'')
      (default_opts (small_ctl\<lparr>args_per_exec := 1\<rparr>)) [''ec''] ''a b c'' of
     Exit (err, u) \<Rightarrow> error_status err = 124 \<and>
       (case wait_for_proc_all failing_system 5 0 (error_status err) u of Ok (st, u') \<Rightarrow> st = 123 | _ \<Rightarrow> False)
   | _ \<Rightarrow> False"
  by code_simp

text \<open>A quoted empty argument at the end of the input is lost unless a newline follows.\<close>

theorem empty_argument_lost:
  "arguments_of None True [CHR ''a'', CHR '' '', CHR 0x27, CHR 0x27] = Some [''a''] \<and>
   arguments_of None True [CHR ''a'', CHR '' '', CHR 0x27, CHR 0x27, NL] = Some [''a'', []] \<and>
   (case xargs_commands calm_system 5 (\<lambda>_. CHR ''x'') example_opts [''ec''] [CHR ''a'', CHR '' '', CHR 0x27, CHR 0x27] of
      Ok u \<Rightarrow> handled (events u) = [[''ec'', ''a'']] | _ \<Rightarrow> False)"
  by code_simp

text \<open>A delimiter above 127 given with \<open>-d\<close> is never found, as it is compared as a negative number.\<close>

theorem high_delimiter_not_found:
  "case xargs_commands calm_system 5 (\<lambda>_. CHR ''x'') (example_opts\<lparr>delimiter := Some (CHR 0xE9)\<rparr>) [''ec'']
      [CHR ''a'', CHR 0xE9, CHR ''b''] of
     Ok u \<Rightarrow> handled (events u) = [[''ec'', [CHR ''a'', CHR 0xE9, CHR ''b'']]] | _ \<Rightarrow> False"
  by code_simp

text \<open>A system that takes at most two arguments at a time.\<close>

definition tight_system :: xargs_env where
  "tight_system = calm_system\<lparr>execvp := (\<lambda>h args. if length args > 2 then Some E2BIG else None)\<rparr>"

text \<open>With \<open>-I\<close>, a command line that the system finds too long is split, and what follows the first part
  is run as a command of its own.\<close>

theorem argument_run_as_command:
  "case xargs_commands tight_system 5 (\<lambda>_. CHR ''x'')
      (default_opts (small_ctl\<lparr>args_per_exec := 0, replace_pat := Some ''{}''\<rparr>)) [''cp'', ''{}'', ''r{}''] ''m'' of
     Ok u \<Rightarrow> handled (events u) = [[''cp'', ''m''], [''rm'']] | _ \<Rightarrow> False"
  by code_simp

end
