(* ===== verification/LocateDb.thy ===== *)
theory LocateDb
  imports CString
begin

text \<open>
  Writing the databases of \<open>locate\<close>: \<open>locate/frcode.c\<close> for the current format and the one of slocate,
  \<open>locate/code.c\<close> and \<open>locate/bigram.c\<close> for the old format, and the words of \<open>locate/word_io.c\<close>.
  A file is a string of bytes.
\<close>

subsection \<open>Bytes\<close>

abbreviation byte_of :: "char \<Rightarrow> int" where
  "byte_of c \<equiv> of_char c"

text \<open>\<open>putc\<close>: the value is converted to \<open>unsigned char\<close>.\<close>

definition putc :: "int \<Rightarrow> string" where
  "putc n = [char_of (n mod 256)]"

definition LOCATEDB_MAGIC :: string where
  "LOCATEDB_MAGIC = NUL # ''LOCATE02'' @ [NUL]"

abbreviation (input) LOCATEDB_ESCAPE :: int where "LOCATEDB_ESCAPE \<equiv> 128"
abbreviation (input) LOCATEDB_ONEBYTE_MAX :: int where "LOCATEDB_ONEBYTE_MAX \<equiv> 127"
abbreviation (input) LOCATEDB_ONEBYTE_MIN :: int where "LOCATEDB_ONEBYTE_MIN \<equiv> - 127"
abbreviation (input) LOCATEDB_OLD_ESCAPE :: int where "LOCATEDB_OLD_ESCAPE \<equiv> 30"
abbreviation (input) LOCATEDB_OLD_OFFSET :: int where "LOCATEDB_OLD_OFFSET \<equiv> 14"
abbreviation (input) SHRT_MAX :: int where "SHRT_MAX \<equiv> 32767"
abbreviation (input) SHRT_MIN :: int where "SHRT_MIN \<equiv> - 32768"
abbreviation (input) INT_MAX :: int where "INT_MAX \<equiv> 2147483647"

text \<open>Two bytes, the high one first; the assertions check the range.\<close>

definition put_short :: "int \<Rightarrow> (unit, string) outcome" where
  "put_short c = (if c \<le> SHRT_MAX \<and> c \<ge> SHRT_MIN then Ok (putc (c div 256) @ putc c) else Undef)"

text \<open>\<open>getdelim\<close>: the bytes up to the delimiter, which is one of them, or to the end; and the rest.\<close>

fun getdelim :: "char \<Rightarrow> string \<Rightarrow> string \<times> string" where
  "getdelim d [] = ([], [])"
| "getdelim d (c # cs) =
     (if c = d then ([c], cs) else (let (line, rest) = getdelim d cs in (c # line, rest)))"

lemma getdelim_append: "fst (getdelim d s) @ snd (getdelim d s) = s"
  by (induction s) (auto split: prod.splits)

lemma getdelim_Nil [simp]: "fst (getdelim d s) = [] \<longleftrightarrow> s = []"
  by (cases s) (auto split: prod.splits)

lemma getdelim_shorter: "s \<noteq> [] \<Longrightarrow> length (snd (getdelim d s)) < length s"
  using getdelim_append [of d s] getdelim_Nil [of d s]
  by (metis add.commute length_append length_greater_0_conv less_add_same_cancel1)

lemma getdelim_rest: "(line, rest) = getdelim d s \<Longrightarrow> s \<noteq> [] \<Longrightarrow> length rest < length s"
  by (metis getdelim_shorter snd_conv)

subsection \<open>frcode\<close>

text \<open>
  The common prefix of two C strings; in \<open>frcode\<close> the loop also ends before the character number
  \<open>INT_MAX\<close>, in \<open>code\<close> and \<open>bigram\<close> it has no limit.
\<close>

fun common_prefix :: "string \<Rightarrow> string \<Rightarrow> nat" where
  "common_prefix (a # s1) (b # s2) = (if a = b then Suc (common_prefix s1 s2) else 0)"
| "common_prefix _ _ = 0"

definition prefix_length :: "string \<Rightarrow> string \<Rightarrow> int" where
  "prefix_length s1 s2 = min (int (common_prefix s1 s2)) (INT_MAX - 1)"

text \<open>
  One round of the loop in \<open>main\<close>: \<open>line\<close> is what \<open>getdelim\<close> gave, whose last character is replaced by a
  null character; the result are the bytes written, the path and its prefix length. \<open>emit\<close> is false
  for the first path of a slocate database.
\<close>

definition frcode_entry :: "bool \<Rightarrow> string \<Rightarrow> int \<Rightarrow> string \<Rightarrow> (unit, string \<times> string \<times> int) outcome" where
  "frcode_entry emit oldpath oldcount line =
     (let path = c_string (butlast line);
          count = prefix_length oldpath path;
          diffcount = count - oldcount;
          (count, diffcount) = (if diffcount > SHRT_MAX \<or> diffcount < SHRT_MIN then (0, - oldcount) else (count, diffcount))
      in obind
           (if \<not> emit then Ok []
            else if diffcount < LOCATEDB_ONEBYTE_MIN \<or> diffcount > LOCATEDB_ONEBYTE_MAX
            then obind (put_short diffcount) (\<lambda>bytes. Ok (putc LOCATEDB_ESCAPE @ bytes))
            else Ok (putc diffcount))
           (\<lambda>bytes. Ok (bytes @ drop (nat count) path @ [NUL], path, count)))"

function frcode_loop :: "char \<Rightarrow> bool \<Rightarrow> string \<Rightarrow> int \<Rightarrow> string \<Rightarrow> (unit, string) outcome" where
  "frcode_loop delimiter emit oldpath oldcount input =
     (if input = [] then Ok []
      else
        (let (line, rest) = getdelim delimiter input in
         obind (frcode_entry emit oldpath oldcount line) (\<lambda>(bytes, path, count).
         obind (frcode_loop delimiter True path count rest) (\<lambda>more. Ok (bytes @ more)))))"
  by pat_completeness auto

termination frcode_loop
  by (relation "measure (\<lambda>(delimiter, emit, oldpath, oldcount, input). length input)")
    (auto dest: getdelim_rest)

declare frcode_loop.simps [simp del]

text \<open>The program: \<open>seclevel\<close> is the argument of \<open>-S\<close>, which asks for the format of slocate.\<close>

definition frcode :: "char \<Rightarrow> int option \<Rightarrow> string \<Rightarrow> (unit, string) outcome" where
  "frcode delimiter seclevel input =
     (case seclevel of
        None \<Rightarrow> obind (frcode_loop delimiter True [] 0 input) (\<lambda>db. Ok (LOCATEDB_MAGIC @ db))
      | Some l \<Rightarrow>
          (if l < 0 \<or> l > 1 then Exit ()
           else obind (frcode_loop delimiter False [] 0 input) (\<lambda>db.
             Ok ((if l \<noteq> 0 then ''1'' else ''0'') @ [NUL] @ db))))"

subsection \<open>Words\<close>

datatype (plugins only: code size) endian_state =
  GetwordEndianStateInitial | GetwordEndianStateNative | GetwordEndianStateSwab

text \<open>Four bytes as an \<open>int\<close> of a little-endian machine, and the bytes of one.\<close>

definition word_of_bytes :: "string \<Rightarrow> 32 word" where
  "word_of_bytes b = (case map byte_of b of [b0, b1, b2, b3] \<Rightarrow>
       word_of_int (b0 + 2 ^ 8 * b1 + 2 ^ 16 * b2 + 2 ^ 24 * b3) | _ \<Rightarrow> 0)"

definition bytes_of_word :: "32 word \<Rightarrow> string" where
  "bytes_of_word w = map (\<lambda>k. char_of (uint w div 2 ^ (8 * k) mod 256)) [0, 1, 2, 3]"

definition bswap_32 :: "32 word \<Rightarrow> 32 word" where
  "bswap_32 x = word_of_bytes (rev (bytes_of_word x))"

definition decode_value :: "string \<Rightarrow> int \<Rightarrow> endian_state \<Rightarrow> int \<times> endian_state" where
  "decode_value data limit endian =
     (let ival = sint (word_of_bytes data); swapped = sint (bswap_32 (word_of_bytes data)) in
      if endian = GetwordEndianStateInitial then
        (if ival \<le> limit then
           (ival, if swapped > limit then GetwordEndianStateNative else endian)
         else if swapped \<le> limit then (swapped, GetwordEndianStateSwab)
         else (ival, endian))
      else if endian = GetwordEndianStateSwab then (swapped, endian)
      else (ival, endian))"

text \<open>None for the end of the file, which is an error.\<close>

definition getword :: "string \<Rightarrow> int \<Rightarrow> endian_state \<Rightarrow> ((int \<times> endian_state) \<times> string) option" where
  "getword fp maxvalue endian =
     (if length fp < 4 then None else Some (decode_value (take 4 fp) maxvalue endian, drop 4 fp))"

definition putword :: "int \<Rightarrow> endian_state \<Rightarrow> (unit, string) outcome" where
  "putword w endian =
     (case endian of
        GetwordEndianStateInitial \<Rightarrow> Undef
      | GetwordEndianStateSwab \<Rightarrow> Ok (bytes_of_word (bswap_32 (word_of_int w)))
      | GetwordEndianStateNative \<Rightarrow> Ok (bytes_of_word (word_of_int w)))"

subsection \<open>The old format\<close>

text \<open>\<open>bigram\<close>: the pairs of characters behind the common prefix, one pair on a line.\<close>

fun pairs_of :: "string \<Rightarrow> string" where
  "pairs_of (a # b # s) = [a, b, CHR 0x0A] @ pairs_of s"
| "pairs_of _ = []"

function bigram_loop :: "string \<Rightarrow> string \<Rightarrow> string" where
  "bigram_loop oldpath input =
     (if input = [] then []
      else
        (let (line, rest) = getdelim (CHR 0x0A) input; path = c_string (butlast line) in
         pairs_of (drop (common_prefix oldpath path) path) @ bigram_loop path rest))"
  by pat_completeness auto

termination bigram_loop
  by (relation "measure (\<lambda>(oldpath, input). length input)") (auto dest: getdelim_rest)

declare bigram_loop.simps [simp del]

text \<open>\<open>strindex\<close>: where the pattern, which is not empty, occurs first.\<close>

definition strindex :: "string \<Rightarrow> string \<Rightarrow> int" where
  "strindex s pat = (case find_string pat s of Some n \<Rightarrow> int n | None \<Rightarrow> - 1)"

definition squelch :: "char \<Rightarrow> char" where
  "squelch c = (if 32 \<le> byte_of c \<and> byte_of c < 127 then c else CHR ''?'')"

text \<open>The rest of a path: a byte with the high bit set for a pair that starts at an even place of the table.\<close>

fun code_pairs :: "string \<Rightarrow> string \<Rightarrow> string" where
  "code_pairs bigrams [] = []"
| "code_pairs bigrams [a] = [a]"
| "code_pairs bigrams (a # b # s) =
     (let code = strindex bigrams [a, b] in
      (if code \<ge> 0 \<and> code mod 2 = 0 then putc (code div 2 + 128) else [a, b]) @ code_pairs bigrams s)"

definition code_entry :: "string \<Rightarrow> string \<Rightarrow> int \<Rightarrow> string \<Rightarrow> (unit, string \<times> string \<times> int) outcome" where
  "code_entry bigrams oldpath oldcount line =
     (let path = map squelch (c_string (butlast line));
          count = int (common_prefix oldpath path);
          diffcount = count - oldcount
      in obind
           (if diffcount < - LOCATEDB_OLD_OFFSET \<or> diffcount > LOCATEDB_OLD_OFFSET
            then obind (putword (diffcount + LOCATEDB_OLD_OFFSET) GetwordEndianStateNative)
              (\<lambda>w. Ok (putc LOCATEDB_OLD_ESCAPE @ w))
            else Ok (putc (diffcount + LOCATEDB_OLD_OFFSET)))
           (\<lambda>bytes. Ok (bytes @ code_pairs bigrams (drop (nat count) path), path, count)))"

function code_loop :: "string \<Rightarrow> string \<Rightarrow> int \<Rightarrow> string \<Rightarrow> (unit, string) outcome" where
  "code_loop bigrams oldpath oldcount input =
     (if input = [] then Ok []
      else
        (let (line, rest) = getdelim (CHR 0x0A) input in
         obind (code_entry bigrams oldpath oldcount line) (\<lambda>(bytes, path, count).
         obind (code_loop bigrams path count rest) (\<lambda>more. Ok (bytes @ more)))))"
  by pat_completeness auto

termination code_loop
  by (relation "measure (\<lambda>(bigrams, oldpath, oldcount, input). length input)")
    (auto dest: getdelim_rest)

declare code_loop.simps [simp del]

text \<open>
  \<open>code\<close>: \<open>fgets\<close> takes at most 256 bytes, up to a newline, of the file of bigrams; the array of 257
  bytes is zero behind them. An empty file is an error.
\<close>

definition read_bigrams :: "string \<Rightarrow> string" where
  "read_bigrams file = (let line = take 256 (fst (getdelim (CHR 0x0A) file)) in line @ replicate (256 - length line) NUL)"

definition code :: "string \<Rightarrow> string \<Rightarrow> (unit, string) outcome" where
  "code file input =
     (if file = [] then Exit ()
      else (let bigrams = read_bigrams file in
        obind (code_loop (c_string bigrams) [] 0 input) (\<lambda>db. Ok (bigrams @ db))))"

end
