(* ===== verification/LocateSearch.thy ===== *)
theory LocateSearch
  imports LocateDb LibUtil
begin

text \<open>
  Searching a database (\<open>locate/locate.c\<close>): decoding the three formats, the chain of visitors and
  \<open>search_one_database\<close>.
\<close>

subsection \<open>The state\<close>

datatype (plugins only: code size) locate_error =
  Database_corrupt | Filename_too_long | Unexpected_eof | Database_too_short | Memory_exhausted | Bad_regex string |
  Locate_usage nat | Bad_limit string | Bad_age string |
  Bad_regextype string | Bad_seclevel string

text \<open>Bits that may be combined.\<close>

abbreviation (input) VISIT_CONTINUE :: nat where "VISIT_CONTINUE \<equiv> 1"
abbreviation (input) VISIT_ACCEPTED :: nat where "VISIT_ACCEPTED \<equiv> 2"
abbreviation (input) VISIT_REJECTED :: nat where "VISIT_REJECTED \<equiv> 4"
abbreviation (input) VISIT_ABORT :: nat where "VISIT_ABORT \<equiv> 8"

text \<open>Do two sets of the four bits meet?\<close>

definition flags :: "nat \<Rightarrow> nat \<Rightarrow> bool" where
  "flags a b \<longleftrightarrow> (\<exists>k\<in>{0, 1, 2, 3}. a div 2 ^ k mod 2 = 1 \<and> b div 2 ^ k mod 2 = 1)"

record locate_stats =
  total_filename_count :: nat
  total_filename_length :: nat
  whitespace_count :: nat
  newline_count :: nat
  highbit_filename_count :: nat

text \<open>
  \<open>struct process_data\<close> and what the visitors work on. \<open>fp\<close> is what is left of the file, \<open>c\<close> the byte
  that was read (None for EOF), \<open>original_filename\<close> the whole buffer; the file name is the string at
  its beginning. \<open>printed\<close> are the names written, and whether they are quoted for a terminal.
\<close>

record process_data =
  c :: "char option"
  itemcount :: nat
  count :: int
  len :: int
  original_filename :: string
  munged_filename :: string
  fp :: string
  slocatedb_format :: bool
  endian :: endian_state
  bigram1 :: string
  bigram2 :: string
  items_accepted :: nat
  statistics :: locate_stats
  printed :: "(bool \<times> string) list"

abbreviation filename :: "process_data \<Rightarrow> string" where
  "filename d \<equiv> string_at (original_filename d) 0"

text \<open>What is in memory that \<open>malloc\<close> or \<open>realloc\<close> gives is \<open>junk\<close>, by position.\<close>

type_synonym junk = "nat \<Rightarrow> char"

definition enlarge :: "junk \<Rightarrow> nat \<Rightarrow> string \<Rightarrow> string" where
  "enlarge junk n buf = buf @ map junk [length buf..<n]"

definition write_at :: "nat \<Rightarrow> string \<Rightarrow> string \<Rightarrow> string" where
  "write_at off bytes buf = take off buf @ bytes @ drop (off + length bytes) buf"

text \<open>\<open>getc\<close>.\<close>

definition getc :: "process_data \<Rightarrow> char option \<times> process_data" where
  "getc d = (case fp d of [] \<Rightarrow> (None, d) | x # xs \<Rightarrow> (Some x, d\<lparr>fp := xs\<rparr>))"

subsection \<open>The current format\<close>

definition signed_byte :: "char \<Rightarrow> int" where
  "signed_byte x = (if byte_of x < 128 then byte_of x else byte_of x - 256)"

text \<open>The end of the file reads as \<open>- 1\<close>, whose low byte is 255.\<close>

definition get_short :: "string \<Rightarrow> int \<times> string" where
  "get_short s =
     (case s of
        [] \<Rightarrow> (- 256 + 255, [])
      | [x] \<Rightarrow> (signed_byte x * 256 + 255, [])
      | x # y # r \<Rightarrow> (signed_byte x * 256 + byte_of y, r))"

text \<open>
  \<open>locate_read_str\<close> with delimiter null: the number of bytes read, the null character among them, or
  \<open>- 1\<close> at the end of the file.
\<close>

definition locate_read_str :: "junk \<Rightarrow> nat \<Rightarrow> process_data \<Rightarrow> int \<times> process_data" where
  "locate_read_str junk offs d =
     (let (p, r) = getdelim NUL (fp d); nread = length p in
      if p = [] then (- 1, d)
      else
        (let needed = offs + nread + 1;
             buf = (if needed > length (original_filename d) then enlarge junk needed (original_filename d)
                    else original_filename d)
         in (int nread, d\<lparr>fp := r, original_filename := write_at offs p buf\<rparr>)))"

definition add_count :: "process_data \<Rightarrow> process_data" where
  "add_count d =
     (case c d of
        None \<Rightarrow> d\<lparr>count := count d - 1\<rparr>
      | Some x \<Rightarrow>
          (if byte_of x = LOCATEDB_ESCAPE then
             (let (n, r) = get_short (fp d) in d\<lparr>count := count d + n, fp := r\<rparr>)
           else d\<lparr>count := count d + signed_byte x\<rparr>))"

definition visit_locate02_format :: "junk \<Rightarrow> process_data \<Rightarrow> (locate_error, nat \<times> process_data) outcome" where
  "visit_locate02_format junk d =
     (let d = (if slocatedb_format d then
                 (if itemcount d = 0 then
                    d\<lparr>fp := (case c d of None \<Rightarrow> fp d | Some x \<Rightarrow> x # fp d), count := 0, len := 0\<rparr>
                  else if itemcount d = 1 then d\<lparr>count := len d - 1\<rparr>
                  else add_count d)
               else add_count d)
      in if count d > len d \<or> count d < 0 then Exit Database_corrupt
         else
           (let (nread, d) = locate_read_str junk (nat (count d)) d in
            if nread < 0 then Ok (VISIT_ABORT, d)
            else
              (let (x, d) = getc d;
                   d = d\<lparr>c := x, len := count d + nread, munged_filename := filename d\<rparr>
               in Ok (VISIT_CONTINUE,
                      if slocatedb_format d \<and> itemcount d < 6 then d\<lparr>itemcount := itemcount d + 1\<rparr> else d))))"

subsection \<open>The old format\<close>

text \<open>
  \<open>i\<close> is a \<open>size_t\<close>; \<open>extend\<close> ends the program when it is near the end of its range, as it is for a
  negative \<open>count\<close>: the sum is too large, or \<open>x2nrealloc\<close> refuses.
\<close>

definition extend_buffer :: "junk \<Rightarrow> nat \<Rightarrow> nat \<Rightarrow> process_data \<Rightarrow> (locate_error, process_data) outcome" where
  "extend_buffer junk siz1 siz2 d =
     (if siz1 + siz2 \<ge> 2 ^ 64 then Exit Filename_too_long
      else if length (original_filename d) < siz1 + siz2 then
        (if siz1 + siz2 \<ge> (2 ^ 64 - 1) div 3 * 2 then Exit Memory_exhausted
         else Ok (d\<lparr>original_filename := enlarge junk ((siz1 + siz2) + (siz1 + siz2) div 2 + 1) (original_filename d)\<rparr>))
      else Ok d)"

text \<open>The loop that reads up to the next entry: \<open>cs\<close> is what is left of the file.\<close>

fun old_chars :: "junk \<Rightarrow> nat \<Rightarrow> string \<Rightarrow> process_data \<Rightarrow> (locate_error, nat \<times> process_data) outcome" where
  "old_chars junk i [] d = Ok (i, d\<lparr>c := None, fp := []\<rparr>)"
| "old_chars junk i (x # cs) d =
     (if \<not> byte_of x > LOCATEDB_OLD_ESCAPE then Ok (i, d\<lparr>c := Some x, fp := cs\<rparr>)
      else if byte_of x < 128 then
        obind (extend_buffer junk i 1 d) (\<lambda>d.
          old_chars junk (i + 1) cs (d\<lparr>original_filename := write_at i [x] (original_filename d)\<rparr>))
      else
        obind (extend_buffer junk i 2 d) (\<lambda>d.
          let k = nat (byte_of x) - 128 in
          old_chars junk (i + 2) cs
            (d\<lparr>original_filename := write_at i [bigram1 d ! k, bigram2 d ! k] (original_filename d)\<rparr>)))"

text \<open>The new count; the sum may leave the range of \<open>int\<close>.\<close>

definition old_offset :: "char \<Rightarrow> process_data \<Rightarrow> (locate_error, process_data) outcome" where
  "old_offset x d =
     (if byte_of x = LOCATEDB_OLD_ESCAPE then
        (let d = d\<lparr>count := count d - LOCATEDB_OLD_OFFSET\<rparr>;
             maxval = (if count d \<ge> 0 then len d - count d else len d)
         in case getword (fp d) maxval (endian d) of
              None \<Rightarrow> Exit Unexpected_eof
            | Some ((w, st), r) \<Rightarrow>
                (if count d + w > INT_MAX \<or> count d + w < - INT_MAX - 1 then Undef
                 else Ok (d\<lparr>count := count d + w, endian := st, fp := r\<rparr>)))
      else Ok (d\<lparr>count := count d + (byte_of x - LOCATEDB_OLD_OFFSET)\<rparr>))"

definition visit_old_format :: "junk \<Rightarrow> process_data \<Rightarrow> (locate_error, nat \<times> process_data) outcome" where
  "visit_old_format junk d =
     (case c d of
        None \<Rightarrow> Ok (VISIT_ABORT, d)
      | Some x \<Rightarrow>
          obind (old_offset x d) (\<lambda>d.
          obind (old_chars junk (nat (count d mod 2 ^ 64)) (fp d) d) (\<lambda>(i, d).
          obind (extend_buffer junk i 1 d) (\<lambda>d.
          let d = d\<lparr>original_filename := write_at i [NUL] (original_filename d), len := int i\<rparr> in
          Ok (VISIT_CONTINUE, d\<lparr>munged_filename := filename d\<rparr>)))))"

subsection \<open>The visitors\<close>

text \<open>
  What other code decides: whether \<open>stat\<close> and \<open>lstat\<close> find the file, \<open>fnmatch\<close> and \<open>strcasestr\<close>, and a
  regular expression, compiled with the options of its syntax.
\<close>

record locate_env =
  stat_finds :: "string \<Rightarrow> bool"
  lstat_finds :: "string \<Rightarrow> bool"
  fnmatch :: "bool \<Rightarrow> string \<Rightarrow> string \<Rightarrow> bool"
  strcasestr :: "string \<Rightarrow> string \<Rightarrow> bool"
  re_compiles :: "int \<Rightarrow> string \<Rightarrow> bool"
  re_search :: "int \<Rightarrow> string \<Rightarrow> string \<Rightarrow> bool"

datatype (plugins only: code size) visitor =
  Visit_locate02_format
| Visit_old_format
| Visit_basename
| Visit_existing bool bool
| Visit_substring bool string
| Visit_globmatch bool string
| Visit_regex int string
| Visit_stats
| Visit_justprint bool
| Visit_limit nat
| Visit_count

text \<open>\<open>last_component\<close> of gnulib: what follows the last slash that is not at the end.\<close>

fun component_loop :: "string \<Rightarrow> bool \<Rightarrow> string \<Rightarrow> string" where
  "component_loop base saw_slash [] = base"
| "component_loop base saw_slash (x # xs) =
     (if x = CHR ''/'' then component_loop base True xs
      else if saw_slash then component_loop (x # xs) False xs
      else component_loop base saw_slash xs)"

definition last_component :: "string \<Rightarrow> string" where
  "last_component name = (let base = dropWhile (\<lambda>x. x = CHR ''/'') name in component_loop base False base)"

definition verdict :: "bool \<Rightarrow> nat" where
  "verdict b = (if b then VISIT_ACCEPTED else VISIT_REJECTED)"

definition c_isspace :: "char \<Rightarrow> bool" where
  "c_isspace x \<longleftrightarrow> byte_of x = 32 \<or> 9 \<le> byte_of x \<and> byte_of x \<le> 13"

definition visit_stats :: "string \<Rightarrow> locate_stats \<Rightarrow> locate_stats" where
  "visit_stats name p =
     \<lparr>total_filename_count = total_filename_count p + 1,
      total_filename_length = total_filename_length p + length name,
      whitespace_count = whitespace_count p + (if list_ex c_isspace name then 1 else 0),
      newline_count = newline_count p + (if CHR 0x0A \<in> set name then 1 else 0),
      highbit_filename_count = highbit_filename_count p + (if list_ex (\<lambda>x. byte_of x \<ge> 128) name then 1 else 0)\<rparr>"

text \<open>A name that is read: the string ends inside the buffer, or the read goes past its end.\<close>

definition reads_name :: "process_data \<Rightarrow> nat \<times> process_data \<Rightarrow> (locate_error, nat \<times> process_data) outcome" where
  "reads_name d r = (if NUL \<in> set (original_filename d) then Ok r else Undef)"

text \<open>
  One visitor. The first argument of \<open>Visit_existing\<close> says whether the file is to exist, the second
  whether links are followed.
\<close>

fun inspect :: "locate_env \<Rightarrow> junk \<Rightarrow> visitor \<Rightarrow> process_data \<Rightarrow> (locate_error, nat \<times> process_data) outcome" where
  "inspect e junk Visit_locate02_format d = visit_locate02_format junk d"
| "inspect e junk Visit_old_format d = visit_old_format junk d"
| "inspect e junk Visit_basename d = reads_name d (VISIT_CONTINUE, d\<lparr>munged_filename := last_component (filename d)\<rparr>)"
| "inspect e junk (Visit_existing wanted follow) d =
     reads_name d
       (if (if follow then stat_finds e (filename d) else lstat_finds e (filename d)) = wanted
        then VISIT_CONTINUE else VISIT_REJECTED, d)"
| "inspect e junk (Visit_substring casefold pat) d =
     reads_name d
       (verdict (if casefold then strcasestr e (munged_filename d) pat
                 else find_string pat (munged_filename d) \<noteq> None), d)"
| "inspect e junk (Visit_globmatch casefold glob) d =
     reads_name d (verdict (fnmatch e casefold glob (munged_filename d)), d)"
| "inspect e junk (Visit_regex syntax re) d = reads_name d (verdict (re_search e syntax re (munged_filename d)), d)"
| "inspect e junk Visit_stats d =
     reads_name d (VISIT_CONTINUE, d\<lparr>statistics := visit_stats (filename d) (statistics d)\<rparr>)"
| "inspect e junk (Visit_justprint quoted) d =
     reads_name d (VISIT_CONTINUE, d\<lparr>printed := printed d @ [(quoted, filename d)]\<rparr>)"
| "inspect e junk (Visit_limit limit) d =
     (let d = d\<lparr>items_accepted := items_accepted d + 1\<rparr>
      in Ok (if items_accepted d \<ge> limit then VISIT_ABORT else VISIT_CONTINUE, d))"
| "inspect e junk Visit_count d = Ok (VISIT_CONTINUE, d\<lparr>items_accepted := items_accepted d + 1\<rparr>)"

text \<open>The list holds the visitors up to the one to stop at; \<open>result\<close> is the result so far.\<close>

fun visit :: "locate_env \<Rightarrow> junk \<Rightarrow> visitor list \<Rightarrow> nat \<Rightarrow> nat \<Rightarrow> process_data \<Rightarrow>
    (locate_error, nat \<times> process_data) outcome" where
  "visit e junk [] accept_flags result d = Ok (result, d)"
| "visit e junk (v # vs) accept_flags result d =
     (if flags accept_flags result then
        obind (inspect e junk v d) (\<lambda>(result, d). visit e junk vs accept_flags result d)
      else Ok (result, d))"

datatype (plugins only: code size) mainprocessor = Process_simple | Process_or | Process_and

text \<open>The visitors up to the last pattern, and those past it.\<close>

definition process_simple :: "locate_env \<Rightarrow> junk \<Rightarrow> visitor list \<Rightarrow> process_data \<Rightarrow>
    (locate_error, nat \<times> process_data) outcome" where
  "process_simple e junk inspectors d =
     visit e junk inspectors (VISIT_CONTINUE + VISIT_ACCEPTED) (VISIT_CONTINUE + VISIT_ACCEPTED) d"

definition process_past :: "locate_env \<Rightarrow> junk \<Rightarrow> visitor list \<Rightarrow> nat \<times> process_data \<Rightarrow>
    (locate_error, nat \<times> process_data) outcome" where
  "process_past e junk past r =
     (let (result, d) = r; result = (if result = VISIT_CONTINUE then VISIT_REJECTED else result) in
      if flags result (VISIT_ABORT + VISIT_REJECTED) then Ok (result, d)
      else obind (visit e junk past VISIT_CONTINUE VISIT_CONTINUE d) (\<lambda>(result, d).
        Ok (if result = VISIT_CONTINUE then VISIT_ACCEPTED else result, d)))"

definition process_or :: "locate_env \<Rightarrow> junk \<Rightarrow> visitor list \<Rightarrow> visitor list \<Rightarrow> process_data \<Rightarrow>
    (locate_error, nat \<times> process_data) outcome" where
  "process_or e junk inspectors past d =
     obind (visit e junk inspectors (VISIT_CONTINUE + VISIT_REJECTED) (VISIT_CONTINUE + VISIT_REJECTED) d)
       (process_past e junk past)"

definition process_and :: "locate_env \<Rightarrow> junk \<Rightarrow> visitor list \<Rightarrow> visitor list \<Rightarrow> process_data \<Rightarrow>
    (locate_error, nat \<times> process_data) outcome" where
  "process_and e junk inspectors past d =
     obind (visit e junk inspectors (VISIT_CONTINUE + VISIT_ACCEPTED) (VISIT_CONTINUE + VISIT_ACCEPTED) d)
       (process_past e junk past)"


definition run_processor :: "mainprocessor \<Rightarrow> locate_env \<Rightarrow> junk \<Rightarrow> visitor list \<Rightarrow> visitor list \<Rightarrow> process_data \<Rightarrow>
    (locate_error, nat \<times> process_data) outcome" where
  "run_processor proc e junk inspectors past d =
     (case proc of
        Process_simple \<Rightarrow> process_simple e junk (inspectors @ past) d
      | Process_or \<Rightarrow> process_or e junk inspectors past d
      | Process_and \<Rightarrow> process_and e junk inspectors past d)"

end
