(* ===== verification/LocateRun.thy ===== *)
theory LocateRun
  imports LocateSearch
begin

text \<open>
  \<open>search_one_database\<close> of \<open>locate/locate.c\<close>: the header of a database, the visitors that the options ask
  for, and the loop over the entries, which ends as every round reads a byte.
\<close>

subsection \<open>What a round reads\<close>

text \<open>Every round that does not end the search reads a byte of the database at least.\<close>

definition todo :: "process_data \<Rightarrow> nat" where
  "todo d = length (fp d) + (if c d = None then 0 else 1)"

fun decoder :: "visitor \<Rightarrow> bool" where
  "decoder Visit_locate02_format = True"
| "decoder Visit_old_format = True"
| "decoder _ = False"

lemma getdelim_snd_le: "length (snd (getdelim x s)) \<le> length s"
  by (metis getdelim_append le_add2 length_append)

lemma locate_read_str_reads:
  "locate_read_str junk offs d = (n, d') \<Longrightarrow> 0 \<le> n \<Longrightarrow> length (fp d') < length (fp d)"
  using getdelim_shorter [of "fp d" NUL] getdelim_Nil [of NUL "fp d"]
  by (auto simp: locate_read_str_def Let_def simp del: getdelim_Nil split: prod.splits if_splits)

lemma getc_todo: "getc d = (x, d') \<Longrightarrow> todo (d'\<lparr>c := x\<rparr>) = length (fp d)"
  by (auto simp: getc_def todo_def split: list.splits)

lemma get_short_reads: "length (snd (get_short s)) \<le> length s"
  by (auto simp: get_short_def split: list.splits)

lemma add_count_reads: "length (fp (add_count d)) \<le> length (fp d)"
  using get_short_reads [of "fp d"] by (auto simp: add_count_def Let_def split: option.splits prod.splits)

text \<open>Reading the rest of a name, once the offset is known.\<close>

definition visit_locate02_rest :: "junk \<Rightarrow> process_data \<Rightarrow> (locate_error, nat \<times> process_data) outcome" where
  "visit_locate02_rest junk d =
     (if count d > len d \<or> count d < 0 then Exit Database_corrupt
      else
        (let (nread, d) = locate_read_str junk (nat (count d)) d in
         if nread < 0 then Ok (VISIT_ABORT, d)
         else
           (let (x, d) = getc d;
                d = d\<lparr>c := x, len := count d + nread, munged_filename := filename d\<rparr>
            in Ok (VISIT_CONTINUE,
                   if slocatedb_format d \<and> itemcount d < 6 then d\<lparr>itemcount := itemcount d + 1\<rparr> else d))))"

definition set_count :: "process_data \<Rightarrow> process_data" where
  "set_count d =
     (if slocatedb_format d then
        (if itemcount d = 0 then
           d\<lparr>fp := (case c d of None \<Rightarrow> fp d | Some x \<Rightarrow> x # fp d), count := 0, len := 0\<rparr>
         else if itemcount d = 1 then d\<lparr>count := len d - 1\<rparr>
         else add_count d)
      else add_count d)"

lemma visit_locate02_format_split: "visit_locate02_format junk d = visit_locate02_rest junk (set_count d)"
  by (simp add: visit_locate02_format_def visit_locate02_rest_def set_count_def Let_def)

lemma set_count_reads: "c d \<noteq> None \<Longrightarrow> length (fp (set_count d)) \<le> todo d"
  using add_count_reads [of d] by (auto simp: set_count_def todo_def)

lemma visit_locate02_rest_reads:
  assumes "visit_locate02_rest junk d = Ok (r, d')" and "r \<noteq> VISIT_ABORT"
  shows "todo d' < length (fp d)"
proof -
  obtain n d1 where n: "locate_read_str junk (nat (count d)) d = (n, d1)" by fastforce
  obtain x d2 where g: "getc d1 = (x, d2)" by fastforce
  have ok: "0 \<le> n" using assms by (auto simp: visit_locate02_rest_def n split: if_splits)
  have "todo d' = todo (d2\<lparr>c := x\<rparr>)"
    using assms n g ok by (auto simp: visit_locate02_rest_def todo_def Let_def split: if_splits)
  then show ?thesis using getc_todo [OF g] locate_read_str_reads [OF n ok] by simp
qed

lemma extend_buffer_fp: "extend_buffer junk a b d = Ok d' \<Longrightarrow> fp d' = fp d \<and> c d' = c d"
  by (auto simp: extend_buffer_def split: if_splits)

lemma old_chars_reads: "old_chars junk i cs d = Ok (j, d') \<Longrightarrow> todo d' \<le> length cs"
proof (induction cs arbitrary: i d)
  case (Cons x cs)
  then show ?case by (fastforce simp: todo_def Let_def obind_eq_Ok split: if_splits)
qed (auto simp: todo_def)

lemma old_offset_reads: "old_offset x d = Ok d' \<Longrightarrow> length (fp d') \<le> length (fp d)"
  by (auto simp: old_offset_def getword_def Let_def split: if_splits option.splits prod.splits)

lemma decoder_reads:
  assumes "inspect e junk v d = Ok (r, d')" and "decoder v" and "r \<noteq> VISIT_ABORT" and "c d \<noteq> None"
  shows "todo d' < todo d"
proof (cases v)
  case Visit_locate02_format
  then show ?thesis
    using assms visit_locate02_rest_reads set_count_reads [OF assms(4)]
    by (fastforce simp: visit_locate02_format_split)
next
  case Visit_old_format
  then obtain x d1 i d2 d3 where
    "c d = Some x" "old_offset x d = Ok d1" "old_chars junk (nat (count d1 mod 2 ^ 64)) (fp d1) d1 = Ok (i, d2)"
    "extend_buffer junk i 1 d2 = Ok d3" "todo d' = todo d3"
    using assms by (auto simp: visit_old_format_def obind_eq_Ok Let_def todo_def)
  then show ?thesis using old_offset_reads old_chars_reads extend_buffer_fp
    by (fastforce simp: todo_def)
qed (use assms in auto)

lemma inspect_keeps: "inspect e junk v d = Ok (r, d') \<Longrightarrow> \<not> decoder v \<Longrightarrow> todo d' = todo d"
  by (cases v) (auto simp: todo_def Let_def reads_name_def split: if_splits)

lemma visit_keeps: "visit e junk vs fl r0 d = Ok (r, d') \<Longrightarrow> list_all (\<lambda>v. \<not> decoder v) vs \<Longrightarrow> todo d' = todo d"
proof (induction e junk vs fl r0 d rule: visit.induct)
  case (2 e junk v vs fl r0 d)
  then show ?case by (cases "flags fl r0") (auto simp: obind_eq_Ok inspect_keeps)
qed simp


lemma visit_decoder:
  assumes "visit e junk (v # vs) fl fl d = Ok (r, d')" and "decoder v" and "list_all (\<lambda>v. \<not> decoder v) vs"
    and "flags fl fl" and "\<not> flags fl VISIT_ABORT" and "c d \<noteq> None"
  shows "r = VISIT_ABORT \<or> todo d' < todo d"
proof -
  obtain r1 d1 where i: "inspect e junk v d = Ok (r1, d1)" and v: "visit e junk vs fl r1 d1 = Ok (r, d')"
    using assms(1,4) by (auto simp: obind_eq_Ok)
  show ?thesis
  proof (cases "r1 = VISIT_ABORT")
    case True
    then have "r = VISIT_ABORT" using v assms(5) by (cases vs) auto
    then show ?thesis ..
  next
    case False
    then show ?thesis using decoder_reads [OF i assms(2) _ assms(6)] visit_keeps [OF v assms(3)] by simp
  qed
qed

lemma process_past_keeps:
  "process_past e junk past (r0, d) = Ok (r, d') \<Longrightarrow> list_all (\<lambda>v. \<not> decoder v) past \<Longrightarrow>
   todo d' = todo d \<and> (r0 = VISIT_ABORT \<longrightarrow> r = VISIT_ABORT)"
  by (auto simp: process_past_def Let_def obind_eq_Ok flags_def visit_keeps split: if_splits)

lemma run_processor_reads:
  assumes "run_processor proc e junk (v # vs) past d = Ok (r, d')" and "decoder v"
    and "list_all (\<lambda>v. \<not> decoder v) (vs @ past)" and "c d \<noteq> None" and "r \<noteq> VISIT_ABORT"
  shows "todo d' < todo d"
proof -
  have fl: "flags (VISIT_CONTINUE + VISIT_ACCEPTED) (VISIT_CONTINUE + VISIT_ACCEPTED)"
    "\<not> flags (VISIT_CONTINUE + VISIT_ACCEPTED) VISIT_ABORT"
    "flags (VISIT_CONTINUE + VISIT_REJECTED) (VISIT_CONTINUE + VISIT_REJECTED)"
    "\<not> flags (VISIT_CONTINUE + VISIT_REJECTED) VISIT_ABORT" by (auto simp: flags_def)
  have two: ?thesis if "visit e junk (v # vs) f f d = Ok (r1, d1)" "process_past e junk past (r1, d1) = Ok (r, d')"
    "flags f f" "\<not> flags f VISIT_ABORT" for f r1 d1
    using visit_decoder [OF that(1) assms(2) _ that(3,4) assms(4)] process_past_keeps [OF that(2)] assms(3,5)
    by auto
  show ?thesis
  proof (cases proc)
    case Process_simple
    then show ?thesis using visit_decoder [OF _ assms(2,3) fl(1,2) assms(4)] assms(1,5)
      by (auto simp del: visit.simps simp: run_processor_def process_simple_def)
  next
    case Process_or
    then show ?thesis using two fl(3,4) assms(1)
      by (auto simp del: visit.simps simp: run_processor_def process_or_def obind_eq_Ok)
  next
    case Process_and
    then show ?thesis using two fl(1,2) assms(1)
      by (auto simp del: visit.simps simp: run_processor_def process_and_def obind_eq_Ok)
  qed
qed

subsection \<open>Searching one database\<close>

text \<open>The formats; the visitor that decodes an entry is the first one of the list.\<close>

datatype (plugins only: code size) database_format = Slocate | Gnu_LOCATE02 | Old_format

definition format_visitor :: "database_format \<Rightarrow> visitor" where
  "format_visitor fmt = (case fmt of Slocate \<Rightarrow> Visit_locate02_format | Gnu_LOCATE02 \<Rightarrow> Visit_locate02_format |
     Old_format \<Rightarrow> Visit_old_format)"

lemma decoder_format_visitor [simp]: "decoder (format_visitor fmt)"
  by (cases fmt) (simp_all add: format_visitor_def)

datatype (plugins only: code size) ExistenceCheckType = ACCEPT_EITHER | ACCEPT_EXISTING | ACCEPT_NON_EXISTING

record locate_options =
  ignore_case :: bool
  enable_print :: bool
  print_quoted_filename :: bool
  basename_only :: bool
  use_limit :: bool
  limit :: nat
  stats :: bool
  op_and :: bool
  regex :: bool
  regex_options :: int
  check_existence :: ExistenceCheckType
  follow_symlinks :: bool

definition contains_metacharacter :: "string \<Rightarrow> bool" where
  "contains_metacharacter s \<longleftrightarrow> list_ex (\<lambda>x. x \<in> set (''*?[]'' @ [CHR 0x5C])) s"

definition regex_syntax :: "locate_options \<Rightarrow> int" where
  "regex_syntax opts = (if ignore_case opts then regex_options opts OR RE_ICASE else regex_options opts)"

text \<open>The visitor of a pattern; \<open>mbsstr\<close> and \<open>mbscasestr\<close> are \<open>strstr\<close> and \<open>strcasestr\<close> in the C locale.\<close>

definition pattern_visitor :: "locate_options \<Rightarrow> string \<Rightarrow> visitor" where
  "pattern_visitor opts pathpart =
     (if regex opts then Visit_regex (regex_syntax opts) pathpart
      else if contains_metacharacter pathpart then Visit_globmatch (ignore_case opts) pathpart
      else Visit_substring (ignore_case opts) pathpart)"

definition pattern_visitors :: "locate_options \<Rightarrow> string list \<Rightarrow> visitor list" where
  "pattern_visitors opts argv = (if basename_only opts then [Visit_basename] else []) @ map (pattern_visitor opts) argv"

definition past_visitors :: "locate_options \<Rightarrow> visitor list" where
  "past_visitors opts =
     (case check_existence opts of
        ACCEPT_EXISTING \<Rightarrow> [Visit_existing True (follow_symlinks opts)]
      | ACCEPT_NON_EXISTING \<Rightarrow> [Visit_existing False (follow_symlinks opts)]
      | ACCEPT_EITHER \<Rightarrow> []) @
     (if stats opts then [Visit_stats] else []) @
     (if enable_print opts then [Visit_justprint (print_quoted_filename opts)] else []) @
     [if use_limit opts then Visit_limit (limit opts) else Visit_count]"

definition processor_of :: "locate_options \<Rightarrow> string list \<Rightarrow> mainprocessor" where
  "processor_of opts argv = (if length argv > 1 then (if op_and opts then Process_and else Process_or) else Process_simple)"

definition process_entry :: "locate_env \<Rightarrow> junk \<Rightarrow> locate_options \<Rightarrow> string list \<Rightarrow> database_format \<Rightarrow> process_data \<Rightarrow>
    (locate_error, nat \<times> process_data) outcome" where
  "process_entry e junk opts argv fmt d =
     run_processor (processor_of opts argv) e junk (format_visitor fmt # pattern_visitors opts argv) (past_visitors opts) d"

lemma filters_do_not_decode [simp]:
  "list_all (\<lambda>v. \<not> decoder v) (pattern_visitors opts argv)" "list_all (\<lambda>v. \<not> decoder v) (past_visitors opts)"
  by (auto simp: pattern_visitors_def past_visitors_def pattern_visitor_def list_all_iff
      split: ExistenceCheckType.splits)

lemma process_entry_reads:
  "process_entry e junk opts argv fmt d = Ok (r, d') \<Longrightarrow> c d \<noteq> None \<Longrightarrow> r \<noteq> VISIT_ABORT \<Longrightarrow> todo d' < todo d"
  unfolding process_entry_def by (rule run_processor_reads) auto

function search_loop :: "locate_env \<Rightarrow> junk \<Rightarrow> locate_options \<Rightarrow> string list \<Rightarrow> database_format \<Rightarrow> process_data \<Rightarrow>
    (locate_error, process_data) outcome" where
  "search_loop e junk opts argv fmt d =
     (if c d = None then Ok d
      else obind (process_entry e junk opts argv fmt d) (\<lambda>(r, d).
        if r = VISIT_ABORT then Ok d else search_loop e junk opts argv fmt d))"
  by pat_completeness auto

termination search_loop
  by (relation "measure (\<lambda>(e, junk, opts, argv, fmt, d). todo d)") (auto dest: process_entry_reads)

declare search_loop.simps [simp del]

definition looking_at_gnu_locatedb :: "string \<Rightarrow> nat \<Rightarrow> bool" where
  "looking_at_gnu_locatedb data n \<longleftrightarrow> \<not> n < length LOCATEDB_MAGIC \<and> take (length LOCATEDB_MAGIC) data = LOCATEDB_MAGIC"

text \<open>The security level, if it is a database of slocate.\<close>

definition looking_at_slocate_locatedb :: "string \<Rightarrow> nat \<Rightarrow> nat option" where
  "looking_at_slocate_locatedb data n =
     (if n < 2 then None
      else if data ! 1 = NUL \<and> 48 \<le> byte_of (data ! 0) \<and> byte_of (data ! 0) \<le> 57 then Some (nat (byte_of (data ! 0)) - 48)
      else None)"

text \<open>\<open>fread\<close> to a place of the buffer.\<close>

definition fread :: "nat \<Rightarrow> nat \<Rightarrow> process_data \<Rightarrow> nat \<times> process_data" where
  "fread off n d =
     (let bytes = take n (fp d) in
      (length bytes, d\<lparr>fp := drop n (fp d), original_filename := write_at off bytes (original_filename d)\<rparr>))"

text \<open>The header of a database that is not of slocate; two bytes were asked for already.\<close>

definition read_header :: "junk \<Rightarrow> nat \<Rightarrow> process_data \<Rightarrow> (locate_error, database_format \<times> process_data) outcome" where
  "read_header junk nread d =
     obind (extend_buffer junk (length LOCATEDB_MAGIC) 0 d) (\<lambda>d.
     let (nread2, d) = fread nread (length LOCATEDB_MAGIC - nread) d in
     if looking_at_gnu_locatedb (original_filename d) (nread + nread2) then Ok (Gnu_LOCATE02, d)
     else
       (let nread = nread + nread2 in
        obind (extend_buffer junk 256 0 d) (\<lambda>d.
        let (more_read, d) = (if nread < 256 then fread nread (256 - nread) d else (256 - nread, d)) in
        if more_read + nread \<noteq> 256 then Exit Database_too_short
        else Ok (Old_format, d\<lparr>bigram1 := map (\<lambda>i. original_filename d ! (2 * i)) [0..<128],
                              bigram2 := map (\<lambda>i. original_filename d ! (2 * i + 1)) [0..<128]\<rparr>))))"

definition run_search :: "locate_env \<Rightarrow> junk \<Rightarrow> locate_options \<Rightarrow> string list \<Rightarrow> database_format \<Rightarrow> process_data \<Rightarrow>
    (locate_error, nat \<times> process_data) outcome" where
  "run_search e junk opts argv fmt d =
     (case (if regex opts then find (\<lambda>pat. \<not> re_compiles e (regex_syntax opts) pat) argv else None) of
        Some pat \<Rightarrow> Exit (Bad_regex pat)
      | None \<Rightarrow>
          (let (x, d) = getc d in
           obind (search_loop e junk opts argv fmt (d\<lparr>c := x\<rparr>)) (\<lambda>d. Ok (items_accepted d, d))))"

text \<open>
  The result is the number of names that were found, in this and in the databases before, and the
  data in the end. \<open>d\<close> brings what the databases before left: \<open>items_accepted\<close> and \<open>printed\<close>.
\<close>

definition start_data :: "junk \<Rightarrow> string \<Rightarrow> process_data \<Rightarrow> process_data" where
  "start_data junk db d =
     d\<lparr>endian := GetwordEndianStateInitial, len := 0, count := 0, slocatedb_format := False, itemcount := 0,
       fp := db, original_filename := map junk [0..<128]\<rparr>"

definition search_one_database :: "locate_env \<Rightarrow> junk \<Rightarrow> locate_options \<Rightarrow> string list \<Rightarrow> string \<Rightarrow> process_data \<Rightarrow>
    (locate_error, nat \<times> process_data) outcome" where
  "search_one_database e junk opts argv db d =
     (let (nread, d) = fread 0 2 (start_data junk db d) in
      case looking_at_slocate_locatedb (original_filename d) nread of
        Some seclevel \<Rightarrow>
          (if seclevel > 1 then Ok (0, d)
           else if seclevel > 0 \<and> check_existence opts = ACCEPT_NON_EXISTING then Ok (0, d)
           else run_search e junk (if seclevel > 0 then opts\<lparr>check_existence := ACCEPT_EXISTING\<rparr> else opts) argv
                  Slocate (d\<lparr>slocatedb_format := True\<rparr>))
      | None \<Rightarrow> obind (read_header junk nread d) (\<lambda>(fmt, d). run_search e junk opts argv fmt d))"

end
