(* ===== verification/LocateMain.thy ===== *)
theory LocateMain
  imports LocateRun
begin

text \<open>
  \<open>main\<close> of \<open>locate/locate.c\<close> behind the privileges: the options, the databases one after the other and
  the exit status; and the options of \<open>frcode\<close>. Reading the clock for the warning about an old
  database and the output of \<open>--statistics\<close> are left out.
\<close>

subsection \<open>Options\<close>

text \<open>What \<open>getopt_long\<close> gives, in the order of the switch.\<close>

datatype (plugins only: code size) locate_option =
  Opt_null
| Opt_all
| Opt_basename
| Opt_count
| Opt_database string
| Opt_existing
| Opt_non_existing
| Opt_ignore_case
| Opt_help
| Opt_max_database_age string
| Opt_print
| Opt_version
| Opt_wholename
| Opt_regex
| Opt_regextype string
| Opt_statistics
| Opt_follow
| Opt_nofollow
| Opt_limit string
| Opt_stdio
| Opt_unknown

record locate_settings =
  search :: locate_options
  printing :: bool
  just_count :: bool
  separator :: char
  dbpath :: "string option"

definition set_max_db_age :: "string \<Rightarrow> (locate_error, unit) outcome" where
  "set_max_db_age s =
     (if s = [] then Exit (Bad_age s)
      else (let (neg, n, endp) = c_number 10 s in
        if n \<ge> 2 ^ 64 then Exit (Bad_age s)
        else if endp \<noteq> [] then Exit (Bad_age s)
        else Ok ()))"

text \<open>\<open>xstrtoumax\<close> with base 10 and no list of suffixes: any text may follow the number.\<close>

definition xstrtoumax :: "string \<Rightarrow> nat option" where
  "xstrtoumax s =
     (let t = dropWhile is_space s in
      if t \<noteq> [] \<and> hd t = CHR ''-'' then None
      else (let (neg, n, endp) = c_number 10 s in
        if endp = s then None else if n \<ge> 2 ^ 64 then None else Some n))"

text \<open>\<open>Exit (Locate_usage n)\<close> stands for \<open>return n\<close> from the switch.\<close>

fun handle_option :: "locate_option \<Rightarrow> locate_settings \<Rightarrow> (locate_error, locate_settings) outcome" where
  "handle_option Opt_null s = Ok (s\<lparr>separator := NUL, search := (search s)\<lparr>print_quoted_filename := False\<rparr>\<rparr>)"
| "handle_option Opt_all s = Ok (s\<lparr>search := (search s)\<lparr>op_and := True\<rparr>\<rparr>)"
| "handle_option Opt_basename s = Ok (s\<lparr>search := (search s)\<lparr>basename_only := True\<rparr>\<rparr>)"
| "handle_option Opt_count s = Ok (s\<lparr>just_count := True\<rparr>)"
| "handle_option (Opt_database p) s = Ok (s\<lparr>dbpath := Some p\<rparr>)"
| "handle_option Opt_existing s = Ok (s\<lparr>search := (search s)\<lparr>check_existence := ACCEPT_EXISTING\<rparr>\<rparr>)"
| "handle_option Opt_non_existing s = Ok (s\<lparr>search := (search s)\<lparr>check_existence := ACCEPT_NON_EXISTING\<rparr>\<rparr>)"
| "handle_option Opt_ignore_case s = Ok (s\<lparr>search := (search s)\<lparr>ignore_case := True\<rparr>\<rparr>)"
| "handle_option Opt_help s = Exit (Locate_usage 0)"
| "handle_option (Opt_max_database_age a) s = obind (set_max_db_age a) (\<lambda>u. Ok s)"
| "handle_option Opt_print s = Ok (s\<lparr>printing := True\<rparr>)"
| "handle_option Opt_version s = Exit (Locate_usage 0)"
| "handle_option Opt_wholename s = Ok (s\<lparr>search := (search s)\<lparr>basename_only := False\<rparr>\<rparr>)"
| "handle_option Opt_regex s = Ok (s\<lparr>search := (search s)\<lparr>regex := True\<rparr>\<rparr>)"
| "handle_option (Opt_regextype t) s =
     (case get_regex_type t of
        Ok v \<Rightarrow> Ok (s\<lparr>search := (search s)\<lparr>regex_options := v\<rparr>\<rparr>)
      | _ \<Rightarrow> Exit (Bad_regextype t))"
| "handle_option Opt_statistics s = Ok (s\<lparr>search := (search s)\<lparr>stats := True\<rparr>\<rparr>)"
| "handle_option Opt_follow s = Ok (s\<lparr>search := (search s)\<lparr>follow_symlinks := True\<rparr>\<rparr>)"
| "handle_option Opt_nofollow s = Ok (s\<lparr>search := (search s)\<lparr>follow_symlinks := False\<rparr>\<rparr>)"
| "handle_option (Opt_limit a) s =
     (case xstrtoumax a of
        None \<Rightarrow> Exit (Bad_limit a)
      | Some n \<Rightarrow> Ok (s\<lparr>search := (search s)\<lparr>limit := n, use_limit := True\<rparr>\<rparr>))"
| "handle_option Opt_stdio s = Ok s"
| "handle_option Opt_unknown s = Exit (Locate_usage 1)"

definition default_options :: locate_options where
  "default_options =
     \<lparr>ignore_case = False, enable_print = False, print_quoted_filename = True, basename_only = False,
      use_limit = False, limit = 0, stats = False, op_and = False, regex = False,
      regex_options = RE_SYNTAX_EMACS, check_existence = ACCEPT_EITHER, follow_symlinks = True\<rparr>"

text \<open>\<open>LOCATE_PATH\<close> counts as a choice of databases.\<close>

definition default_settings :: "string option \<Rightarrow> locate_settings" where
  "default_settings locate_path =
     \<lparr>search = default_options, printing = False, just_count = False, separator = CHR 0x0A, dbpath = locate_path\<rparr>"

text \<open>The options, and what is decided behind the switch; \<open>argv\<close> are the patterns.\<close>

definition locate_settings_of :: "string option \<Rightarrow> locate_option list \<Rightarrow> string list \<Rightarrow>
    (locate_error, locate_settings) outcome" where
  "locate_settings_of locate_path opts argv =
     obind (ofold handle_option opts (default_settings locate_path)) (\<lambda>s.
     let s = (if \<not> just_count s \<and> \<not> stats (search s) then s\<lparr>printing := True\<rparr> else s);
         s = s\<lparr>search := (search s)\<lparr>enable_print := printing s\<rparr>\<rparr>
     in if stats (search s) then
          Ok (if argv = [] then s\<lparr>search := (search s)\<lparr>use_limit := False\<rparr>\<rparr> else s)
        else if \<not> just_count s \<and> argv = [] then Exit (Locate_usage 1)
        else Ok s)"

subsection \<open>The databases\<close>

text \<open>
  The files that can be opened, with what is in them, the default database and the standard input;
  \<open>secure_db\<close> is the database that was open before the privileges were dropped.
\<close>

record locate_files =
  LOCATE_DB :: string
  opendb :: "string \<Rightarrow> string option"
  stdin :: string
  secure_db :: "string option"

abbreviation (input) empty_statistics :: locate_stats where
  "empty_statistics \<equiv> \<lparr>total_filename_count = 0, total_filename_length = 0, whitespace_count = 0, newline_count = 0,
     highbit_filename_count = 0\<rparr>"

text \<open>
  What the loop keeps: the elements of the path that are left, or the secure database; whether the
  standard input was read; the number found and the data. \<open>Inl\<close> is a \<open>return\<close> out of the loop.
\<close>

record locate_loop =
  elements :: path_state
  secure_left :: "string option"
  did_stdin :: bool
  found :: nat
  searched :: process_data

definition more_databases :: "locate_settings \<Rightarrow> locate_loop \<Rightarrow> bool" where
  "more_databases s l \<longleftrightarrow> \<not> use_limit (search s) \<or> limit (search s) > items_accepted (searched l)"

text \<open>The next database, None when there is none left; \<open>Inl\<close> when it cannot be read.\<close>

definition next_database :: "locate_files \<Rightarrow> locate_settings \<Rightarrow> locate_loop \<Rightarrow> (unit + string option) \<times> locate_loop" where
  "next_database w s l =
     (if dbpath s \<noteq> None then
        (let (e, p) = next_element False (elements l); l = l\<lparr>elements := p\<rparr> in
         case e of
           None \<Rightarrow> (Inr None, l)
         | Some e \<Rightarrow>
             (if e = ''-'' then
                (if did_stdin l then (Inl (), l) else (Inr (Some (stdin w)), l\<lparr>did_stdin := True\<rparr>))
              else
                (case opendb w (if e = [] \<or> e = ''.'' then LOCATE_DB w else e) of
                   None \<Rightarrow> (Inl (), l)
                 | Some db \<Rightarrow> (Inr (Some db), l))))
      else (Inr (secure_left l), l\<lparr>secure_left := None\<rparr>))"

definition search_next :: "locate_env \<Rightarrow> junk \<Rightarrow> locate_settings \<Rightarrow> string list \<Rightarrow> string \<Rightarrow> locate_loop \<Rightarrow>
    (locate_error, locate_loop) outcome" where
  "search_next e junk s argv db l =
     obind (search_one_database e junk (search s) argv db ((searched l)\<lparr>statistics := empty_statistics\<rparr>))
       (\<lambda>(n, d). Ok (l\<lparr>found := n, searched := d\<rparr>))"

definition databases_left :: "locate_settings \<Rightarrow> locate_loop \<Rightarrow> nat" where
  "databases_left s l = elements_left (elements l) + (if secure_left l = None then 0 else 1)"

lemma next_database_less:
  "next_database w s l = (Inr (Some db), l') \<Longrightarrow> databases_left s l' < databases_left s l"
  by (auto simp: next_database_def databases_left_def Let_def dest: next_element_less
      split: prod.splits option.splits if_splits)

lemma search_next_left: "search_next e junk s argv db l = Ok l' \<Longrightarrow> databases_left s l' = databases_left s l"
  by (auto simp: search_next_def databases_left_def obind_eq_Ok)

function search_databases :: "locate_env \<Rightarrow> junk \<Rightarrow> locate_files \<Rightarrow> locate_settings \<Rightarrow> string list \<Rightarrow> locate_loop \<Rightarrow>
    (locate_error, bool \<times> locate_loop) outcome" where
  "search_databases e junk w s argv l =
     (if \<not> more_databases s l then Ok (True, l)
      else
        (case next_database w s l of
           (Inl u, l) \<Rightarrow> Ok (False, l)
         | (Inr None, l) \<Rightarrow> Ok (True, l)
         | (Inr (Some db), l) \<Rightarrow>
             obind (search_next e junk s argv db l) (search_databases e junk w s argv)))"
  by pat_completeness auto

termination search_databases
  by (relation "measure (\<lambda>(e, junk, w, s, argv, l). databases_left s l)")
    (auto dest!: search_next_left next_database_less [OF sym])

declare search_databases.simps [simp del]

subsection \<open>The program\<close>

text \<open>
  The result: the exit status, the number that is printed with \<open>-c\<close>, and the names that were printed.
\<close>

definition dolocate :: "locate_env \<Rightarrow> junk \<Rightarrow> locate_files \<Rightarrow> string option \<Rightarrow> locate_option list \<Rightarrow> string list \<Rightarrow>
    process_data \<Rightarrow> (locate_error, nat \<times> nat option \<times> (bool \<times> string) list) outcome" where
  "dolocate e junk w locate_path opts argv d0 =
     obind (locate_settings_of locate_path opts argv) (\<lambda>s.
     let l = \<lparr>elements = init_path (case dbpath s of None \<Rightarrow> [] | Some p \<Rightarrow> p),
              secure_left = (if dbpath s \<noteq> None then None else secure_db w), did_stdin = False, found = 0,
              searched = d0\<lparr>items_accepted := 0, printed := []\<rparr>\<rparr>
     in obind (search_databases e junk w s argv l) (\<lambda>(through, l).
        if \<not> through then Ok (0, None, printed (searched l))
        else Ok (if found l \<noteq> 0 \<or> (use_limit (search s) \<and> limit (search s) = 0) \<or> stats (search s) then 0 else 1,
                 if just_count s then Some (found l) else None, printed (searched l))))"

definition open_secure_db :: "(string \<Rightarrow> string option) \<Rightarrow> string \<Rightarrow> string option" where
  "open_secure_db open_file locate_db =
     (case open_file locate_db of Some db \<Rightarrow> Some db | None \<Rightarrow> open_file ''/var/lib/slocate/slocate.db'')"

subsection \<open>The options of \<open>frcode\<close>\<close>

datatype (plugins only: code size) frcode_option = Frcode_null | Frcode_seclevel string | Frcode_help | Frcode_version | Frcode_unknown

definition get_seclevel :: "string \<Rightarrow> (locate_error, int) outcome" where
  "get_seclevel s =
     (let (neg, n, p) = c_number 10 s; (v, q) = strtol 10 s in
      if v = 0 \<and> p = s then Exit (Bad_seclevel s)
      else if (neg \<and> n > 2 ^ 63) \<or> (\<not> neg \<and> n \<ge> 2 ^ 63) then Exit (Bad_seclevel s)
      else if p \<noteq> [] then Exit (Bad_seclevel s)
      else Ok v)"

text \<open>The delimiter and the security level; \<open>Exit (Locate_usage n)\<close> stands for \<open>return n\<close>.\<close>

fun handle_frcode_option :: "frcode_option \<Rightarrow> char \<times> int option \<Rightarrow> (locate_error, char \<times> int option) outcome" where
  "handle_frcode_option Frcode_null (delimiter, seclevel) = Ok (NUL, seclevel)"
| "handle_frcode_option (Frcode_seclevel a) (delimiter, seclevel) =
     obind (get_seclevel a) (\<lambda>l. if l < 0 \<or> l > 1 then Exit (Bad_seclevel a) else Ok (delimiter, Some l))"
| "handle_frcode_option Frcode_help s = Exit (Locate_usage 0)"
| "handle_frcode_option Frcode_version s = Exit (Locate_usage 0)"
| "handle_frcode_option Frcode_unknown s = Exit (Locate_usage 1)"

definition frcode_main :: "frcode_option list \<Rightarrow> string list \<Rightarrow> string \<Rightarrow> (locate_error, string) outcome" where
  "frcode_main opts args input =
     obind (ofold handle_frcode_option opts (CHR 0x0A, None)) (\<lambda>(delimiter, seclevel).
     if args \<noteq> [] then Exit (Locate_usage 1)
     else (case frcode delimiter seclevel input of Ok db \<Rightarrow> Ok db | Exit u \<Rightarrow> Exit (Locate_usage 1) | Undef \<Rightarrow> Undef
           | Diverge \<Rightarrow> Diverge))"

end
