(* ===== verification/LocateOk.thy ===== *)
theory LocateOk
  imports LocateMain
begin

text \<open>
  What \<open>locate\<close> promises for a database that holds a list of names, whatever its format: the visitors
  behind the decoder select the names that match, and the loop handles them in order up to the limit.
  The locale \<open>database\<close> states what a format has to provide.
\<close>

subsection \<open>Specification\<close>

definition pattern_matches :: "locate_env \<Rightarrow> locate_options \<Rightarrow> string \<Rightarrow> string \<Rightarrow> bool" where
  "pattern_matches e opts name pat =
     (if regex opts then re_search e (regex_syntax opts) pat name
      else if contains_metacharacter pat then fnmatch e (ignore_case opts) pat name
      else if ignore_case opts then strcasestr e name pat
      else find_string pat name \<noteq> None)"

definition munged :: "locate_options \<Rightarrow> string \<Rightarrow> string" where
  "munged opts name = (if basename_only opts then last_component name else name)"

text \<open>No pattern accepts every name.\<close>

definition name_matches :: "locate_env \<Rightarrow> locate_options \<Rightarrow> string list \<Rightarrow> string \<Rightarrow> bool" where
  "name_matches e opts argv name =
     (argv = [] \<or>
      (if op_and opts then \<forall>pat\<in>set argv. pattern_matches e opts (munged opts name) pat
       else \<exists>pat\<in>set argv. pattern_matches e opts (munged opts name) pat))"

definition name_exists :: "locate_env \<Rightarrow> locate_options \<Rightarrow> string \<Rightarrow> bool" where
  "name_exists e opts name =
     (case check_existence opts of
        ACCEPT_EITHER \<Rightarrow> True
      | ACCEPT_EXISTING \<Rightarrow> (if follow_symlinks opts then stat_finds e name else lstat_finds e name)
      | ACCEPT_NON_EXISTING \<Rightarrow> \<not> (if follow_symlinks opts then stat_finds e name else lstat_finds e name))"

definition wanted :: "locate_env \<Rightarrow> locate_options \<Rightarrow> string list \<Rightarrow> string \<Rightarrow> bool" where
  "wanted e opts argv name \<longleftrightarrow> name_matches e opts argv name \<and> name_exists e opts name"

text \<open>What is done with a name that is wanted.\<close>

definition accept_name :: "locate_options \<Rightarrow> process_data \<Rightarrow> process_data" where
  "accept_name opts d =
     d\<lparr>statistics := (if stats opts then visit_stats (filename d) (statistics d) else statistics d),
       printed := (if enable_print opts then printed d @ [(print_quoted_filename opts, filename d)] else printed d),
       items_accepted := items_accepted d + 1\<rparr>"

subsection \<open>The visitors behind the decoder\<close>

lemma flags_eqs [simp]:
  "flags 3 (Suc 0)" "flags 3 2" "\<not> flags 3 4" "\<not> flags 3 8" "flags 3 3"
  "flags 5 (Suc 0)" "\<not> flags 5 2" "flags 5 4" "\<not> flags 5 8" "flags 5 5"
  "flags (Suc 0) (Suc 0)" "\<not> flags (Suc 0) 2" "\<not> flags (Suc 0) 4" "\<not> flags (Suc 0) 8"
  "\<not> flags 2 12" "flags 4 12" "flags 8 12" "\<not> flags (Suc 0) 12"
  by (simp_all add: flags_def)

lemma visit_stops [simp]: "\<not> flags f r \<Longrightarrow> visit e junk vs f r d = Ok (r, d)"
  by (cases vs) simp_all

text \<open>The patterns, once the name they look at is set.\<close>

lemma inspect_pattern:
  "NUL \<in> set (original_filename d) \<Longrightarrow>
   inspect e junk (pattern_visitor opts pat) d = Ok (verdict (pattern_matches e opts (munged_filename d) pat), d)"
  by (simp add: pattern_visitor_def pattern_matches_def reads_name_def)

lemma visit_patterns_and:
  assumes "NUL \<in> set (original_filename d)"
  shows "visit e junk (map (pattern_visitor opts) argv @ vs) 3 r d =
    (if argv = [] \<or> \<not> flags 3 r then visit e junk vs 3 r d
     else if \<forall>pat\<in>set argv. pattern_matches e opts (munged_filename d) pat then visit e junk vs 3 VISIT_ACCEPTED d
     else Ok (VISIT_REJECTED, d))"
proof (induction argv arbitrary: r)
  case Nil
  then show ?case by simp
next
  case (Cons pat argv)
  show ?case
  proof (cases "flags 3 r")
    case True
    then show ?thesis using assms Cons.IH [of 2] Cons.IH [of 4]
      by (cases argv; cases vs) (auto simp: inspect_pattern verdict_def)
  next
    case False
    then show ?thesis by (cases vs) simp_all
  qed
qed

lemma visit_patterns_or:
  assumes "NUL \<in> set (original_filename d)" and "argv \<noteq> []" and "flags 5 r"
  shows "visit e junk (map (pattern_visitor opts) argv) 5 r d =
    Ok (verdict (\<exists>pat\<in>set argv. pattern_matches e opts (munged_filename d) pat), d)"
  using assms(2,3)
proof (induction argv arbitrary: r)
  case (Cons pat argv)
  then show ?case using assms(1) by (cases argv) (auto simp: inspect_pattern verdict_def)
qed simp

text \<open>Those past the patterns: existence, statistics, printing, the limit.\<close>

definition last_result :: "locate_options \<Rightarrow> process_data \<Rightarrow> nat" where
  "last_result opts d = (if use_limit opts \<and> items_accepted d \<ge> limit opts then VISIT_ABORT else VISIT_CONTINUE)"

lemma visit_past:
  assumes n: "NUL \<in> set (original_filename d)" and f: "flags f r" "flags f VISIT_CONTINUE" "\<not> flags f VISIT_REJECTED"
  shows "visit e junk (past_visitors opts) f r d =
    (if name_exists e opts (filename d) then Ok (last_result opts (accept_name opts d), accept_name opts d)
     else Ok (VISIT_REJECTED, d))"
  using assms
  by (cases "check_existence opts")
    (auto simp: past_visitors_def name_exists_def accept_name_def last_result_def reads_name_def Let_def)

text \<open>All together: what a round does once the decoder has set the name.\<close>

definition after_decode :: "locate_env \<Rightarrow> locate_options \<Rightarrow> string list \<Rightarrow> process_data \<Rightarrow> bool \<times> process_data" where
  "after_decode e opts argv d =
     (let d' = d\<lparr>munged_filename := munged opts (filename d)\<rparr> in
      if wanted e opts argv (filename d)
      then (use_limit opts \<and> items_accepted d + 1 \<ge> limit opts, accept_name opts d')
      else (False, d'))"

lemma visit_munged:
  assumes "NUL \<in> set (original_filename d)" and "munged_filename d = filename d" and "flags f (Suc 0)"
  shows "visit e junk (pattern_visitors opts argv @ vs) f (Suc 0) d =
    visit e junk (map (pattern_visitor opts) argv @ vs) f (Suc 0) (d\<lparr>munged_filename := munged opts (filename d)\<rparr>)"
proof -
  have "d\<lparr>munged_filename := filename d\<rparr> = d" using assms(2) by (metis process_data.surjective process_data.update_convs(6))
  then show ?thesis using assms
    by (cases "basename_only opts") (simp_all only: pattern_visitors_def munged_def if_True if_False append_Nil append_Cons
      visit.simps inspect.simps reads_name_def obind.simps prod.case One_nat_def [symmetric])
qed

lemma process_eqs:
  "process_simple e junk vs d = visit e junk vs 3 3 d"
  "process_or e junk vs past d = obind (visit e junk vs 5 5 d) (process_past e junk past)"
  "process_and e junk vs past d = obind (visit e junk vs 3 3 d) (process_past e junk past)"
  by (simp_all add: process_simple_def process_or_def process_and_def numeral_3_eq_3)

lemma process_entry_decoded:
  assumes dec: "inspect e junk (format_visitor fmt) d0 = Ok (VISIT_CONTINUE, d)"
    and n: "NUL \<in> set (original_filename d)" and m: "munged_filename d = filename d"
  shows "\<exists>r. process_entry e junk opts argv fmt d0 = Ok (r, snd (after_decode e opts argv d)) \<and>
    (r = VISIT_ABORT \<longleftrightarrow> fst (after_decode e opts argv d))"
proof -
  define d' where "d' = d\<lparr>munged_filename := munged opts (filename d)\<rparr>"
  have n': "NUL \<in> set (original_filename d')" and f: "filename d' = filename d"
    and m': "munged_filename d' = munged opts (filename d)" and i: "items_accepted d' = items_accepted d"
    using n by (simp_all add: d'_def)
  have last: "last_result opts (accept_name opts d') =
      (if use_limit opts \<and> items_accepted d + 1 \<ge> limit opts then VISIT_ABORT else VISIT_CONTINUE)"
    by (simp add: last_result_def accept_name_def i)
  note vm = visit_munged [OF n m]
  note past = visit_past [OF n', of _ _ e junk opts, unfolded f last]
  note fin = after_decode_def wanted_def name_matches_def d'_def [symmetric] Let_def
  consider (simple) "length argv \<le> 1" | (conj) "length argv > 1" "op_and opts" | (disj) "length argv > 1" "\<not> op_and opts"
    by linarith
  then show ?thesis
  proof cases
    case simple
    then have "processor_of opts argv = Process_simple" by (simp add: processor_of_def)
    then have "process_entry e junk opts argv fmt d0 =
        visit e junk (pattern_visitors opts argv @ past_visitors opts) 3 (Suc 0) d"
      using dec by (simp add: process_entry_def run_processor_def process_eqs)
    also have "\<dots> = visit e junk (map (pattern_visitor opts) argv @ past_visitors opts) 3 (Suc 0) d'"
      by (simp add: vm d'_def)
    also have "\<dots> = (if name_matches e opts argv (filename d) then visit e junk (past_visitors opts) 3 (if argv = [] then Suc 0 else 2) d'
        else Ok (VISIT_REJECTED, d'))"
      using simple by (cases argv) (auto simp: inspect_pattern [OF n'] verdict_def m' name_matches_def)
    finally show ?thesis by (auto simp: past fin)
  next
    case conj
    then have "processor_of opts argv = Process_and" "argv \<noteq> []" by (auto simp: processor_of_def)
    then have "process_entry e junk opts argv fmt d0 =
        obind (visit e junk (pattern_visitors opts argv @ []) 3 (Suc 0) d) (process_past e junk (past_visitors opts))"
      using dec by (simp add: process_entry_def run_processor_def process_eqs)
    also have "\<dots> = obind (visit e junk (map (pattern_visitor opts) argv @ []) 3 (Suc 0) d')
        (process_past e junk (past_visitors opts))"
      by (simp add: vm d'_def del: append_Nil2)
    finally show ?thesis using conj \<open>argv \<noteq> []\<close>
      by (auto simp: visit_patterns_and [OF n'] m' process_past_def past fin simp del: append_Nil2)
  next
    case disj
    then have "processor_of opts argv = Process_or" "argv \<noteq> []" by (auto simp: processor_of_def)
    then have "process_entry e junk opts argv fmt d0 =
        obind (visit e junk (pattern_visitors opts argv @ []) 5 (Suc 0) d) (process_past e junk (past_visitors opts))"
      using dec by (simp add: process_entry_def run_processor_def process_eqs)
    also have "\<dots> = obind (visit e junk (map (pattern_visitor opts) argv) 5 (Suc 0) d')
        (process_past e junk (past_visitors opts))"
      using vm [of 5 e junk opts argv "[]"] by (simp add: d'_def)
    finally show ?thesis using disj \<open>argv \<noteq> []\<close>
      by (auto simp: visit_patterns_or [OF n'] m' process_past_def past fin verdict_def)
  qed
qed

subsection \<open>A database of names\<close>

text \<open>The names that are found when \<open>i\<close> were found before.\<close>

definition selected :: "locate_env \<Rightarrow> locate_options \<Rightarrow> string list \<Rightarrow> nat \<Rightarrow> string list \<Rightarrow> string list" where
  "selected e opts argv i names =
     (let ws = filter (wanted e opts argv) names in
      if use_limit opts then take (max 1 (limit opts - i)) ws else ws)"

definition search_result :: "locate_env \<Rightarrow> locate_options \<Rightarrow> string list \<Rightarrow> string list \<Rightarrow> process_data \<Rightarrow> process_data \<Rightarrow> bool" where
  "search_result e opts argv names d d' \<longleftrightarrow>
     (let sel = selected e opts argv (items_accepted d) names in
      items_accepted d' = items_accepted d + length sel \<and>
      printed d' = printed d @ (if enable_print opts then map (Pair (print_quoted_filename opts)) sel else []) \<and>
      statistics d' = (if stats opts then fold visit_stats sel (statistics d) else statistics d))"

text \<open>\<open>holds d names\<close>: what is left of the database are these names.\<close>

locale database =
  fixes fmt :: database_format and holds :: "process_data \<Rightarrow> string list \<Rightarrow> bool"
  assumes holds_Nil: "holds d [] \<Longrightarrow> c d = None"
    and holds_more: "holds d (n # ns) \<Longrightarrow> c d \<noteq> None"
    and holds_decode: "holds d (n # ns) \<Longrightarrow>
      \<exists>d'. inspect e junk (format_visitor fmt) d = Ok (VISIT_CONTINUE, d') \<and> holds d' ns \<and>
        NUL \<in> set (original_filename d') \<and> filename d' = n \<and> munged_filename d' = n \<and>
        items_accepted d' = items_accepted d \<and> printed d' = printed d \<and> statistics d' = statistics d"
    and holds_cong: "holds d ns \<Longrightarrow>
      holds (d\<lparr>munged_filename := m, statistics := st, printed := p, items_accepted := i\<rparr>) ns"
begin

lemma holds_after_decode:
  assumes "holds d ns"
  shows "holds (snd (after_decode e opts argv d)) ns"
proof -
  have "d\<lparr>munged_filename := m\<rparr> = d\<lparr>munged_filename := m, statistics := statistics d, printed := printed d,
      items_accepted := items_accepted d\<rparr>" for m by simp
  then have "holds (d\<lparr>munged_filename := m\<rparr>) ns" for m using holds_cong [OF assms] by metis
  then show ?thesis using holds_cong [OF assms] by (simp add: after_decode_def accept_name_def Let_def)
qed

lemma search_loop_finds:
  "holds d names \<Longrightarrow>
   \<exists>d'. search_loop e junk opts argv fmt d = Ok d' \<and> search_result e opts argv names d d'"
proof (induction names arbitrary: d)
  case Nil
  then show ?case using holds_Nil by (subst search_loop.simps) (simp add: search_result_def selected_def)
next
  case (Cons n ns)
  obtain d1 where dec: "inspect e junk (format_visitor fmt) d = Ok (VISIT_CONTINUE, d1)" and h: "holds d1 ns"
    and n: "NUL \<in> set (original_filename d1)" "filename d1 = n" "munged_filename d1 = n"
    and same: "items_accepted d1 = items_accepted d" "printed d1 = printed d" "statistics d1 = statistics d"
    using holds_decode [OF Cons.prems] by blast
  define d2 where "d2 = snd (after_decode e opts argv d1)"
  obtain r where p: "process_entry e junk opts argv fmt d = Ok (r, d2)"
    and r: "r = VISIT_ABORT \<longleftrightarrow> fst (after_decode e opts argv d1)"
    using process_entry_decoded [OF dec n(1), of opts argv] n d2_def by auto
  have loop: "search_loop e junk opts argv fmt d =
      (if fst (after_decode e opts argv d1) then Ok d2 else search_loop e junk opts argv fmt d2)"
    using holds_more [OF Cons.prems] p r by (subst search_loop.simps) (auto simp del: not_None_eq)
  have h2: "holds d2 ns" unfolding d2_def by (rule holds_after_decode [OF h])
  obtain d' where rest: "search_loop e junk opts argv fmt d2 = Ok d'" "search_result e opts argv ns d2 d'"
    using Cons.IH [OF h2] by blast
  show ?case
  proof (cases "wanted e opts argv n")
    case False
    then have "items_accepted d2 = items_accepted d" "printed d2 = printed d" "statistics d2 = statistics d"
      "\<not> fst (after_decode e opts argv d1)"
      by (simp_all add: d2_def after_decode_def n same Let_def)
    then show ?thesis using rest loop False by (simp add: search_result_def selected_def Let_def)
  next
    case True
    then have d2: "items_accepted d2 = items_accepted d + 1"
      "printed d2 = (if enable_print opts then printed d @ [(print_quoted_filename opts, n)] else printed d)"
      "statistics d2 = (if stats opts then visit_stats n (statistics d) else statistics d)"
      and stop: "fst (after_decode e opts argv d1) \<longleftrightarrow> use_limit opts \<and> items_accepted d + 1 \<ge> limit opts"
      by (simp_all add: d2_def after_decode_def n same Let_def accept_name_def)
    show ?thesis
    proof (cases "use_limit opts \<and> items_accepted d + 1 \<ge> limit opts")
      case stop': True
      then have "max 1 (limit opts - items_accepted d) = 1" by linarith
      then have "selected e opts argv (items_accepted d) (n # ns) = [n]"
        using True stop' by (simp add: selected_def Let_def)
      then show ?thesis using loop stop stop' d2 by (simp add: search_result_def Let_def)
    next
      case False
      then have "selected e opts argv (items_accepted d) (n # ns) = n # selected e opts argv (items_accepted d2) ns"
        using True d2(1) by (auto simp: selected_def Let_def max_def take_Cons' not_le)
      then show ?thesis using loop stop False d2 rest by (auto simp: search_result_def Let_def)
    qed
  qed
qed

lemma run_search_finds:
  assumes "\<And>x d1. getc d = (x, d1) \<Longrightarrow> holds (d1\<lparr>c := x\<rparr>) names"
    and "regex opts \<Longrightarrow> \<forall>pat\<in>set argv. re_compiles e (regex_syntax opts) pat"
  shows "\<exists>d'. run_search e junk opts argv fmt d = Ok (items_accepted d', d') \<and> search_result e opts argv names d d'"
proof -
  obtain x d1 where g: "getc d = (x, d1)" by fastforce
  obtain d' where l: "search_loop e junk opts argv fmt (d1\<lparr>c := x\<rparr>) = Ok d'"
    "search_result e opts argv names (d1\<lparr>c := x\<rparr>) d'"
    using search_loop_finds [OF assms(1) [OF g]] by blast
  have "(if regex opts then find (\<lambda>pat. \<not> re_compiles e (regex_syntax opts) pat) argv else None) = None"
    using assms(2) by (auto simp: find_None_iff)
  moreover have "search_result e opts argv names d d'"
    using l(2) g by (auto simp: search_result_def getc_def Let_def split: list.splits)
  ultimately show ?thesis using l(1) g by (simp add: run_search_def)
qed

end

end
