(* ===== verification/LocateFront.thy ===== *)
theory LocateFront
  imports LocateOk
begin

text \<open>
  The current format: what \<open>frcode\<close> writes is an encoding of its input lines, and the decoder of
  \<open>locate\<close> reads it back; with that the format is a \<open>database\<close>.
\<close>

subsection \<open>Bytes\<close>

lemma byte_of_char: "byte_of (char_of n) = n mod 256" for n :: int
  by (simp add: of_char_of)

definition count_bytes :: "int \<Rightarrow> string" where
  "count_bytes diff =
     (if diff < LOCATEDB_ONEBYTE_MIN \<or> diff > LOCATEDB_ONEBYTE_MAX
      then putc LOCATEDB_ESCAPE @ putc (diff div 256) @ putc diff else putc diff)"

lemma signed_byte_putc: "- 128 \<le> n \<Longrightarrow> n \<le> 127 \<Longrightarrow> signed_byte (char_of (n mod 256)) = n"
  unfolding signed_byte_def byte_of_char by (simp add: mod_mod_trivial) presburger

text \<open>The count that is read is the one that was written.\<close>

lemma add_count_bytes:
  assumes "count_bytes diff @ r = x # s" and "- 32768 \<le> diff" and "diff \<le> 32767" and "c d = Some x" and "fp d = s"
  shows "add_count d = d\<lparr>count := count d + diff, fp := r\<rparr>"
proof (cases "diff < - 127 \<or> diff > 127")
  case True
  then have x: "x = char_of (128 :: int)" and s: "s = char_of (diff div 256 mod 256) # char_of (diff mod 256) # r"
    using assms(1) by (auto simp: count_bytes_def putc_def)
  have "signed_byte (char_of (diff div 256 mod 256)) = diff div 256"
    by (rule signed_byte_putc) (use assms(2,3) in linarith)+
  then have "get_short s = (diff, r)"
    by (simp add: get_short_def s byte_of_char)
  moreover have "byte_of x = 128" unfolding x byte_of_char by simp
  ultimately show ?thesis using assms(4,5) by (simp add: add_count_def)
next
  case False
  then have x: "x = char_of (diff mod 256)" and s: "s = r"
    using assms(1) by (auto simp: count_bytes_def putc_def)
  have sb: "signed_byte x = diff" unfolding x by (rule signed_byte_putc) (use False in linarith)+
  then have "byte_of x \<noteq> 128" using False by (auto simp: signed_byte_def split: if_splits)
  then show ?thesis using assms(4,5) s sb by (simp add: add_count_def)
qed

subsection \<open>The encoding\<close>

lemma common_prefix_le: "common_prefix s t \<le> length s" "common_prefix s t \<le> length t"
  by (induction s t rule: common_prefix.induct) auto

lemma common_prefix_take: "take (common_prefix s t) s = take (common_prefix s t) t"
  by (induction s t rule: common_prefix.induct) auto

definition front_entry :: "string \<Rightarrow> nat \<Rightarrow> string \<Rightarrow> string" where
  "front_entry old cnt n =
     count_bytes (int (common_prefix old n) - int cnt) @ drop (common_prefix old n) n @ [NUL]"

fun front_db :: "string \<Rightarrow> nat \<Rightarrow> string list \<Rightarrow> string" where
  "front_db old cnt [] = []"
| "front_db old cnt (n # ns) = front_entry old cnt n @ front_db n (common_prefix old n) ns"

text \<open>Names that the format can hold: no null character and at most 32767 bytes.\<close>

definition name_ok :: "string \<Rightarrow> bool" where
  "name_ok n \<longleftrightarrow> NUL \<notin> set n \<and> length n \<le> 32767"

text \<open>The lines of the input, each with its delimiter.\<close>

definition lines_of :: "char \<Rightarrow> string list \<Rightarrow> string" where
  "lines_of delimiter names = concat (map (\<lambda>n. n @ [delimiter]) names)"

lemma lines_of_simps [simp]:
  "lines_of delimiter [] = []" "lines_of delimiter (n # ns) = n @ delimiter # lines_of delimiter ns"
  by (simp_all add: lines_of_def)

lemma getdelim_line: "x \<notin> set n \<Longrightarrow> getdelim x (n @ x # r) = (n @ [x], r)"
  by (induction n) auto

lemma frcode_entry_front:
  assumes "name_ok n" and "length old \<le> 32767" and "cnt \<le> 32767"
  shows "frcode_entry True old (int cnt) (n @ [x]) = Ok (front_entry old cnt n, n, int (common_prefix old n))"
proof -
  let ?k = "common_prefix old n"
  have k: "?k \<le> 32767" using common_prefix_le(1) [of old n] assms(2) by linarith
  have "prefix_length old n = int ?k" using k by (simp add: prefix_length_def)
  moreover have "int ?k - int cnt \<le> 32767" "\<not> int ?k - int cnt < - 32768" using k assms(3) by linarith+
  ultimately show ?thesis using assms(1)
    by (auto simp: frcode_entry_def c_string_id name_ok_def put_short_def front_entry_def count_bytes_def Let_def)
qed

lemma frcode_loop_front:
  "list_all name_ok names \<Longrightarrow> list_all (\<lambda>n. delimiter \<notin> set n) names \<Longrightarrow> length old \<le> 32767 \<Longrightarrow> cnt \<le> 32767 \<Longrightarrow>
   frcode_loop delimiter True old (int cnt) (lines_of delimiter names) = Ok (front_db old cnt names)"
proof (induction names arbitrary: old cnt)
  case Nil
  then show ?case by (subst frcode_loop.simps) simp
next
  case (Cons n ns)
  have "common_prefix old n \<le> 32767" using common_prefix_le(1) [of old n] Cons.prems(3) by linarith
  moreover have "length n \<le> 32767" using Cons.prems(1) by (simp add: name_ok_def)
  ultimately have "frcode_loop delimiter True n (int (common_prefix old n)) (lines_of delimiter ns) =
      Ok (front_db n (common_prefix old n) ns)" using Cons by simp
  then show ?case using Cons.prems
    by (subst frcode_loop.simps) (simp add: getdelim_line frcode_entry_front)
qed

text \<open>What \<open>frcode\<close> writes.\<close>

lemma frcode_front:
  "list_all name_ok names \<Longrightarrow> list_all (\<lambda>n. delimiter \<notin> set n) names \<Longrightarrow>
   frcode delimiter None (lines_of delimiter names) = Ok (LOCATEDB_MAGIC @ front_db [] 0 names)"
  using frcode_loop_front [of names delimiter "[]" 0] by (simp add: frcode_def)

subsection \<open>Decoding\<close>

lemma string_at_write:
  assumes "NUL \<notin> set s" and "NUL \<notin> set (take off buf)" and "off \<le> length buf"
  shows "string_at (write_at off (s @ [NUL]) buf) 0 = take off buf @ s"
  using takeWhile_nul_append [of "take off buf @ s"] assms by (simp add: string_at_def write_at_def)

lemma takeWhile_take_prefix: "n \<le> length (takeWhile P s) \<Longrightarrow> take n s = take n (takeWhile P s)"
  by (metis append.right_neutral append_take_drop_id diff_is_0_eq take_append take_0 takeWhile_dropWhile_id)

lemma take_string_at: "n \<le> length (string_at buf 0) \<Longrightarrow> take n buf = take n (string_at buf 0)"
  by (simp add: string_at_def takeWhile_take_prefix)

lemma take_enlarge: "n \<le> length buf \<Longrightarrow> take n (enlarge junk m buf) = take n buf"
  by (simp add: enlarge_def)

text \<open>Reading the rest of a name behind a prefix of the one in the buffer.\<close>

lemma locate_read_str_name:
  assumes fp: "fp d = s @ NUL # r" and s: "NUL \<notin> set s" and k: "k \<le> length (filename d)"
  shows "\<exists>buf. locate_read_str junk k d = (int (length s) + 1, d\<lparr>fp := r, original_filename := buf\<rparr>) \<and>
    string_at buf 0 = take k (filename d) @ s \<and> NUL \<in> set buf"
proof -
  define b where "b = (if k + (length s + 1) + 1 > length (original_filename d)
      then enlarge junk (k + (length s + 1) + 1) (original_filename d) else original_filename d)"
  have kl: "k \<le> length (original_filename d)"
    using k length_takeWhile_le [of "\<lambda>x. x \<noteq> NUL" "original_filename d"] by (simp add: string_at_def)
  then have tb: "take k b = take k (filename d)"
    using take_string_at [OF k] by (simp add: b_def take_enlarge)
  have "k \<le> length b" using kl by (simp add: b_def enlarge_def)
  moreover have "NUL \<notin> set (take k b)"
    unfolding tb by (auto simp: string_at_def dest!: in_set_takeD set_takeWhileD)
  ultimately have "string_at (write_at k (s @ [NUL]) b) 0 = take k (filename d) @ s"
    using string_at_write [OF s] tb by simp
  moreover have "NUL \<in> set (write_at k (s @ [NUL]) b)" by (simp add: write_at_def)
  moreover have "locate_read_str junk k d =
      (int (length s) + 1, d\<lparr>fp := r, original_filename := write_at k (s @ [NUL]) b\<rparr>)"
    using s by (simp add: locate_read_str_def fp getdelim_line b_def Let_def)
  ultimately show ?thesis by blast
qed

text \<open>\<open>coming d\<close>: the byte that was read and what follows it.\<close>

definition coming :: "process_data \<Rightarrow> string" where
  "coming d = (case c d of None \<Rightarrow> [] | Some x \<Rightarrow> x # fp d)"

lemma getc_coming: "getc d = (x, d') \<Longrightarrow> coming (d'\<lparr>c := x\<rparr>) = fp d"
  by (auto simp: getc_def coming_def split: list.splits)

text \<open>What is left of a database of the current format.\<close>

definition holds_front :: "process_data \<Rightarrow> string list \<Rightarrow> bool" where
  "holds_front d names \<longleftrightarrow> \<not> slocatedb_format d \<and> list_all name_ok names \<and>
     length (filename d) \<le> 32767 \<and> int (length (filename d)) \<le> len d \<and> 0 \<le> count d \<and> count d \<le> 32767 \<and>
     coming d = front_db (filename d) (nat (count d)) names"

lemma front_db_Nil [simp]: "front_db old cnt names = [] \<longleftrightarrow> names = []"
  by (cases names) (simp_all add: front_entry_def)

lemma holds_front_decode:
  assumes "holds_front d (n # ns)"
  shows "\<exists>d'. visit_locate02_format junk d = Ok (VISIT_CONTINUE, d') \<and> holds_front d' ns \<and>
    NUL \<in> set (original_filename d') \<and> filename d' = n \<and> munged_filename d' = n \<and>
    items_accepted d' = items_accepted d \<and> printed d' = printed d \<and> statistics d' = statistics d"
proof -
  note h = assms [unfolded holds_front_def]
  let ?k = "common_prefix (filename d) n" and ?rest = "front_db n (common_prefix (filename d) n) ns"
  let ?diff = "int ?k - count d"
  have k: "?k \<le> length (filename d)" by (rule common_prefix_le)
  obtain x s where x: "c d = Some x" "fp d = s" "coming d = x # s"
    using h by (cases "c d") (simp_all add: coming_def front_entry_def)
  then have bytes: "count_bytes ?diff @ drop ?k n @ NUL # ?rest = x # s"
    using h by (simp add: front_entry_def)
  have "add_count d = d\<lparr>count := count d + ?diff, fp := drop ?k n @ NUL # ?rest\<rparr>"
    by (rule add_count_bytes [OF bytes _ _ x(1,2)]) (use h k in linarith)+
  then have set: "set_count d = d\<lparr>count := int ?k, fp := drop ?k n @ NUL # ?rest\<rparr>"
    using h by (simp add: set_count_def)
  define d1 where "d1 = set_count d"
  have d1: "fp d1 = drop ?k n @ NUL # ?rest" "count d1 = int ?k" "len d1 = len d" "filename d1 = filename d"
    "slocatedb_format d1 = False" using h by (simp_all add: d1_def set)
  have nul: "NUL \<notin> set n" using h by (simp add: name_ok_def)
  have "\<exists>buf. locate_read_str junk ?k d1 = (int (length (drop ?k n)) + 1, d1\<lparr>fp := ?rest, original_filename := buf\<rparr>) \<and>
      string_at buf 0 = take ?k (filename d1) @ drop ?k n \<and> NUL \<in> set buf"
    by (rule locate_read_str_name [OF d1(1)]) (use nul k d1(4) in \<open>auto dest: in_set_dropD\<close>)
  then obtain buf where
    rd: "locate_read_str junk ?k d1 = (int (length (drop ?k n)) + 1, d1\<lparr>fp := ?rest, original_filename := buf\<rparr>)"
    and buf: "string_at buf 0 = take ?k (filename d1) @ drop ?k n" "NUL \<in> set buf" by blast
  have name: "string_at buf 0 = n" using buf(1) common_prefix_take [of "filename d" n] d1(4) by simp
  obtain y d2 where g: "getc (d1\<lparr>fp := ?rest, original_filename := buf\<rparr>) = (y, d2)" by fastforce
  have d2: "d2 = d1\<lparr>fp := fp d2, original_filename := buf\<rparr>" using g by (auto simp: getc_def split: list.splits)
  define d' where "d' = d2\<lparr>c := y, len := count d2 + (int (length (drop ?k n)) + 1), munged_filename := n\<rparr>"
  have "\<not> (count d1 > len d1 \<or> count d1 < 0)" using h k d1 by linarith
  moreover have "filename d2 = n" "slocatedb_format d2 = False" by (subst d2, simp add: name d1)+
  ultimately have res: "visit_locate02_format junk d = Ok (VISIT_CONTINUE, d')"
    unfolding visit_locate02_format_split d1_def [symmetric] visit_locate02_rest_def
    using rd g d1(2) by (simp add: d'_def)
  have d': "d' = d1\<lparr>fp := fp d2, original_filename := buf, c := y,
      len := count d2 + (int (length (drop ?k n)) + 1), munged_filename := n\<rparr>"
    unfolding d'_def by (subst d2) simp
  have "count d2 = int ?k" by (subst d2) (simp add: d1)
  then have f: "filename d' = n" "count d' = int ?k" "len d' = int ?k + int (length (drop ?k n)) + 1"
    "slocatedb_format d' = False" "original_filename d' = buf" "munged_filename d' = n"
    "items_accepted d' = items_accepted d" "printed d' = printed d" "statistics d' = statistics d"
    using h by (simp_all add: d' name d1 d1_def set)
  have "coming d' = ?rest" using getc_coming [OF g] by (cases y) (simp_all add: d'_def coming_def)
  moreover have "?k \<le> length n" "length n \<le> 32767" using h common_prefix_le(2) by (auto simp: name_ok_def)
  ultimately have "holds_front d' ns" using f h by (simp add: holds_front_def)
  then show ?thesis using res f buf(2) by blast
qed

interpretation front: database Gnu_LOCATE02 holds_front
proof
  show "holds_front d [] \<Longrightarrow> c d = None" for d
    by (auto simp: holds_front_def coming_def split: option.splits)
  show "holds_front d (n # ns) \<Longrightarrow> c d \<noteq> None" for d n ns
    by (auto simp: holds_front_def coming_def front_entry_def split: option.splits)
  show "holds_front d (n # ns) \<Longrightarrow>
      \<exists>d'. inspect e junk (format_visitor Gnu_LOCATE02) d = Ok (VISIT_CONTINUE, d') \<and> holds_front d' ns \<and>
        NUL \<in> set (original_filename d') \<and> filename d' = n \<and> munged_filename d' = n \<and>
        items_accepted d' = items_accepted d \<and> printed d' = printed d \<and> statistics d' = statistics d" for d n ns e junk
    using holds_front_decode by (simp add: format_visitor_def)
  show "holds_front d ns \<Longrightarrow>
      holds_front (d\<lparr>munged_filename := m, statistics := st, printed := p, items_accepted := i\<rparr>) ns" for d ns m st p i
    by (cases "c d") (simp_all add: holds_front_def coming_def)
qed

subsection \<open>The header\<close>

lemma fread_simps: "length bs = n \<Longrightarrow> fp d = bs @ r \<Longrightarrow>
   fread off n d = (n, d\<lparr>fp := r, original_filename := write_at off bs (original_filename d)\<rparr>)"
  by (simp add: fread_def)

lemma search_result_cong:
  "items_accepted d = items_accepted d0 \<Longrightarrow> printed d = printed d0 \<Longrightarrow> statistics d = statistics d0 \<Longrightarrow>
   search_result e opts argv names d = search_result e opts argv names d0"
  by (simp add: search_result_def fun_eq_iff)

lemma search_front:
  assumes "list_all name_ok names"
    and "regex opts \<Longrightarrow> \<forall>pat\<in>set argv. re_compiles e (regex_syntax opts) pat"
  shows "\<exists>d'. search_one_database e junk opts argv (LOCATEDB_MAGIC @ front_db [] 0 names) d = Ok (items_accepted d', d') \<and>
    search_result e opts argv names d d'"
proof -
  let ?db = "front_db [] 0 names" and ?s = "start_data junk (LOCATEDB_MAGIC @ front_db [] 0 names) d"
  define b2 where "b2 = write_at 0 [NUL, CHR ''L''] (map junk [0..<128])"
  define buf where "buf = write_at 2 (''OCATE02'' @ [NUL]) b2"
  define d1 where "d1 = ?s\<lparr>fp := ''OCATE02'' @ NUL # ?db, original_filename := b2\<rparr>"
  define d2 where "d2 = d1\<lparr>fp := ?db, original_filename := buf\<rparr>"
  have r2: "fread 0 2 ?s = (2, d1)"
    using fread_simps [of "[NUL, CHR ''L'']" 2 ?s "''OCATE02'' @ NUL # ?db" 0]
    by (simp add: start_data_def LOCATEDB_MAGIC_def d1_def b2_def)
  have b2: "b2 = NUL # CHR ''L'' # drop 2 (map junk [0..<128])"
    by (simp add: b2_def write_at_def numeral_2_eq_2)
  have "take 2 b2 = [NUL, CHR ''L'']" by (simp add: b2 numeral_2_eq_2)
  then have "buf = LOCATEDB_MAGIC @ drop (2 + 8) b2"
    unfolding buf_def write_at_def LOCATEDB_MAGIC_def by simp
  then have buf: "take 10 buf = LOCATEDB_MAGIC" "string_at buf 0 = []"
    by (simp_all add: LOCATEDB_MAGIC_def string_at_def)
  have no: "looking_at_slocate_locatedb (original_filename d1) 2 = None"
    by (simp add: looking_at_slocate_locatedb_def d1_def b2)
  have "extend_buffer junk 10 0 d1 = Ok d1"
    by (simp add: extend_buffer_def d1_def b2_def write_at_def)
  moreover have "fread 2 8 d1 = (8, d2)"
    using fread_simps [of "''OCATE02'' @ [NUL]" 8 d1 ?db 2] by (simp add: d1_def d2_def buf_def)
  moreover have len: "length LOCATEDB_MAGIC = 10" by (simp add: LOCATEDB_MAGIC_def)
  moreover have "looking_at_gnu_locatedb (original_filename d2) 10"
    using buf(1) by (simp add: looking_at_gnu_locatedb_def d2_def len)
  ultimately have hd: "read_header junk 2 d1 = Ok (Gnu_LOCATE02, d2)" by (simp add: read_header_def)
  have "holds_front (d3\<lparr>c := x\<rparr>) names" if "getc d2 = (x, d3)" for x d3
  proof -
    have coming: "coming (d3\<lparr>c := x\<rparr>) = ?db" using getc_coming [OF that] by (simp add: d2_def)
    have d3: "d3 = d2\<lparr>fp := fp d3\<rparr>" using that by (auto simp: getc_def split: list.splits)
    have "original_filename d3 = buf" "len d3 = 0" "count d3 = 0" "slocatedb_format d3 = False"
      by (subst d3, simp add: d2_def d1_def start_data_def)+
    with coming show ?thesis using assms(1) buf(2) by (simp add: holds_front_def)
  qed
  then obtain d' where "run_search e junk opts argv Gnu_LOCATE02 d2 = Ok (items_accepted d', d')"
    "search_result e opts argv names d2 d'"
    using front.run_search_finds [OF _ assms(2)] by blast
  moreover have "search_result e opts argv names d = search_result e opts argv names d2"
    by (rule search_result_cong) (simp_all add: d2_def d1_def start_data_def)
  ultimately show ?thesis using r2 no hd by (auto simp: search_one_database_def)
qed

end
