(* ===== verification/LocateOld.thy ===== *)
theory LocateOld
  imports LocateFront
begin

text \<open>
  The old format: what \<open>code\<close> writes, and that \<open>locate\<close> reads it back. The byte order of the words in
  it is guessed; the guess is right when the names have at most 113 characters.
\<close>

subsection \<open>Words\<close>

lemma bytes_of_word_eq:
  "bytes_of_word w = [char_of (uint w mod 256), char_of (uint w div 2 ^ 8 mod 256), char_of (uint w div 2 ^ 16 mod 256),
     char_of (uint w div 2 ^ 24 mod 256)]"
  by (simp add: bytes_of_word_def)

lemma four_bytes: "0 \<le> x \<Longrightarrow> x < 2 ^ 32 \<Longrightarrow>
   x mod 256 + 2 ^ 8 * (x div 2 ^ 8 mod 256) + 2 ^ 16 * (x div 2 ^ 16 mod 256) + 2 ^ 24 * (x div 2 ^ 24 mod 256) = x"
  for x :: int
proof -
  assume x: "0 \<le> x" "x < 2 ^ 32"
  define a where "a = x div 2 ^ 8"
  define b where "b = x div 2 ^ 16"
  define c where "c = x div 2 ^ 24"
  have ab: "a div 256 = b" "b div 256 = c" by (simp_all add: a_def b_def c_def zdiv_zmult2_eq [symmetric])
  have c: "c mod 256 = c"
  proof (intro mod_pos_pos_trivial)
    show "0 \<le> c" using x by (simp add: c_def pos_imp_zdiv_nonneg_iff)
    have "2 ^ 24 * c + x mod 2 ^ 24 = x" by (simp add: c_def)
    moreover have "0 \<le> x mod 2 ^ 24" by simp
    ultimately have "2 ^ 24 * c \<le> x" by (metis le_add_same_cancel1)
    then show "c < 256" using x by simp
  qed
  have gen: "u = 256 * v + p \<Longrightarrow> v = 256 * w + q \<Longrightarrow> w = 256 * z + r \<Longrightarrow>
      p + 2 ^ 8 * q + 2 ^ 16 * r + 2 ^ 24 * z = u" for u v w z p q r :: int by simp
  have "x = 256 * a + x mod 256" by (simp add: a_def)
  moreover have "a = 256 * b + a mod 256" using mult_div_mod_eq [of 256 a] ab by simp
  moreover have "b = 256 * c + b mod 256" using mult_div_mod_eq [of 256 b] ab by simp
  ultimately show ?thesis unfolding a_def [symmetric] b_def [symmetric] c_def [symmetric] c by (rule gen)
qed

lemma word_of_bytes_of_word [simp]: "word_of_bytes (bytes_of_word w) = w"
proof -
  have "word_of_bytes (bytes_of_word w) = word_of_int (uint w)"
    unfolding bytes_of_word_eq word_of_bytes_def list.map list.case byte_of_char mod_mod_trivial
    by (subst four_bytes) (use uint_lt2p [of w] in \<open>simp_all del: word_of_int_uint\<close>)
  then show ?thesis by simp
qed

lemma sint_word_small: "- (2 ^ 31) \<le> v \<Longrightarrow> v < 2 ^ 31 \<Longrightarrow> sint (word_of_int v :: 32 word) = v"
  by (simp add: sint_sbintrunc' signed_take_bit_int_eq_self)

lemma bswap_byte:
  assumes "0 \<le> v" and "v < 256"
  shows "bswap_32 (word_of_int v) = word_of_int (2 ^ 24 * v)"
proof -
  have "uint (word_of_int v :: 32 word) = v" using assms by (simp add: uint_word_of_int_eq take_bit_int_eq_self)
  then show ?thesis using assms by (simp add: bswap_32_def bytes_of_word_eq word_of_bytes_def byte_of_char)
qed

lemma bswap_small: "28 < v \<Longrightarrow> v < 128 \<Longrightarrow> sint (bswap_32 (word_of_int v)) = 2 ^ 24 * v"
  by (subst bswap_byte, simp, simp, rule sint_word_small) simp_all

subsection \<open>The encoding\<close>

definition old_count :: "int \<Rightarrow> string" where
  "old_count diff =
     (if diff < - LOCATEDB_OLD_OFFSET \<or> diff > LOCATEDB_OLD_OFFSET
      then char_of LOCATEDB_OLD_ESCAPE # bytes_of_word (word_of_int (diff + LOCATEDB_OLD_OFFSET))
      else [char_of (diff + LOCATEDB_OLD_OFFSET)])"

definition old_entry :: "string \<Rightarrow> string \<Rightarrow> nat \<Rightarrow> string \<Rightarrow> string" where
  "old_entry bigrams old cnt n =
     old_count (int (common_prefix old n) - int cnt) @ code_pairs bigrams (drop (common_prefix old n) n)"

fun old_db :: "string \<Rightarrow> string \<Rightarrow> nat \<Rightarrow> string list \<Rightarrow> string" where
  "old_db bigrams old cnt [] = []"
| "old_db bigrams old cnt (n # ns) = old_entry bigrams old cnt n @ old_db bigrams n (common_prefix old n) ns"

text \<open>Names that the old format can hold: printable characters, and short enough for the byte order to be found.\<close>

definition printable :: "char \<Rightarrow> bool" where
  "printable x \<longleftrightarrow> 32 \<le> byte_of x \<and> byte_of x < 127"

definition old_name_ok :: "string \<Rightarrow> bool" where
  "old_name_ok n \<longleftrightarrow> list_all printable n \<and> length n \<le> 113"

lemma printable_simps: "printable x \<Longrightarrow> squelch x = x" "printable x \<Longrightarrow> x \<noteq> NUL" "printable x \<Longrightarrow> x \<noteq> CHR 0x0A"
  by (auto simp: printable_def squelch_def)

lemma squelch_all: "list_all printable n \<Longrightarrow> map squelch n = n"
  by (induction n) (simp_all add: printable_simps)

lemma printable_no_nul: "list_all printable n \<Longrightarrow> NUL \<notin> set n" "list_all printable n \<Longrightarrow> CHR 0x0A \<notin> set n"
  using printable_simps by (fastforce simp: list_all_iff)+

lemma putc_small: "0 \<le> n \<Longrightarrow> n < 256 \<Longrightarrow> putc n = [char_of n]"
  by (simp add: putc_def)

lemma code_entry_old:
  assumes "old_name_ok n"
  shows "code_entry bigrams old (int cnt) (n @ [x]) = Ok (old_entry bigrams old cnt n, n, int (common_prefix old n))"
proof -
  have p: "map squelch (c_string n) = n" using assms printable_no_nul(1)
    by (auto simp: old_name_ok_def c_string_id squelch_all)
  show ?thesis
    by (auto simp: code_entry_def p Let_def old_entry_def old_count_def putword_def putc_small)
qed

lemma code_loop_old:
  "list_all old_name_ok names \<Longrightarrow>
   code_loop bigrams old (int cnt) (lines_of (CHR 0x0A) names) = Ok (old_db bigrams old cnt names)"
proof (induction names arbitrary: old cnt)
  case Nil
  then show ?case by (subst code_loop.simps) simp
next
  case (Cons n ns)
  then have "CHR 0x0A \<notin> set n" using printable_no_nul(2) by (simp add: old_name_ok_def)
  then show ?case using Cons
    by (subst code_loop.simps) (simp add: getdelim_line code_entry_old)
qed

lemma code_old:
  "file \<noteq> [] \<Longrightarrow> list_all old_name_ok names \<Longrightarrow>
   code file (lines_of (CHR 0x0A) names) =
     Ok (read_bigrams file @ old_db (c_string (read_bigrams file)) [] 0 names)"
  using code_loop_old [of names _ "[]" 0] by (simp add: code_def Let_def)

subsection \<open>Decoding the count\<close>

text \<open>With these bounds the byte order is never taken for the other one.\<close>

lemma decode_value_native:
  assumes v: "v < 0 \<or> 28 < v" "- 113 \<le> v" "v \<le> 127" and st: "st \<noteq> GetwordEndianStateSwab"
    and m: "v \<le> m \<or> m \<le> 113" "0 \<le> m"
  shows "\<exists>st'. decode_value (bytes_of_word (word_of_int v)) m st = (v, st') \<and> st' \<noteq> GetwordEndianStateSwab"
proof -
  have s: "sint (word_of_int v :: 32 word) = v" by (rule sint_word_small) (use v in simp_all)
  show ?thesis
  proof (cases "v \<le> m")
    case True
    then show ?thesis using s st by (cases st) (auto simp: decode_value_def Let_def)
  next
    case False
    then have "28 < v" "v < 128" using v m by auto
    then have "sint (bswap_32 (word_of_int v)) = 2 ^ 24 * v" by (rule bswap_small)
    then have "\<not> sint (bswap_32 (word_of_int v)) \<le> m" using \<open>28 < v\<close> False m by simp
    then show ?thesis using s st False by (cases st) (auto simp: decode_value_def Let_def)
  qed
qed

lemma old_offset_count:
  assumes k: "k \<le> 113" "int k \<le> len d" and cnt: "0 \<le> count d" "count d \<le> len d" "len d \<le> 113"
    and st: "endian d \<noteq> GetwordEndianStateSwab"
    and bytes: "old_count (int k - count d) @ r = x # s" "fp d = s"
  shows "\<exists>st'. old_offset x d = Ok (d\<lparr>count := int k, fp := r, endian := st'\<rparr>) \<and> st' \<noteq> GetwordEndianStateSwab"
proof (cases "int k - count d < - 14 \<or> int k - count d > 14")
  case True
  let ?v = "int k - count d + 14"
  have x: "x = char_of (30 :: int)" and s: "s = bytes_of_word (word_of_int ?v) @ r"
    using True bytes(1) by (auto simp: old_count_def)
  define m where "m = (if count d - 14 \<ge> 0 then len d - (count d - 14) else len d)"
  have v: "?v < 0 \<or> 28 < ?v" "- 113 \<le> ?v" "?v \<le> 127" and m: "?v \<le> m \<or> m \<le> 113" "0 \<le> m"
    unfolding m_def using True k cnt by (auto split: if_splits)
  obtain st' where dec: "decode_value (bytes_of_word (word_of_int ?v)) m (endian d) = (?v, st')"
    "st' \<noteq> GetwordEndianStateSwab"
    using decode_value_native [OF v st m] by blast
  have "length (bytes_of_word (word_of_int ?v)) = 4" by (simp add: bytes_of_word_def)
  then have "getword s m (endian d) = Some ((?v, st'), r)" using dec by (simp add: getword_def s)
  moreover have "byte_of x = 30" unfolding x byte_of_char by simp
  ultimately show ?thesis using dec(2) bytes(2) k(1) by (auto simp: old_offset_def Let_def m_def intro!: exI [of _ st'])
next
  case False
  have x: "x = char_of (int k - count d + 14)" and s: "s = r"
    using False bytes(1) by (auto simp: old_count_def)
  have b: "byte_of x = int k - count d + 14"
    unfolding x byte_of_char by (rule mod_pos_pos_trivial) (use False in linarith)+
  then show ?thesis using False st bytes(2) s by (auto simp: old_offset_def intro!: exI [of _ "endian d"])
qed

subsection \<open>Decoding the characters\<close>

text \<open>The tables of \<open>locate\<close> for the header of 256 bytes.\<close>

definition tables_of :: "string \<Rightarrow> process_data \<Rightarrow> bool" where
  "tables_of hdr d \<longleftrightarrow> length hdr = 256 \<and> bigram1 d = map (\<lambda>i. hdr ! (2 * i)) [0..<128] \<and>
     bigram2 d = map (\<lambda>i. hdr ! (2 * i + 1)) [0..<128]"

lemma extend_buffer_small:
  assumes "i + k < 2 ^ 32"
  shows "\<exists>b. extend_buffer junk i k d = Ok (d\<lparr>original_filename := original_filename d @ b\<rparr>) \<and>
    i + k \<le> length (original_filename d @ b)"
proof (cases "length (original_filename d) < i + k")
  case True
  then show ?thesis using assms
    by (intro exI [of _ "map junk [length (original_filename d)..<(i + k) + (i + k) div 2 + 1]"])
      (auto simp: extend_buffer_def enlarge_def)
next
  case False
  then show ?thesis using assms by (intro exI [of _ "[]"]) (simp add: extend_buffer_def)
qed

text \<open>A buffer that begins with a string, and with a longer one after a write.\<close>

lemma write_at_take:
  "take i buf = p \<Longrightarrow> i + length s \<le> length (buf @ b) \<Longrightarrow> i \<le> length buf \<Longrightarrow>
   take (i + length s) (write_at i s (buf @ b)) = p @ s \<and> i + length s \<le> length (write_at i s (buf @ b))"
  by (auto simp: write_at_def)

lemma code_pair_bytes:
  assumes t: "tables_of hdr d" and c: "strindex (c_string hdr) [a, b] = m" and m: "0 \<le> m" "m mod 2 = 0"
  shows "m div 2 < 128 \<and> bigram1 d ! nat (m div 2) = a \<and> bigram2 d ! nat (m div 2) = b"
proof -
  obtain n where n: "find_string [a, b] (c_string hdr) = Some n" "m = int n"
    using c m(1) by (auto simp: strindex_def split: option.splits)
  note f = find_string_Some [OF n(1)]
  have len: "length (c_string hdr) \<le> 256" using length_c_string [of hdr] t by (simp add: tables_of_def)
  have n256: "n + 2 \<le> 256" using f len by simp
  have "c_string hdr ! j = hdr ! j" if "j < length (c_string hdr)" for j
    using that by (simp add: c_string_def takeWhile_nth)
  moreover have t2: "take 2 (drop n (c_string hdr)) = [a, b]" using f by (simp add: numeral_2_eq_2)
  have "c_string hdr ! n = take 2 (drop n (c_string hdr)) ! 0"
    "c_string hdr ! (n + 1) = take 2 (drop n (c_string hdr)) ! 1" using f by simp_all
  then have "c_string hdr ! n = a" "c_string hdr ! (n + 1) = b" unfolding t2 by simp_all
  moreover have "n < length (c_string hdr)" "n + 1 < length (c_string hdr)" using f by simp_all
  ultimately have h: "hdr ! n = a" "hdr ! (n + 1) = b" by metis+
  obtain k where k: "n = 2 * k" using m(2) n(2) by (metis evenE even_iff_mod_2_eq_zero even_of_nat)
  then have "nat (m div 2) = k" using n(2) by simp
  then show ?thesis using h t k n256 n(2) by (simp add: tables_of_def)
qed

lemma old_chars_char:
  assumes "printable a" and "take i (original_filename d) = p" and "i \<le> length (original_filename d)" and "i < 2 ^ 31"
  shows "\<exists>buf. old_chars junk i (a # r) d = old_chars junk (i + 1) r (d\<lparr>original_filename := buf\<rparr>) \<and>
    take (i + 1) buf = p @ [a] \<and> i + 1 \<le> length buf"
proof -
  obtain b where b: "extend_buffer junk i 1 d = Ok (d\<lparr>original_filename := original_filename d @ b\<rparr>)"
    "i + 1 \<le> length (original_filename d @ b)" using extend_buffer_small [of i 1 junk d] assms(4) by auto
  have "byte_of a > 30" "byte_of a < 128" using assms(1) by (simp_all add: printable_def)
  then show ?thesis using b write_at_take [OF assms(2), of "[a]" b] assms(3)
    by (intro exI [of _ "write_at i [a] (original_filename d @ b)"]) simp
qed

lemma old_chars_pairs:
  "list_all printable s \<Longrightarrow> tables_of hdr d \<Longrightarrow> take i (original_filename d) = p \<Longrightarrow> i \<le> length (original_filename d) \<Longrightarrow>
   i + length s < 2 ^ 31 \<Longrightarrow>
   \<exists>buf. old_chars junk i (code_pairs (c_string hdr) s @ r) d =
       old_chars junk (i + length s) r (d\<lparr>original_filename := buf\<rparr>) \<and>
     take (i + length s) buf = p @ s \<and> i + length s \<le> length buf"
proof (induction "c_string hdr" s arbitrary: i d p rule: code_pairs.induct)
  case 1
  then show ?case by (intro exI [of _ "original_filename d"]) simp
next
  case (2 a)
  then show ?case using old_chars_char [of a i d p junk r] by simp
next
  case (3 a x s)
  define m where "m = strindex (c_string hdr) [a, x]"
  have step: ?case if
    one: "\<And>rest. \<exists>buf. old_chars junk i (cs @ rest) d = old_chars junk (i + 2) rest (d\<lparr>original_filename := buf\<rparr>) \<and>
      take (i + 2) buf = p @ [a, x] \<and> i + 2 \<le> length buf"
    and eq: "code_pairs (c_string hdr) (a # x # s) = cs @ code_pairs (c_string hdr) s" for cs
  proof -
    obtain buf where buf: "old_chars junk i (cs @ code_pairs (c_string hdr) s @ r) d =
        old_chars junk (i + 2) (code_pairs (c_string hdr) s @ r) (d\<lparr>original_filename := buf\<rparr>)"
      "take (i + 2) buf = p @ [a, x]" "i + 2 \<le> length buf" using one by blast
    have "\<exists>buf'. old_chars junk (i + 2) (code_pairs (c_string hdr) s @ r) (d\<lparr>original_filename := buf\<rparr>) =
        old_chars junk (i + 2 + length s) r ((d\<lparr>original_filename := buf\<rparr>)\<lparr>original_filename := buf'\<rparr>) \<and>
      take (i + 2 + length s) buf' = (p @ [a, x]) @ s \<and> i + 2 + length s \<le> length buf'"
      by (rule 3(1)) (use 3(2-) buf in \<open>simp_all add: tables_of_def\<close>)
    then show ?thesis using buf(1) eq by (simp add: add.assoc)
  qed
  show ?case
  proof (cases "0 \<le> m \<and> m mod 2 = 0")
    case True
    then have pair: "m div 2 < 128" "bigram1 d ! nat (m div 2) = a" "bigram2 d ! nat (m div 2) = x"
      using code_pair_bytes [OF 3(3), of a x m] by (simp_all add: m_def)
    obtain y where y: "y = char_of (m div 2 + 128)" by blast
    have c: "byte_of y = m div 2 + 128" unfolding y byte_of_char using True pair(1) by simp
    have big: "30 < byte_of y" "\<not> byte_of y < 128" "nat (byte_of y) - 128 = nat (m div 2)"
      unfolding c using True by auto
    show ?thesis
    proof (rule step)
      show "code_pairs (c_string hdr) (a # x # s) = [y] @ code_pairs (c_string hdr) s"
        using True pair(1) y by (simp add: m_def [symmetric] putc_small)
      fix rest
      obtain b where b: "extend_buffer junk i 2 d = Ok (d\<lparr>original_filename := original_filename d @ b\<rparr>)"
        "i + 2 \<le> length (original_filename d @ b)" using extend_buffer_small [of i 2 junk d] 3 by auto
      show "\<exists>buf. old_chars junk i ([y] @ rest) d =
          old_chars junk (i + 2) rest (d\<lparr>original_filename := buf\<rparr>) \<and>
          take (i + 2) buf = p @ [a, x] \<and> i + 2 \<le> length buf"
        using b write_at_take [OF 3(4), of "[a, x]" b] 3(5) big pair
        by (intro exI [of _ "write_at i [a, x] (original_filename d @ b)"]) simp
    qed
  next
    case False
    show ?thesis
    proof (rule step)
      show "code_pairs (c_string hdr) (a # x # s) = [a, x] @ code_pairs (c_string hdr) s"
        using False by (auto simp: m_def)
      fix rest
      show "\<exists>buf. old_chars junk i ([a, x] @ rest) d =
          old_chars junk (i + 2) rest (d\<lparr>original_filename := buf\<rparr>) \<and>
          take (i + 2) buf = p @ [a, x] \<and> i + 2 \<le> length buf"
      proof -
        obtain buf where 1: "old_chars junk i (a # x # rest) d = old_chars junk (i + 1) (x # rest) (d\<lparr>original_filename := buf\<rparr>)"
          "take (i + 1) buf = p @ [a]" "i + 1 \<le> length buf"
          using old_chars_char [of a i d p junk "x # rest"] 3 by auto
        show ?thesis
          using old_chars_char [of x "i + 1" "d\<lparr>original_filename := buf\<rparr>" "p @ [a]" junk rest] 1 3 by simp
      qed
    qed
  qed
qed

subsection \<open>A database in the old format\<close>

definition old_path :: "process_data \<Rightarrow> string" where
  "old_path d = take (nat (len d)) (original_filename d)"

definition holds_old :: "string \<Rightarrow> process_data \<Rightarrow> string list \<Rightarrow> bool" where
  "holds_old hdr d names \<longleftrightarrow> tables_of hdr d \<and> list_all old_name_ok names \<and> endian d \<noteq> GetwordEndianStateSwab \<and>
     0 \<le> count d \<and> count d \<le> len d \<and> len d \<le> 113 \<and> len d \<le> int (length (original_filename d)) \<and>
     coming d = old_db (c_string hdr) (old_path d) (nat (count d)) names"

lemma old_count_not_Nil [simp]: "old_count n \<noteq> []"
  by (simp add: old_count_def)

lemma old_db_Nil [simp]: "old_db bigrams old cnt names = [] \<longleftrightarrow> names = []"
  by (cases names) (simp_all add: old_entry_def)

text \<open>The first byte of an entry ends the name before it.\<close>

lemma old_count_ends: "old_count n @ r = x # s \<Longrightarrow> \<not> byte_of x > LOCATEDB_OLD_ESCAPE"
proof -
  assume e: "old_count n @ r = x # s"
  show ?thesis
  proof (cases "n < - 14 \<or> n > 14")
    case True
    then have "x = char_of (30 :: int)" using e by (simp add: old_count_def)
    then show ?thesis unfolding byte_of_char by (simp add: byte_of_char)
  next
    case False
    then have "x = char_of (n + 14)" "0 \<le> n + 14" "n + 14 < 256" "n + 14 \<le> 28" using e by (auto simp: old_count_def)
    moreover then have "byte_of x = n + 14" by (simp only: byte_of_char mod_pos_pos_trivial)
    ultimately show ?thesis by simp
  qed
qed

lemma old_chars_stops:
  assumes "r = old_db bigrams old cnt names"
  shows "\<exists>x f. old_chars junk i r d = Ok (i, d\<lparr>c := x, fp := f\<rparr>) \<and> (case x of None \<Rightarrow> [] | Some y \<Rightarrow> y # f) = r"
proof (cases r)
  case Nil
  then show ?thesis by (intro exI [of _ None] exI [of _ "[]"]) simp
next
  case (Cons x s)
  then obtain n ns where n: "names = n # ns" using assms by (cases names) simp_all
  have "old_count (int (common_prefix old n) - int cnt) @ code_pairs bigrams (drop (common_prefix old n) n) @
      old_db bigrams n (common_prefix old n) ns = x # s"
    using assms Cons by (simp add: n old_entry_def)
  then have "\<not> byte_of x > 30" by (rule old_count_ends)
  then show ?thesis using Cons by (intro exI [of _ "Some x"] exI [of _ s]) simp
qed

lemma holds_old_decode:
  assumes "holds_old hdr d (n # ns)"
  shows "\<exists>d'. visit_old_format junk d = Ok (VISIT_CONTINUE, d') \<and> holds_old hdr d' ns \<and>
    NUL \<in> set (original_filename d') \<and> filename d' = n \<and> munged_filename d' = n \<and>
    items_accepted d' = items_accepted d \<and> printed d' = printed d \<and> statistics d' = statistics d"
proof -
  note h = assms [unfolded holds_old_def]
  let ?old = "old_path d" and ?B = "c_string hdr"
  let ?k = "common_prefix ?old n"
  let ?rest = "old_db ?B n ?k ns"
  have "nat (len d) \<le> length (original_filename d)" using h by linarith
  then have lo: "length ?old = nat (len d)" by (simp add: old_path_def)
  have k: "?k \<le> length ?old" "?k \<le> length n" by (rule common_prefix_le)+
  have n: "list_all printable n" "length n \<le> 113" using h by (simp_all add: old_name_ok_def)
  obtain x s where x: "c d = Some x" "fp d = s" "coming d = x # s"
    using h by (cases "c d") (simp_all add: coming_def old_entry_def)
  then have bytes: "old_count (int ?k - count d) @ code_pairs ?B (drop ?k n) @ ?rest = x # s"
    using h by (simp add: old_entry_def)
  obtain st' where off: "old_offset x d = Ok (d\<lparr>count := int ?k, fp := code_pairs ?B (drop ?k n) @ ?rest, endian := st'\<rparr>)"
    and st': "st' \<noteq> GetwordEndianStateSwab"
    using old_offset_count [OF _ _ _ _ _ _ bytes x(2)] h k lo by fastforce
  define d1 where "d1 = d\<lparr>count := int ?k, fp := code_pairs ?B (drop ?k n) @ ?rest, endian := st'\<rparr>"
  have b: "list_all printable (drop ?k n)" using n(1) by (auto simp: list_all_iff dest: in_set_dropD)
  have tk: "take ?k (original_filename d1) = take ?k n" "?k \<le> length (original_filename d1)" "tables_of hdr d1"
    using common_prefix_take [of ?old n] k lo h by (auto simp: d1_def old_path_def tables_of_def min_def split: if_splits)
  have "\<exists>buf. old_chars junk ?k (code_pairs ?B (drop ?k n) @ ?rest) d1 =
      old_chars junk (?k + length (drop ?k n)) ?rest (d1\<lparr>original_filename := buf\<rparr>) \<and>
      take (?k + length (drop ?k n)) buf = take ?k n @ drop ?k n \<and> ?k + length (drop ?k n) \<le> length buf"
    by (rule old_chars_pairs [OF b tk(3,1,2)]) (use k n in simp)
  then obtain buf where ch: "old_chars junk ?k (code_pairs ?B (drop ?k n) @ ?rest) d1 =
      old_chars junk (length n) ?rest (d1\<lparr>original_filename := buf\<rparr>)"
    and buf: "take (length n) buf = n" "length n \<le> length buf" using k(2) by auto
  obtain y f where stop: "old_chars junk (length n) ?rest (d1\<lparr>original_filename := buf\<rparr>) =
      Ok (length n, d1\<lparr>original_filename := buf, c := y, fp := f\<rparr>)"
    and f: "(case y of None \<Rightarrow> [] | Some y \<Rightarrow> y # f) = ?rest"
    using old_chars_stops [OF refl, of junk "length n" ?B n ?k ns "d1\<lparr>original_filename := buf\<rparr>"] by auto
  define d2 where "d2 = d1\<lparr>original_filename := buf, c := y, fp := f\<rparr>"
  obtain b2 where ext: "extend_buffer junk (length n) 1 d2 = Ok (d2\<lparr>original_filename := buf @ b2\<rparr>)"
    "length n + 1 \<le> length (buf @ b2)"
    using extend_buffer_small [of "length n" 1 junk d2] n(2) by (auto simp: d2_def)
  define buf' where "buf' = write_at (length n) [NUL] (buf @ b2)"
  have buf': "buf' = n @ NUL # drop (length n + 1) (buf @ b2)"
    using buf by (simp add: buf'_def write_at_def)
  have name: "string_at buf' 0 = n" "NUL \<in> set buf'" "take (length n) buf' = n" "length n \<le> length buf'"
    using takeWhile_nul_append [of n] printable_no_nul(1) [OF n(1)] by (simp_all add: buf' string_at_def)
  define d' where "d' = d2\<lparr>original_filename := buf', len := int (length n), munged_filename := n\<rparr>"
  have "nat (count d1 mod 2 ^ 64) = ?k" using k n(2) by (simp add: d1_def)
  then have res: "visit_old_format junk d = Ok (VISIT_CONTINUE, d')"
    using x off ch stop ext name(1) unfolding d'_def buf'_def
    by (simp add: visit_old_format_def d1_def [symmetric] d2_def [symmetric]) (simp add: d1_def)
  have "coming d' = ?rest" using f by (cases y) (simp_all add: coming_def d'_def d2_def)
  moreover have "tables_of hdr d'" using tk(3) by (simp add: tables_of_def d'_def d2_def)
  ultimately have "holds_old hdr d' ns"
    using h st' n k name by (simp add: holds_old_def old_path_def d'_def d2_def d1_def)
  then show ?thesis using res name by (auto simp: d'_def d2_def d1_def)
qed

interpretation old: database Old_format "holds_old hdr" for hdr
proof
  show "holds_old hdr d [] \<Longrightarrow> c d = None" for d
    by (auto simp: holds_old_def coming_def split: option.splits)
  show "holds_old hdr d (n # ns) \<Longrightarrow> c d \<noteq> None" for d n ns
    by (auto simp: holds_old_def coming_def old_entry_def split: option.splits)
  show "holds_old hdr d (n # ns) \<Longrightarrow>
      \<exists>d'. inspect e junk (format_visitor Old_format) d = Ok (VISIT_CONTINUE, d') \<and> holds_old hdr d' ns \<and>
        NUL \<in> set (original_filename d') \<and> filename d' = n \<and> munged_filename d' = n \<and>
        items_accepted d' = items_accepted d \<and> printed d' = printed d \<and> statistics d' = statistics d" for d n ns e junk
    using holds_old_decode by (simp add: format_visitor_def)
  show "holds_old hdr d ns \<Longrightarrow>
      holds_old hdr (d\<lparr>munged_filename := m, statistics := st, printed := p, items_accepted := i\<rparr>) ns" for d ns m st p i
    by (cases "c d") (simp_all add: holds_old_def coming_def tables_of_def old_path_def)
qed

subsection \<open>The header\<close>

text \<open>The first \<open>k\<close> bytes of the header are in the buffer.\<close>

definition header_read :: "string \<Rightarrow> string \<Rightarrow> nat \<Rightarrow> process_data \<Rightarrow> bool" where
  "header_read hdr r k d \<longleftrightarrow> length hdr = 256 \<and> fp d = drop k hdr @ r \<and> take k (original_filename d) = take k hdr \<and>
     k \<le> length (original_filename d)"

lemma fread_header:
  assumes "header_read hdr r k d" and "k + n \<le> 256" and "k + n \<le> length (original_filename d)"
  shows "\<exists>b. fread k n d = (n, d\<lparr>fp := drop (k + n) hdr @ r, original_filename := b\<rparr>) \<and>
    header_read hdr r (k + n) (d\<lparr>fp := drop (k + n) hdr @ r, original_filename := b\<rparr>) \<and>
    length b = length (original_filename d)"
proof -
  have t: "take n (fp d) = take n (drop k hdr)" "drop n (fp d) = drop (k + n) hdr @ r" "length (take n (drop k hdr)) = n"
    using assms by (simp_all add: header_read_def add.commute)
  then have "fread k n d = (n, d\<lparr>fp := drop (k + n) hdr @ r,
      original_filename := write_at k (take n (drop k hdr)) (original_filename d)\<rparr>)"
    by (simp add: fread_def)
  moreover have "take (k + n) (write_at k (take n (drop k hdr)) (original_filename d)) = take (k + n) hdr"
    using assms t(3) by (simp add: write_at_def header_read_def take_add)
  ultimately show ?thesis using assms t(3) by (auto simp: header_read_def write_at_def)
qed

lemma extend_header:
  assumes "header_read hdr r k d" and "n < 2 ^ 32"
  shows "\<exists>b. extend_buffer junk n 0 d = Ok (d\<lparr>original_filename := b\<rparr>) \<and>
    header_read hdr r k (d\<lparr>original_filename := b\<rparr>) \<and> n \<le> length b"
  using extend_buffer_small [of n 0 junk d] assms by (auto simp: header_read_def)

definition old_header :: "string \<Rightarrow> bool" where
  "old_header hdr \<longleftrightarrow> length hdr = 256 \<and> hdr ! 0 \<noteq> NUL \<and> hdr ! 1 \<noteq> NUL"

lemma nth_of_take: "take k xs = take k ys \<Longrightarrow> i < k \<Longrightarrow> xs ! i = ys ! i"
  by (metis nth_take)

lemma read_old_header:
  assumes o: "old_header hdr" and d: "header_read hdr r 2 d"
  shows "\<exists>b. read_header junk 2 d = Ok (Old_format, d\<lparr>fp := r, original_filename := b,
    bigram1 := map (\<lambda>i. hdr ! (2 * i)) [0..<128], bigram2 := map (\<lambda>i. hdr ! (2 * i + 1)) [0..<128]\<rparr>)"
proof -
  have len: "length LOCATEDB_MAGIC = 10" by (simp add: LOCATEDB_MAGIC_def)
  obtain b1 where 1: "extend_buffer junk 10 0 d = Ok (d\<lparr>original_filename := b1\<rparr>)"
    "header_read hdr r 2 (d\<lparr>original_filename := b1\<rparr>)" "10 \<le> length b1"
    using extend_header [OF d, of 10 junk] by auto
  obtain b2 where 2: "fread 2 8 (d\<lparr>original_filename := b1\<rparr>) = (8, d\<lparr>fp := drop 10 hdr @ r, original_filename := b2\<rparr>)"
    "header_read hdr r 10 (d\<lparr>fp := drop 10 hdr @ r, original_filename := b2\<rparr>)"
    using fread_header [OF 1(2), of 8] 1(3) by auto
  have "b2 ! 0 = hdr ! 0" using nth_of_take [of 10 b2 hdr 0] 2(2) by (simp add: header_read_def)
  moreover have "b2 ! 0 = NUL" if "take 10 b2 = LOCATEDB_MAGIC"
    using arg_cong [OF that, of "\<lambda>l. l ! 0"] by (simp add: LOCATEDB_MAGIC_def)
  ultimately have no: "\<not> looking_at_gnu_locatedb b2 10"
    using o by (auto simp: looking_at_gnu_locatedb_def len old_header_def)
  obtain b3 where 3: "extend_buffer junk 256 0 (d\<lparr>fp := drop 10 hdr @ r, original_filename := b2\<rparr>) =
      Ok (d\<lparr>fp := drop 10 hdr @ r, original_filename := b3\<rparr>)"
    "header_read hdr r 10 (d\<lparr>fp := drop 10 hdr @ r, original_filename := b3\<rparr>)" "256 \<le> length b3"
    using extend_header [OF 2(2), of 256 junk] by auto
  obtain b4 where 4: "fread 10 246 (d\<lparr>fp := drop 10 hdr @ r, original_filename := b3\<rparr>) =
      (246, d\<lparr>fp := r, original_filename := b4\<rparr>)"
    "header_read hdr r 256 (d\<lparr>fp := r, original_filename := b4\<rparr>)"
    using fread_header [OF 3(2), of 246] 3(3) o by (auto simp: old_header_def)
  have "b4 ! i = hdr ! i" if "i < 256" for i
    using nth_of_take [of 256 b4 hdr i] that 4(2) by (simp add: header_read_def)
  then have "map (\<lambda>i. b4 ! (2 * i)) [0..<128] = map (\<lambda>i. hdr ! (2 * i)) [0..<128]"
    "map (\<lambda>i. b4 ! (2 * i + 1)) [0..<128] = map (\<lambda>i. hdr ! (2 * i + 1)) [0..<128]" by simp_all
  then show ?thesis using 1(1) 2(1) no 3(1) 4(1)
    by (intro exI [of _ b4]) (simp add: read_header_def len)
qed

lemma search_old:
  assumes o: "old_header hdr" and n: "list_all old_name_ok names"
    and re: "regex opts \<Longrightarrow> \<forall>pat\<in>set argv. re_compiles e (regex_syntax opts) pat"
  shows "\<exists>d'. search_one_database e junk opts argv (hdr @ old_db (c_string hdr) [] 0 names) d = Ok (items_accepted d', d') \<and>
    search_result e opts argv names d d'"
proof -
  let ?r = "old_db (c_string hdr) [] 0 names"
  let ?s = "start_data junk (hdr @ ?r) d"
  have s0: "header_read hdr ?r 0 ?s" "2 \<le> length (original_filename ?s)"
    using o by (simp_all add: header_read_def start_data_def old_header_def)
  obtain b1 where 1: "fread 0 2 ?s = (2, ?s\<lparr>fp := drop 2 hdr @ ?r, original_filename := b1\<rparr>)"
    "header_read hdr ?r 2 (?s\<lparr>fp := drop 2 hdr @ ?r, original_filename := b1\<rparr>)"
    using fread_header [OF s0(1), of 2, unfolded add_0, OF _ s0(2)] by auto
  have "b1 ! 1 = hdr ! 1" using nth_of_take [of 2 b1 hdr 1] 1(2) by (simp add: header_read_def)
  then have no: "looking_at_slocate_locatedb b1 2 = None"
    using o by (simp add: looking_at_slocate_locatedb_def old_header_def)
  obtain b2 where 2: "read_header junk 2 (?s\<lparr>fp := drop 2 hdr @ ?r, original_filename := b1\<rparr>) =
      Ok (Old_format, ?s\<lparr>fp := ?r, original_filename := b2,
        bigram1 := map (\<lambda>i. hdr ! (2 * i)) [0..<128], bigram2 := map (\<lambda>i. hdr ! (2 * i + 1)) [0..<128]\<rparr>)"
    using read_old_header [OF o 1(2), of junk] by (auto simp: start_data_def)
  define d2 where "d2 = ?s\<lparr>fp := ?r, original_filename := b2,
        bigram1 := map (\<lambda>i. hdr ! (2 * i)) [0..<128], bigram2 := map (\<lambda>i. hdr ! (2 * i + 1)) [0..<128]\<rparr>"
  have "holds_old hdr (d3\<lparr>c := x\<rparr>) names" if "getc d2 = (x, d3)" for x d3
  proof -
    have coming: "coming (d3\<lparr>c := x\<rparr>) = ?r" using getc_coming [OF that] by (simp add: d2_def)
    have d3: "d3 = d2\<lparr>fp := fp d3\<rparr>" using that by (auto simp: getc_def split: list.splits)
    have "tables_of hdr (d3\<lparr>c := x\<rparr>)" "len d3 = 0" "count d3 = 0" "endian d3 \<noteq> GetwordEndianStateSwab"
      using o by (subst d3, simp add: d2_def start_data_def tables_of_def old_header_def)+
    with coming show ?thesis using n by (simp add: holds_old_def old_path_def)
  qed
  then obtain d' where "run_search e junk opts argv Old_format d2 = Ok (items_accepted d', d')"
    "search_result e opts argv names d2 d'"
    using old.run_search_finds [OF _ re] by blast
  moreover have "search_result e opts argv names d = search_result e opts argv names d2"
    by (rule search_result_cong) (simp_all add: d2_def start_data_def)
  ultimately show ?thesis using 1(1) no 2 by (auto simp: search_one_database_def d2_def start_data_def)
qed

end
