(* ===== verification/LocateSafe.thy ===== *)
theory LocateSafe
  imports LocateOk
begin

text \<open>
  What holds of a search in any file, also one that is no database: the names that are printed and
  counted passed the check of existence, and there are not more of them than the limit allows.
\<close>

definition grows :: "locate_env \<Rightarrow> locate_options \<Rightarrow> process_data \<Rightarrow> process_data \<Rightarrow> bool" where
  "grows e opts d d' \<longleftrightarrow>
     (\<exists>names. list_all (name_exists e opts) names \<and> items_accepted d' = items_accepted d + length names \<and>
        printed d' = printed d @ (if enable_print opts then map (Pair (print_quoted_filename opts)) names else []) \<and>
        statistics d' = (if stats opts then fold visit_stats names (statistics d) else statistics d) \<and>
        (use_limit opts \<and> items_accepted d < limit opts \<longrightarrow> items_accepted d' \<le> limit opts))"

definition same_results :: "process_data \<Rightarrow> process_data \<Rightarrow> bool" where
  "same_results d d' \<longleftrightarrow> items_accepted d' = items_accepted d \<and> printed d' = printed d \<and> statistics d' = statistics d"

lemma same_results_refl [simp]: "same_results d d"
  by (simp add: same_results_def)

lemma same_results_trans: "same_results a b \<Longrightarrow> same_results b d \<Longrightarrow> same_results a d"
  by (simp add: same_results_def)

lemma grows_refl: "same_results d d' \<Longrightarrow> grows e opts d d'"
  unfolding grows_def same_results_def by (intro exI [of _ "[]"]) simp

lemma grows_same: "same_results d d1 \<Longrightarrow> grows e opts d1 d' \<longleftrightarrow> grows e opts d d'"
  by (simp add: grows_def same_results_def)

lemma grows_accept:
  assumes "name_exists e opts (filename d)" and "grows e opts (accept_name opts d) d'"
    and "use_limit opts \<Longrightarrow> items_accepted d + 1 < limit opts"
  shows "grows e opts d d'"
proof -
  obtain names where n: "list_all (name_exists e opts) names"
    "items_accepted d' = items_accepted (accept_name opts d) + length names"
    "printed d' = printed (accept_name opts d) @
      (if enable_print opts then map (Pair (print_quoted_filename opts)) names else [])"
    "statistics d' = (if stats opts then fold visit_stats names (statistics (accept_name opts d))
      else statistics (accept_name opts d))"
    "use_limit opts \<and> items_accepted (accept_name opts d) < limit opts \<longrightarrow> items_accepted d' \<le> limit opts"
    using assms(2) unfolding grows_def by blast
  show ?thesis unfolding grows_def
    by (intro exI [of _ "filename d # names"]) (use n assms(1,3) in \<open>auto simp: accept_name_def\<close>)
qed

lemma grows_one: "name_exists e opts (filename d) \<Longrightarrow> grows e opts d (accept_name opts d)"
  unfolding grows_def by (intro exI [of _ "[filename d]"]) (auto simp: accept_name_def)

subsection \<open>One round\<close>

lemma getc_same: "getc d = (x, d') \<Longrightarrow> same_results d d'"
  by (auto simp: getc_def same_results_def split: list.splits)

lemma locate_read_str_same: "locate_read_str junk offs d = (n, d') \<Longrightarrow> same_results d d'"
  by (auto simp: locate_read_str_def same_results_def Let_def split: prod.splits if_splits)

lemma set_count_same: "same_results d (set_count d)"
  by (auto simp: set_count_def add_count_def same_results_def Let_def split: option.splits prod.splits)

lemma visit_locate02_rest_same:
  assumes "visit_locate02_rest junk d = Ok (r, d')"
  shows "same_results d d' \<and> r \<in> {VISIT_CONTINUE, VISIT_ABORT}"
proof -
  obtain n d1 where n: "locate_read_str junk (nat (count d)) d = (n, d1)" by fastforce
  obtain x d2 where g: "getc d1 = (x, d2)" by fastforce
  have "same_results d d2" using same_results_trans [OF locate_read_str_same [OF n] getc_same [OF g]] .
  then show ?thesis using assms n g locate_read_str_same [OF n]
    by (auto simp: visit_locate02_rest_def same_results_def Let_def split: if_splits)
qed

lemma extend_buffer_same: "extend_buffer junk a b d = Ok d' \<Longrightarrow> same_results d d'"
  by (auto simp: extend_buffer_def same_results_def split: if_splits)

lemma old_chars_same: "old_chars junk i cs d = Ok (j, d') \<Longrightarrow> same_results d d'"
proof (induction cs arbitrary: i d)
  case (Cons x cs)
  then show ?case
    by (fastforce simp: Let_def obind_eq_Ok same_results_def dest: extend_buffer_same split: if_splits)
qed (auto simp: same_results_def)

lemma old_offset_same: "old_offset x d = Ok d' \<Longrightarrow> same_results d d'"
  by (auto simp: old_offset_def same_results_def Let_def split: if_splits option.splits prod.splits)

lemma decoder_same:
  assumes "inspect e junk v d = Ok (r, d')" and "decoder v"
  shows "same_results d d' \<and> r \<in> {VISIT_CONTINUE, VISIT_ABORT}"
proof (cases v)
  case Visit_locate02_format
  then have "visit_locate02_rest junk (set_count d) = Ok (r, d')" using assms by (simp add: visit_locate02_format_split)
  then show ?thesis using visit_locate02_rest_same same_results_trans [OF set_count_same] by blast
next
  case Visit_old_format
  then show ?thesis using assms
    by (auto simp: visit_old_format_def obind_eq_Ok Let_def same_results_def split: option.splits
        dest!: old_offset_same old_chars_same extend_buffer_same)
qed (use assms in auto)

lemma inspect_pattern_same:
  "inspect e junk (pattern_visitor opts pat) d = Ok (r, d') \<Longrightarrow> d' = d \<and> r \<in> {VISIT_ACCEPTED, VISIT_REJECTED}"
  by (auto simp: pattern_visitor_def reads_name_def verdict_def split: if_splits)

lemma visit_patterns_same:
  "visit e junk (map (pattern_visitor opts) argv) f r d = Ok (r', d') \<Longrightarrow>
   d' = d \<and> r' \<in> {r, VISIT_ACCEPTED, VISIT_REJECTED}"
proof (induction argv arbitrary: r)
  case (Cons pat argv)
  show ?case
  proof (cases "flags f r")
    case True
    then obtain r1 where "r1 \<in> {VISIT_ACCEPTED, VISIT_REJECTED}" "visit e junk (map (pattern_visitor opts) argv) f r1 d = Ok (r', d')"
      using Cons.prems inspect_pattern_same [of e junk opts pat d] by (fastforce simp: obind_eq_Ok)
    then show ?thesis using Cons.IH by blast
  next
    case False
    then show ?thesis using Cons.prems by simp
  qed
qed simp

lemma visit_append:
  "visit e junk (vs @ ws) f r d = obind (visit e junk vs f r d) (\<lambda>(r, d). visit e junk ws f r d)"
proof (induction vs arbitrary: r d)
  case (Cons v vs)
  then show ?case by (cases "flags f r") (auto simp: obind_assoc split_def intro!: arg_cong [of _ _ "obind _"])
qed simp

lemma visit_filters_same:
  assumes "visit e junk (pattern_visitors opts argv) f r d = Ok (r', d')"
  shows "(\<exists>m. d' = d\<lparr>munged_filename := m\<rparr>) \<and> r' \<in> {r, VISIT_CONTINUE, VISIT_ACCEPTED, VISIT_REJECTED}"
proof (cases "basename_only opts \<and> flags f r")
  case True
  then show ?thesis using assms
    by (auto simp: pattern_visitors_def obind_eq_Ok reads_name_def split: if_splits dest!: visit_patterns_same)
next
  case False
  then have "d' = d \<and> r' \<in> {r, VISIT_ACCEPTED, VISIT_REJECTED}" using assms visit_patterns_same
    by (cases "basename_only opts") (auto simp: pattern_visitors_def)
  then show ?thesis by (auto intro!: exI [of _ "munged_filename d"])
qed

text \<open>The visitors past the patterns reject a name, or do everything that is to be done for it.\<close>

definition report :: "locate_options \<Rightarrow> visitor list" where
  "report opts = (if stats opts then [Visit_stats] else []) @
     (if enable_print opts then [Visit_justprint (print_quoted_filename opts)] else []) @
     [if use_limit opts then Visit_limit (limit opts) else Visit_count]"

lemma visit_report:
  assumes "visit e junk (report opts) f r d = Ok (r', d')"
    and "flags f r" and "flags f VISIT_CONTINUE"
  shows "d' = accept_name opts d \<and> r' = last_result opts d'"
  using assms
  by (cases "stats opts"; cases "enable_print opts"; cases "use_limit opts"; cases "NUL \<in> set (original_filename d)")
    (auto simp: report_def reads_name_def accept_name_def last_result_def Let_def)

lemma visit_past_cases:
  assumes v: "visit e junk (past_visitors opts) f r d = Ok (r', d')" and f: "flags f VISIT_CONTINUE" "\<not> flags f VISIT_REJECTED"
  shows "d' = d \<and> r' \<in> {r, VISIT_REJECTED} \<or>
    d' = accept_name opts d \<and> name_exists e opts (filename d) \<and> r' = last_result opts d'"
proof (cases "flags f r")
  case False
  then show ?thesis using v by simp
next
  case True
  show ?thesis
  proof (cases "check_existence opts = ACCEPT_EITHER")
    case either: True
    then show ?thesis using visit_report [OF _ True f(1)] v by (auto simp: past_visitors_def report_def [symmetric] name_exists_def)
  next
    case False
    define want where "want = (check_existence opts = ACCEPT_EXISTING)"
    have "past_visitors opts = Visit_existing want (follow_symlinks opts) # report opts"
      using False by (cases "check_existence opts") (simp_all add: past_visitors_def report_def want_def)
    moreover have "name_exists e opts (filename d) \<longleftrightarrow>
        (if follow_symlinks opts then stat_finds e (filename d) else lstat_finds e (filename d)) = want"
      using False by (cases "check_existence opts") (auto simp: name_exists_def want_def)
    ultimately show ?thesis using v True f visit_report [OF _ f(1) f(1)]
      by (cases "name_exists e opts (filename d)"; cases "NUL \<in> set (original_filename d)")
        (simp_all add: reads_name_def)
  qed
qed

text \<open>A round leaves the results alone, or adds one name.\<close>

lemma process_entry_cases:
  assumes "process_entry e junk opts argv fmt d = Ok (r, d')"
  shows "same_results d d' \<or>
    (\<exists>d1. same_results d d1 \<and> name_exists e opts (filename d1) \<and> d' = accept_name opts d1 \<and>
      (r = VISIT_ABORT \<or> last_result opts d' = VISIT_CONTINUE))"
proof -
  have filters: "same_results d d2 \<and> r2 \<in> {VISIT_CONTINUE, VISIT_ACCEPTED, VISIT_REJECTED, VISIT_ABORT}"
    if pr: "visit e junk (format_visitor fmt # pattern_visitors opts argv) f f d = Ok (r2, d2)" "flags f f" for f r2 d2
  proof -
    obtain r1 d1 where 1: "inspect e junk (format_visitor fmt) d = Ok (r1, d1)"
      "visit e junk (pattern_visitors opts argv) f r1 d1 = Ok (r2, d2)" using pr by (auto simp: obind_eq_Ok)
    have "same_results d d1" "r1 \<in> {VISIT_CONTINUE, VISIT_ABORT}" using decoder_same [OF 1(1)] by simp_all
    then show ?thesis using visit_filters_same [OF 1(2)] by (auto simp: same_results_def)
  qed
  have past: ?thesis if "visit e junk (past_visitors opts) f r2 d2 = Ok (r3, d')" "same_results d d2"
    "flags f VISIT_CONTINUE" "\<not> flags f VISIT_REJECTED" "r = VISIT_ABORT \<longleftrightarrow> r3 = VISIT_ABORT" for f r2 d2 r3
    using visit_past_cases [OF that(1,3,4)] that(2,5) by (auto simp: last_result_def split: if_splits)
  have two: ?thesis if "visit e junk (format_visitor fmt # pattern_visitors opts argv) f f d = Ok (r2, d2)" "flags f f"
    and pp: "process_past e junk (past_visitors opts) (r2, d2) = Ok (r, d')" for f r2 d2
  proof -
    note s = filters [OF that(1,2)]
    show ?thesis
    proof (cases "flags (if r2 = VISIT_CONTINUE then VISIT_REJECTED else r2) (VISIT_ABORT + VISIT_REJECTED)")
      case True
      then have "d' = d2" using that(3) by (simp add: process_past_def Let_def)
      then show ?thesis using s by simp
    next
      case False
      then obtain r3 where r3: "visit e junk (past_visitors opts) VISIT_CONTINUE VISIT_CONTINUE d2 = Ok (r3, d')"
        "r = (if r3 = VISIT_CONTINUE then VISIT_ACCEPTED else r3)"
        using pp by (auto simp: process_past_def Let_def obind_eq_Ok)
      show ?thesis by (rule past [OF r3(1)]) (use s r3(2) in auto)
    qed
  qed
  show ?thesis
  proof (cases "processor_of opts argv")
    case Process_simple
    then obtain r2 d2 where 1: "visit e junk (format_visitor fmt # pattern_visitors opts argv) 3 3 d = Ok (r2, d2)"
      "visit e junk (past_visitors opts) 3 r2 d2 = Ok (r, d')"
      using assms visit_append [of e junk "format_visitor fmt # pattern_visitors opts argv"]
      by (auto simp: process_entry_def run_processor_def process_eqs obind_eq_Ok simp del: visit.simps)
    show ?thesis by (rule past [OF 1(2)]) (use filters [OF 1(1)] in auto)
  next
    case Process_or
    then show ?thesis using assms two
      by (auto simp: process_entry_def run_processor_def process_eqs obind_eq_Ok simp del: visit.simps)
  next
    case Process_and
    then show ?thesis using assms two
      by (auto simp: process_entry_def run_processor_def process_eqs obind_eq_Ok simp del: visit.simps)
  qed
qed

lemma search_loop_grows: "search_loop e junk opts argv fmt d = Ok d' \<Longrightarrow> grows e opts d d'"
proof (induction e junk opts argv fmt d rule: search_loop.induct)
  case (1 e junk opts argv fmt d)
  show ?case
  proof (cases "c d = None")
    case True
    then show ?thesis using 1(2) by (subst (asm) search_loop.simps) (simp add: grows_refl)
  next
    case False
    obtain r d1 where p: "process_entry e junk opts argv fmt d = Ok (r, d1)"
      and l: "r = VISIT_ABORT \<and> d' = d1 \<or> r \<noteq> VISIT_ABORT \<and> search_loop e junk opts argv fmt d1 = Ok d'"
      using 1(2) False by (subst (asm) search_loop.simps) (auto simp: obind_eq_Ok split: if_splits)
    have rest: "grows e opts d1 d' \<and> (r = VISIT_ABORT \<longrightarrow> d' = d1)" using l 1(1) [OF False p refl] grows_refl by auto
    from process_entry_cases [OF p] show ?thesis
    proof
      assume "same_results d d1"
      then show ?thesis using rest grows_same by blast
    next
      assume "\<exists>d2. same_results d d2 \<and> name_exists e opts (filename d2) \<and> d1 = accept_name opts d2 \<and>
        (r = VISIT_ABORT \<or> last_result opts d1 = VISIT_CONTINUE)"
      then obtain d2 where d2: "same_results d d2" "name_exists e opts (filename d2)" "d1 = accept_name opts d2"
        "r = VISIT_ABORT \<or> last_result opts d1 = VISIT_CONTINUE" by blast
      have "grows e opts d2 d'"
      proof (cases "r = VISIT_ABORT")
        case True
        then show ?thesis using rest d2 grows_one by auto
      next
        case False
        then have "use_limit opts \<Longrightarrow> items_accepted d2 + 1 < limit opts"
          using d2 by (auto simp: last_result_def accept_name_def split: if_splits)
        then show ?thesis using grows_accept [OF d2(2)] rest d2(3) by blast
      qed
      then show ?thesis using grows_same [OF d2(1)] by blast
    qed
  qed
qed

subsection \<open>A database, and all databases\<close>

lemma fread_same: "fread off n d = (k, d') \<Longrightarrow> same_results d d'"
  by (auto simp: fread_def same_results_def)

lemma read_header_same:
  assumes "read_header junk n d = Ok (fmt, d')"
  shows "same_results d d'"
proof -
  obtain d1 where 1: "extend_buffer junk (length LOCATEDB_MAGIC) 0 d = Ok d1"
    using assms by (auto simp: read_header_def obind_eq_Ok)
  obtain k d2 where 2: "fread n (length LOCATEDB_MAGIC - n) d1 = (k, d2)" by fastforce
  have s2: "same_results d d2" using same_results_trans [OF extend_buffer_same [OF 1] fread_same [OF 2]] .
  show ?thesis
  proof (cases "looking_at_gnu_locatedb (original_filename d2) (n + k)")
    case True
    then show ?thesis using assms 1 2 s2 by (simp add: read_header_def)
  next
    case False
    obtain d3 where 3: "extend_buffer junk 256 0 d2 = Ok d3"
      using assms 1 2 False by (auto simp: read_header_def obind_eq_Ok Let_def)
    obtain m d4 where 4: "(if n + k < 256 then fread (n + k) (256 - (n + k)) d3 else (256 - (n + k), d3)) = (m, d4)" by fastforce
    have "same_results d3 d4" using 4 fread_same by (auto split: if_splits)
    then have "same_results d d4" using same_results_trans [OF s2 extend_buffer_same [OF 3]] same_results_trans by blast
    moreover have "same_results d4 d'" using assms 1 2 False 3 4
      by (auto simp: read_header_def same_results_def split: if_splits)
    ultimately show ?thesis by (rule same_results_trans)
  qed
qed

lemma run_search_grows:
  assumes "run_search e junk opts argv fmt d = Ok (n, d')"
  shows "grows e opts d d' \<and> n = items_accepted d'"
proof -
  obtain x d1 where g: "getc d = (x, d1)" by fastforce
  then have "search_loop e junk opts argv fmt (d1\<lparr>c := x\<rparr>) = Ok d'" "n = items_accepted d'"
    using assms by (auto simp: run_search_def obind_eq_Ok split: if_splits option.splits)
  moreover have "same_results d (d1\<lparr>c := x\<rparr>)" using getc_same [OF g] by (simp add: same_results_def)
  ultimately show ?thesis using search_loop_grows grows_same by blast
qed

text \<open>The options that are in force for a database.\<close>

definition options_for :: "locate_options \<Rightarrow> string \<Rightarrow> locate_options" where
  "options_for opts db =
     (case looking_at_slocate_locatedb db (length db) of
        Some (Suc k) \<Rightarrow> opts\<lparr>check_existence := ACCEPT_EXISTING\<rparr> | _ \<Rightarrow> opts)"

lemma fread_two:
  "fread 0 2 s = (n, d1) \<Longrightarrow>
   looking_at_slocate_locatedb (original_filename d1) n = looking_at_slocate_locatedb (fp s) (length (fp s)) \<and>
   same_results s d1"
proof -
  assume f: "fread 0 2 s = (n, d1)"
  have d1: "n = length (take 2 (fp s))" "original_filename d1 = take 2 (fp s) @ drop n (original_filename s)"
    "same_results s d1"
    using f by (auto simp: fread_def write_at_def same_results_def)
  show ?thesis
  proof (cases "length (fp s) < 2")
    case True
    then show ?thesis using d1 by (simp add: looking_at_slocate_locatedb_def)
  next
    case False
    then have "original_filename d1 ! 0 = fp s ! 0" "original_filename d1 ! 1 = fp s ! 1"
      using d1 by (simp_all add: nth_append)
    then show ?thesis using d1 False unfolding looking_at_slocate_locatedb_def by simp
  qed
qed

lemma slocate_header:
  assumes "fread 0 2 (start_data junk db d) = (n, d1)"
  shows "looking_at_slocate_locatedb (original_filename d1) n = looking_at_slocate_locatedb db (length db) \<and> same_results d d1"
  using fread_two [OF assms] by (simp add: start_data_def same_results_def)

lemma search_one_grows:
  assumes "search_one_database e junk opts argv db d = Ok (n, d')"
  shows "grows e (options_for opts db) d d' \<and> (n = 0 \<or> n = items_accepted d')"
proof -
  obtain k d1 where f: "fread 0 2 (start_data junk db d) = (k, d1)" by fastforce
  note h = slocate_header [OF f]
  show ?thesis
  proof (cases "looking_at_slocate_locatedb db (length db)")
    case None
    then obtain fmt d2 where "read_header junk k d1 = Ok (fmt, d2)" "run_search e junk opts argv fmt d2 = Ok (n, d')"
      using assms f h by (auto simp: search_one_database_def obind_eq_Ok)
    then have "same_results d d2" "grows e opts d2 d'" "n = items_accepted d'"
      using h read_header_same same_results_trans run_search_grows by blast+
    then show ?thesis using None grows_same by (auto simp: options_for_def)
  next
    case (Some level)
    have sl: "same_results d (d1\<lparr>slocatedb_format := True\<rparr>)" using h by (simp add: same_results_def)
    have "n = 0 \<and> same_results d d' \<or> run_search e junk (options_for opts db) argv Slocate (d1\<lparr>slocatedb_format := True\<rparr>) = Ok (n, d')"
      using assms f h Some by (auto simp: search_one_database_def options_for_def split: if_splits nat.splits)
    then show ?thesis using run_search_grows grows_same [OF sl] grows_refl by blast
  qed
qed

lemma options_for_same [simp]:
  "use_limit (options_for opts db) = use_limit opts" "limit (options_for opts db) = limit opts"
  "enable_print (options_for opts db) = enable_print opts"
  "print_quoted_filename (options_for opts db) = print_quoted_filename opts"
  "follow_symlinks (options_for opts db) = follow_symlinks opts" "stats (options_for opts db) = stats opts"
  by (auto simp: options_for_def split: option.splits nat.splits)

text \<open>What the loop over the databases keeps when there is a limit.\<close>

definition within_limit :: "locate_settings \<Rightarrow> locate_loop \<Rightarrow> bool" where
  "within_limit s l \<longleftrightarrow> items_accepted (searched l) \<le> limit (search s) \<and> found l \<le> items_accepted (searched l) \<and>
     length (printed (searched l)) \<le> items_accepted (searched l)"

lemma search_next_within:
  assumes "search_next e junk s argv db l = Ok l'" and "within_limit s l" and "use_limit (search s)"
    and "items_accepted (searched l) < limit (search s)"
  shows "within_limit s l'"
proof -
  obtain n d where 1: "search_one_database e junk (search s) argv db ((searched l)\<lparr>statistics := empty_statistics\<rparr>) = Ok (n, d)"
    "l' = l\<lparr>found := n, searched := d\<rparr>" using assms(1) by (auto simp: search_next_def obind_eq_Ok)
  have "grows e (options_for (search s) db) ((searched l)\<lparr>statistics := empty_statistics\<rparr>) d" "n = 0 \<or> n = items_accepted d"
    using search_one_grows [OF 1(1)] by simp_all
  then show ?thesis using 1(2) assms(2-) by (auto simp: grows_def within_limit_def split: if_splits)
qed

lemma next_database_same: "next_database w s l = (r, l') \<Longrightarrow> searched l' = searched l \<and> found l' = found l"
  by (auto simp: next_database_def Let_def split: prod.splits option.splits if_splits)

lemma search_databases_within:
  "search_databases e junk w s argv l = Ok (through, l') \<Longrightarrow> within_limit s l \<Longrightarrow> use_limit (search s) \<Longrightarrow> within_limit s l'"
proof (induction e junk w s argv l rule: search_databases.induct)
  case (1 e junk w s argv l)
  show ?case
  proof (cases "more_databases s l")
    case False
    then show ?thesis using 1 by (subst (asm) search_databases.simps) simp
  next
    case True
    obtain r l1 where n: "next_database w s l = (r, l1)" by fastforce
    have w1: "within_limit s l1" using next_database_same [OF n] 1(3) by (simp add: within_limit_def)
    show ?thesis
    proof (cases "\<exists>db. r = Inr (Some db)")
      case False
      then have "l' = l1" using 1(2) True n
        by (subst (asm) search_databases.simps) (auto split: sum.splits option.splits)
      then show ?thesis using w1 by simp
    next
      case db: True
      then obtain db where r: "r = Inr (Some db)" by blast
      obtain l2 where l2: "search_next e junk s argv db l1 = Ok l2" "search_databases e junk w s argv l2 = Ok (through, l')"
        using 1(2) True n r by (subst (asm) search_databases.simps) (auto simp: obind_eq_Ok)
      have "items_accepted (searched l1) < limit (search s)"
        using True 1(4) next_database_same [OF n] by (simp add: more_databases_def)
      then have "within_limit s l2" by (rule search_next_within [OF l2(1) w1 1(4)])
      then show ?thesis using 1(1) [OF _ n [symmetric] r refl l2(1)] l2(2) True 1(4) by blast
    qed
  qed
qed

end
