(* ===== verification/LocateTheorems.thy ===== *)
theory LocateTheorems
  imports LocateOld LocateSafe "HOL-Library.Code_Target_Nat"
begin

text \<open>
  What \<open>locate\<close> and the programs that write its databases do: the properties, with witnesses that run
  them on small databases.
\<close>

subsection \<open>An environment for the witnesses\<close>

text \<open>A file system that lacks one file, and pattern matchers that accept everything.\<close>

definition some_env :: locate_env where
  "some_env =
     \<lparr>stat_finds = (\<lambda>n. n \<noteq> ''/gone''), lstat_finds = (\<lambda>n. n \<noteq> ''/gone''), fnmatch = (\<lambda>f g n. True),
      strcasestr = (\<lambda>n p. True), re_compiles = (\<lambda>s p. True), re_search = (\<lambda>s p n. True)\<rparr>"

definition some_junk :: junk where
  "some_junk i = CHR ''x''"

definition no_data :: process_data where
  "no_data =
     \<lparr>c = None, itemcount = 0, count = 0, len = 0, original_filename = [], munged_filename = [], fp = [],
      slocatedb_format = False, endian = GetwordEndianStateInitial, bigram1 = [], bigram2 = [], items_accepted = 0,
      statistics = empty_statistics, printed = []\<rparr>"

definition some_files :: "(string \<times> string) list \<Rightarrow> locate_files" where
  "some_files dbs = \<lparr>LOCATE_DB = ''db'', opendb = map_of dbs, stdin = [], secure_db = None\<rparr>"

definition written :: "(unit, string) outcome \<Rightarrow> string" where
  "written r = (case r of Ok db \<Rightarrow> db | _ \<Rightarrow> [])"

abbreviation (input) NL :: char where "NL \<equiv> CHR 0x0A"

declare frcode_loop.simps [code] code_loop.simps [code] search_loop.simps [code] search_databases.simps [code]

subsection \<open>Databases are read back\<close>

text \<open>C12: \<open>locate\<close> finds in a database of \<open>frcode\<close> exactly the names that were given to it and that match: it prints
  them in their order, counts them and keeps statistics of them, and stops at the limit. The names have
  no delimiter, no null character and at most 32767 bytes.\<close>

theorem locate_finds_names:
  assumes "list_all name_ok names" and "list_all (\<lambda>n. delimiter \<notin> set n) names"
    and "regex opts \<Longrightarrow> \<forall>pat\<in>set argv. re_compiles e (regex_syntax opts) pat"
  shows "\<exists>db d'. frcode delimiter None (lines_of delimiter names) = Ok db \<and>
    search_one_database e junk opts argv db d = Ok (items_accepted d', d') \<and> search_result e opts argv names d d'"
  using frcode_front [OF assms(1,2)] search_front [OF assms(1,3)] by blast

theorem locate_finds_names_witness:
  "\<exists>db d'. frcode NL None (lines_of NL [''/a'', ''/b c'', ''/b'']) = Ok db \<and>
    search_one_database some_env some_junk default_options [''b''] db no_data = Ok (items_accepted d', d') \<and>
    search_result some_env default_options [''b''] [''/a'', ''/b c'', ''/b''] no_data d'"
  by (rule locate_finds_names) (auto simp: name_ok_def default_options_def)

text \<open>C17: The same holds of the old format, with any table of pairs that \<open>code\<close> is given, for names of printable
  characters that are at most 113 bytes long: there the guess of the byte order is right.\<close>

theorem locate_finds_old_names:
  assumes "file \<noteq> []" and "read_bigrams file ! 0 \<noteq> NUL" and "read_bigrams file ! 1 \<noteq> NUL"
    and "list_all old_name_ok names" and "regex opts \<Longrightarrow> \<forall>pat\<in>set argv. re_compiles e (regex_syntax opts) pat"
  shows "\<exists>db d'. code file (lines_of NL names) = Ok db \<and>
    search_one_database e junk opts argv db d = Ok (items_accepted d', d') \<and> search_result e opts argv names d d'"
proof -
  have "old_header (read_bigrams file)"
    using assms(2,3) by (simp add: old_header_def read_bigrams_def Let_def)
  then show ?thesis using code_old [OF assms(1,4)] search_old [OF _ assms(4,5)] by blast
qed

theorem locate_finds_old_names_witness:
  "\<exists>db d'. code ''/bab'' (lines_of NL [''/abab'', ''/abb'']) = Ok db \<and>
    search_one_database some_env some_junk default_options [] db no_data = Ok (items_accepted d', d') \<and>
    search_result some_env default_options [] [''/abab'', ''/abb''] no_data d'"
proof (rule locate_finds_old_names)
  show "read_bigrams ''/bab'' ! 0 \<noteq> NUL" "read_bigrams ''/bab'' ! 1 \<noteq> NUL" by code_simp+
  show "list_all old_name_ok [''/abab'', ''/abb'']" by code_simp
qed (simp_all add: default_options_def)

subsection \<open>Any file as a database\<close>






subsection \<open>What goes wrong\<close>

text \<open>The last name of a database that was cut short is shown with the end of the header that was in the same
  buffer before: nothing ends the name.\<close>

theorem truncated_name_runs_on:
  "dolocate some_env some_junk (some_files [(''x'', butlast (written (frcode NL None (lines_of NL [''/a'']))))])
     (Some ''x'') [] [''/''] no_data = Ok (0, None, [(True, ''/aOCATE02'')])"
  by code_simp

text \<open>In the format of slocate the second name is put together wrongly unless it extends the first, and so are
  those behind it: the decoder uses the length of the first name for the count that it read.\<close>

theorem slocate_second_name_wrong:
  "dolocate some_env some_junk
     (some_files [(''x'', written (frcode NL (Some 0) (lines_of NL [''/a'', ''/b'', ''/bc''])))])
     (Some ''x'') [] [''/''] no_data = Ok (0, None, [(True, ''/a''), (True, ''/ab''), (True, ''/abc'')])"
  by code_simp

text \<open>A database of slocate that is skipped at the end makes \<open>locate\<close> report that nothing was found, though it
  has printed names.\<close>

theorem found_names_forgotten:
  "dolocate some_env some_junk
     (some_files [(''x'', written (frcode NL None (lines_of NL [''/a'']))), (''y'', ''2'' @ [NUL])])
     (Some ''x:y'') [] [''/''] no_data = Ok (1, None, [(True, ''/a'')])"
  by code_simp

text \<open>The guess of the byte order is wrong for long names: when a name shares between 115 and 241 characters with the
  one before, all but at most 13 of that one, and the one before shared none, \<open>locate\<close> takes the count that
  \<open>code\<close> wrote for one of the other byte order and ends for want of memory.\<close>

theorem byte_order_mistaken:
  assumes "coming d = old_count (int k - count d) @ r" and "count d = 0" and "endian d = GetwordEndianStateInitial"
    and "115 \<le> k" and "k \<le> 241" and "int k \<le> len d" and "len d < int k + 14"
    and "length (original_filename d) < 2 ^ 62"
  shows "visit_old_format junk d = Exit Memory_exhausted"
proof -
  let ?v = "int k + 14"
  have c: "c d = Some (char_of (30 :: int))" and fp: "fp d = bytes_of_word (word_of_int ?v) @ r"
    using assms(1,2,4) by (cases "c d"; simp add: coming_def old_count_def)+
  have s: "sint (word_of_int ?v :: 32 word) = ?v" by (rule sint_word_small) (use assms in simp_all)
  have "bswap_32 (word_of_int ?v) = word_of_int (2 ^ 24 * ?v)" using assms by (intro bswap_byte) simp_all
  also have "(word_of_int (2 ^ 24 * ?v) :: 32 word) = word_of_int (2 ^ 24 * ?v - 2 ^ 32)"
    by (simp add: word_of_int_2p)
  finally have w: "sint (bswap_32 (word_of_int ?v)) = 2 ^ 24 * ?v - 2 ^ 32"
    by (simp only:) (rule sint_word_small, use assms in simp_all)
  define n where "n = 2 ^ 24 * ?v - 2 ^ 32 - 14"
  have n: "- (2 ^ 32) < n" "n < - 16" using assms by (simp_all add: n_def)
  have len: "length (bytes_of_word (word_of_int ?v)) = 4" by (simp add: bytes_of_word_def)
  have "byte_of (char_of (30 :: int)) = 30" unfolding byte_of_char by simp
  moreover have "\<not> n > INT_MAX" "\<not> n < - INT_MAX - 1" using assms by (simp_all add: n_def)
  ultimately have off: "old_offset (char_of (30 :: int)) d =
      Ok (d\<lparr>count := n, endian := GetwordEndianStateSwab, fp := r\<rparr>)"
    using assms s w fp len by (simp add: old_offset_def Let_def getword_def decode_value_def n_def)
  define i where "i = nat (n mod 2 ^ 64)"
  have "n mod 2 ^ 64 = (n + 2 ^ 64) mod 2 ^ 64" by (rule mod_add_self2 [symmetric])
  also have "\<dots> = n + 2 ^ 64" by (rule mod_pos_pos_trivial) (use n in simp_all)
  finally have "int i = n + 2 ^ 64" using n by (simp add: i_def)
  then have i: "i + 2 < 2 ^ 64" "i \<ge> 2 ^ 64 - 2 ^ 32" using n by simp_all
  have ext: "extend_buffer junk i m d' = Exit Memory_exhausted" if "length (original_filename d') < 2 ^ 62" "m \<le> 2" for m d'
    using i that by (simp add: extend_buffer_def)
  have "obind (old_chars junk i r d') (\<lambda>(i, d). obind (extend_buffer junk i 1 d) (f i)) = Exit Memory_exhausted"
    if "length (original_filename d') < 2 ^ 62" for d' and f :: "nat \<Rightarrow> process_data \<Rightarrow> (locate_error, nat \<times> process_data) outcome"
    using that by (cases r) (simp_all add: ext)
  then show ?thesis using assms(8) off by (simp add: visit_old_format_def c i_def Let_def)
qed

theorem byte_order_mistaken_witness:
  "visit_old_format some_junk (no_data\<lparr>len := 130, c := Some (char_of (30 :: int)),
     fp := bytes_of_word (word_of_int 144) @ ''b''\<rparr>) = Exit Memory_exhausted"
  by (rule byte_order_mistaken [where k = 130 and r = "''b''"]) (simp_all add: no_data_def coming_def old_count_def)

end
