(* ===== verification/Spec2Isabelle.thy ===== *)
theory Spec2Isabelle
  imports FindProgram FindPrimTheorems FindPrintf FindLaunchTheorems FdLeakOk XargsTheorems LocateTheorems
begin

text \<open>
  A model of GNU findutils: \<open>find\<close>, \<open>xargs\<close>, \<open>locate\<close> with the programs that write its databases, and the
  library they share.

  The parts and how they interact. \<open>find\<close> reads its options and turns the rest of the command line into a
  list of predicates (\<open>find/parser.c\<close>), the list into a tree which it optimises (\<open>find/tree.c\<close>), walks the
  hierarchy (\<open>find/ftsfind.c\<close>) and evaluates the tree on every file (\<open>find/util.c\<close>, \<open>find/pred.c\<close>). \<open>-exec\<close> and
  \<open>xargs\<close> build their command lines with \<open>lib/buildcmd.c\<close>. \<open>locate\<close> reads the databases that \<open>frcode\<close>,
  \<open>code\<close> and \<open>bigram\<close> write. A C function that may end the program or go wrong returns an \<open>outcome\<close>
  (\<open>Prelude\<close>): \<open>Ok\<close>, \<open>Exit\<close> for an error the user sees, \<open>Undef\<close> for a failed assertion, a null pointer or a
  write outside of a buffer, and \<open>Diverge\<close> for a loop that does not end.
\<close>

text \<open>
  The expressions of \<open>find\<close>.

  \<^item> \<open>FindDefs\<close> has the data of \<open>find/defs.h\<close>: the predicate node with its union \<open>args\<close>, kinds, precedences and
    costs, and \<open>ptree\<close> for the nodes linked by \<open>pred_left\<close> and \<open>pred_right\<close>.
  \<^item> \<open>FindParse\<close> (\<open>get_expr\<close>, \<open>scan_rest\<close>), \<open>FindOpt\<close> (the costs and \<open>opt_expr\<close>) and \<open>FindSwap\<close> (\<open>do_arm_swaps\<close> and
    the passes in order) are the rest of \<open>find/tree.c\<close>.
  \<^item> \<open>FindState\<close> is what is known about the current file (\<open>struct state\<close> and the \<open>stat\<close> functions of
    \<open>find/util.c\<close>), \<open>FindPred\<close> has one definition for each \<open>pred_\<close> function of \<open>find/pred.c\<close>, and \<open>FindEval\<close> is
    \<open>apply_predicate\<close>.
  \<^item> \<open>FindNormal\<close> shows that \<open>opt_expr\<close> succeeds and ends in a normal form, \<open>FindSame\<close> and \<open>FindFinish\<close> that the
    passes keep the meaning, under the locale \<open>predicate_effects\<close> (what a predicate observes, what the optimiser may
    exchange), which \<open>FindEffects\<close> interprets for the primaries; \<open>FindTheorems\<close> has the properties.
  \<^item> \<open>FindSharefile\<close> is \<open>find/sharefile.c\<close>, the table of files opened for output.
  \<^item> \<open>FindBuild\<close>, \<open>FindTimes\<close>, \<open>FindFormat\<close>, \<open>FindExec\<close> and \<open>FindPrimaries\<close> are the parsers of \<open>find/parser.c\<close>
    and \<open>build_expression_tree\<close>; \<open>FindNodes\<close>, \<open>FindExecOk\<close> and \<open>FindBuilt\<close> show that their nodes are well formed,
    \<open>FindCommand\<close> and \<open>FindPrimTheorems\<close> have the properties.
  \<^item> \<open>FindPrintf\<close> is the text of \<open>-printf\<close> (\<open>do_fprintf\<close>, \<open>format_date\<close>, \<open>ctime_format\<close>) with its properties.
\<close>

text \<open>
  Running \<open>find\<close>.

  \<^item> \<open>FindWalk\<close> is the loop over the entries of fts, with \<open>consider_visiting\<close>, \<open>visit\<close> and the starting points;
    \<open>FindTraverse\<close> is a recursive traversal as its specification, \<open>FindWalked\<close> the refinement and
    \<open>FindWalkTheorems\<close> the properties.
  \<^item> \<open>FindProgram\<close> is \<open>main\<close>: the defaults, the options before the starting points, the expression and the walk.
  \<^item> \<open>FindLaunch\<close> runs the commands of \<open>-exec\<close>, \<open>-execdir\<close> and their kin (\<open>launch\<close>, \<open>impl_pred_exec\<close>,
    \<open>complete_pending_execs\<close>, \<open>run_in_dir\<close>); \<open>FindLaunched\<close> interprets the locale \<open>exec_log\<close> for them, and
    \<open>FindLaunchTheorems\<close> has the properties. \<open>FindPred\<close> records these primaries as actions, in order; the two
    models meet in the argument of the node, which \<open>exec_node\<close> reads.

  \<open>xargs\<close> and command lines.

  \<^item> \<open>Buildcmd\<close> is \<open>lib/buildcmd.c\<close> with the command runner as a parameter; \<open>BuildcmdLog\<close> states its promises once in
    the locale \<open>exec_log\<close> (a runner that logs what it ran: the arguments are handed over in order, the limits
    hold, no write leaves the buffer), \<open>BuildcmdInsert\<close> relates \<open>bc_do_insert\<close> to a reference.
  \<^item> \<open>XargsInput\<close> (\<open>read_line\<close>, \<open>read_string\<close>), \<open>XargsProc\<close> (the child processes) and \<open>XargsMain\<close> are
    \<open>xargs/xargs.c\<close>. \<open>XargsRead\<close> describes the input formats, \<open>XargsTable\<close> and \<open>XargsProcOk\<close> the process table and the
    interpretation \<open>xargs\<close> of \<open>exec_log\<close>, \<open>XargsRun\<close>, \<open>XargsInsert\<close> and \<open>XargsSafe\<close> the whole program (with the locale
    \<open>exec_safe\<close>), \<open>XargsTheorems\<close> the properties. \<open>ChildStatus\<close> is the status word of \<open>waitpid\<close>.

  The library: \<open>CString\<close> and \<open>CNumber\<close> (strings in memory, \<open>strtol\<close>), \<open>LibUtil\<close> and \<open>LibTheorems\<close> (\<open>nextelem.c\<close>,
  \<open>extendbuf.c\<close>, \<open>safe-atoi.c\<close>, \<open>regextype.c\<close>, \<open>qmark.c\<close>, \<open>listfile.c\<close>), \<open>FdLeak\<close> and \<open>FdLeakOk\<close> (\<open>fdleak.c\<close>).

  \<open>locate\<close>.

  \<^item> \<open>LocateDb\<close> writes databases (\<open>frcode.c\<close>, \<open>code.c\<close>, \<open>bigram.c\<close>, \<open>word_io.c\<close>), \<open>LocateSearch\<close> has the decoders
    and visitors of \<open>locate.c\<close>, \<open>LocateRun\<close> \<open>search_one_database\<close> and \<open>LocateMain\<close> \<open>dolocate\<close>.
  \<^item> \<open>LocateOk\<close> states in the locale \<open>database\<close> what a format has to provide and proves what a search then finds;
    \<open>LocateFront\<close> and \<open>LocateOld\<close> interpret it for the current and the old format. \<open>LocateSafe\<close> is about any file,
    \<open>LocateTheorems\<close> has the properties.
\<close>

text \<open>
  Bounds and fuel.

  \<^item> Numbers have the width of the code where it matters: \<open>size_t\<close> in \<open>extendbuf\<close>, \<open>int\<close> in \<open>safe_atoi\<close> and in the counts
    of the databases. Floats and doubles are exact, or a parameter with an order (\<open>less_asym\<close>).
  \<^item> \<open>opt_expr\<close> and \<open>do_arm_swaps\<close> have fuel: the number of nodes and one more, and a bound on the swaps; \<open>FindNormal\<close> and
    \<open>FindFinish\<close> show that it suffices. The loop over the arguments has as much as there are arguments, and every
    round takes one. The loops over the process table have more than the limit of processes.
  \<^item> \<open>insert_loop\<close>, \<open>double_up\<close> and \<open>wait_loop\<close>, which may go on for ever, are partial functions; that they end, or
    for \<open>insert_loop\<close> when they do not, is proved. All other loops have a measure.

  What is not modelled.

  \<^item> \<open>find/find.c\<close>, the older traversal without fts, and \<open>find/fstype.c\<close>, which reads the mount table.
  \<^item> gnulib, fts among it: fts is a stream of entries that depends on the instructions it gets.
  \<^item> The text of \<open>-ls\<close>, the quoting of output on a terminal, warnings, debug output and the texts of messages;
    commands of \<open>-exec\<close> that run while the command line is still being read.
  \<^item> In \<open>xargs\<close>: signals outside of \<open>waitpid\<close>, failures of \<open>pipe\<close> and \<open>read\<close>, \<open>/dev/tty\<close>.
  \<^item> In \<open>locate\<close>: statistics, privileges, the age of a database; locales other than C and big-endian machines.
  \<^item> Assertions are on, and memory does not run out.
\<close>

end
